(* ===== verification/Roach_Prelude.thy ===== *)
theory Roach_Prelude
  imports Main "HOL-Library.AList"
begin

text \<open>
  What every component of the development shares: Go's errors as values, 64-bit integer
  arithmetic with its wrap-around written out, truncated division, and the way calls that leave
  the process (a SQL statement, a publish, a file copy) are modelled.

  A call that leaves the process can fail.  The development never fixes which calls fail: an
  \<open>env\<close> assigns an outcome to the n-th call, the state counts the calls made so far, and the
  theorems hold for every \<open>env\<close>.  A call is \<open>Done\<close>, or \<open>Refused\<close> (an error came back and
  nothing happened), or \<open>Lost\<close> (the call took effect, but an error came back, as when a
  connection breaks after a commit).
\<close>

named_theorems i64_simps \<open>wrap-around arithmetic on values known to be in range\<close>
named_theorems outcome_simps \<open>unfolding one external call\<close>

section \<open>Errors\<close>

datatype go_error =
    Err string
  | Wrap string go_error
  | Canceled
  | DeadlineExceeded
  | EOF

type_synonym 'a result = "go_error + 'a"

text \<open>\<open>err.Error()\<close>: \<open>fmt.Errorf("...: %w", err)\<close> prefixes the text of the wrapped error.\<close>

fun error_text :: "go_error \<Rightarrow> string" where
  "error_text (Err s) = s"
| "error_text (Wrap p e) = p @ '': '' @ error_text e"
| "error_text Canceled = ''context canceled''"
| "error_text DeadlineExceeded = ''context deadline exceeded''"
| "error_text EOF = ''EOF''"

section \<open>64-bit integers\<close>

text \<open>Go's \<open>int\<close> (on the 64-bit targets the services are built for) and \<open>int64\<close>.\<close>

abbreviation min_i64 :: int where "min_i64 \<equiv> - 9223372036854775808"
abbreviation max_i64 :: int where "max_i64 \<equiv> 9223372036854775807"

definition i64 :: "int \<Rightarrow> int" where
  "i64 x = (x + 9223372036854775808) mod 18446744073709551616 - 9223372036854775808"

definition in_i64 :: "int \<Rightarrow> bool" where
  "in_i64 x \<longleftrightarrow> min_i64 \<le> x \<and> x \<le> max_i64"

lemma i64_id [i64_simps]: "in_i64 x \<Longrightarrow> i64 x = x"
  by (simp add: i64_def in_i64_def)

lemma in_i64_i64 [simp]: "in_i64 (i64 x)"
proof -
  have "0 \<le> (x + 9223372036854775808) mod 18446744073709551616"
    and "(x + 9223372036854775808) mod 18446744073709551616 < 18446744073709551616"
    by simp_all
  then show ?thesis unfolding in_i64_def i64_def by linarith
qed

lemma in_i64_between: "min_i64 \<le> x \<Longrightarrow> x \<le> max_i64 \<Longrightarrow> in_i64 x"
  by (simp add: in_i64_def)

text \<open>Division and remainder truncate towards zero.\<close>

definition go_div :: "int \<Rightarrow> int \<Rightarrow> int" where
  "go_div a b = sgn a * sgn b * (\<bar>a\<bar> div \<bar>b\<bar>)"

definition go_mod :: "int \<Rightarrow> int \<Rightarrow> int" where
  "go_mod a b = a - b * go_div a b"

lemma go_div_nonneg [simp]: "0 \<le> a \<Longrightarrow> 0 < b \<Longrightarrow> go_div a b = a div b"
  by (cases "a = 0") (simp_all add: go_div_def)

lemma go_mod_nonneg [simp]: "0 \<le> a \<Longrightarrow> 0 < b \<Longrightarrow> go_mod a b = a mod b"
  by (simp add: go_mod_def minus_mult_div_eq_mod)

lemma go_div_mono:
  assumes "a \<le> a'" and b: "0 < b"
  shows "go_div a b \<le> go_div a' b"
proof -
  have neg: "go_div x b = - ((- x) div b)" if "x < 0" for x
    using that b by (simp add: go_div_def)
  consider "0 \<le> a" | "a < 0" "0 \<le> a'" | "a < 0" "a' < 0" by linarith
  then show ?thesis
  proof cases
    case 1
    with assms show ?thesis by (simp add: zdiv_mono1)
  next
    case 2
    then have "0 \<le> (- a) div b" using b by (simp add: pos_imp_zdiv_nonneg_iff)
    moreover have "0 \<le> a' div b" using 2 b by (simp add: pos_imp_zdiv_nonneg_iff)
    ultimately show ?thesis using 2 b by (simp add: neg)
  next
    case 3
    have "(- a') div b \<le> (- a) div b" using assms by (intro zdiv_mono1) auto
    with 3 show ?thesis by (simp add: neg)
  qed
qed

section \<open>Calls that leave the process\<close>

datatype outcome = Done | Refused go_error | Lost go_error

type_synonym env = "nat \<Rightarrow> outcome"

record 'd conn =
  db :: 'd
  calls :: nat

definition next_outcome :: "env \<Rightarrow> 'd conn \<Rightarrow> outcome \<times> 'd conn" where
  "next_outcome e c = (e (calls c), c\<lparr>calls := Suc (calls c)\<rparr>)"

text \<open>
  One statement that changes the remote state.  The statement itself may refuse (a constraint of
  the schema); otherwise the outcome decides whether its effect and its reply arrive.
\<close>

definition exec_stmt :: "env \<Rightarrow> ('d \<Rightarrow> 'd result) \<Rightarrow> 'd conn \<Rightarrow> go_error option \<times> 'd conn" where
  "exec_stmt e stmt c =
     (let (out, c1) = next_outcome e c in
      case out of
        Refused er \<Rightarrow> (Some er, c1)
      | Done \<Rightarrow> (case stmt (db c) of Inl er \<Rightarrow> (Some er, c1) | Inr d \<Rightarrow> (None, c1\<lparr>db := d\<rparr>))
      | Lost er \<Rightarrow> (case stmt (db c) of Inl er' \<Rightarrow> (Some er', c1) | Inr d \<Rightarrow> (Some er, c1\<lparr>db := d\<rparr>)))"

text \<open>A statement with a \<open>RETURNING\<close> clause: the row comes back with the reply.\<close>

definition exec_returning :: "env \<Rightarrow> ('d \<Rightarrow> ('a \<times> 'd) result) \<Rightarrow> 'd conn \<Rightarrow> 'a result \<times> 'd conn" where
  "exec_returning e stmt c =
     (let (out, c1) = next_outcome e c in
      case out of
        Refused er \<Rightarrow> (Inl er, c1)
      | Done \<Rightarrow> (case stmt (db c) of Inl er \<Rightarrow> (Inl er, c1) | Inr (x, d) \<Rightarrow> (Inr x, c1\<lparr>db := d\<rparr>))
      | Lost er \<Rightarrow> (case stmt (db c) of Inl er' \<Rightarrow> (Inl er', c1) | Inr (x, d) \<Rightarrow> (Inl er, c1\<lparr>db := d\<rparr>)))"

text \<open>One query: it reads the remote state and changes nothing.\<close>

definition query_stmt :: "env \<Rightarrow> ('d \<Rightarrow> 'a result) \<Rightarrow> 'd conn \<Rightarrow> 'a result \<times> 'd conn" where
  "query_stmt e q c =
     (let (out, c1) = next_outcome e c in
      case out of
        Done \<Rightarrow> (q (db c), c1)
      | Refused er \<Rightarrow> (Inl er, c1)
      | Lost er \<Rightarrow> (Inl er, c1))"

text \<open>The schedule in which nothing ever fails.\<close>

definition all_done :: env where
  "all_done = (\<lambda>_. Done)"

lemma next_outcome_db [simp]: "db (snd (next_outcome e c)) = db c"
  by (simp add: next_outcome_def)

lemma exec_stmt_cases:
  assumes "exec_stmt e stmt c = (r, c')"
  obtains (unchanged) er where "r = Some er" "db c' = db c"
    | (changed) d where "stmt (db c) = Inr d" "db c' = d"
  using assms
  by (auto simp: exec_stmt_def next_outcome_def split: outcome.splits sum.splits)

lemma exec_stmt_None:
  assumes "exec_stmt e stmt c = (None, c')"
  shows "stmt (db c) = Inr (db c')"
  using assms
  by (auto simp: exec_stmt_def next_outcome_def split: outcome.splits sum.splits)

lemma exec_stmt_inv:
  assumes "\<And>d'. stmt (db c) = Inr d' \<Longrightarrow> I d'" and "I (db c)"
  shows "I (db (snd (exec_stmt e stmt c)))"
  using assms
  by (auto simp: exec_stmt_def next_outcome_def split: outcome.splits sum.splits)

lemma exec_stmt_done [outcome_simps]:
  "exec_stmt all_done stmt c =
     (case stmt (db c) of
        Inl er \<Rightarrow> (Some er, c\<lparr>calls := Suc (calls c)\<rparr>)
      | Inr d \<Rightarrow> (None, c\<lparr>db := d, calls := Suc (calls c)\<rparr>))"
  by (simp add: exec_stmt_def next_outcome_def all_done_def split: sum.splits)

lemma exec_returning_inv:
  assumes "\<And>x d'. stmt (db c) = Inr (x, d') \<Longrightarrow> I d'" and "I (db c)"
  shows "I (db (snd (exec_returning e stmt c)))"
  using assms
  by (auto simp: exec_returning_def next_outcome_def split: outcome.splits sum.splits)

lemma exec_returning_Inr:
  assumes "exec_returning e stmt c = (Inr x, c')"
  shows "stmt (db c) = Inr (x, db c')"
  using assms
  by (auto simp: exec_returning_def next_outcome_def split: outcome.splits sum.splits)

lemma exec_returning_done [outcome_simps]:
  "exec_returning all_done stmt c =
     (case stmt (db c) of
        Inl er \<Rightarrow> (Inl er, c\<lparr>calls := Suc (calls c)\<rparr>)
      | Inr (x, d) \<Rightarrow> (Inr x, c\<lparr>db := d, calls := Suc (calls c)\<rparr>))"
  by (simp add: exec_returning_def next_outcome_def all_done_def split: sum.splits prod.splits)

lemma query_stmt_db [simp]: "db (snd (query_stmt e q c)) = db c"
  by (simp add: query_stmt_def next_outcome_def split: outcome.splits)

lemma query_stmt_Inr:
  assumes "query_stmt e q c = (Inr x, c')"
  shows "q (db c) = Inr x" and "db c' = db c"
  using assms
  by (auto simp: query_stmt_def next_outcome_def split: outcome.splits)

lemma query_stmt_done [outcome_simps]:
  "query_stmt all_done q c = (q (db c), c\<lparr>calls := Suc (calls c)\<rparr>)"
  by (simp add: query_stmt_def next_outcome_def all_done_def)

section \<open>Lists and maps\<close>

lemma fold_preserves:
  assumes "\<And>x s. x \<in> set xs \<Longrightarrow> P s \<Longrightarrow> P (f x s)" and "P s"
  shows "P (fold f xs s)"
  using assms by (induction xs arbitrary: s) auto

lemma map_of_update [simp]: "map_of (AList.update k v xs) = (map_of xs)(k \<mapsto> v)"
  by (rule update_conv')

text \<open>Insertion that keeps what is there: the effect of \<open>ON CONFLICT DO NOTHING\<close> on a map.\<close>

definition map_insert_new :: "'k \<Rightarrow> 'v \<Rightarrow> ('k \<rightharpoonup> 'v) \<Rightarrow> ('k \<rightharpoonup> 'v)" where
  "map_insert_new k v m = (case m k of None \<Rightarrow> m(k \<mapsto> v) | Some _ \<Rightarrow> m)"

lemma map_insert_new_apply:
  "map_insert_new k v m k' = (if k' = k \<and> m k = None then Some v else m k')"
  by (simp add: map_insert_new_def split: option.splits)

lemma map_insert_new_le: "m \<subseteq>\<^sub>m map_insert_new k v m"
  by (auto simp: map_le_def map_insert_new_apply)

lemma map_insert_new_present: "m k = Some w \<Longrightarrow> map_insert_new k v m = m"
  by (simp add: map_insert_new_def)

lemma dom_map_insert_new [simp]: "dom (map_insert_new k v m) = insert k (dom m)"
  by (auto simp: map_insert_new_def split: option.splits)

end
