(* ===== verification/Go_Strings.thy ===== *)
theory Go_Strings
  imports Roach_Prelude
begin

text \<open>
  The part of Go's packages \<open>strings\<close>, \<open>bytes\<close> and \<open>strconv\<close> that the services use.  A Go string
  is a list of bytes, here a list of \<open>char\<close>.  Case mapping and white space are those of ASCII:
  bytes of a multi-byte UTF-8 sequence are left as they are.
\<close>

named_theorems string_simps \<open>the string functions on concrete shapes\<close>

section \<open>Case, prefixes, suffixes\<close>

definition lower_char :: "char \<Rightarrow> char" where
  "lower_char c =
     (let n = (of_char c :: nat) in if 65 \<le> n \<and> n \<le> 90 then char_of (n + 32) else c)"

definition upper_char :: "char \<Rightarrow> char" where
  "upper_char c =
     (let n = (of_char c :: nat) in if 97 \<le> n \<and> n \<le> 122 then char_of (n - 32) else c)"

definition to_lower :: "string \<Rightarrow> string" where
  "to_lower s = map lower_char s"

definition to_upper :: "string \<Rightarrow> string" where
  "to_upper s = map upper_char s"

definition has_prefix :: "'a list \<Rightarrow> 'a list \<Rightarrow> bool" where
  "has_prefix s p \<longleftrightarrow> take (length p) s = p"

definition has_suffix :: "'a list \<Rightarrow> 'a list \<Rightarrow> bool" where
  "has_suffix s p \<longleftrightarrow> length p \<le> length s \<and> drop (length s - length p) s = p"

definition trim_suffix :: "'a list \<Rightarrow> 'a list \<Rightarrow> 'a list" where
  "trim_suffix s p = (if has_suffix s p then take (length s - length p) s else s)"

lemma lower_char_idem [simp]: "lower_char (lower_char c) = lower_char c"
proof -
  define n where "n = (of_char c :: nat)"
  have "(of_char (char_of (n + 32) :: char) :: nat) = n + 32" if "n \<le> 90"
    using that by (simp add: of_char_of)
  then show ?thesis by (auto simp: lower_char_def Let_def n_def)
qed

lemma to_lower_idem [simp]: "to_lower (to_lower s) = to_lower s"
  by (simp add: to_lower_def)

lemma length_to_lower [simp]: "length (to_lower s) = length s"
  by (simp add: to_lower_def)

lemma has_prefix_append [simp]: "has_prefix (p @ s) p"
  by (simp add: has_prefix_def)

lemma has_prefix_iff: "has_prefix s p \<longleftrightarrow> (\<exists>r. s = p @ r)"
  by (metis append_eq_conv_conj append_take_drop_id has_prefix_def)

lemma has_prefix_length: "has_prefix s p \<Longrightarrow> length p \<le> length s"
  by (auto simp: has_prefix_iff)

lemma has_suffix_append [simp]: "has_suffix (s @ p) p"
  by (simp add: has_suffix_def)

lemma has_suffix_iff: "has_suffix s p \<longleftrightarrow> (\<exists>r. s = r @ p)"
proof
  assume "has_suffix s p"
  then have "s = take (length s - length p) s @ p"
    by (metis append_take_drop_id has_suffix_def)
  then show "\<exists>r. s = r @ p" by blast
qed (auto simp: has_suffix_def)

lemma trim_suffix_append [simp]: "trim_suffix (s @ p) p = s"
  by (simp add: trim_suffix_def)

section \<open>Searching\<close>

text \<open>\<open>strings.Index\<close>, \<open>bytes.Index\<close>: the first position at which \<open>sub\<close> starts.\<close>

fun index_of :: "'a list \<Rightarrow> 'a list \<Rightarrow> nat option" where
  "index_of [] sub = (if sub = [] then Some 0 else None)"
| "index_of (x # xs) sub =
     (if has_prefix (x # xs) sub then Some 0 else map_option Suc (index_of xs sub))"

text \<open>\<open>bytes.LastIndex\<close>: the last position at which \<open>sub\<close> starts.\<close>

fun last_index_of :: "'a list \<Rightarrow> 'a list \<Rightarrow> nat option" where
  "last_index_of [] sub = (if sub = [] then Some 0 else None)"
| "last_index_of (x # xs) sub =
     (case last_index_of xs sub of
        Some i \<Rightarrow> Some (Suc i)
      | None \<Rightarrow> if has_prefix (x # xs) sub then Some 0 else None)"

definition contains_sub :: "'a list \<Rightarrow> 'a list \<Rightarrow> bool" where
  "contains_sub s sub \<longleftrightarrow> index_of s sub \<noteq> None"

lemma index_of_Some:
  "index_of s sub = Some i \<Longrightarrow> i + length sub \<le> length s \<and> has_prefix (drop i s) sub"
proof (induction s arbitrary: i)
  case Nil
  then show ?case by (auto simp: has_prefix_def split: if_splits)
next
  case (Cons x xs)
  show ?case
  proof (cases "has_prefix (x # xs) sub")
    case True
    with Cons.prems have "i = 0" by simp
    with True has_prefix_length[OF True] show ?thesis by simp
  next
    case False
    with Cons.prems obtain j where "index_of xs sub = Some j" "i = Suc j" by auto
    with Cons.IH[of j] show ?thesis by simp
  qed
qed

lemma index_of_least:
  "index_of s sub = Some i \<Longrightarrow> j < i \<Longrightarrow> \<not> has_prefix (drop j s) sub"
proof (induction s arbitrary: i j)
  case Nil
  then show ?case by (auto split: if_splits)
next
  case (Cons x xs)
  then show ?case by (cases j) (auto split: if_splits)
qed

lemma index_of_None:
  "index_of s sub = None \<longleftrightarrow> (\<forall>j \<le> length s. \<not> has_prefix (drop j s) sub)"
proof (induction s)
  case Nil
  then show ?case by (simp add: has_prefix_def)
next
  case (Cons x xs)
  have "(\<forall>j \<le> Suc (length xs). P j) \<longleftrightarrow> P 0 \<and> (\<forall>j \<le> length xs. P (Suc j))" for P
    by (metis Suc_le_mono le0 not0_implies_Suc)
  from this[of "\<lambda>j. \<not> has_prefix (drop j (x # xs)) sub"] Cons.IH show ?case by auto
qed

lemma contains_sub_iff: "contains_sub s sub \<longleftrightarrow> (\<exists>a b. s = a @ sub @ b)"
proof
  assume "contains_sub s sub"
  then obtain i where "index_of s sub = Some i" by (auto simp: contains_sub_def)
  then obtain r where "drop i s = sub @ r" using index_of_Some has_prefix_iff by metis
  then have "s = take i s @ sub @ r" by (metis append_take_drop_id)
  then show "\<exists>a b. s = a @ sub @ b" by blast
next
  assume "\<exists>a b. s = a @ sub @ b"
  then obtain a b where s: "s = a @ sub @ b" by blast
  then have "has_prefix (drop (length a) s) sub" and "length a \<le> length s" by simp_all
  then show "contains_sub s sub" by (metis contains_sub_def index_of_None)
qed

lemma last_index_of_Some:
  "last_index_of s sub = Some i \<Longrightarrow> i \<le> length s \<and> has_prefix (drop i s) sub"
proof (induction s arbitrary: i)
  case Nil
  then show ?case by (auto simp: has_prefix_def split: if_splits)
next
  case (Cons x xs)
  then show ?case by (cases "last_index_of xs sub") (auto split: if_splits)
qed

section \<open>Splitting, trimming, replacing\<close>

text \<open>\<open>strings.Split\<close> at a one-byte separator: at least one part, possibly empty parts.\<close>

fun split_on :: "char \<Rightarrow> string \<Rightarrow> string list" where
  "split_on c [] = [[]]"
| "split_on c (x # xs) =
     (if x = c then [] # split_on c xs
      else case split_on c xs of [] \<Rightarrow> [[x]] | p # ps \<Rightarrow> (x # p) # ps)"

text \<open>\<open>strings.SplitN(s, sep, 2)\<close> at a one-byte separator.\<close>

fun split_first :: "char \<Rightarrow> string \<Rightarrow> string list" where
  "split_first c [] = [[]]"
| "split_first c (x # xs) =
     (if x = c then [[], xs]
      else case split_first c xs of [] \<Rightarrow> [[x]] | p # ps \<Rightarrow> (x # p) # ps)"

definition is_space :: "char \<Rightarrow> bool" where
  "is_space c \<longleftrightarrow> c \<in> {CHR '' '', CHR 0x09, CHR 0x0A, CHR 0x0B, CHR 0x0C, CHR 0x0D}"

definition trim_space :: "string \<Rightarrow> string" where
  "trim_space s = rev (dropWhile is_space (rev (dropWhile is_space s)))"

text \<open>\<open>strings.TrimRight(s, "c")\<close> for a one-byte cutset.\<close>

definition trim_right :: "char \<Rightarrow> string \<Rightarrow> string" where
  "trim_right c s = rev (dropWhile (\<lambda>x. x = c) (rev s))"

text \<open>\<open>strings.ReplaceAll\<close> of one byte by another.\<close>

definition replace_char :: "char \<Rightarrow> char \<Rightarrow> string \<Rightarrow> string" where
  "replace_char old new s = map (\<lambda>c. if c = old then new else c) s"

text \<open>\<open>strings.Replace(s, old, new, 1)\<close>.\<close>

definition replace_first :: "string \<Rightarrow> string \<Rightarrow> string \<Rightarrow> string" where
  "replace_first s old new =
     (case index_of s old of
        None \<Rightarrow> s
      | Some i \<Rightarrow> take i s @ new @ drop (i + length old) s)"

lemma split_on_nonempty [simp]: "split_on c s \<noteq> []"
  by (induction s) (auto split: list.splits)

lemma split_first_length: "length (split_first c s) = (if c \<in> set s then 2 else 1)"
  by (induction s) (auto split: list.splits)

lemma split_first_append:
  "c \<notin> set a \<Longrightarrow> split_first c (a @ c # b) = [a, b]"
  by (induction a) auto

lemma split_first_notin: "c \<notin> set a \<Longrightarrow> split_first c a = [a]"
  by (induction a) auto

lemma set_trim_space: "set (trim_space s) \<subseteq> set s"
  by (auto simp: trim_space_def dest!: set_dropWhileD)

section \<open>strconv\<close>

definition digit_char :: "nat \<Rightarrow> char" where
  "digit_char d = char_of (48 + d)"

fun decimal :: "nat \<Rightarrow> string" where
  "decimal n = (if n < 10 then [digit_char n] else decimal (n div 10) @ [digit_char (n mod 10)])"

declare decimal.simps [simp del]

text \<open>\<open>strconv.Itoa\<close>, \<open>strconv.FormatInt(n, 10)\<close>, and \<open>%d\<close> in a format string.\<close>

definition itoa :: "int \<Rightarrow> string" where
  "itoa n = (if n < 0 then CHR ''-'' # decimal (nat (- n)) else decimal (nat n))"

lemma digit_chars:
  "digit_char 0 = CHR ''0''" "digit_char (Suc 0) = CHR ''1''" "digit_char 1 = CHR ''1''"
  "digit_char 2 = CHR ''2''" "digit_char 3 = CHR ''3''" "digit_char 4 = CHR ''4''"
  "digit_char 5 = CHR ''5''" "digit_char 6 = CHR ''6''" "digit_char 7 = CHR ''7''"
  "digit_char 8 = CHR ''8''" "digit_char 9 = CHR ''9''"
  by code_simp+

lemmas itoa_eval = itoa_def decimal.simps digit_chars

definition is_digit :: "char \<Rightarrow> bool" where
  "is_digit c \<longleftrightarrow> 48 \<le> (of_char c :: nat) \<and> (of_char c :: nat) \<le> 57"

definition digit_val :: "char \<Rightarrow> nat" where
  "digit_val c = of_char c - 48"

definition digits_value :: "string \<Rightarrow> nat" where
  "digits_value s = foldl (\<lambda>n c. 10 * n + digit_val c) 0 s"

text \<open>
  \<open>strconv.ParseInt(s, 10, 64)\<close> and \<open>strconv.Atoi\<close>: the value and the error.  A syntax error gives
  0; a number outside the range of 64 bits gives the nearest bound and an error, which callers that
  drop the error then use.
\<close>

definition parse_int :: "string \<Rightarrow> int \<times> go_error option" where
  "parse_int s =
     (let (neg, ds) = (case s of
                         [] \<Rightarrow> (False, [])
                       | c # r \<Rightarrow> if c = CHR ''-'' then (True, r)
                                 else if c = CHR ''+'' then (False, r) else (False, s))
      in if ds = [] \<or> \<not> list_all is_digit ds then (0, Some (Err ''invalid syntax''))
         else let v = (if neg then - int (digits_value ds) else int (digits_value ds)) in
           if max_i64 < v then (max_i64, Some (Err ''value out of range''))
           else if v < min_i64 then (min_i64, Some (Err ''value out of range''))
           else (v, None))"

lemma digit_char_digit:
  assumes "d < 10"
  shows "is_digit (digit_char d)" and "digit_val (digit_char d) = d"
  using assms by (simp_all add: is_digit_def digit_val_def digit_char_def of_char_of)

lemma decimal_digits: "list_all is_digit (decimal n)"
proof (induction n rule: decimal.induct)
  case (1 n)
  then show ?case by (subst decimal.simps) (auto simp: digit_char_digit)
qed

lemma decimal_nonempty [simp]: "decimal n \<noteq> []"
  by (subst decimal.simps) simp

lemma digits_value_decimal: "digits_value (decimal n) = n"
proof (induction n rule: decimal.induct)
  case (1 n)
  then show ?case
    by (subst decimal.simps) (auto simp: digits_value_def digit_char_digit)
qed

lemma hd_decimal_digit: "is_digit (hd (decimal n))"
  using decimal_digits[of n] by (cases "decimal n") auto

lemma decimal_not_sign: "decimal n = c # r \<Longrightarrow> c \<noteq> CHR ''-'' \<and> c \<noteq> CHR ''+''"
  using hd_decimal_digit[of n] by (auto simp: is_digit_def)

theorem parse_int_itoa: "in_i64 n \<Longrightarrow> parse_int (itoa n) = (n, None)"
proof (cases "n < 0")
  case True
  assume "in_i64 n"
  with True show ?thesis
    by (simp add: parse_int_def itoa_def decimal_digits digits_value_decimal in_i64_def)
next
  case False
  assume r: "in_i64 n"
  obtain c t where d: "decimal (nat n) = c # t" by (cases "decimal (nat n)") auto
  have "list_all is_digit (c # t)" and "digits_value (c # t) = nat n"
    using decimal_digits[of "nat n"] digits_value_decimal[of "nat n"] by (simp_all only: d)
  with False r d decimal_not_sign[OF d] show ?thesis
    by (simp add: parse_int_def itoa_def in_i64_def)
qed

lemma decimal_inj: "decimal m = decimal n \<Longrightarrow> m = n"
  by (metis digits_value_decimal)

lemma itoa_chars: "c \<in> set (itoa n) \<Longrightarrow> is_digit c \<or> c = CHR ''-''"
  using decimal_digits by (auto simp: itoa_def list_all_iff split: if_splits)

lemma itoa_no_colon [simp]: "CHR '':'' \<notin> set (itoa n)"
  using itoa_chars[of "CHR '':''" n] by (auto simp: is_digit_def)

lemma itoa_nonempty [simp]: "itoa n \<noteq> []"
  by (simp add: itoa_def)

lemma itoa_inj: "itoa m = itoa n \<Longrightarrow> m = n"
proof -
  assume eq: "itoa m = itoa n"
  have sign: "hd (itoa k) = CHR ''-'' \<longleftrightarrow> k < 0" for k
    using hd_decimal_digit[of "nat k"] by (auto simp: itoa_def is_digit_def)
  have "m < 0 \<longleftrightarrow> n < 0" using eq sign by metis
  with eq show "m = n"
    by (auto simp: itoa_def dest!: decimal_inj split: if_splits)
qed

text \<open>
  A key \<open>a:b\<close> determines its two parts when the part before the colon has no colon: the keys the
  services build with \<open>"%d:%d"\<close>, \<open>"%s:%d"\<close> and \<open>Itoa(x) + ":" + FormatInt(y)\<close>.
\<close>

lemma colon_key_inj:
  assumes "a @ CHR '':'' # b = a' @ CHR '':'' # b'"
    and "CHR '':'' \<notin> set a" and "CHR '':'' \<notin> set a'"
  shows "a = a' \<and> b = b'"
  using assms
proof (induction a arbitrary: a')
  case Nil
  then show ?case by (cases a') auto
next
  case (Cons x xs)
  then show ?case by (cases a') auto
qed

text \<open>When the second part is free of colons, the first may hold some.\<close>

lemma colon_key_inj_last:
  assumes "a @ CHR '':'' # b = a' @ CHR '':'' # b'"
    and "CHR '':'' \<notin> set b" and "CHR '':'' \<notin> set b'"
  shows "a = a' \<and> b = b'"
proof -
  have "rev b @ CHR '':'' # rev a = rev b' @ CHR '':'' # rev a'"
    using arg_cong[OF assms(1), of rev] by simp
  with assms(2,3) have "rev b = rev b' \<and> rev a = rev a'"
    by (intro colon_key_inj) auto
  then show ?thesis by simp
qed

end
