(* ===== verification/Go_Float.thy ===== *)
theory Go_Float
  imports Roach_Prelude Complex_Main
begin

text \<open>
  Go's \<open>float64\<close>.  A finite float64 is a rational number, and every arithmetic operation rounds its
  exact result to the nearest float64, ties to the even significand: \<open>f64\<close>.  The significand has 53
  bits and exponents below -1022 are subnormal.  Rounding to infinity (magnitudes of \<open>2 ^ 1024\<close> and
  more) is not modelled; no operation of the services gets near it.
\<close>

section \<open>Powers of two and binary exponents\<close>

definition pow2 :: "int \<Rightarrow> rat" where
  "pow2 k = (if 0 \<le> k then 2 ^ nat k else 1 / 2 ^ nat (- k))"

fun ilog2 :: "nat \<Rightarrow> nat" where
  "ilog2 n = (if n < 2 then 0 else Suc (ilog2 (n div 2)))"

declare ilog2.simps [simp del]

text \<open>The exponent \<open>e\<close> with \<open>2 ^ e \<le> x < 2 ^ (e + 1)\<close>, for a positive \<open>x\<close>.\<close>

definition binary_exp :: "rat \<Rightarrow> int" where
  "binary_exp x =
     (if 1 \<le> x then int (ilog2 (nat \<lfloor>x\<rfloor>))
      else let k = int (ilog2 (nat \<lfloor>1 / x\<rfloor>)) in if 1 / x = pow2 k then - k else - (k + 1))"

lemma pow2_pos [simp]: "0 < pow2 k"
  by (simp add: pow2_def)

lemma pow2_nonneg [simp]: "0 \<le> pow2 k"
  by (simp add: less_imp_le)

lemma pow2_0 [simp]: "pow2 0 = 1"
  by (simp add: pow2_def)

lemma pow2_of_nat: "pow2 (int n) = 2 ^ n"
  by (simp add: pow2_def)

lemma pow2_minus: "pow2 (- k) = 1 / pow2 k"
  by (cases "k = 0") (auto simp: pow2_def)

lemma pow2_Suc: "pow2 (k + 1) = 2 * pow2 k"
proof (cases "0 \<le> k")
  case True
  then show ?thesis by (simp add: pow2_def nat_add_distrib)
next
  case False
  then have "nat (- k) = Suc (nat (- k - 1))" by simp
  with False show ?thesis by (auto simp: pow2_def)
qed

lemma pow2_add_nat: "pow2 (k + int n) = pow2 k * 2 ^ n"
proof (induction n)
  case (Suc n)
  have "pow2 (k + int (Suc n)) = pow2 (k + int n + 1)" by (simp add: algebra_simps)
  with Suc show ?case by (simp add: pow2_Suc)
qed simp

lemma pow2_add: "pow2 (a + b) = pow2 a * pow2 b"
proof (cases "0 \<le> b")
  case True
  then show ?thesis using pow2_add_nat[of a "nat b"] by (simp add: pow2_def)
next
  case False
  have "pow2 a = pow2 (a + b + int (nat (- b)))" using False by simp
  also have "\<dots> = pow2 (a + b) * 2 ^ nat (- b)" by (rule pow2_add_nat)
  finally show ?thesis using False by (simp add: pow2_def)
qed

lemma pow2_mono: "a \<le> b \<Longrightarrow> pow2 a \<le> pow2 b"
proof -
  assume "a \<le> b"
  then have "pow2 b = pow2 a * 2 ^ nat (b - a)"
    using pow2_add_nat[of a "nat (b - a)"] by simp
  moreover have "(1 :: rat) \<le> 2 ^ nat (b - a)" by simp
  ultimately show ?thesis
    by (metis mult.right_neutral mult_left_mono pow2_nonneg)
qed

lemma ilog2_bounds: "0 < n \<Longrightarrow> 2 ^ ilog2 n \<le> n \<and> n < 2 ^ Suc (ilog2 n)"
proof (induction n rule: ilog2.induct)
  case (1 n)
  show ?case
  proof (cases "n < 2")
    case True
    with 1 show ?thesis by (auto simp: ilog2.simps[of n])
  next
    case False
    then have "2 ^ ilog2 (n div 2) \<le> n div 2 \<and> n div 2 < 2 ^ Suc (ilog2 (n div 2))"
      using 1 by simp
    with False show ?thesis by (auto simp: ilog2.simps[of n])
  qed
qed

lemma ilog2_floor:
  assumes "1 \<le> x"
  shows "pow2 (int (ilog2 (nat \<lfloor>x\<rfloor>))) \<le> x" and "x < pow2 (int (ilog2 (nat \<lfloor>x\<rfloor>)) + 1)"
proof -
  define n where "n = nat \<lfloor>x\<rfloor>"
  have n: "0 < n" "rat_of_nat n \<le> x" "x < rat_of_nat n + 1"
    using assms by (auto simp: n_def) linarith+
  from ilog2_bounds[OF n(1)] have "2 ^ ilog2 n \<le> n" and "Suc n \<le> 2 ^ Suc (ilog2 n)" by auto
  then have a: "(2 :: rat) ^ ilog2 n \<le> of_nat n" and b: "rat_of_nat n + 1 \<le> 2 ^ Suc (ilog2 n)"
    by (metis of_nat_le_iff of_nat_numeral of_nat_power,
        metis of_nat_Suc add.commute of_nat_le_iff of_nat_numeral of_nat_power)
  have p: "pow2 (int (ilog2 n) + 1) = 2 ^ Suc (ilog2 n)" by (simp add: pow2_Suc pow2_of_nat)
  show "pow2 (int (ilog2 (nat \<lfloor>x\<rfloor>))) \<le> x"
    using order_trans[OF a n(2)] by (simp add: n_def[symmetric] pow2_of_nat)
  show "x < pow2 (int (ilog2 (nat \<lfloor>x\<rfloor>)) + 1)"
    using b n(3) p by (simp add: n_def[symmetric])
qed

lemma binary_exp_bounds:
  assumes "0 < x"
  shows "pow2 (binary_exp x) \<le> x" and "x < pow2 (binary_exp x + 1)"
proof -
  have "pow2 (binary_exp x) \<le> x \<and> x < pow2 (binary_exp x + 1)"
  proof (cases "1 \<le> x")
    case True
    with ilog2_floor[OF True] show ?thesis by (simp add: binary_exp_def)
  next
    case False
    define k where "k = int (ilog2 (nat \<lfloor>1 / x\<rfloor>))"
    have "1 \<le> 1 / x" using assms False by simp
    then have k: "pow2 k \<le> 1 / x" "1 / x < pow2 (k + 1)"
      using ilog2_floor[of "1 / x"] by (auto simp: k_def)
    have "x \<le> pow2 (- k)" using k(1) assms by (simp add: pow2_minus field_simps)
    moreover have "1 / pow2 (k + 1) < x" using k(2) assms by (simp add: field_simps)
    ultimately have inv: "x \<le> pow2 (- k)" "pow2 (- (k + 1)) < x"
      unfolding pow2_minus[of "k + 1"] by simp_all
    have be: "binary_exp x = (if 1 / x = pow2 k then - k else - (k + 1))"
      using False by (simp add: binary_exp_def k_def Let_def)
    show ?thesis
    proof (cases "1 / x = pow2 k")
      case True
      then have "x * pow2 k = 1" using assms by (simp add: field_simps)
      then have x: "x = pow2 (- k)" unfolding pow2_minus
        by (metis nonzero_eq_divide_eq pow2_pos less_irrefl)
      have "binary_exp x = - k" using be True by simp
      then show ?thesis unfolding pow2_Suc using x pow2_pos[of "- k"] by simp
    next
      case neq: False
      then have "x \<noteq> pow2 (- k)" unfolding pow2_minus by auto
      moreover have "binary_exp x = - (k + 1)" using be neq by simp
      ultimately show ?thesis using inv by simp
    qed
  qed
  then show "pow2 (binary_exp x) \<le> x" and "x < pow2 (binary_exp x + 1)" by auto
qed

section \<open>Rounding\<close>

definition round_even :: "rat \<Rightarrow> int" where
  "round_even q =
     (let f = \<lfloor>q\<rfloor>; r = q - of_int f in
      if r < 1 / 2 then f
      else if 1 / 2 < r then f + 1
      else if even f then f else f + 1)"

definition ulp :: "rat \<Rightarrow> rat" where
  "ulp x = pow2 (max (binary_exp \<bar>x\<bar>) (- 1022) - 52)"

definition f64 :: "rat \<Rightarrow> rat" where
  "f64 x = (if x = 0 then 0 else of_int (round_even (x / ulp x)) * ulp x)"

lemma round_even_error: "\<bar>of_int (round_even q) - q\<bar> \<le> 1 / 2"
proof -
  define r where "r = q - of_int \<lfloor>q\<rfloor>"
  have r: "0 \<le> r" "r < 1" unfolding r_def by linarith+
  have q: "q = of_int \<lfloor>q\<rfloor> + r" by (simp add: r_def)
  show ?thesis
    using r q unfolding round_even_def Let_def r_def[symmetric]
    by auto
qed

lemma round_even_of_int [simp]: "round_even (of_int n) = n"
  by (simp add: round_even_def)

lemma round_even_nonneg: "0 \<le> q \<Longrightarrow> 0 \<le> round_even q"
  by (auto simp: round_even_def Let_def)

lemma ulp_pos [simp]: "0 < ulp x"
  by (simp add: ulp_def)

lemma ulp_nz [simp]: "ulp x \<noteq> 0"
  by (rule less_imp_neq [OF ulp_pos, symmetric])

lemma f64_error_ulp: "\<bar>f64 x - x\<bar> \<le> ulp x / 2"
proof (cases "x = 0")
  case True
  then show ?thesis by (simp add: f64_def less_imp_le)
next
  case False
  have "f64 x - x = (of_int (round_even (x / ulp x)) - x / ulp x) * ulp x"
    using False by (simp add: f64_def left_diff_distrib)
  then have "\<bar>f64 x - x\<bar> = \<bar>of_int (round_even (x / ulp x)) - x / ulp x\<bar> * ulp x"
    by (simp add: abs_mult abs_of_pos)
  also have "\<dots> \<le> 1 / 2 * ulp x"
    by (intro mult_right_mono round_even_error less_imp_le[OF ulp_pos])
  finally show ?thesis by simp
qed

lemma ulp_le: "x \<noteq> 0 \<Longrightarrow> ulp x \<le> max \<bar>x\<bar> (pow2 (- 1022)) * pow2 (- 52)"
proof -
  assume "x \<noteq> 0"
  then have "pow2 (binary_exp \<bar>x\<bar>) \<le> \<bar>x\<bar>" by (intro binary_exp_bounds) simp
  then have "pow2 (max (binary_exp \<bar>x\<bar>) (- 1022)) \<le> max \<bar>x\<bar> (pow2 (- 1022))"
    by (auto simp: max_def)
  moreover have "ulp x = pow2 (max (binary_exp \<bar>x\<bar>) (- 1022)) * pow2 (- 52)"
    unfolding ulp_def by (metis pow2_add uminus_add_conv_diff add.commute)
  ultimately show ?thesis by (simp add: mult_right_mono)
qed

text \<open>The unit roundoff of float64.\<close>

abbreviation roundoff :: rat where "roundoff \<equiv> pow2 (- 53)"

lemma f64_relative_error:
  assumes "pow2 (- 1022) \<le> \<bar>x\<bar>"
  shows "\<bar>f64 x - x\<bar> \<le> \<bar>x\<bar> * roundoff"
proof -
  have "x \<noteq> 0" using assms pow2_pos[of "- 1022"] by (metis abs_zero linorder_not_less)
  then have "ulp x \<le> \<bar>x\<bar> * pow2 (- 52)"
    using ulp_le[of x] unfolding max_absorb1[OF assms] by blast
  moreover have "pow2 (- 52) = 2 * roundoff" using pow2_Suc[of "- 53"] by simp
  ultimately have "ulp x / 2 \<le> \<bar>x\<bar> * roundoff" by simp
  then show ?thesis using f64_error_ulp[of x] by linarith
qed

lemma f64_0 [simp]: "f64 0 = 0"
  by (simp add: f64_def)

lemma f64_nonneg: "0 \<le> x \<Longrightarrow> 0 \<le> f64 x"
proof -
  assume "0 \<le> x"
  then have "0 \<le> round_even (x / ulp x)" by (intro round_even_nonneg divide_nonneg_pos) simp_all
  then show ?thesis by (simp add: f64_def less_imp_le)
qed

text \<open>Integers up to \<open>2 ^ 53\<close> are float64 values.\<close>

lemma f64_of_int:
  assumes "\<bar>n\<bar> \<le> 2 ^ 53"
  shows "f64 (of_int n) = of_int n"
proof (cases "n = 0")
  case False
  define x where "x = rat_of_int n"
  define e where "e = max (binary_exp \<bar>x\<bar>) (- 1022)"
  have pos: "0 < \<bar>x\<bar>" and one: "1 \<le> \<bar>x\<bar>"
    using False by (simp_all add: x_def flip: of_int_abs)
  have e0: "0 \<le> binary_exp \<bar>x\<bar>" using one by (simp add: binary_exp_def)
  then have ee: "e = binary_exp \<bar>x\<bar>" by (simp add: e_def)
  have le: "pow2 e \<le> \<bar>x\<bar>" using binary_exp_bounds[OF pos] ee by simp
  have xb: "\<bar>x\<bar> \<le> 2 ^ 53" using assms unfolding x_def by (metis of_int_abs of_int_le_iff of_int_numeral of_int_power)
  have "\<exists>m. x / ulp x = of_int m"
  proof (cases "e \<le> 52")
    case True
    have u: "ulp x = 1 / 2 ^ nat (52 - e)"
      using True by (auto simp: ulp_def e_def[symmetric] pow2_def)
    have "x / ulp x = of_int (n * 2 ^ nat (52 - e))" unfolding u by (simp add: x_def)
    then show ?thesis by blast
  next
    case big: False
    then have "pow2 53 \<le> pow2 e" by (intro pow2_mono) simp
    with le xb have ax: "\<bar>x\<bar> = 2 ^ 53" and pe: "pow2 e = 2 ^ 53" by (simp_all add: pow2_def)
    have "\<not> 54 \<le> e"
    proof
      assume "54 \<le> e"
      then have "pow2 54 \<le> pow2 e" by (rule pow2_mono)
      with pe show False by (simp add: pow2_def)
    qed
    with big have "e = 53" by simp
    then have "ulp x = 2" by (simp add: ulp_def e_def[symmetric] pow2_def)
    moreover have "x = of_int (2 ^ 53) \<or> x = of_int (- (2 ^ 53))"
      using ax by (auto simp: abs_if split: if_splits)
    then have "x / 2 = of_int (2 ^ 52) \<or> x / 2 = of_int (- (2 ^ 52))" by auto
    ultimately show ?thesis by metis
  qed
  then obtain m where m: "x / ulp x = of_int m" by blast
  moreover have "x \<noteq> 0" using False by (simp add: x_def)
  ultimately have "f64 x = of_int m * ulp x" by (simp add: f64_def)
  also have "\<dots> = x" using m ulp_pos[of x] by (simp add: field_simps)
  finally show ?thesis by (simp add: x_def)
qed simp

section \<open>Conversion to integers\<close>

definition truncate_rat :: "rat \<Rightarrow> int" where
  "truncate_rat x = (if 0 \<le> x then \<lfloor>x\<rfloor> else \<lceil>x\<rceil>)"

text \<open>
  \<open>int(x)\<close> and \<open>int64(x)\<close> of a float64: truncation towards zero.  For a value outside the range Go
  leaves the result to the implementation; the one modelled is that of amd64, the smallest integer.
\<close>

definition int_of_float :: "rat \<Rightarrow> int" where
  "int_of_float x = (if in_i64 (truncate_rat x) then truncate_rat x else min_i64)"

lemma in_i64_int_of_float [simp]: "in_i64 (int_of_float x)"
  by (simp add: int_of_float_def in_i64_def)

lemma int_of_float_of_int: "in_i64 n \<Longrightarrow> int_of_float (of_int n) = n"
  by (simp add: int_of_float_def truncate_rat_def)

end
