(* ===== verification/Kafka_Json.thy ===== *)
theory Kafka_Json
  imports Go_Strings Go_Float
begin

text \<open>
  JSON values as \<open>encoding/json\<close> decodes them into \<open>interface{}\<close>, the type assertions the services
  apply to them, and Kafka messages.

  A Go map has no order of its own: ranging over it visits the keys in an unspecified order.  An
  object is a list of members here, and a loop over it follows the list; the theorems hold for
  every list, so for every order.  The decoder itself (\<open>json.Unmarshal\<close>) is a parameter
  \<open>unmarshal\<close> of the definitions that decode: \<open>None\<close> is a syntax error.
\<close>

section \<open>Values\<close>

datatype json =
    JNull
  | JBool bool
  | JNum rat
  | JStr string
  | JArr "json list"
  | JObj "(string \<times> json) list"

type_synonym json_map = "(string \<times> json) list"
type_synonym decoder = "string \<Rightarrow> json option"

text \<open>\<open>x, ok := v.(float64)\<close> and the like, on a map lookup that may miss.\<close>

fun as_num :: "json option \<Rightarrow> rat option" where
  "as_num (Some (JNum x)) = Some x"
| "as_num _ = None"

fun as_str :: "json option \<Rightarrow> string option" where
  "as_str (Some (JStr s)) = Some s"
| "as_str _ = None"

fun as_bool :: "json option \<Rightarrow> bool option" where
  "as_bool (Some (JBool b)) = Some b"
| "as_bool _ = None"

fun as_arr :: "json option \<Rightarrow> json list option" where
  "as_arr (Some (JArr xs)) = Some xs"
| "as_arr _ = None"

fun as_obj :: "json option \<Rightarrow> json_map option" where
  "as_obj (Some (JObj m)) = Some m"
| "as_obj _ = None"

text \<open>\<open>x, _ := v.(float64)\<close>: the zero value when the assertion fails.\<close>

definition num_or_zero :: "json_map \<Rightarrow> string \<Rightarrow> rat" where
  "num_or_zero m k = (case as_num (map_of m k) of Some x \<Rightarrow> x | None \<Rightarrow> 0)"

definition str_or_empty :: "json_map \<Rightarrow> string \<Rightarrow> string" where
  "str_or_empty m k = (case as_str (map_of m k) of Some s \<Rightarrow> s | None \<Rightarrow> [])"

definition bool_or_false :: "json_map \<Rightarrow> string \<Rightarrow> bool" where
  "bool_or_false m k = (case as_bool (map_of m k) of Some b \<Rightarrow> b | None \<Rightarrow> False)"

text \<open>
  \<open>json.Unmarshal\<close> into a \<open>map[string]interface{}\<close>: an object, or \<open>null\<close>, which leaves the map nil.
\<close>

definition unmarshal_map :: "decoder \<Rightarrow> string \<Rightarrow> json_map option" where
  "unmarshal_map unmarshal s =
     (case unmarshal s of
        Some (JObj m) \<Rightarrow> Some m
      | Some JNull \<Rightarrow> Some []
      | _ \<Rightarrow> None)"

lemma as_num_Some [simp]: "as_num v = Some x \<longleftrightarrow> v = Some (JNum x)"
  by (cases v rule: as_num.cases) auto

lemma as_str_Some [simp]: "as_str v = Some s \<longleftrightarrow> v = Some (JStr s)"
  by (cases v rule: as_str.cases) auto

lemma as_arr_Some [simp]: "as_arr v = Some xs \<longleftrightarrow> v = Some (JArr xs)"
  by (cases v rule: as_arr.cases) auto

lemma as_obj_Some [simp]: "as_obj v = Some m \<longleftrightarrow> v = Some (JObj m)"
  by (cases v rule: as_obj.cases) auto

section \<open>Messages\<close>

record message =
  m_topic :: string
  m_partition :: int
  m_offset :: int
  m_key :: string
  m_value :: string
  m_headers :: "(string \<times> string) list"

text \<open>The value of the last header with the key: what a loop that overwrites a variable ends with.\<close>

definition last_header :: "(string \<times> string) list \<Rightarrow> string \<Rightarrow> string option" where
  "last_header hs k = map_of (rev hs) k"

text \<open>The value of the first header with the key.\<close>

definition first_header :: "(string \<times> string) list \<Rightarrow> string \<Rightarrow> string option" where
  "first_header hs k = map_of hs k"

lemma last_header_snoc:
  "last_header (hs @ [(k', v)]) k = (if k = k' then Some v else last_header hs k)"
  by (auto simp: last_header_def)

end
