(* ===== verification/Wl_Database.thy ===== *)
theory Wl_Database
  imports Kafka_Json
begin

text \<open>
  The PostgreSQL tables of \<open>scripts/db/init/01-schema.sql\<close> (with migration 001) and the repositories
  of \<open>services/weatherlink-sql/repository\<close>, which issue every SQL statement of the two weather SQL
  services (\<open>weatherlink-sql-backfill/repository\<close> is the same code).

  A table is the list of its rows in insertion order, or a map from its primary key.  A statement is
  a function from the database to the new database or to the error of a violated constraint; the
  keys, the unique constraints and the foreign keys of the schema are checked.  Column widths and
  numeric ranges are not: a refusal for them is one of the outcomes an \<open>env\<close> may choose.  Columns the
  code never reads (\<open>created_at\<close>, \<open>updated_at\<close>) are left out.
\<close>

section \<open>Tables\<close>

record device_row =
  d_id :: int
  d_lsid :: int
  d_sensor_type :: int
  d_category :: string
  d_manufacturer :: string
  d_product_name :: string
  d_product_number :: string
  d_rain_collector_type :: "int option"
  d_active :: bool
  d_tx_id :: "int option"
  d_port_number :: "int option"
  d_parent_device_type :: string
  d_parent_device_name :: string
  d_parent_device_id :: "int option"
  d_parent_device_id_hex :: string
  d_station_id :: "int option"
  d_station_id_uuid :: "string option"
  d_station_name :: string
  d_latitude :: "rat option"
  d_longitude :: "rat option"
  d_elevation :: "rat option"
  d_created_date :: "int option"
  d_modified_date :: "int option"
  d_metadata :: json
  d_rt_data_structure_type :: "int option"

record tag_row =
  t_id :: int
  t_device_id :: int
  t_tag_name :: string
  t_data_type :: string
  t_unit :: "string option"
  t_description :: "string option"
  t_metadata :: "json option"

record catalog_row =
  c_sensor_type :: int
  c_data_structure_type :: string
  c_field_name :: string
  c_field_type :: string
  c_units :: string
  c_description :: string

record orphan_row =
  o_lsid :: int
  o_timestamp :: int
  o_tag_name :: string
  o_reason :: string
  o_headers :: "(string \<times> string) list"
  o_body :: json

type_synonym record_key = "int \<times> int" \<comment> \<open>the primary key (tag_id, ts)\<close>

record database =
  devices :: "device_row list"
  next_device_id :: int
  tags :: "tag_row list"
  next_tag_id :: int
  sensor_catalog :: "catalog_row list"
  records_numeric :: "record_key \<rightharpoonup> rat"
  records_text :: "record_key \<rightharpoonup> string"
  records_null :: "record_key \<rightharpoonup> unit"
  orphaned_messages :: "(string \<times> int \<times> int) \<rightharpoonup> orphan_row"

definition empty_database :: database where
  "empty_database =
     \<lparr>devices = [], next_device_id = 1, tags = [], next_tag_id = 1, sensor_catalog = [],
      records_numeric = Map.empty, records_text = Map.empty, records_null = Map.empty,
      orphaned_messages = Map.empty\<rparr>"

section \<open>Rows the repositories hand out: models/types.go\<close>

record Device =
  dv_ID :: int
  dv_LSID :: int
  dv_SensorType :: int
  dv_DataStructureType :: "int option"
  dv_Category :: string
  dv_Manufacturer :: string
  dv_ProductName :: string
  dv_CreatedDate :: "int option"
  dv_ModifiedDate :: "int option"

record Tag =
  tg_ID :: int
  tg_DeviceID :: int
  tg_TagName :: string
  tg_DataType :: string
  tg_Unit :: "string option"
  tg_Description :: "string option"

record FieldMetadata =
  fm_FieldName :: string
  fm_FieldType :: string
  fm_Units :: string
  fm_Description :: string
  fm_DataStructureType :: string
  fm_SensorType :: int
  fm_RawMetadata :: json_map

record TagEnrichmentInfo =
  te_TagID :: int
  te_DeviceID :: int
  te_TagName :: string
  te_SensorType :: int
  te_DataStructureType :: "int option"

section \<open>devices.go\<close>

definition intOrNil :: "rat \<Rightarrow> int option" where
  "intOrNil val = (if val = 0 then None else Some (int_of_float val))"

definition floatOrNil :: "rat \<Rightarrow> rat option" where
  "floatOrNil val = (if val = 0 then None else Some val)"

definition int64OrNil :: "rat \<Rightarrow> int option" where
  "int64OrNil val = (if val = 0 then None else Some (int_of_float val))"

definition stringOrNil :: "string \<Rightarrow> string option" where
  "stringOrNil val = (if val = [] then None else Some val)"

text \<open>The \<open>SELECT\<close> of \<open>LoadAll\<close>: the two dates are not selected, so they stay nil.\<close>

definition device_of_row :: "device_row \<Rightarrow> Device" where
  "device_of_row r =
     \<lparr>dv_ID = d_id r, dv_LSID = d_lsid r, dv_SensorType = d_sensor_type r,
      dv_DataStructureType = d_rt_data_structure_type r, dv_Category = d_category r,
      dv_Manufacturer = d_manufacturer r, dv_ProductName = d_product_name r,
      dv_CreatedDate = None, dv_ModifiedDate = None\<rparr>"

definition DeviceRepository_LoadAll :: "env \<Rightarrow> database conn \<Rightarrow> Device list result \<times> database conn" where
  "DeviceRepository_LoadAll e c =
     (case query_stmt e (\<lambda>D. Inr (map device_of_row (devices D))) c of
        (Inl er, c') \<Rightarrow> (Inl (Wrap ''failed to query devices'' er), c')
      | (Inr ds, c') \<Rightarrow> (Inr ds, c'))"

text \<open>The parameters of the \<open>INSERT\<close>, extracted from the decoded metadata.\<close>

definition upsert_row :: "json_map \<Rightarrow> rat \<Rightarrow> device_row" where
  "upsert_row metadata lsid =
     \<lparr>d_id = 0, d_lsid = int_of_float lsid,
      d_sensor_type = int_of_float (num_or_zero metadata ''sensor_type''),
      d_category = str_or_empty metadata ''category'',
      d_manufacturer = str_or_empty metadata ''manufacturer'',
      d_product_name = str_or_empty metadata ''product_name'',
      d_product_number = str_or_empty metadata ''product_number'',
      d_rain_collector_type = intOrNil (num_or_zero metadata ''rain_collector_type''),
      d_active = bool_or_false metadata ''active'',
      d_tx_id = intOrNil (num_or_zero metadata ''tx_id''),
      d_port_number = intOrNil (num_or_zero metadata ''port_number''),
      d_parent_device_type = str_or_empty metadata ''parent_device_type'',
      d_parent_device_name = str_or_empty metadata ''parent_device_name'',
      d_parent_device_id = intOrNil (num_or_zero metadata ''parent_device_id''),
      d_parent_device_id_hex = str_or_empty metadata ''parent_device_id_hex'',
      d_station_id = intOrNil (num_or_zero metadata ''station_id''),
      d_station_id_uuid = stringOrNil (str_or_empty metadata ''station_id_uuid''),
      d_station_name = str_or_empty metadata ''station_name'',
      d_latitude = floatOrNil (num_or_zero metadata ''latitude''),
      d_longitude = floatOrNil (num_or_zero metadata ''longitude''),
      d_elevation = floatOrNil (num_or_zero metadata ''elevation''),
      d_created_date = int64OrNil (num_or_zero metadata ''created_date''),
      d_modified_date = int64OrNil (num_or_zero metadata ''modified_date''),
      d_metadata = JObj metadata,
      d_rt_data_structure_type = None\<rparr>"

text \<open>
  \<open>INSERT ... ON CONFLICT (lsid) DO UPDATE\<close>: the conflicting row keeps its id and the one column the
  statement does not name, \<open>rt_data_structure_type\<close>.  The sequence advances in both cases.
\<close>

definition upsert_device :: "device_row \<Rightarrow> database \<Rightarrow> database result" where
  "upsert_device row D =
     (if d_lsid row \<in> d_lsid ` set (devices D)
      then Inr (D\<lparr>devices := map (\<lambda>r. if d_lsid r = d_lsid row
                                   then row\<lparr>d_id := d_id r,
                                            d_rt_data_structure_type := d_rt_data_structure_type r\<rparr>
                                   else r) (devices D),
                 next_device_id := next_device_id D + 1\<rparr>)
      else Inr (D\<lparr>devices := devices D @ [row\<lparr>d_id := next_device_id D,
                                              d_rt_data_structure_type := None\<rparr>],
                 next_device_id := next_device_id D + 1\<rparr>))"

definition DeviceRepository_Upsert ::
    "env \<Rightarrow> json_map \<Rightarrow> database conn \<Rightarrow> go_error option \<times> database conn" where
  "DeviceRepository_Upsert e metadata c =
     (case as_num (map_of metadata ''lsid'') of
        None \<Rightarrow> (Some (Err ''missing or invalid lsid in metadata''), c)
      | Some lsid \<Rightarrow> exec_stmt e (upsert_device (upsert_row metadata lsid)) c)"

definition update_rt_type :: "int \<Rightarrow> int \<Rightarrow> database \<Rightarrow> database result" where
  "update_rt_type lsid dst D =
     Inr (D\<lparr>devices := map (\<lambda>r. if d_lsid r = lsid then r\<lparr>d_rt_data_structure_type := Some dst\<rparr>
                                 else r) (devices D)\<rparr>)"

definition DeviceRepository_UpdateDataStructureType ::
    "env \<Rightarrow> int \<Rightarrow> int \<Rightarrow> database conn \<Rightarrow> go_error option \<times> database conn" where
  "DeviceRepository_UpdateDataStructureType e lsid dst c = exec_stmt e (update_rt_type lsid dst) c"

definition update_station :: "int \<Rightarrow> string \<Rightarrow> string \<Rightarrow> database \<Rightarrow> database result" where
  "update_station stationID stationName stationUUID D =
     Inr (D\<lparr>devices := map (\<lambda>r. if d_station_id r = Some stationID \<or> d_station_id r = None
                                 then r\<lparr>d_station_id := Some stationID,
                                        d_station_name := stationName,
                                        d_station_id_uuid := stringOrNil stationUUID\<rparr>
                                 else r) (devices D)\<rparr>)"

definition DeviceRepository_UpdateStationInfo ::
    "env \<Rightarrow> int \<Rightarrow> string \<Rightarrow> string \<Rightarrow> database conn \<Rightarrow> go_error option \<times> database conn" where
  "DeviceRepository_UpdateStationInfo e stationID stationName stationUUID c =
     exec_stmt e (update_station stationID stationName stationUUID) c"

section \<open>tags.go\<close>

text \<open>The \<open>SELECT\<close> of \<open>LoadAll\<close> reads four columns; unit and description stay nil.\<close>

definition tag_of_row :: "tag_row \<Rightarrow> Tag" where
  "tag_of_row r =
     \<lparr>tg_ID = t_id r, tg_DeviceID = t_device_id r, tg_TagName = t_tag_name r,
      tg_DataType = t_data_type r, tg_Unit = None, tg_Description = None\<rparr>"

definition TagRepository_LoadAll :: "env \<Rightarrow> database conn \<Rightarrow> Tag list result \<times> database conn" where
  "TagRepository_LoadAll e c =
     (case query_stmt e (\<lambda>D. Inr (map tag_of_row (tags D))) c of
        (Inl er, c') \<Rightarrow> (Inl (Wrap ''failed to query tags'' er), c')
      | (Inr ts, c') \<Rightarrow> (Inr ts, c'))"

definition coalesce :: "'a option \<Rightarrow> 'a option \<Rightarrow> 'a option" where
  "coalesce a b = (case a of Some x \<Rightarrow> Some x | None \<Rightarrow> b)"

definition upsert_tag ::
    "int \<Rightarrow> string \<Rightarrow> string \<Rightarrow> string option \<Rightarrow> string option \<Rightarrow> json option \<Rightarrow> database
     \<Rightarrow> (int \<times> database) result" where
  "upsert_tag dev name dt un desc meta D =
     (case find (\<lambda>r. t_device_id r = dev \<and> t_tag_name r = name) (tags D) of
        Some old \<Rightarrow>
          Inr (t_id old,
               D\<lparr>tags := map (\<lambda>r. if t_device_id r = dev \<and> t_tag_name r = name
                                   then r\<lparr>t_data_type := dt, t_unit := coalesce un (t_unit r),
                                          t_description := coalesce desc (t_description r),
                                          t_metadata := coalesce meta (t_metadata r)\<rparr>
                                   else r) (tags D),
                 next_tag_id := next_tag_id D + 1\<rparr>)
      | None \<Rightarrow>
          if dev \<notin> d_id ` set (devices D)
          then Inl (Err ''violates foreign key constraint tags_device_id_fkey'')
          else Inr (next_tag_id D,
                    D\<lparr>tags := tags D @ [\<lparr>t_id = next_tag_id D, t_device_id = dev, t_tag_name = name,
                                        t_data_type = dt, t_unit = un, t_description = desc,
                                        t_metadata = meta\<rparr>],
                      next_tag_id := next_tag_id D + 1\<rparr>))"

definition TagRepository_CreateOrUpdate ::
    "env \<Rightarrow> int \<Rightarrow> string \<Rightarrow> string \<Rightarrow> string option \<Rightarrow> string option \<Rightarrow> json_map
     \<Rightarrow> database conn \<Rightarrow> int result \<times> database conn" where
  "TagRepository_CreateOrUpdate e deviceID tagName dataType un desc metadata c =
     (let metadataJSON = (if metadata = [] then None else Some (JObj metadata)) in
      exec_returning e (upsert_tag deviceID tagName dataType un desc metadataJSON) c)"

definition TagRepository_Create ::
    "env \<Rightarrow> int \<Rightarrow> string \<Rightarrow> string \<Rightarrow> string option \<Rightarrow> string option \<Rightarrow> json_map
     \<Rightarrow> database conn \<Rightarrow> int result \<times> database conn" where
  "TagRepository_Create e deviceID tagName dataType un desc metadata c =
     TagRepository_CreateOrUpdate e deviceID tagName dataType un desc metadata c"

definition needs_enrichment :: "database \<Rightarrow> TagEnrichmentInfo list" where
  "needs_enrichment D =
     concat (map (\<lambda>t. map (\<lambda>d. \<lparr>te_TagID = t_id t, te_DeviceID = t_device_id t,
                                te_TagName = t_tag_name t, te_SensorType = d_sensor_type d,
                                te_DataStructureType = d_rt_data_structure_type d\<rparr>)
                       (filter (\<lambda>d. t_device_id t = d_id d \<and> d_rt_data_structure_type d \<noteq> None
                                    \<and> (t_unit t = None \<or> t_description t = None \<or> t_metadata t = None))
                               (devices D)))
              (tags D))"

definition TagRepository_FindTagsNeedingEnrichment ::
    "env \<Rightarrow> database conn \<Rightarrow> TagEnrichmentInfo list result \<times> database conn" where
  "TagRepository_FindTagsNeedingEnrichment e c =
     (case query_stmt e (\<lambda>D. Inr (needs_enrichment D)) c of
        (Inl er, c') \<Rightarrow> (Inl (Wrap ''failed to query tags for enrichment'' er), c')
      | (Inr ts, c') \<Rightarrow> (Inr ts, c'))"

definition enrich_tag :: "int \<Rightarrow> string \<Rightarrow> string \<Rightarrow> json \<Rightarrow> database \<Rightarrow> database result" where
  "enrich_tag tagID un desc metadata D =
     Inr (D\<lparr>tags := map (\<lambda>r. if t_id r = tagID
                               then r\<lparr>t_unit := coalesce (t_unit r) (Some un),
                                      t_description := coalesce (t_description r) (Some desc),
                                      t_metadata := coalesce (t_metadata r) (Some metadata)\<rparr>
                               else r) (tags D)\<rparr>)"

definition TagRepository_Enrich ::
    "env \<Rightarrow> int \<Rightarrow> string \<Rightarrow> string \<Rightarrow> json \<Rightarrow> database conn \<Rightarrow> go_error option \<times> database conn" where
  "TagRepository_Enrich e tagID un desc metadata c = exec_stmt e (enrich_tag tagID un desc metadata) c"

section \<open>records.go, and the insertion the batch writer shares\<close>

definition tag_ids :: "database \<Rightarrow> int set" where
  "tag_ids D = t_id ` set (tags D)"

text \<open>
  \<open>INSERT INTO records_* ... ON CONFLICT (tag_id, ts) DO NOTHING\<close> for a list of rows, on the table
  read by \<open>get\<close> and written by \<open>put\<close>.  A row whose key is taken, in the table or earlier in the list,
  is skipped; a row that goes in needs its tag.
\<close>

definition insert_new :: "(int \<times> 'v \<times> int) list \<Rightarrow> (record_key \<rightharpoonup> 'v) \<Rightarrow> (record_key \<rightharpoonup> 'v)" where
  "insert_new recs m = fold (\<lambda>(tag, v, ts). map_insert_new (tag, ts) v) recs m"

definition insert_records ::
    "(database \<Rightarrow> record_key \<rightharpoonup> 'v) \<Rightarrow> ((record_key \<rightharpoonup> 'v) \<Rightarrow> database \<Rightarrow> database)
     \<Rightarrow> (int \<times> 'v \<times> int) list \<Rightarrow> database \<Rightarrow> database result" where
  "insert_records get put recs D =
     (if list_all (\<lambda>(tag, v, ts). get D (tag, ts) \<noteq> None \<or> tag \<in> tag_ids D) recs
      then Inr (put (insert_new recs (get D)) D)
      else Inl (Err ''violates foreign key constraint''))"

definition insert_numeric :: "(int \<times> rat \<times> int) list \<Rightarrow> database \<Rightarrow> database result" where
  "insert_numeric = insert_records records_numeric (\<lambda>m D. D\<lparr>records_numeric := m\<rparr>)"

definition insert_text :: "(int \<times> string \<times> int) list \<Rightarrow> database \<Rightarrow> database result" where
  "insert_text = insert_records records_text (\<lambda>m D. D\<lparr>records_text := m\<rparr>)"

definition insert_null :: "(int \<times> unit \<times> int) list \<Rightarrow> database \<Rightarrow> database result" where
  "insert_null = insert_records records_null (\<lambda>m D. D\<lparr>records_null := m\<rparr>)"

definition RecordRepository_InsertNumeric ::
    "env \<Rightarrow> int \<Rightarrow> rat \<Rightarrow> int \<Rightarrow> database conn \<Rightarrow> go_error option \<times> database conn" where
  "RecordRepository_InsertNumeric e tagID val ts c = exec_stmt e (insert_numeric [(tagID, val, ts)]) c"

definition RecordRepository_InsertText ::
    "env \<Rightarrow> int \<Rightarrow> string \<Rightarrow> int \<Rightarrow> database conn \<Rightarrow> go_error option \<times> database conn" where
  "RecordRepository_InsertText e tagID val ts c = exec_stmt e (insert_text [(tagID, val, ts)]) c"

definition RecordRepository_InsertNull ::
    "env \<Rightarrow> int \<Rightarrow> int \<Rightarrow> database conn \<Rightarrow> go_error option \<times> database conn" where
  "RecordRepository_InsertNull e tagID ts c = exec_stmt e (insert_null [(tagID, (), ts)]) c"

text \<open>
  \<open>Insert\<close> dispatches on the tag's data type.  \<open>encoding/json\<close> decodes a number to \<open>float64\<close> only, so
  of the type switch only that case and the default remain.
\<close>

definition RecordRepository_Insert ::
    "env \<Rightarrow> Tag \<Rightarrow> json \<Rightarrow> int \<Rightarrow> database conn \<Rightarrow> go_error option \<times> database conn" where
  "RecordRepository_Insert e tag val ts c =
     (if val = JNull then RecordRepository_InsertNull e (tg_ID tag) ts c
      else if tg_DataType tag \<in> {''numeric'', ''float'', ''integer''} then
        (case val of
           JNum v \<Rightarrow> RecordRepository_InsertNumeric e (tg_ID tag) v ts c
         | _ \<Rightarrow> (Some (Err ''unsupported numeric type for value''), c))
      else if tg_DataType tag \<in> {''text'', ''string''} then
        (case val of
           JStr s \<Rightarrow> RecordRepository_InsertText e (tg_ID tag) s ts c
         | _ \<Rightarrow> (Some (Err ''expected string value''), c))
      else (Some (Wrap ''unknown data type'' (Err (tg_DataType tag))), c))"

section \<open>catalog.go\<close>

definition field_of_row :: "catalog_row \<Rightarrow> FieldMetadata" where
  "field_of_row r =
     \<lparr>fm_FieldName = c_field_name r, fm_FieldType = c_field_type r, fm_Units = c_units r,
      fm_Description = c_description r, fm_DataStructureType = c_data_structure_type r,
      fm_SensorType = c_sensor_type r, fm_RawMetadata = []\<rparr>"

text \<open>A failing query is taken for a missing table: no entries and no error.\<close>

definition CatalogRepository_LoadAll ::
    "env \<Rightarrow> database conn \<Rightarrow> FieldMetadata list option result \<times> database conn" where
  "CatalogRepository_LoadAll e c =
     (case query_stmt e (\<lambda>D. Inr (map field_of_row (sensor_catalog D))) c of
        (Inl _, c') \<Rightarrow> (Inr None, c')
      | (Inr fs, c') \<Rightarrow> (Inr (Some fs), c'))"

definition catalog_key :: "catalog_row \<Rightarrow> int \<times> string \<times> string" where
  "catalog_key r = (c_sensor_type r, c_data_structure_type r, c_field_name r)"

definition upsert_catalog :: "catalog_row \<Rightarrow> database \<Rightarrow> database result" where
  "upsert_catalog row D =
     (if catalog_key row \<in> catalog_key ` set (sensor_catalog D)
      then Inr (D\<lparr>sensor_catalog := map (\<lambda>r. if catalog_key r = catalog_key row then row else r)
                                        (sensor_catalog D)\<rparr>)
      else Inr (D\<lparr>sensor_catalog := sensor_catalog D @ [row]\<rparr>))"

definition CatalogRepository_Upsert ::
    "env \<Rightarrow> int \<Rightarrow> string \<Rightarrow> string \<Rightarrow> string \<Rightarrow> string \<Rightarrow> string \<Rightarrow> database conn
     \<Rightarrow> go_error option \<times> database conn" where
  "CatalogRepository_Upsert e sensorType dsType fieldName fieldType un desc c =
     (case exec_stmt e (upsert_catalog
             \<lparr>c_sensor_type = sensorType, c_data_structure_type = dsType, c_field_name = fieldName,
              c_field_type = fieldType, c_units = un, c_description = desc\<rparr>) c of
        (None, c') \<Rightarrow> (None, c')
      | (Some er, c') \<Rightarrow>
          (Some (Wrap (''failed to upsert catalog entry for '' @ itoa sensorType @ ''/'' @ dsType
                       @ ''/'' @ fieldName) er), c'))"

section \<open>orphans.go\<close>

text \<open>
  The column \<open>message_body\<close> is JSONB, so the statement refuses a body that is not JSON.  The headers
  go through a Go map: a later header with the same key overwrites an earlier one.
\<close>

definition save_orphan ::
    "decoder \<Rightarrow> message \<Rightarrow> int \<Rightarrow> int \<Rightarrow> string \<Rightarrow> string \<Rightarrow> database \<Rightarrow> database result" where
  "save_orphan unmarshal msg lsid ts tagName reason D =
     (case unmarshal (m_value msg) of
        None \<Rightarrow> Inl (Err ''invalid input syntax for type json'')
      | Some body \<Rightarrow>
          Inr (D\<lparr>orphaned_messages := (orphaned_messages D)
                   ((m_topic msg, m_partition msg, m_offset msg) \<mapsto>
                    \<lparr>o_lsid = lsid, o_timestamp = ts, o_tag_name = tagName, o_reason = reason,
                     o_headers = fold (\<lambda>(k, v). AList.update k v) (m_headers msg) [],
                     o_body = body\<rparr>)\<rparr>))"

definition OrphanRepository_Save ::
    "env \<Rightarrow> decoder \<Rightarrow> message \<Rightarrow> int \<Rightarrow> int \<Rightarrow> string \<Rightarrow> string \<Rightarrow> database conn
     \<Rightarrow> go_error option \<times> database conn" where
  "OrphanRepository_Save e unmarshal msg lsid ts tagName reason c =
     exec_stmt e (save_orphan unmarshal msg lsid ts tagName reason) c"

end
