(* ===== verification/Wl_Integrity.thy ===== *)
theory Wl_Integrity
  imports Wl_Database
begin

text \<open>
  What the statements of the repositories keep: the unique and foreign keys of the schema
  (\<open>db_wf\<close>), every record once written (\<open>records_le\<close>), and the column no statement the services
  issue ever fills.  \<open>repo_step\<close> is one statement taking effect; whatever a service does, its
  database is related to the initial one by \<open>repo_step\<close> repeated, and the locale \<open>db_invariant\<close>
  turns a fact about one statement into a fact about all of them.
\<close>

named_theorems repo_intros \<open>a repository call is a sequence of statements\<close>

section \<open>One statement\<close>

inductive repo_step :: "database \<Rightarrow> database \<Rightarrow> bool" where
  upsert_device: "upsert_device row D = Inr D' \<Longrightarrow> repo_step D D'"
| update_station: "update_station sid nm uuid D = Inr D' \<Longrightarrow> repo_step D D'"
| upsert_tag: "upsert_tag dev nm dt un desc meta D = Inr (i, D') \<Longrightarrow> repo_step D D'"
| enrich_tag: "enrich_tag tid un desc' meta' D = Inr D' \<Longrightarrow> repo_step D D'"
| upsert_catalog: "upsert_catalog crow D = Inr D' \<Longrightarrow> repo_step D D'"
| insert_numeric: "insert_numeric nrecs D = Inr D' \<Longrightarrow> repo_step D D'"
| insert_text: "insert_text trecs D = Inr D' \<Longrightarrow> repo_step D D'"
| insert_null: "insert_null zrecs D = Inr D' \<Longrightarrow> repo_step D D'"
| save_orphan: "save_orphan dec msg l ts nm reason D = Inr D' \<Longrightarrow> repo_step D D'"

abbreviation repo_steps :: "database \<Rightarrow> database \<Rightarrow> bool" where
  "repo_steps \<equiv> repo_step\<^sup>*\<^sup>*"

section \<open>The integrity of the schema\<close>

definition tag_key :: "tag_row \<Rightarrow> int \<times> string" where
  "tag_key r = (t_device_id r, t_tag_name r)"

definition device_ids :: "database \<Rightarrow> int set" where
  "device_ids D = d_id ` set (devices D)"

definition record_tags :: "database \<Rightarrow> int set" where
  "record_tags D = fst ` (dom (records_numeric D) \<union> dom (records_text D) \<union> dom (records_null D))"

definition db_wf :: "database \<Rightarrow> bool" where
  "db_wf D \<longleftrightarrow>
     distinct (map d_lsid (devices D)) \<and> distinct (map d_id (devices D))
     \<and> (\<forall>i \<in> device_ids D. i < next_device_id D)
     \<and> distinct (map tag_key (tags D)) \<and> distinct (map t_id (tags D))
     \<and> (\<forall>i \<in> tag_ids D. i < next_tag_id D)
     \<and> t_device_id ` set (tags D) \<subseteq> device_ids D
     \<and> distinct (map catalog_key (sensor_catalog D))
     \<and> record_tags D \<subseteq> tag_ids D"

definition records_le :: "database \<Rightarrow> database \<Rightarrow> bool" where
  "records_le D D' \<longleftrightarrow>
     records_numeric D \<subseteq>\<^sub>m records_numeric D' \<and> records_text D \<subseteq>\<^sub>m records_text D'
     \<and> records_null D \<subseteq>\<^sub>m records_null D'"

definition no_rt_type :: "database \<Rightarrow> bool" where
  "no_rt_type D \<longleftrightarrow> (\<forall>d \<in> set (devices D). d_rt_data_structure_type d = None)"

locale db_invariant =
  fixes I :: "database \<Rightarrow> bool"
  assumes statement: "repo_step D D' \<Longrightarrow> I D \<Longrightarrow> I D'"
begin

lemma statements: "repo_steps D D' \<Longrightarrow> I D \<Longrightarrow> I D'"
  by (induction rule: rtranclp_induct) (auto intro: statement)

end

lemma db_wf_empty: "db_wf empty_database"
  by (simp add: db_wf_def empty_database_def device_ids_def tag_ids_def record_tags_def)

subsection \<open>Each statement keeps the keys\<close>

lemma map_map_same:
  "(\<And>r. r \<in> set xs \<Longrightarrow> k (f r) = k r) \<Longrightarrow> map k (map f xs) = map k xs"
  by simp

lemma image_map_same:
  "(\<And>r. r \<in> set xs \<Longrightarrow> k (f r) = k r) \<Longrightarrow> k ` set (map f xs) = k ` set xs"
  by (auto simp: image_iff)

lemma update_devices_wf:
  assumes same: "\<And>r. r \<in> set (devices D) \<Longrightarrow> d_lsid (f r) = d_lsid r \<and> d_id (f r) = d_id r"
    and wf: "db_wf D" and n: "next_device_id D \<le> n"
  shows "db_wf (D\<lparr>devices := map f (devices D), next_device_id := n\<rparr>)"
    and "db_wf (D\<lparr>devices := map f (devices D)\<rparr>)"
proof -
  have "map d_lsid (map f (devices D)) = map d_lsid (devices D)"
    using same by (intro map_map_same) auto
  moreover have "map d_id (map f (devices D)) = map d_id (devices D)"
    using same by (intro map_map_same) auto
  moreover have "d_id ` set (map f (devices D)) = d_id ` set (devices D)"
    using same by (intro image_map_same) auto
  ultimately show "db_wf (D\<lparr>devices := map f (devices D), next_device_id := n\<rparr>)"
    and "db_wf (D\<lparr>devices := map f (devices D)\<rparr>)"
    using wf n
    by (force simp: db_wf_def device_ids_def tag_ids_def record_tags_def
             simp del: map_map set_map list.map_comp)+
qed

lemma update_tags_wf:
  assumes same: "\<And>r. r \<in> set (tags D) \<Longrightarrow> tag_key (f r) = tag_key r \<and> t_id (f r) = t_id r"
    and wf: "db_wf D" and n: "next_tag_id D \<le> n"
  shows "db_wf (D\<lparr>tags := map f (tags D), next_tag_id := n\<rparr>)"
    and "db_wf (D\<lparr>tags := map f (tags D)\<rparr>)"
proof -
  have dev: "\<And>r. r \<in> set (tags D) \<Longrightarrow> t_device_id (f r) = t_device_id r"
    using same by (auto simp: tag_key_def)
  have "map tag_key (map f (tags D)) = map tag_key (tags D)"
    using same by (intro map_map_same) auto
  moreover have "map t_id (map f (tags D)) = map t_id (tags D)"
    using same by (intro map_map_same) auto
  moreover have "t_id ` set (map f (tags D)) = t_id ` set (tags D)"
    using same by (intro image_map_same) auto
  moreover have "t_device_id ` set (map f (tags D)) = t_device_id ` set (tags D)"
    using dev by (rule image_map_same)
  ultimately show "db_wf (D\<lparr>tags := map f (tags D), next_tag_id := n\<rparr>)"
    and "db_wf (D\<lparr>tags := map f (tags D)\<rparr>)"
    using wf n
    by (force simp: db_wf_def device_ids_def tag_ids_def record_tags_def
             simp del: map_map set_map list.map_comp)+
qed

lemma upsert_device_wf:
  assumes "upsert_device row D = Inr D'" and wf: "db_wf D"
  shows "db_wf D'"
proof (cases "d_lsid row \<in> d_lsid ` set (devices D)")
  case True
  define f where "f r = (if d_lsid r = d_lsid row
    then row\<lparr>d_id := d_id r, d_rt_data_structure_type := d_rt_data_structure_type r\<rparr> else r)" for r
  have D': "D' = D\<lparr>devices := map f (devices D), next_device_id := next_device_id D + 1\<rparr>"
    using assms(1) True by (simp add: upsert_device_def f_def[abs_def])
  show ?thesis unfolding D' by (rule update_devices_wf) (auto simp: f_def wf)
next
  case False
  then have D': "D' = D\<lparr>devices := devices D @ [row\<lparr>d_id := next_device_id D,
                                                   d_rt_data_structure_type := None\<rparr>],
                        next_device_id := next_device_id D + 1\<rparr>"
    using assms(1) by (simp add: upsert_device_def)
  with wf False show ?thesis
    by (force simp: db_wf_def device_ids_def tag_ids_def record_tags_def)
qed

lemma upsert_tag_wf:
  assumes "upsert_tag dev nm dt un desc meta D = Inr (i, D')" and wf: "db_wf D"
  shows "db_wf D'" and "i \<in> tag_ids D'"
proof -
  have "db_wf D' \<and> i \<in> tag_ids D'"
  proof (cases "find (\<lambda>r. t_device_id r = dev \<and> t_tag_name r = nm) (tags D)")
    case None
    then have new: "\<And>r. r \<in> set (tags D) \<Longrightarrow> \<not> (t_device_id r = dev \<and> t_tag_name r = nm)"
      by (auto simp: find_None_iff)
    from None assms(1) have dev: "dev \<in> d_id ` set (devices D)" and i: "i = next_tag_id D"
      and D': "D' = D\<lparr>tags := tags D @ [\<lparr>t_id = next_tag_id D, t_device_id = dev, t_tag_name = nm,
                 t_data_type = dt, t_unit = un, t_description = desc, t_metadata = meta\<rparr>],
               next_tag_id := next_tag_id D + 1\<rparr>"
      by (auto simp: upsert_tag_def split: if_splits)
    have keys: "(dev, nm) \<notin> tag_key ` set (tags D)"
      using new by (auto simp: tag_key_def)
    have ids: "tag_ids D' = insert (next_tag_id D) (tag_ids D)"
      and recs: "record_tags D' = record_tags D" and devs: "device_ids D' = device_ids D"
      by (auto simp: D' tag_ids_def record_tags_def device_ids_def)
    have "next_tag_id D \<notin> t_id ` set (tags D)"
      using wf by (force simp: db_wf_def tag_ids_def)
    with wf keys dev have "db_wf D'"
      unfolding db_wf_def ids recs devs by (auto simp: D' tag_key_def device_ids_def)
    then show ?thesis by (simp add: ids i)
  next
    case (Some old)
    then have old: "old \<in> set (tags D)" by (auto simp: find_Some_iff)
    define f :: "tag_row \<Rightarrow> tag_row" where "f r = (if t_device_id r = dev \<and> t_tag_name r = nm
        then r\<lparr>t_data_type := dt, t_unit := coalesce un (t_unit r),
               t_description := coalesce desc (t_description r),
               t_metadata := coalesce meta (t_metadata r)\<rparr> else r)" for r
    from Some assms(1) have i: "i = t_id old"
      and D': "D' = D\<lparr>tags := map f (tags D), next_tag_id := next_tag_id D + 1\<rparr>"
      by (auto simp: upsert_tag_def f_def[abs_def])
    have "db_wf D'"
      unfolding D' by (rule update_tags_wf) (auto simp: f_def tag_key_def wf)
    moreover have "t_id (f old) = t_id old" by (simp add: f_def)
    then have "i \<in> tag_ids D'" using old unfolding D' i tag_ids_def by (force simp: image_iff)
    ultimately show ?thesis by blast
  qed
  then show "db_wf D'" and "i \<in> tag_ids D'" by auto
qed

lemma upsert_catalog_wf:
  assumes "upsert_catalog row D = Inr D'" and wf: "db_wf D"
  shows "db_wf D'"
proof (cases "catalog_key row \<in> catalog_key ` set (sensor_catalog D)")
  case True
  define f where "f r = (if catalog_key r = catalog_key row then row else r)" for r
  have D': "D' = D\<lparr>sensor_catalog := map f (sensor_catalog D)\<rparr>"
    using assms(1) True by (simp add: upsert_catalog_def f_def[abs_def])
  have "map catalog_key (map f (sensor_catalog D)) = map catalog_key (sensor_catalog D)"
    by (simp add: f_def)
  with wf show ?thesis
    by (simp add: db_wf_def D' device_ids_def tag_ids_def record_tags_def
             del: map_map list.map_comp)
next
  case False
  with assms(1) have D': "D' = D\<lparr>sensor_catalog := sensor_catalog D @ [row]\<rparr>"
    by (simp add: upsert_catalog_def)
  from False wf show ?thesis
    by (simp add: db_wf_def D' device_ids_def tag_ids_def record_tags_def)
qed

section \<open>Insertion into a record table\<close>

lemma insert_new_apply:
  "insert_new recs m k =
     (case m k of
        Some w \<Rightarrow> Some w
      | None \<Rightarrow> map_of (map (\<lambda>(tag, v, ts). ((tag, ts), v)) recs) k)"
proof (induction recs arbitrary: m)
  case Nil
  then show ?case by (simp add: insert_new_def split: option.splits)
next
  case (Cons r recs)
  obtain tag v ts where r: "r = (tag, v, ts)" by (cases r)
  have "insert_new (r # recs) m = insert_new recs (map_insert_new (tag, ts) v m)"
    by (simp add: insert_new_def r)
  then have "insert_new (r # recs) m k =
      (case map_insert_new (tag, ts) v m k of Some w \<Rightarrow> Some w
       | None \<Rightarrow> map_of (map (\<lambda>(tag, v, ts). ((tag, ts), v)) recs) k)"
    by (simp only: Cons)
  moreover have "map_insert_new (tag, ts) v m k =
      (if k = (tag, ts) \<and> m (tag, ts) = None then Some v else m k)"
    by (rule map_insert_new_apply)
  ultimately show ?case
    by (cases "m k"; cases "k = (tag, ts)") (simp_all add: r)
qed

lemma insert_new_le: "m \<subseteq>\<^sub>m insert_new recs m"
  by (auto simp: map_le_def insert_new_apply)

lemma dom_insert_new: "dom (insert_new recs m) = dom m \<union> (\<lambda>(tag, v, ts). (tag, ts)) ` set recs"
proof (induction recs arbitrary: m)
  case Nil
  then show ?case by (simp add: insert_new_def)
next
  case (Cons r recs)
  obtain tag v ts where r: "r = (tag, v, ts)" by (cases r)
  have "insert_new (r # recs) m = insert_new recs (map_insert_new (tag, ts) v m)"
    by (simp add: insert_new_def r)
  then show ?case by (simp add: Cons dom_map_insert_new r)
qed

lemma insert_new_append: "insert_new (xs @ ys) m = insert_new ys (insert_new xs m)"
  by (simp add: insert_new_def)

lemma insert_new_present:
  "(\<lambda>(tag, v, ts). (tag, ts)) ` set recs \<subseteq> dom m \<Longrightarrow> insert_new recs m = m"
proof (induction recs)
  case Nil
  then show ?case by (simp add: insert_new_def)
next
  case (Cons r recs)
  obtain tag v ts where r: "r = (tag, v, ts)" by (cases r)
  with Cons.prems obtain w where "m (tag, ts) = Some w" by auto
  then have "map_insert_new (tag, ts) v m = m" by (rule map_insert_new_present)
  with Cons r show ?case by (simp add: insert_new_def)
qed

lemma insert_new_again:
  assumes "set recs \<subseteq> set recs'"
  shows "insert_new recs (insert_new recs' m) = insert_new recs' m"
proof (rule insert_new_present)
  show "(\<lambda>(tag, v, ts). (tag, ts)) ` set recs \<subseteq> dom (insert_new recs' m)"
    unfolding dom_insert_new using assms by blast
qed

text \<open>
  The three record tables behind one interface: how a table is read and written.  What insertion
  keeps is proved once for it.
\<close>

locale record_table =
  fixes get :: "database \<Rightarrow> (record_key \<rightharpoonup> 'v)"
    and put :: "(record_key \<rightharpoonup> 'v) \<Rightarrow> database \<Rightarrow> database"
  assumes get_put [simp]: "get (put m D) = m"
    and put_get [simp]: "put (get D) D = D"
    and put_put [simp]: "put m (put m' D) = put m D"
    and tag_ids_put [simp]: "tag_ids (put m D) = tag_ids D"
    and wf_put: "db_wf D \<Longrightarrow> fst ` dom m \<subseteq> tag_ids D \<Longrightarrow> db_wf (put m D)"
    and wf_get: "db_wf D \<Longrightarrow> fst ` dom (get D) \<subseteq> tag_ids D"
    and le_put: "get D \<subseteq>\<^sub>m m \<Longrightarrow> records_le D (put m D)"
begin

abbreviation insert where "insert \<equiv> insert_records get put"

lemma insert_Inr:
  assumes "insert recs D = Inr D'"
  shows "D' = put (insert_new recs (get D)) D"
  using assms by (simp add: insert_records_def split: if_splits)

lemma insert_keys:
  assumes "insert recs D = Inr D'"
  shows "fst ` (\<lambda>(tag, v, ts). (tag, ts)) ` set recs \<subseteq> fst ` dom (get D) \<union> tag_ids D"
  using assms by (force simp: insert_records_def list_all_iff split: if_splits)

lemma insert_wf:
  assumes "insert recs D = Inr D'" and wf: "db_wf D"
  shows "db_wf D'"
proof -
  have "fst ` dom (insert_new recs (get D)) \<subseteq> tag_ids D"
    using insert_keys[OF assms(1)] wf_get[OF wf] by (simp add: dom_insert_new image_Un) blast
  with wf show ?thesis unfolding insert_Inr[OF assms(1)] by (rule wf_put)
qed

lemma insert_le:
  assumes "insert recs D = Inr D'"
  shows "records_le D D'"
  unfolding insert_Inr[OF assms] by (intro le_put insert_new_le)

lemma insert_succeeds:
  assumes "db_wf D" and "(\<lambda>(tag, v, ts). tag) ` set recs \<subseteq> tag_ids D"
  shows "insert recs D = Inr (put (insert_new recs (get D)) D)"
  using assms by (auto simp: insert_records_def list_all_iff)

text \<open>Delivering a batch a second time changes nothing: records are idempotent.\<close>

lemma insert_idem:
  assumes "insert recs D = Inr D'" and "set recs' \<subseteq> set recs"
  shows "insert recs' D' = Inr D'"
proof -
  have D': "D' = put (insert_new recs (get D)) D" by (rule insert_Inr[OF assms(1)])
  have "(tag, ts) \<in> dom (get D')" if "(tag, v, ts) \<in> set recs'" for tag v ts
    using that assms(2) unfolding D' get_put dom_insert_new by force
  then have "list_all (\<lambda>(tag, v, ts). get D' (tag, ts) \<noteq> None \<or> tag \<in> tag_ids D') recs'"
    by (auto simp: list_all_iff domIff)
  then have "insert recs' D' = Inr (put (insert_new recs' (get D')) D')"
    by (simp add: insert_records_def)
  also have "insert_new recs' (get D') = get D'"
    unfolding D' get_put by (rule insert_new_again[OF assms(2)])
  finally show ?thesis by simp
qed

end

interpretation num_tbl: record_table records_numeric "\<lambda>m D. D\<lparr>records_numeric := m\<rparr>"
  by unfold_locales
    (auto simp: db_wf_def device_ids_def tag_ids_def record_tags_def records_le_def image_Un)

interpretation txt_tbl: record_table records_text "\<lambda>m D. D\<lparr>records_text := m\<rparr>"
  by unfold_locales
    (auto simp: db_wf_def device_ids_def tag_ids_def record_tags_def records_le_def image_Un)

interpretation nul_tbl: record_table records_null "\<lambda>m D. D\<lparr>records_null := m\<rparr>"
  by unfold_locales
    (auto simp: db_wf_def device_ids_def tag_ids_def record_tags_def records_le_def image_Un)

lemmas insert_defs = insert_numeric_def insert_text_def insert_null_def
lemmas insert_wfs = num_tbl.insert_wf txt_tbl.insert_wf nul_tbl.insert_wf
lemmas insert_les = num_tbl.insert_le txt_tbl.insert_le nul_tbl.insert_le

section \<open>Every statement\<close>

lemma repo_step_wf: "repo_step D D' \<Longrightarrow> db_wf D \<Longrightarrow> db_wf D'"
proof (induction rule: repo_step.induct)
  case (upsert_device row D D')
  then show ?case by (rule upsert_device_wf)
next
  case (update_station sid nm uuid D D')
  then show ?case by (auto simp: update_station_def intro!: update_devices_wf(2))
next
  case (upsert_tag dev nm dt un desc meta D i D')
  then show ?case by (rule upsert_tag_wf)
next
  case (enrich_tag tid un desc' meta' D D')
  then show ?case
    by (auto simp: enrich_tag_def tag_key_def intro!: update_tags_wf(2))
next
  case (upsert_catalog crow D D')
  then show ?case by (rule upsert_catalog_wf)
next
  case (save_orphan dec msg l ts nm reason D D')
  then obtain m where "D' = D\<lparr>orphaned_messages := m\<rparr>"
    by (auto simp: save_orphan_def split: option.splits)
  with save_orphan.prems show ?case
    by (simp add: db_wf_def device_ids_def tag_ids_def record_tags_def)
qed (auto simp: insert_defs intro: insert_wfs)

lemma repo_step_records_le: "repo_step D D' \<Longrightarrow> records_le D D'"
proof (induction rule: repo_step.induct)
  case (upsert_tag dev nm dt un desc meta D i D')
  then show ?case
    by (auto simp: upsert_tag_def records_le_def split: option.splits if_splits)
next
  case (insert_numeric nrecs D D')
  then show ?case unfolding insert_defs by (rule num_tbl.insert_le)
next
  case (insert_text trecs D D')
  then show ?case unfolding insert_defs by (rule txt_tbl.insert_le)
next
  case (insert_null zrecs D D')
  then show ?case unfolding insert_defs by (rule nul_tbl.insert_le)
qed (auto simp: upsert_device_def update_station_def enrich_tag_def
       upsert_catalog_def save_orphan_def records_le_def split: if_splits option.splits)

lemma repo_step_no_rt_type: "repo_step D D' \<Longrightarrow> no_rt_type D \<Longrightarrow> no_rt_type D'"
proof (induction rule: repo_step.induct)
  case (upsert_tag dev nm dt un desc meta D i D')
  then show ?case
    by (auto simp: upsert_tag_def no_rt_type_def split: option.splits if_splits)
qed (auto simp: insert_defs insert_records_def upsert_device_def update_station_def enrich_tag_def
       upsert_catalog_def save_orphan_def no_rt_type_def split: if_splits option.splits)

lemma records_le_refl [simp]: "records_le D D"
  by (simp add: records_le_def)

lemma records_le_trans: "records_le A B \<Longrightarrow> records_le B C \<Longrightarrow> records_le A C"
  unfolding records_le_def by (meson map_le_trans)

interpretation wf: db_invariant db_wf
  by unfold_locales (rule repo_step_wf)

interpretation kept: db_invariant "records_le M" for M
  by unfold_locales (blast intro: records_le_trans repo_step_records_le)

interpretation rt: db_invariant no_rt_type
  by unfold_locales (rule repo_step_no_rt_type)

lemma repo_steps_records_le: "repo_steps D D' \<Longrightarrow> records_le D D'"
  by (rule kept.statements) auto

section \<open>Calls are sequences of statements\<close>

lemma exec_stmt_repo [repo_intros]:
  assumes "\<And>D D'. stmt D = Inr D' \<Longrightarrow> repo_step D D'"
  shows "repo_steps (db c) (db (snd (exec_stmt e stmt c)))"
  using assms by (intro exec_stmt_inv[where I = "repo_steps (db c)"]) auto

lemma exec_returning_repo [repo_intros]:
  assumes "\<And>D x D'. stmt D = Inr (x, D') \<Longrightarrow> repo_step D D'"
  shows "repo_steps (db c) (db (snd (exec_returning e stmt c)))"
  using assms by (intro exec_returning_inv[where I = "repo_steps (db c)"]) auto

lemma Upsert_repo [repo_intros]:
  "repo_steps (db c) (db (snd (DeviceRepository_Upsert e metadata c)))"
  by (auto simp: DeviceRepository_Upsert_def split: option.splits
           intro!: exec_stmt_repo repo_step.upsert_device)

lemma UpdateStationInfo_repo [repo_intros]:
  "repo_steps (db c) (db (snd (DeviceRepository_UpdateStationInfo e sid nm uuid c)))"
  unfolding DeviceRepository_UpdateStationInfo_def
  by (intro exec_stmt_repo repo_step.update_station)

lemma Create_repo [repo_intros]:
  "repo_steps (db c) (db (snd (TagRepository_Create e dev nm dt un desc m c)))"
  unfolding TagRepository_Create_def TagRepository_CreateOrUpdate_def Let_def
  by (intro exec_returning_repo repo_step.upsert_tag)

lemma Enrich_repo [repo_intros]:
  "repo_steps (db c) (db (snd (TagRepository_Enrich e tid un desc m c)))"
  unfolding TagRepository_Enrich_def by (intro exec_stmt_repo repo_step.enrich_tag)

lemma CatalogUpsert_repo [repo_intros]:
  "repo_steps (db c) (db (snd (CatalogRepository_Upsert e st ds fn ft un desc c)))"
proof -
  have "repo_steps (db c) (db (snd (exec_stmt e (upsert_catalog r) c)))" for r
    by (intro exec_stmt_repo repo_step.upsert_catalog)
  then show ?thesis
    by (auto simp: CatalogRepository_Upsert_def split: prod.splits option.splits dest!: snd_eqD)
      (metis snd_conv)+
qed

lemma Save_repo [repo_intros]:
  "repo_steps (db c) (db (snd (OrphanRepository_Save e dec msg l ts nm reason c)))"
  unfolding OrphanRepository_Save_def by (intro exec_stmt_repo repo_step.save_orphan)

lemma Insert_repo [repo_intros]:
  "repo_steps (db c) (db (snd (RecordRepository_Insert e tag v ts c)))"
proof -
  have "repo_steps (db c) (db (snd (RecordRepository_InsertNumeric e i x ts c)))"
    and "repo_steps (db c) (db (snd (RecordRepository_InsertText e i s ts c)))"
    and "repo_steps (db c) (db (snd (RecordRepository_InsertNull e i ts c)))" for i x s
    unfolding RecordRepository_InsertNumeric_def RecordRepository_InsertText_def
      RecordRepository_InsertNull_def
    by (intro exec_stmt_repo repo_step.insert_numeric repo_step.insert_text repo_step.insert_null;
        assumption)+
  then show ?thesis by (auto simp: RecordRepository_Insert_def split: json.splits)
qed

lemma case_sum_pair_db:
  "db (snd (case r of (Inl er, c') \<Rightarrow> (f er, c') | (Inr x, c') \<Rightarrow> (g x, c'))) = db (snd r)"
  by (cases r; cases "fst r") auto

lemma LoadAll_db [simp]:
  "db (snd (DeviceRepository_LoadAll e c)) = db c"
  "db (snd (TagRepository_LoadAll e c)) = db c"
  "db (snd (CatalogRepository_LoadAll e c)) = db c"
  "db (snd (TagRepository_FindTagsNeedingEnrichment e c)) = db c"
  unfolding DeviceRepository_LoadAll_def TagRepository_LoadAll_def CatalogRepository_LoadAll_def
    TagRepository_FindTagsNeedingEnrichment_def
  by (simp_all only: case_sum_pair_db query_stmt_db)

lemma needs_enrichment_empty: "no_rt_type D \<Longrightarrow> needs_enrichment D = []"
  by (simp add: needs_enrichment_def no_rt_type_def filter_empty_conv)

end
