(* ===== verification/Wl_Batch.thy ===== *)
theory Wl_Batch
  imports Wl_Integrity "HOL-Library.Multiset"
begin

text \<open>
  \<open>services/weatherlink-sql/repository/batch_writer.go\<close> (and its copy in \<open>weatherlink-sql-backfill\<close>):
  records are collected in three batches and written by COPY into a temporary table and an
  \<open>INSERT ... ON CONFLICT DO NOTHING\<close>.

  The three kinds of records have the same code, field for field; a \<open>lane\<close> is the pair of fields one
  kind has (\<open>numericBatch\<close> and \<open>totalNumericInserts\<close>, and so on) and the operations are instances of
  operations on a lane.  A flush releases the batch mutex while it talks to the database.  The
  functions here are a flush that nobody interrupts; \<open>lane_step\<close> at the end is the interleaved form:
  adding, taking the batch out and the end of the copy are separate steps of different goroutines.
  \<open>lastFlush\<close> is written and never read; it is left out.
\<close>

record 'v lane =
  pending :: "(int \<times> 'v \<times> int) list"
  inserts :: int

record BatchWriter =
  bw_numeric :: "rat lane"
  bw_text :: "string lane"
  bw_null :: "unit lane"
  bw_flushSize :: int
  bw_totalFlushes :: int

definition NewBatchWriter :: "int \<Rightarrow> BatchWriter" where
  "NewBatchWriter flushSize =
     \<lparr>bw_numeric = \<lparr>pending = [], inserts = 0\<rparr>, bw_text = \<lparr>pending = [], inserts = 0\<rparr>,
      bw_null = \<lparr>pending = [], inserts = 0\<rparr>, bw_flushSize = flushSize, bw_totalFlushes = 0\<rparr>"

section \<open>The copy: one transaction\<close>

text \<open>
  A call inside the transaction: an error, whether or not the server did the work, makes the function
  return, and the deferred \<open>Rollback\<close> discards it.
\<close>

definition tx_call :: "env \<Rightarrow> database conn \<Rightarrow> go_error option \<times> database conn" where
  "tx_call e c =
     (case next_outcome e c of
        (Done, c1) \<Rightarrow> (None, c1)
      | (Refused er, c1) \<Rightarrow> (Some er, c1)
      | (Lost er, c1) \<Rightarrow> (Some er, c1))"

text \<open>Begin, CREATE TEMP TABLE, COPY, INSERT and Commit; only the commit publishes the rows.\<close>

definition copy_records ::
    "env \<Rightarrow> ('r list \<Rightarrow> database \<Rightarrow> database result) \<Rightarrow> 'r list \<Rightarrow> database conn
     \<Rightarrow> go_error option \<times> database conn" where
  "copy_records e ins records c =
     (case tx_call e c of
        (Some er, c1) \<Rightarrow> (Some (Wrap ''failed to begin transaction'' er), c1)
      | (None, c1) \<Rightarrow>
     (case tx_call e c1 of
        (Some er, c2) \<Rightarrow> (Some (Wrap ''failed to create temp table'' er), c2)
      | (None, c2) \<Rightarrow>
     (case tx_call e c2 of
        (Some er, c3) \<Rightarrow> (Some (Wrap ''failed to copy records'' er), c3)
      | (None, c3) \<Rightarrow>
     (case tx_call e c3 of
        (Some er, c4) \<Rightarrow> (Some (Wrap ''failed to insert from temp table'' er), c4)
      | (None, c4) \<Rightarrow>
     (case ins records (db c4) of
        Inl er \<Rightarrow> (Some (Wrap ''failed to insert from temp table'' er), c4)
      | Inr _ \<Rightarrow> exec_stmt e (ins records) c4)))))"

definition copyNumericRecords ::
    "env \<Rightarrow> (int \<times> rat \<times> int) list \<Rightarrow> database conn \<Rightarrow> go_error option \<times> database conn" where
  "copyNumericRecords e records c = copy_records e insert_numeric records c"

definition copyTextRecords ::
    "env \<Rightarrow> (int \<times> string \<times> int) list \<Rightarrow> database conn \<Rightarrow> go_error option \<times> database conn" where
  "copyTextRecords e records c = copy_records e insert_text records c"

definition copyNullRecords ::
    "env \<Rightarrow> (int \<times> unit \<times> int) list \<Rightarrow> database conn \<Rightarrow> go_error option \<times> database conn" where
  "copyNullRecords e records c = copy_records e insert_null records c"

section \<open>Flushing\<close>

text \<open>Under the mutex the batch is exchanged for an empty one; the copy follows, then the counters.\<close>

definition swap_out :: "'v lane \<Rightarrow> (int \<times> 'v \<times> int) list \<times> 'v lane" where
  "swap_out l = (pending l, l\<lparr>pending := []\<rparr>)"

definition flush_lane ::
    "((int \<times> 'v \<times> int) list \<Rightarrow> database conn \<Rightarrow> go_error option \<times> database conn)
     \<Rightarrow> 'v lane \<Rightarrow> int \<Rightarrow> database conn \<Rightarrow> go_error option \<times> 'v lane \<times> int \<times> database conn" where
  "flush_lane copy l flushes c =
     (if pending l = [] then (None, l, flushes, c)
      else
        let (batch, l1) = swap_out l in
        case copy batch c of
          (Some er, c') \<Rightarrow> (Some er, l1, flushes, c')
        | (None, c') \<Rightarrow> (None, l1\<lparr>inserts := i64 (inserts l1 + int (length batch))\<rparr>,
                        i64 (flushes + 1), c'))"

definition flushNumericLocked ::
    "env \<Rightarrow> BatchWriter \<Rightarrow> database conn \<Rightarrow> go_error option \<times> BatchWriter \<times> database conn" where
  "flushNumericLocked e bw c =
     (let (er, l, n, c') = flush_lane (copyNumericRecords e) (bw_numeric bw) (bw_totalFlushes bw) c
      in (er, bw\<lparr>bw_numeric := l, bw_totalFlushes := n\<rparr>, c'))"

definition flushTextLocked ::
    "env \<Rightarrow> BatchWriter \<Rightarrow> database conn \<Rightarrow> go_error option \<times> BatchWriter \<times> database conn" where
  "flushTextLocked e bw c =
     (let (er, l, n, c') = flush_lane (copyTextRecords e) (bw_text bw) (bw_totalFlushes bw) c
      in (er, bw\<lparr>bw_text := l, bw_totalFlushes := n\<rparr>, c'))"

definition flushNullLocked ::
    "env \<Rightarrow> BatchWriter \<Rightarrow> database conn \<Rightarrow> go_error option \<times> BatchWriter \<times> database conn" where
  "flushNullLocked e bw c =
     (let (er, l, n, c') = flush_lane (copyNullRecords e) (bw_null bw) (bw_totalFlushes bw) c
      in (er, bw\<lparr>bw_null := l, bw_totalFlushes := n\<rparr>, c'))"

definition join_errors :: "go_error list \<Rightarrow> string" where
  "join_errors es = ''['' @ concat (case es of [] \<Rightarrow> [] | x # xs \<Rightarrow>
      error_text x # map (\<lambda>er. '' '' @ error_text er) xs) @ '']''"

definition FlushAll ::
    "env \<Rightarrow> BatchWriter \<Rightarrow> database conn \<Rightarrow> go_error option \<times> BatchWriter \<times> database conn" where
  "FlushAll e bw c =
     (let (e1, bw1, c1) = flushNumericLocked e bw c;
          (e2, bw2, c2) = flushTextLocked e bw1 c1;
          (e3, bw3, c3) = flushNullLocked e bw2 c2;
          errs = (case e1 of Some er \<Rightarrow> [Wrap ''numeric flush'' er] | None \<Rightarrow> [])
                 @ (case e2 of Some er \<Rightarrow> [Wrap ''text flush'' er] | None \<Rightarrow> [])
                 @ (case e3 of Some er \<Rightarrow> [Wrap ''null flush'' er] | None \<Rightarrow> [])
      in (if errs = [] then None else Some (Err (''flush errors: '' @ join_errors errs)), bw3, c3))"

text \<open>\<open>Close\<close> first waits for the background flusher to end, then flushes what is left.\<close>

definition Close ::
    "env \<Rightarrow> BatchWriter \<Rightarrow> database conn \<Rightarrow> go_error option \<times> BatchWriter \<times> database conn" where
  "Close e bw c = FlushAll e bw c"

section \<open>Adding\<close>

definition add_pending :: "int \<Rightarrow> 'v \<Rightarrow> int \<Rightarrow> 'v lane \<Rightarrow> 'v lane" where
  "add_pending tagID v ts l = l\<lparr>pending := pending l @ [(tagID, v, ts)]\<rparr>"

definition AddNumeric ::
    "env \<Rightarrow> int \<Rightarrow> rat \<Rightarrow> int \<Rightarrow> BatchWriter \<Rightarrow> database conn
     \<Rightarrow> go_error option \<times> BatchWriter \<times> database conn" where
  "AddNumeric e tagID v ts bw c =
     (let bw1 = bw\<lparr>bw_numeric := add_pending tagID v ts (bw_numeric bw)\<rparr> in
      if int (length (pending (bw_numeric bw1))) \<ge> bw_flushSize bw1
      then flushNumericLocked e bw1 c else (None, bw1, c))"

definition AddText ::
    "env \<Rightarrow> int \<Rightarrow> string \<Rightarrow> int \<Rightarrow> BatchWriter \<Rightarrow> database conn
     \<Rightarrow> go_error option \<times> BatchWriter \<times> database conn" where
  "AddText e tagID v ts bw c =
     (let bw1 = bw\<lparr>bw_text := add_pending tagID v ts (bw_text bw)\<rparr> in
      if int (length (pending (bw_text bw1))) \<ge> bw_flushSize bw1
      then flushTextLocked e bw1 c else (None, bw1, c))"

definition AddNull ::
    "env \<Rightarrow> int \<Rightarrow> int \<Rightarrow> BatchWriter \<Rightarrow> database conn
     \<Rightarrow> go_error option \<times> BatchWriter \<times> database conn" where
  "AddNull e tagID ts bw c =
     (let bw1 = bw\<lparr>bw_null := add_pending tagID () ts (bw_null bw)\<rparr> in
      if int (length (pending (bw_null bw1))) \<ge> bw_flushSize bw1
      then flushNullLocked e bw1 c else (None, bw1, c))"

definition BatchWriter_GetMetrics :: "BatchWriter \<Rightarrow> int \<times> int \<times> int \<times> int" where
  "BatchWriter_GetMetrics bw =
     (inserts (bw_numeric bw), inserts (bw_text bw), inserts (bw_null bw), bw_totalFlushes bw)"

definition GetBatchSizes :: "BatchWriter \<Rightarrow> int \<times> int \<times> int" where
  "GetBatchSizes bw =
     (int (length (pending (bw_numeric bw))), int (length (pending (bw_text bw))),
      int (length (pending (bw_null bw))))"

section \<open>What a copy does\<close>

lemma tx_call_db [simp]: "db (snd (tx_call e c)) = db c"
  by (auto simp: tx_call_def next_outcome_def split: outcome.splits)

lemma tx_call_db': "tx_call e c = (r, c') \<Longrightarrow> db c' = db c"
  using tx_call_db[of e c] by simp

text \<open>Either the database is as before and there is an error, or all the records are in it.\<close>

lemma copy_records_cases:
  assumes "copy_records e ins records c = (r, c')"
  obtains (unchanged) er where "r = Some er" "db c' = db c"
    | (written) "ins records (db c) = Inr (db c')"
proof -
  from assms have "(\<exists>er. r = Some er \<and> db c' = db c) \<or> ins records (db c) = Inr (db c')"
    unfolding copy_records_def
    by (auto split: prod.splits option.splits sum.splits dest!: tx_call_db' elim: exec_stmt_cases)
  with that show thesis by blast
qed

lemma copy_records_None:
  assumes "copy_records e ins records c = (None, c')"
  shows "ins records (db c) = Inr (db c')"
  using assms by (auto elim: copy_records_cases)

lemma tx_call_done [outcome_simps]: "tx_call all_done c = (None, c\<lparr>calls := Suc (calls c)\<rparr>)"
  by (simp add: tx_call_def next_outcome_def all_done_def)

lemma copy_records_done [outcome_simps]:
  "copy_records all_done ins records c =
     (case ins records (db c) of
        Inl er \<Rightarrow> (Some (Wrap ''failed to insert from temp table'' er), c\<lparr>calls := calls c + 4\<rparr>)
      | Inr d \<Rightarrow> (None, c\<lparr>db := d, calls := calls c + 5\<rparr>))"
  by (simp add: copy_records_def outcome_simps split: sum.splits)

lemmas copy_defs = copyNumericRecords_def copyTextRecords_def copyNullRecords_def
lemmas flush_defs = flushNumericLocked_def flushTextLocked_def flushNullLocked_def
lemmas add_defs = AddNumeric_def AddText_def AddNull_def

section \<open>A lane and its table\<close>

text \<open>
  What a lane relies on: its copy either leaves the database alone and reports an error, or inserts
  the whole batch into the lane's table.
\<close>

locale table_writer = record_table get put
  for get :: "database \<Rightarrow> (record_key \<rightharpoonup> 'v)"
    and put :: "(record_key \<rightharpoonup> 'v) \<Rightarrow> database \<Rightarrow> database" +
  fixes copy :: "env \<Rightarrow> (int \<times> 'v \<times> int) list \<Rightarrow> database conn
                 \<Rightarrow> go_error option \<times> database conn"
  assumes copy_None: "copy e batch c = (None, c') \<Longrightarrow> insert batch (db c) = Inr (db c')"
    and copy_Some: "copy e batch c = (Some er, c') \<Longrightarrow>
                      db c' = db c \<or> insert batch (db c) = Inr (db c')"
    and copy_done: "insert batch (db c) = Inr D \<Longrightarrow>
                      copy all_done batch c = (None, c\<lparr>db := D, calls := calls c + 5\<rparr>)"
begin

abbreviation flush where "flush e \<equiv> flush_lane (copy e)"

lemma flush_empties: "flush e l n c = (er, l', n', c') \<Longrightarrow> pending l' = []"
  by (auto simp: flush_lane_def swap_out_def Let_def split: if_splits prod.splits option.splits)

lemma flush_None:
  assumes "flush e l n c = (None, l', n', c')"
  shows "pending l = [] \<and> c' = c \<or> insert (pending l) (db c) = Inr (db c')"
  using assms
  by (auto simp: flush_lane_def swap_out_def split: if_splits prod.splits option.splits
           dest: copy_None)

text \<open>A flush that reports an error has dropped its batch: it is neither pending nor, unless only the
  reply of the commit was lost, in the table.\<close>

lemma flush_Some:
  assumes "flush e l n c = (Some er, l', n', c')"
  shows "pending l' = [] \<and> inserts l' = inserts l \<and> n' = n
         \<and> (db c' = db c \<or> insert (pending l) (db c) = Inr (db c'))"
  using assms
  by (auto simp: flush_lane_def swap_out_def split: if_splits prod.splits option.splits
           dest: copy_Some)

text \<open>The database once the pending records are written.\<close>

definition settled :: "'v lane \<Rightarrow> database \<Rightarrow> database" where
  "settled l D = put (insert_new (pending l) (get D)) D"

definition flushable :: "'v lane \<Rightarrow> database \<Rightarrow> bool" where
  "flushable l D \<longleftrightarrow> (\<lambda>(tag, v, ts). tag) ` set (pending l) \<subseteq> tag_ids D"

lemma flush_done:
  assumes "flushable l (db c)"
  shows "\<exists>l' n' c'. flush all_done l n c = (None, l', n', c')
           \<and> pending l' = [] \<and> db c' = settled l (db c)"
proof (cases "pending l = []")
  case True
  then show ?thesis by (simp add: flush_lane_def settled_def insert_new_def)
next
  case False
  have "insert (pending l) (db c) = Inr (settled l (db c))"
    using assms by (auto simp: insert_records_def list_all_iff settled_def flushable_def)
  from copy_done[OF this] False show ?thesis
    by (simp add: flush_lane_def swap_out_def)
qed

lemma settled_add:
  "settled (add_pending tag v ts l) D
     = put (map_insert_new (tag, ts) v (get (settled l D))) (settled l D)"
  by (simp add: settled_def add_pending_def insert_new_def)

lemma flushable_add:
  "flushable (add_pending tag v ts l) D \<longleftrightarrow> flushable l D \<and> tag \<in> tag_ids D"
  by (auto simp: flushable_def add_pending_def)

end

interpretation num_lane: table_writer records_numeric "\<lambda>m D. D\<lparr>records_numeric := m\<rparr>"
    copyNumericRecords
  by unfold_locales
    (auto simp: copy_defs insert_defs[symmetric] copy_records_done elim: copy_records_cases)

interpretation txt_lane: table_writer records_text "\<lambda>m D. D\<lparr>records_text := m\<rparr>"
    copyTextRecords
  by unfold_locales
    (auto simp: copy_defs insert_defs[symmetric] copy_records_done elim: copy_records_cases)

interpretation nul_lane: table_writer records_null "\<lambda>m D. D\<lparr>records_null := m\<rparr>"
    copyNullRecords
  by unfold_locales
    (auto simp: copy_defs insert_defs[symmetric] copy_records_done elim: copy_records_cases)

section \<open>Goroutines interleaved\<close>

text \<open>
  Workers add records, the ticker and the shutdown take batches out, copies end in any order the
  flush mutex lets them, and everybody else's statements happen in between.  \<open>ls_inflight\<close> holds the
  batches taken out whose copy has not ended; the three lists at the end are history: the records
  added so far, those whose copy ended without an error, and those whose copy reported one.
\<close>

record 'v lane_state =
  ls_lane :: "'v lane"
  ls_inflight :: "(int \<times> 'v \<times> int) list list"
  ls_conn :: "database conn"
  ls_added :: "(int \<times> 'v \<times> int) list"
  ls_written :: "(int \<times> 'v \<times> int) list"
  ls_dropped :: "(int \<times> 'v \<times> int) list"

inductive lane_step ::
    "((int \<times> 'v \<times> int) list \<Rightarrow> database conn \<Rightarrow> go_error option \<times> database conn) \<Rightarrow> int
     \<Rightarrow> 'v lane_state \<Rightarrow> 'v lane_state \<Rightarrow> bool"
  for copy flushSize where
  add:
    "l = add_pending tag v ts (ls_lane s) \<Longrightarrow> int (length (pending l)) < flushSize \<Longrightarrow>
     lane_step copy flushSize s (s\<lparr>ls_lane := l, ls_added := ls_added s @ [(tag, v, ts)]\<rparr>)"
| add_full:
    "l = add_pending tag v ts (ls_lane s) \<Longrightarrow> int (length (pending l)) \<ge> flushSize \<Longrightarrow>
     swap_out l = (batch, l') \<Longrightarrow>
     lane_step copy flushSize s (s\<lparr>ls_lane := l', ls_inflight := batch # ls_inflight s,
                                   ls_added := ls_added s @ [(tag, v, ts)]\<rparr>)"
| take:
    "pending (ls_lane s) \<noteq> [] \<Longrightarrow> swap_out (ls_lane s) = (batch, l') \<Longrightarrow>
     lane_step copy flushSize s (s\<lparr>ls_lane := l', ls_inflight := batch # ls_inflight s\<rparr>)"
| copied:
    "ls_inflight s = xs @ batch # ys \<Longrightarrow> copy batch (ls_conn s) = (None, c') \<Longrightarrow>
     lane_step copy flushSize s
       (s\<lparr>ls_lane := (ls_lane s)\<lparr>inserts := i64 (inserts (ls_lane s) + int (length batch))\<rparr>,
          ls_inflight := xs @ ys, ls_conn := c', ls_written := ls_written s @ batch\<rparr>)"
| failed:
    "ls_inflight s = xs @ batch # ys \<Longrightarrow> copy batch (ls_conn s) = (Some er, c') \<Longrightarrow>
     lane_step copy flushSize s
       (s\<lparr>ls_inflight := xs @ ys, ls_conn := c', ls_dropped := ls_dropped s @ batch\<rparr>)"
| other:
    "repo_step (db (ls_conn s)) D' \<Longrightarrow>
     lane_step copy flushSize s (s\<lparr>ls_conn := (ls_conn s)\<lparr>db := D', calls := n\<rparr>\<rparr>)"

definition lane_start :: "database conn \<Rightarrow> 'v lane_state" where
  "lane_start c = \<lparr>ls_lane = \<lparr>pending = [], inserts = 0\<rparr>, ls_inflight = [], ls_conn = c,
                   ls_added = [], ls_written = [], ls_dropped = []\<rparr>"

definition record_keys :: "(int \<times> 'v \<times> int) list \<Rightarrow> record_key set" where
  "record_keys recs = (\<lambda>(tag, v, ts). (tag, ts)) ` set recs"

definition lane_inv ::
    "(database \<Rightarrow> record_key \<rightharpoonup> 'v) \<Rightarrow> int \<Rightarrow> 'v lane_state \<Rightarrow> bool" where
  "lane_inv get flushSize s \<longleftrightarrow>
     mset (ls_added s) = mset (ls_written s) + mset (ls_dropped s)
       + mset (concat (ls_inflight s)) + mset (pending (ls_lane s))
     \<and> record_keys (ls_written s) \<subseteq> dom (get (db (ls_conn s)))
     \<and> (0 < flushSize \<longrightarrow> int (length (pending (ls_lane s))) < flushSize)
     \<and> inserts (ls_lane s) = i64 (int (length (ls_written s)))"

lemma i64_add_left: "i64 (i64 a + b) = i64 (a + b)"
  unfolding i64_def by (simp add: mod_simps algebra_simps)

context table_writer
begin

lemma insert_record_keys:
  "insert recs D = Inr D' \<Longrightarrow> dom (get D') = dom (get D) \<union> record_keys recs"
  using insert_Inr[of recs D D'] by (simp add: dom_insert_new record_keys_def)

lemma insert_present:
  assumes "record_keys recs \<subseteq> dom (get D)"
  shows "insert recs D = Inr D"
proof -
  have "list_all (\<lambda>(tag, v, ts). get D (tag, ts) \<noteq> None \<or> tag \<in> tag_ids D) recs"
    using assms by (force simp: list_all_iff record_keys_def)
  moreover have "insert_new recs (get D) = get D"
    using assms insert_new_present[of recs "get D"] by (simp add: record_keys_def)
  ultimately show ?thesis by (simp add: insert_records_def)
qed

lemma lane_inv_start: "lane_inv get flushSize (lane_start c)"
  by (simp add: lane_inv_def lane_start_def record_keys_def i64_def)

lemma lane_inv_step:
  assumes "lane_step (copy e) flushSize s s'" and inv: "lane_inv get flushSize s"
    and get_le: "\<And>D D'. repo_step D D' \<Longrightarrow> get D \<subseteq>\<^sub>m get D'"
  shows "lane_inv get flushSize s'"
  using assms(1)
proof cases
  case (add l tag v ts)
  with inv show ?thesis by (simp add: lane_inv_def add_pending_def)
next
  case (add_full l tag v ts batch l')
  with inv show ?thesis by (auto simp: lane_inv_def add_pending_def swap_out_def)
next
  case (take batch l')
  with inv show ?thesis by (auto simp: lane_inv_def swap_out_def)
next
  case (copied xs batch ys c')
  from copy_None[OF copied(3)] have "dom (get (db c')) = dom (get (db (ls_conn s))) \<union> record_keys batch"
    by (rule insert_record_keys)
  with inv copied show ?thesis
    by (auto simp: lane_inv_def record_keys_def image_Un i64_add_left)
next
  case (failed xs batch ys er c')
  from copy_Some[OF failed(3)] have "dom (get (db (ls_conn s))) \<subseteq> dom (get (db c'))"
    using insert_record_keys by (metis Un_upper1 order_refl)
  with inv have "record_keys (ls_written s) \<subseteq> dom (get (db c'))"
    unfolding lane_inv_def by (meson order_trans)
  with inv failed show ?thesis by (simp add: lane_inv_def)
next
  case (other D' n)
  from get_le[OF other(2)] have "dom (get (db (ls_conn s))) \<subseteq> dom (get D')"
    by (rule map_le_implies_dom_le)
  with inv have "record_keys (ls_written s) \<subseteq> dom (get D')"
    unfolding lane_inv_def by (meson order_trans)
  with inv other show ?thesis by (simp add: lane_inv_def)
qed

lemma lane_inv_reach:
  assumes "(lane_step (copy e) flushSize)\<^sup>*\<^sup>* (lane_start c) s"
    and "\<And>D D'. repo_step D D' \<Longrightarrow> get D \<subseteq>\<^sub>m get D'"
  shows "lane_inv get flushSize s"
  using assms(1)
  by (induction rule: rtranclp_induct) (auto intro: lane_inv_start lane_inv_step assms(2))

end

section \<open>Properties\<close>

lemma numeric_statements_le: "repo_step D D' \<Longrightarrow> records_numeric D \<subseteq>\<^sub>m records_numeric D'"
  using repo_step_records_le by (auto simp: records_le_def)

text \<open>
  C4: No numeric record is lost silently or written out of thin air.  However adding, taking batches
  out, copies (succeeding and failing, for every schedule of outcomes) and the other statements of
  the service interleave, the records added are exactly those written, those of a batch whose flush
  reported an error, those in flight and those pending; every record counted as written has its row;
  and with a positive flush size the pending batch stays below it.
\<close>

theorem batch_records_conserved:
  assumes "(lane_step (copyNumericRecords e) flushSize)\<^sup>*\<^sup>* (lane_start c) s"
  shows "mset (ls_added s) = mset (ls_written s) + mset (ls_dropped s)
           + mset (concat (ls_inflight s)) + mset (pending (ls_lane s))
         \<and> record_keys (ls_written s) \<subseteq> dom (records_numeric (db (ls_conn s)))
         \<and> (0 < flushSize \<longrightarrow> int (length (pending (ls_lane s))) < flushSize)
         \<and> inserts (ls_lane s) = i64 (int (length (ls_written s)))"
  using num_lane.lane_inv_reach[OF assms numeric_statements_le] by (simp_all add: lane_inv_def)

text \<open>
  A flush whose transaction cannot begin reports the error and forgets the batch: nothing was
  written, nothing is pending any more, and no counter moved.
\<close>

theorem failed_flush_drops_batch:
  assumes "e (calls c) = Refused er" and "pending (bw_numeric bw) \<noteq> []"
  shows "\<exists>bw' c'. flushNumericLocked e bw c
           = (Some (Wrap ''failed to begin transaction'' er), bw', c')
         \<and> pending (bw_numeric bw') = [] \<and> db c' = db c
         \<and> BatchWriter_GetMetrics bw' = BatchWriter_GetMetrics bw"
  using assms
  by (simp add: flushNumericLocked_def flush_lane_def swap_out_def copyNumericRecords_def
        copy_records_def tx_call_def next_outcome_def BatchWriter_GetMetrics_def)

text \<open>
  Delivery is idempotent: once a batch has been copied, copying any records of it again, after
  whatever statements have run since, succeeds and leaves the database as it is.
\<close>

theorem copy_is_idempotent:
  assumes "copyNumericRecords e batch c = (None, c1)" and "repo_steps (db c1) (db c2)"
    and "set again \<subseteq> set batch"
  shows "copyNumericRecords all_done again c2 = (None, c2\<lparr>calls := calls c2 + 5\<rparr>)"
proof -
  have "insert_numeric batch (db c) = Inr (db c1)"
    using num_lane.copy_None[OF assms(1)] by (simp add: insert_numeric_def)
  then have "record_keys batch \<subseteq> dom (records_numeric (db c1))"
    using num_lane.insert_record_keys unfolding insert_numeric_def by blast
  also have "\<dots> \<subseteq> dom (records_numeric (db c2))"
    using repo_steps_records_le[OF assms(2)] by (simp add: records_le_def map_le_implies_dom_le)
  finally have "record_keys again \<subseteq> dom (records_numeric (db c2))"
    using assms(3) unfolding record_keys_def by (meson image_mono order_trans)
  then have "insert_numeric again (db c2) = Inr (db c2)"
    by (rule num_lane.insert_present[folded insert_numeric_def])
  from num_lane.copy_done[folded insert_numeric_def, OF this]
  show ?thesis by (cases c2) simp
qed

section \<open>Concrete runs\<close>

text \<open>A table with one device and one tag, to run the batch writer on.\<close>

definition sample_device :: device_row where
  "sample_device =
     (upsert_row [(''lsid'', JNum 7), (''sensor_type'', JNum 45)] 7)\<lparr>d_id := 1, d_lsid := 7\<rparr>"

definition sample_tag :: tag_row where
  "sample_tag = \<lparr>t_id = 1, t_device_id = 1, t_tag_name = ''temp'', t_data_type = ''numeric'',
                 t_unit = None, t_description = None, t_metadata = None\<rparr>"

definition sample_db :: database where
  "sample_db = empty_database\<lparr>devices := [sample_device], next_device_id := 2,
                             tags := [sample_tag], next_tag_id := 2\<rparr>"

lemma batch_records_conserved_witness:
  "\<exists>s. (lane_step (copyNumericRecords (\<lambda>n. Refused Canceled)) 1)\<^sup>*\<^sup>*
          (lane_start \<lparr>db = sample_db, calls = 0\<rparr>) s
       \<and> ls_dropped s = [(1, 5, 100)] \<and> pending (ls_lane s) = [] \<and> ls_inflight s = []
       \<and> mset (ls_added s) = mset (ls_written s) + mset (ls_dropped s)
           + mset (concat (ls_inflight s)) + mset (pending (ls_lane s))"
proof -
  let ?copy = "copyNumericRecords (\<lambda>n. Refused Canceled)"
  let ?s0 = "lane_start \<lparr>db = sample_db, calls = 0\<rparr> :: rat lane_state"
  let ?l = "\<lparr>pending = [], inserts = 0\<rparr> :: rat lane"
  let ?s1 = "?s0\<lparr>ls_lane := ?l, ls_inflight := [[(1, 5, 100)]], ls_added := [(1, 5, 100)]\<rparr>"
  let ?s2 = "?s1\<lparr>ls_inflight := [], ls_conn := \<lparr>db = sample_db, calls = 1\<rparr>,
                 ls_dropped := [(1, 5, 100)]\<rparr>"
  have "lane_step ?copy 1 ?s0 ?s1"
    using lane_step.add_full[of "add_pending 1 5 100 (ls_lane ?s0)" 1 5 100 ?s0 1
        "[(1, 5, 100)]" ?l ?copy]
    by (simp add: lane_start_def add_pending_def swap_out_def)
  moreover have "lane_step ?copy 1 ?s1 ?s2"
    using lane_step.failed[of ?s1 "[]" "[(1, 5, 100)]" "[]" ?copy
        "Wrap ''failed to begin transaction'' Canceled" "\<lparr>db = sample_db, calls = 1\<rparr>" 1]
    by (simp add: lane_start_def copyNumericRecords_def copy_records_def tx_call_def
        next_outcome_def)
  ultimately have run: "(lane_step ?copy 1)\<^sup>*\<^sup>* ?s0 ?s2"
    by (meson converse_rtranclp_into_rtranclp rtranclp.rtrancl_refl)
  from batch_records_conserved[OF run] run show ?thesis
    by (intro exI[of _ ?s2]) simp
qed

lemma failed_flush_drops_batch_witness:
  "\<exists>bw' c'. flushNumericLocked (\<lambda>n. Refused Canceled)
       ((NewBatchWriter 10)\<lparr>bw_numeric := \<lparr>pending = [(1, 5, 100)], inserts = 3\<rparr>\<rparr>)
       \<lparr>db = sample_db, calls = 0\<rparr>
     = (Some (Wrap ''failed to begin transaction'' Canceled), bw', c')
     \<and> pending (bw_numeric bw') = [] \<and> db c' = sample_db
     \<and> fst (BatchWriter_GetMetrics bw') = 3"
  using failed_flush_drops_batch[of "\<lambda>n. Refused Canceled" "\<lparr>db = sample_db, calls = 0\<rparr>" Canceled
      "(NewBatchWriter 10)\<lparr>bw_numeric := \<lparr>pending = [(1, 5, 100)], inserts = 3\<rparr>\<rparr>"]
  by (auto simp: BatchWriter_GetMetrics_def)

lemma sample_copy:
  "copyNumericRecords all_done [(1, 5, 100)] \<lparr>db = sample_db, calls = 0\<rparr>
     = (None, \<lparr>db = sample_db\<lparr>records_numeric := [(1, 100) \<mapsto> 5]\<rparr>, calls = 5\<rparr>)"
  by (simp add: copyNumericRecords_def copy_records_done insert_numeric_def insert_records_def
      tag_ids_def insert_new_def map_insert_new_def sample_db_def sample_tag_def empty_database_def)

lemma copy_is_idempotent_witness:
  "copyNumericRecords all_done [(1, 5, 100), (1, 5, 100)]
     \<lparr>db = sample_db\<lparr>records_numeric := [(1, 100) \<mapsto> 5]\<rparr>, calls = 5\<rparr>
   = (None, \<lparr>db = sample_db\<lparr>records_numeric := [(1, 100) \<mapsto> 5]\<rparr>, calls = 10\<rparr>)"
  using copy_is_idempotent[OF sample_copy, of "\<lparr>db = sample_db\<lparr>records_numeric := [(1, 100) \<mapsto> 5]\<rparr>,
      calls = 5\<rparr>" "[(1, 5, 100), (1, 5, 100)]"]
  by simp

end
