(* ===== verification/Wl_Cache.thy ===== *)
theory Wl_Cache
  imports Wl_Database
begin

text \<open>
  \<open>services/weatherlink-sql/cache/cache.go\<close>: the in-memory index of devices, tags and catalog entries
  (the backfill service has the same file).  Every method runs under the cache's lock from beginning
  to end, so it is one function from the cache to its result.  The cache stores pointers; the only
  field ever assigned through one is \<open>DataStructureType\<close>, and the cache holds the only pointer to a
  device, so a device is stored by value.

  The locale \<open>keyed_store\<close> is the interface the loaders use: a lookup and a store under a key.  It is
  interpreted on the three parts of the cache; for tags that needs the key \<open>"%d:%s"\<close> to determine the
  device and the tag name.
\<close>

record Cache =
  ca_devices :: "int \<rightharpoonup> Device"
  ca_tags :: "string \<rightharpoonup> Tag"
  ca_catalog :: "string \<rightharpoonup> (string \<rightharpoonup> (string \<rightharpoonup> FieldMetadata))"

definition NewCache :: Cache where
  "NewCache = \<lparr>ca_devices = Map.empty, ca_tags = Map.empty, ca_catalog = Map.empty\<rparr>"

definition GetDevice :: "Cache \<Rightarrow> int \<Rightarrow> Device option" where
  "GetDevice ca lsid = ca_devices ca lsid"

definition SetDevice :: "int \<Rightarrow> Device \<Rightarrow> Cache \<Rightarrow> Cache" where
  "SetDevice lsid device ca = ca\<lparr>ca_devices := (ca_devices ca)(lsid \<mapsto> device)\<rparr>"

definition tag_cache_key :: "int \<Rightarrow> string \<Rightarrow> string" where
  "tag_cache_key deviceID tagName = itoa deviceID @ '':'' @ tagName"

definition GetTag :: "Cache \<Rightarrow> int \<Rightarrow> string \<Rightarrow> Tag option" where
  "GetTag ca deviceID tagName = ca_tags ca (tag_cache_key deviceID tagName)"

definition SetTag :: "int \<Rightarrow> string \<Rightarrow> Tag \<Rightarrow> Cache \<Rightarrow> Cache" where
  "SetTag deviceID tagName tag ca =
     ca\<lparr>ca_tags := (ca_tags ca)(tag_cache_key deviceID tagName \<mapsto> tag)\<rparr>"

text \<open>
  The reader is given the data structure type as a number, the writer as the string the catalog has:
  an entry is found when that string is the decimal form of the number.
\<close>

definition catalog_at :: "Cache \<Rightarrow> string \<Rightarrow> string \<Rightarrow> string \<Rightarrow> FieldMetadata option" where
  "catalog_at ca stKey dsKey fieldName =
     (case ca_catalog ca stKey of
        None \<Rightarrow> None
      | Some byType \<Rightarrow> (case byType dsKey of None \<Rightarrow> None | Some fs \<Rightarrow> fs fieldName))"

definition GetCatalogMetadata :: "Cache \<Rightarrow> int \<Rightarrow> int \<Rightarrow> string \<Rightarrow> FieldMetadata option" where
  "GetCatalogMetadata ca sensorType dataStructureType fieldName =
     catalog_at ca (itoa sensorType) (itoa dataStructureType) fieldName"

definition SetCatalogMetadata :: "int \<Rightarrow> string \<Rightarrow> string \<Rightarrow> FieldMetadata \<Rightarrow> Cache \<Rightarrow> Cache" where
  "SetCatalogMetadata sensorType dataStructureType fieldName metadata ca =
     (let stKey = itoa sensorType;
          byType = (case ca_catalog ca stKey of None \<Rightarrow> Map.empty | Some m \<Rightarrow> m);
          fs = (case byType dataStructureType of None \<Rightarrow> Map.empty | Some m \<Rightarrow> m)
      in ca\<lparr>ca_catalog := (ca_catalog ca)
              (stKey \<mapsto> byType(dataStructureType \<mapsto> fs(fieldName \<mapsto> metadata)))\<rparr>)"

section \<open>A store with keys\<close>

locale keyed_store =
  fixes lookup :: "'s \<Rightarrow> 'k \<Rightarrow> 'v option"
    and store :: "'k \<Rightarrow> 'v \<Rightarrow> 's \<Rightarrow> 's"
  assumes lookup_store: "lookup (store k v s) k' = (if k' = k then Some v else lookup s k')"
begin

lemma lookup_same [simp]: "lookup (store k v s) k = Some v"
  by (simp add: lookup_store)

lemma lookup_other [simp]: "k' \<noteq> k \<Longrightarrow> lookup (store k v s) k' = lookup s k'"
  by (simp add: lookup_store)

text \<open>Storing a list of values, each under its own key, in the order of the list.\<close>

lemma lookup_fold:
  "lookup (fold (\<lambda>v. store (key v) v) vs s) k =
     (case find (\<lambda>v. key v = k) (rev vs) of Some v \<Rightarrow> Some v | None \<Rightarrow> lookup s k)"
proof (induction vs arbitrary: s)
  case Nil
  then show ?case by simp
next
  case (Cons v vs)
  have "find P (xs @ ys) = (case find P xs of Some x \<Rightarrow> Some x | None \<Rightarrow> find P ys)"
    for P and xs ys :: "'v list"
    by (induction xs) auto
  then show ?case by (simp add: Cons lookup_store split: option.splits)
qed

lemma lookup_fold_distinct:
  assumes "distinct (map key vs)" and "v \<in> set vs"
  shows "lookup (fold (\<lambda>v. store (key v) v) vs s) (key v) = Some v"
proof -
  have "find (\<lambda>w. key w = key v) (rev vs) = Some w \<Longrightarrow> w = v" for w
    using assms by (auto simp: find_Some_iff distinct_map dest: inj_onD)
      (metis inj_onD nth_mem set_rev length_rev)
  moreover have "find (\<lambda>w. key w = key v) (rev vs) \<noteq> None"
    using assms(2) by (auto simp: find_None_iff)
  ultimately show ?thesis by (auto simp: lookup_fold split: option.splits)
qed

lemma lookup_fold_inv:
  assumes "lookup (fold (\<lambda>v. store (key v) v) vs s) k = Some v"
  shows "v \<in> set vs \<and> key v = k \<or> lookup s k = Some v"
  using assms by (auto simp: lookup_fold find_Some_iff split: option.splits)
    (metis length_rev nth_mem set_rev)

end

lemma tag_cache_key_inj:
  "tag_cache_key dev name = tag_cache_key dev' name' \<longleftrightarrow> dev = dev' \<and> name = name'"
  using colon_key_inj[of "itoa dev" name "itoa dev'" name'] itoa_inj
  by (auto simp: tag_cache_key_def)

lemma catalog_at_SetCatalogMetadata:
  "catalog_at (SetCatalogMetadata st ds fn m ca) (itoa st') ds' fn' =
     (if st' = st \<and> ds' = ds \<and> fn' = fn then Some m else catalog_at ca (itoa st') ds' fn')"
proof (cases "st' = st")
  case True
  then show ?thesis
    by (simp add: catalog_at_def SetCatalogMetadata_def Let_def split: option.splits)
next
  case False
  then have "itoa st' \<noteq> itoa st" using itoa_inj by blast
  with False show ?thesis by (simp add: catalog_at_def SetCatalogMetadata_def Let_def)
qed

interpretation device_store: keyed_store GetDevice SetDevice
  by unfold_locales (simp add: GetDevice_def SetDevice_def)

interpretation tag_store: keyed_store "\<lambda>ca (dev, name). GetTag ca dev name"
    "\<lambda>(dev, name). SetTag dev name"
  by unfold_locales (simp add: GetTag_def SetTag_def tag_cache_key_inj split: prod.splits)

interpretation catalog_store: keyed_store "\<lambda>ca (st, ds, fn). catalog_at ca (itoa st) ds fn"
    "\<lambda>(st, ds, fn). SetCatalogMetadata st ds fn"
  by unfold_locales (simp add: catalog_at_SetCatalogMetadata split: prod.splits)

text \<open>The parts do not interfere.\<close>

lemma cache_frame [simp]:
  "GetTag (SetDevice l d ca) = GetTag ca"
  "catalog_at (SetDevice l d ca) = catalog_at ca"
  "GetDevice (SetTag dev n t ca) = GetDevice ca"
  "catalog_at (SetTag dev n t ca) = catalog_at ca"
  "GetDevice (SetCatalogMetadata st ds fn m ca) = GetDevice ca"
  "GetTag (SetCatalogMetadata st ds fn m ca) = GetTag ca"
  by (auto simp: fun_eq_iff GetTag_def SetDevice_def GetDevice_def SetTag_def catalog_at_def
        SetCatalogMetadata_def Let_def)

lemma GetTag_SetTag [simp]:
  "GetTag (SetTag dev n t ca) dev' n' = (if dev' = dev \<and> n' = n then Some t else GetTag ca dev' n')"
  using tag_store.lookup_store[of "(dev, n)" t ca "(dev', n')"] by simp

lemma GetDevice_SetDevice [simp]:
  "GetDevice (SetDevice l d ca) l' = (if l' = l then Some d else GetDevice ca l')"
  by (rule device_store.lookup_store)

lemma GetCatalogMetadata_frame [simp]:
  "GetCatalogMetadata (SetDevice l d ca) = GetCatalogMetadata ca"
  "GetCatalogMetadata (SetTag dev n t ca) = GetCatalogMetadata ca"
  by (auto simp: fun_eq_iff GetCatalogMetadata_def)

lemma GetCatalogMetadata_Set:
  "GetCatalogMetadata (SetCatalogMetadata st ds fn m ca) st' ds' fn' =
     (if st' = st \<and> itoa ds' = ds \<and> fn' = fn then Some m else GetCatalogMetadata ca st' ds' fn')"
  using catalog_store.lookup_store[of "(st, ds, fn)" m ca "(st', itoa ds', fn')"]
  by (simp add: GetCatalogMetadata_def)

end
