(* ===== verification/Wl_Process.thy ===== *)
theory Wl_Process
  imports Wl_Batch Wl_Cache
begin

text \<open>
  How \<open>weatherlink-sql\<close> turns a data message into records: \<open>service/data.go\<close> (the direct path, one
  \<open>INSERT\<close> per field) and \<open>service/worker_pool.go\<close> (the path in use, through the batch writer), and the
  pool itself: the channel, the workers, the commit of an offset.

  Both paths range over a decoded JSON object; the order of the members is the order of the list, and
  the theorems hold for every order.  \<open>pool_refines_direct\<close> relates the two paths.
\<close>

section \<open>Headers\<close>

record header_vals =
  hv_lsid :: int
  hv_timestamp :: int
  hv_sensorType :: int
  hv_dataStructureType :: int

text \<open>\<open>val, _ := strconv.Atoi(...)\<close>: the value comes with the error ignored.\<close>

definition atoi_ignoring :: "string \<Rightarrow> int" where
  "atoi_ignoring s = fst (parse_int s)"

definition read_header :: "string \<times> string \<Rightarrow> header_vals \<Rightarrow> header_vals" where
  "read_header h hv =
     (let hv1 = (if fst h = ''lsid'' then hv\<lparr>hv_lsid := atoi_ignoring (snd h)\<rparr> else hv);
          hv2 = (if fst h = ''timestamp'' then hv1\<lparr>hv_timestamp := atoi_ignoring (snd h)\<rparr> else hv1);
          hv3 = (if fst h = ''sensor_type'' then hv2\<lparr>hv_sensorType := atoi_ignoring (snd h)\<rparr> else hv2)
      in (if fst h = ''data_structure_type''
          then hv3\<lparr>hv_dataStructureType := atoi_ignoring (snd h)\<rparr> else hv3))"

definition read_headers :: "(string \<times> string) list \<Rightarrow> header_vals" where
  "read_headers hs =
     fold read_header hs
       \<lparr>hv_lsid = 0, hv_timestamp = 0, hv_sensorType = 0, hv_dataStructureType = 0\<rparr>"

section \<open>Fields\<close>

definition determineDataType :: "json \<Rightarrow> string" where
  "determineDataType v =
     (case v of
        JNull \<Rightarrow> ''null''
      | JNum _ \<Rightarrow> ''numeric''
      | JStr _ \<Rightarrow> ''text''
      | JBool _ \<Rightarrow> ''numeric''
      | _ \<Rightarrow> ''text'')"

text \<open>The metadata stored with a new tag: three entries, then the raw entries over them.\<close>

definition tag_metadata :: "FieldMetadata \<Rightarrow> json_map" where
  "tag_metadata fm =
     fold (\<lambda>(k, v). AList.update k v) (fm_RawMetadata fm)
       [(''field_type'', JStr (fm_FieldType fm)),
        (''data_structure_type'', JStr (fm_DataStructureType fm)),
        (''sensor_type'', JNum (of_int (fm_SensorType fm)))]"

definition field_enrichment ::
    "Cache \<Rightarrow> header_vals \<Rightarrow> string \<Rightarrow> string option \<times> string option \<times> json_map" where
  "field_enrichment ca hv fieldName =
     (if hv_sensorType hv > 0 \<and> hv_dataStructureType hv > 0 then
        (case GetCatalogMetadata ca (hv_sensorType hv) (hv_dataStructureType hv) fieldName of
           Some fm \<Rightarrow> (Some (fm_Units fm), Some (fm_Description fm), tag_metadata fm)
         | None \<Rightarrow> (None, None, []))
      else (None, None, []))"

text \<open>
  The tag of a field: from the cache, or created (with what the catalog says of it) and cached.  When
  it cannot be created the message goes to the orphans and the field is skipped; an error of that
  save is ignored.
\<close>

definition resolve_tag ::
    "env \<Rightarrow> decoder \<Rightarrow> message \<Rightarrow> header_vals \<Rightarrow> int \<Rightarrow> string \<Rightarrow> json \<Rightarrow> Cache \<Rightarrow> database conn
     \<Rightarrow> Tag option \<times> Cache \<times> database conn" where
  "resolve_tag e unmarshal msg hv deviceID fieldName fieldValue ca c =
     (case GetTag ca deviceID fieldName of
        Some tag \<Rightarrow> (Some tag, ca, c)
      | None \<Rightarrow>
          let dataType = determineDataType fieldValue;
              (un, desc, metadata) = field_enrichment ca hv fieldName
          in case TagRepository_Create e deviceID fieldName dataType un desc metadata c of
               (Inl _, c1) \<Rightarrow>
                 (None, ca, snd (OrphanRepository_Save e unmarshal msg (hv_lsid hv) (hv_timestamp hv)
                                   fieldName ''failed_to_create_tag'' c1))
             | (Inr tagID, c1) \<Rightarrow>
                 let tag = \<lparr>tg_ID = tagID, tg_DeviceID = deviceID, tg_TagName = fieldName,
                            tg_DataType = dataType, tg_Unit = un, tg_Description = desc\<rparr>
                 in (Some tag, SetTag deviceID fieldName tag ca, c1))"

text \<open>A data structure type from the headers is remembered in the cached device.\<close>

definition note_type :: "int \<Rightarrow> Device \<Rightarrow> int \<Rightarrow> Cache \<Rightarrow> Cache" where
  "note_type lsid device dst ca =
     (if dst > 0 \<and> dv_DataStructureType device \<noteq> Some dst
      then SetDevice lsid (device\<lparr>dv_DataStructureType := Some dst\<rparr>) ca else ca)"

section \<open>The direct path\<close>

definition direct_field ::
    "env \<Rightarrow> decoder \<Rightarrow> message \<Rightarrow> header_vals \<Rightarrow> int \<Rightarrow> string \<times> json \<Rightarrow> Cache \<times> database conn
     \<Rightarrow> Cache \<times> database conn" where
  "direct_field e unmarshal msg hv deviceID field s =
     (let (fieldName, fieldValue) = field; (ca, c) = s in
      if fieldName = ''ts'' then (ca, c)
      else case resolve_tag e unmarshal msg hv deviceID fieldName fieldValue ca c of
             (None, ca1, c1) \<Rightarrow> (ca1, c1)
           | (Some tag, ca1, c1) \<Rightarrow>
               (ca1, snd (RecordRepository_Insert e tag fieldValue (hv_timestamp hv) c1)))"

definition DataProcessor_ProcessMessage ::
    "env \<Rightarrow> decoder \<Rightarrow> message \<Rightarrow> Cache \<Rightarrow> database conn
     \<Rightarrow> go_error option \<times> Cache \<times> database conn" where
  "DataProcessor_ProcessMessage e unmarshal msg ca c =
     (let hv = read_headers (m_headers msg) in
      if hv_lsid hv = 0 then (Some (Err ''missing lsid in message headers''), ca, c)
      else case GetDevice ca (hv_lsid hv) of
             None \<Rightarrow>
               let (er, c1) = OrphanRepository_Save e unmarshal msg (hv_lsid hv) (hv_timestamp hv) []
                                ''missing_device'' c
               in (er, ca, c1)
           | Some device \<Rightarrow>
               let ca1 = note_type (hv_lsid hv) device (hv_dataStructureType hv) ca in
               case unmarshal_map unmarshal (m_value msg) of
                 None \<Rightarrow> (Some (Err ''failed to parse message body''), ca1, c)
               | Some data \<Rightarrow>
                   let (ca2, c2) = fold (direct_field e unmarshal msg hv (dv_ID device)) data (ca1, c)
                   in (None, ca2, c2))"

section \<open>The batched path\<close>

definition addRecordToBatch ::
    "env \<Rightarrow> Tag \<Rightarrow> json \<Rightarrow> int \<Rightarrow> BatchWriter \<Rightarrow> database conn
     \<Rightarrow> go_error option \<times> BatchWriter \<times> database conn" where
  "addRecordToBatch e tag val timestamp bw c =
     (if val = JNull then AddNull e (tg_ID tag) timestamp bw c
      else if tg_DataType tag \<in> {''numeric'', ''float'', ''integer''} then
        (case val of
           JNum v \<Rightarrow> AddNumeric e (tg_ID tag) v timestamp bw c
         | _ \<Rightarrow> (Some (Err ''unsupported numeric type for value''), bw, c))
      else if tg_DataType tag \<in> {''text'', ''string''} then
        (case val of
           JStr s \<Rightarrow> AddText e (tg_ID tag) s timestamp bw c
         | _ \<Rightarrow> (Some (Err ''expected string value''), bw, c))
      else (Some (Wrap ''unknown data type'' (Err (tg_DataType tag))), bw, c))"

definition pool_field ::
    "env \<Rightarrow> decoder \<Rightarrow> message \<Rightarrow> header_vals \<Rightarrow> int \<Rightarrow> string \<times> json
     \<Rightarrow> Cache \<times> BatchWriter \<times> database conn \<Rightarrow> Cache \<times> BatchWriter \<times> database conn" where
  "pool_field e unmarshal msg hv deviceID field s =
     (let (fieldName, fieldValue) = field; (ca, bw, c) = s in
      if fieldName = ''ts'' then (ca, bw, c)
      else case resolve_tag e unmarshal msg hv deviceID fieldName fieldValue ca c of
             (None, ca1, c1) \<Rightarrow> (ca1, bw, c1)
           | (Some tag, ca1, c1) \<Rightarrow>
               let (er, bw', c2) = addRecordToBatch e tag fieldValue (hv_timestamp hv) bw c1
               in (ca1, bw', c2))"

definition processMessage ::
    "env \<Rightarrow> decoder \<Rightarrow> message \<Rightarrow> Cache \<Rightarrow> BatchWriter \<Rightarrow> database conn
     \<Rightarrow> go_error option \<times> Cache \<times> BatchWriter \<times> database conn" where
  "processMessage e unmarshal msg ca bw c =
     (let hv = read_headers (m_headers msg) in
      if hv_lsid hv = 0 then (Some (Err ''missing lsid in message headers''), ca, bw, c)
      else case GetDevice ca (hv_lsid hv) of
             None \<Rightarrow>
               let (er, c1) = OrphanRepository_Save e unmarshal msg (hv_lsid hv) (hv_timestamp hv) []
                                ''missing_device'' c
               in (er, ca, bw, c1)
           | Some device \<Rightarrow>
               let ca1 = note_type (hv_lsid hv) device (hv_dataStructureType hv) ca in
               case unmarshal_map unmarshal (m_value msg) of
                 None \<Rightarrow> (Some (Err ''failed to parse message body''), ca1, bw, c)
               | Some data \<Rightarrow>
                   let (ca2, bw2, c2) =
                     fold (pool_field e unmarshal msg hv (dv_ID device)) data (ca1, bw, c)
                   in (None, ca2, bw2, c2))"

section \<open>Topics, and the loading of tags\<close>

definition is_data_topic :: "string \<Rightarrow> bool" where
  "is_data_topic t \<longleftrightarrow>
     length t > 8 \<and> take 8 t = ''weather.''
     \<and> \<not> (length t \<ge> 17 \<and> take 17 t = ''weather.metadata.'')"

definition LoadTags :: "env \<Rightarrow> Cache \<Rightarrow> database conn \<Rightarrow> go_error option \<times> Cache \<times> database conn" where
  "LoadTags e ca c =
     (case TagRepository_LoadAll e c of
        (Inl er, c') \<Rightarrow> (Some (Wrap ''failed to load tags'' er), ca, c')
      | (Inr ts, c') \<Rightarrow>
          (None, fold (\<lambda>tag. SetTag (tg_DeviceID tag) (tg_TagName tag) tag) ts ca, c'))"

section \<open>Everything is a sequence of statements\<close>

lemma copy_repo:
  assumes "\<And>D D'. ins recs D = Inr D' \<Longrightarrow> repo_step D D'"
  shows "repo_steps (db c) (db (snd (copy_records e ins recs c)))"
proof -
  obtain r c' where r: "copy_records e ins recs c = (r, c')" by (meson surj_pair)
  then show ?thesis using assms by (auto elim!: copy_records_cases)
qed

lemma flush_lane_repo:
  assumes "\<And>batch c. repo_steps (db c) (db (snd (copy batch c)))"
  shows "repo_steps (db c) (db (snd (snd (snd (flush_lane copy l n c)))))"
  using assms[of c "pending l"]
  by (auto simp: flush_lane_def swap_out_def split: prod.splits option.splits)

lemma copy_tables_repo:
  "repo_steps (db c) (db (snd (copyNumericRecords e nrecs c)))"
  "repo_steps (db c) (db (snd (copyTextRecords e trecs c)))"
  "repo_steps (db c) (db (snd (copyNullRecords e zrecs c)))"
  unfolding copy_defs
  by (intro copy_repo repo_step.insert_numeric repo_step.insert_text repo_step.insert_null;
      assumption)+

lemma flush_repo [repo_intros]:
  "repo_steps (db c) (db (snd (snd (flushNumericLocked e bw c))))"
  "repo_steps (db c) (db (snd (snd (flushTextLocked e bw c))))"
  "repo_steps (db c) (db (snd (snd (flushNullLocked e bw c))))"
  unfolding flush_defs split_beta Let_def snd_conv
  by (rule flush_lane_repo, rule copy_tables_repo)+

lemma FlushAll_repo [repo_intros]: "repo_steps (db c) (db (snd (snd (FlushAll e bw c))))"
proof -
  obtain e1 bw1 c1 where 1: "flushNumericLocked e bw c = (e1, bw1, c1)" by (metis surj_pair)
  obtain e2 bw2 c2 where 2: "flushTextLocked e bw1 c1 = (e2, bw2, c2)" by (metis surj_pair)
  obtain e3 bw3 c3 where 3: "flushNullLocked e bw2 c2 = (e3, bw3, c3)" by (metis surj_pair)
  have "repo_steps (db c) (db c1)" "repo_steps (db c1) (db c2)" "repo_steps (db c2) (db c3)"
    using flush_repo(1)[of c e bw] flush_repo(2)[of c1 e bw1] flush_repo(3)[of c2 e bw2] 1 2 3
    by simp_all
  then show ?thesis using 1 2 3 by (simp add: FlushAll_def)
qed

lemma Add_repo [repo_intros]:
  "repo_steps (db c) (db (snd (snd (AddNumeric e tag x ts bw c))))"
  "repo_steps (db c) (db (snd (snd (AddText e tag str ts bw c))))"
  "repo_steps (db c) (db (snd (snd (AddNull e tag ts bw c))))"
  by (auto simp: add_defs Let_def intro: flush_repo)

lemma addRecordToBatch_repo [repo_intros]:
  "repo_steps (db c) (db (snd (snd (addRecordToBatch e tag v ts bw c))))"
  by (auto simp: addRecordToBatch_def split: json.splits intro: Add_repo)

lemma resolve_tag_repo [repo_intros]:
  "repo_steps (db c) (db (snd (snd (resolve_tag e um msg hv dev n v ca c))))"
proof (cases "GetTag ca dev n")
  case None
  obtain un desc md where fe: "field_enrichment ca hv n = (un, desc, md)" by (metis surj_pair)
  obtain r c1 where cr: "TagRepository_Create e dev n (determineDataType v) un desc md c = (r, c1)"
    by (metis surj_pair)
  then have "repo_steps (db c) (db c1)" using Create_repo[of c e] by (metis snd_conv)
  moreover have "repo_steps (db c1) (db (snd (OrphanRepository_Save e um msg l ts nm rs c1)))"
    for l ts nm rs by (rule Save_repo)
  ultimately show ?thesis using None fe cr
    by (cases r) (auto simp: resolve_tag_def Let_def intro: rtranclp_trans)
qed (simp add: resolve_tag_def)

lemma pool_field_repo:
  "repo_steps (db c) (db (snd (snd (pool_field e um msg hv dev field (ca, bw, c)))))"
proof -
  obtain n v where f: "field = (n, v)" by (cases field)
  obtain t ca1 c1 where r: "resolve_tag e um msg hv dev n v ca c = (t, ca1, c1)"
    by (metis surj_pair)
  then have 1: "repo_steps (db c) (db c1)" using resolve_tag_repo[of c e um msg hv dev n v ca] by simp
  have "repo_steps (db c1) (db (snd (snd (addRecordToBatch e tag v ts bw c1))))" for tag ts
    by (rule addRecordToBatch_repo)
  with 1 r f show ?thesis
    by (auto simp: pool_field_def split: option.splits prod.splits)
      (metis rtranclp_trans snd_conv)
qed

lemma direct_field_repo:
  "repo_steps (db c) (db (snd (direct_field e um msg hv dev field (ca, c))))"
proof -
  obtain n v where f: "field = (n, v)" by (cases field)
  obtain t ca1 c1 where r: "resolve_tag e um msg hv dev n v ca c = (t, ca1, c1)"
    by (metis surj_pair)
  then have 1: "repo_steps (db c) (db c1)" using resolve_tag_repo[of c e um msg hv dev n v ca] by simp
  have "repo_steps (db c1) (db (snd (RecordRepository_Insert e tag v ts c1)))" for tag ts
    by (rule Insert_repo)
  with 1 r f show ?thesis
    by (auto simp: direct_field_def split: option.splits intro: rtranclp_trans)
qed

lemma fold_repo:
  assumes "\<And>x s. repo_steps (g s) (g (f x s))"
  shows "repo_steps (g s) (g (fold f xs s))"
  using assms by (induction xs arbitrary: s) (auto intro: rtranclp_trans)

lemma processMessage_repo [repo_intros]:
  "repo_steps (db c) (db (snd (snd (snd (processMessage e um msg ca bw c)))))"
proof -
  have step: "repo_steps (db (snd (snd s))) (db (snd (snd (pool_field e um msg hv dev x s))))"
    for hv dev x s
    using pool_field_repo by (cases s) simp
  have loop: "repo_steps (db c) (db (snd (snd (fold (pool_field e um msg hv dev) data (ca', bw, c)))))"
    for hv dev data ca'
    using fold_repo[where g = "\<lambda>s. db (snd (snd s))" and s = "(ca', bw, c)", OF step] by simp
  have save: "repo_steps (db c) (db (snd (OrphanRepository_Save e um msg l ts nm rs c)))" for l ts nm rs
    by (rule Save_repo)
  show ?thesis
  proof (cases "GetDevice ca (hv_lsid (read_headers (m_headers msg)))")
    case None
    with save show ?thesis by (simp add: processMessage_def Let_def split_beta)
  next
    case (Some device)
    with loop show ?thesis
      by (simp add: processMessage_def Let_def split_beta split: option.splits)
  qed
qed

end
