(* ===== verification/Wl_Refine.thy ===== *)
theory Wl_Refine
  imports Wl_Process
begin

text \<open>
  The batched path refines the direct path.  \<open>settled bw D\<close> is the database \<open>D\<close> with the pending
  records of the three lanes written; while nothing fails, processing a message through the batch
  writer moves \<open>settled\<close> exactly as the direct path moves its database, and \<open>FlushAll\<close> makes the
  database the settled one.  The theory ends with the properties of message processing.
\<close>

section \<open>The settled database\<close>

definition settled :: "BatchWriter \<Rightarrow> database \<Rightarrow> database" where
  "settled bw D =
     D\<lparr>records_numeric := insert_new (pending (bw_numeric bw)) (records_numeric D),
       records_text := insert_new (pending (bw_text bw)) (records_text D),
       records_null := insert_new (pending (bw_null bw)) (records_null D)\<rparr>"

definition flushable :: "BatchWriter \<Rightarrow> database \<Rightarrow> bool" where
  "flushable bw D \<longleftrightarrow> num_lane.flushable (bw_numeric bw) D \<and> txt_lane.flushable (bw_text bw) D
     \<and> nul_lane.flushable (bw_null bw) D"

definition cache_tags_ok :: "Cache \<Rightarrow> database \<Rightarrow> bool" where
  "cache_tags_ok ca D \<longleftrightarrow>
     (\<forall>dev n tag. GetTag ca dev n = Some tag \<longrightarrow> tg_ID tag \<in> tag_ids D)"

definition sim :: "BatchWriter \<Rightarrow> database conn \<Rightarrow> database conn \<Rightarrow> bool" where
  "sim bw c d \<longleftrightarrow> db d = settled bw (db c) \<and> flushable bw (db c)"

lemmas flushable_defs = flushable_def num_lane.flushable_def txt_lane.flushable_def
  nul_lane.flushable_def

lemma settled_tag_ids [simp]: "tag_ids (settled bw D) = tag_ids D"
  by (simp add: settled_def tag_ids_def)

lemma flushable_mono:
  "flushable bw D \<Longrightarrow> tag_ids D \<subseteq> tag_ids D' \<Longrightarrow> flushable bw D'"
  unfolding flushable_defs by blast

lemma cache_tags_ok_mono:
  "cache_tags_ok ca D \<Longrightarrow> tag_ids D \<subseteq> tag_ids D' \<Longrightarrow> cache_tags_ok ca D'"
  unfolding cache_tags_ok_def by blast

text \<open>Statements on tags and orphans commute with settling.\<close>

lemma upsert_tag_settled:
  "upsert_tag dev n dt un desc md (settled bw D) =
     (case upsert_tag dev n dt un desc md D of
        Inl er \<Rightarrow> Inl er | Inr (i, D') \<Rightarrow> Inr (i, settled bw D'))"
  by (auto simp: upsert_tag_def settled_def split: option.splits)

lemma save_orphan_settled:
  "save_orphan um msg l ts n rs (settled bw D) =
     (case save_orphan um msg l ts n rs D of Inl er \<Rightarrow> Inl er | Inr D' \<Rightarrow> Inr (settled bw D'))"
  by (auto simp: save_orphan_def settled_def split: option.splits)

lemma upsert_tag_ids:
  assumes "upsert_tag dev n dt un desc md D = Inr (i, D')"
  shows "tag_ids D \<subseteq> tag_ids D' \<and> i \<in> tag_ids D'"
proof (cases "find (\<lambda>r. t_device_id r = dev \<and> t_tag_name r = n) (tags D)")
  case None
  with assms show ?thesis by (auto simp: upsert_tag_def tag_ids_def split: if_splits)
next
  case (Some old)
  define f :: "tag_row \<Rightarrow> tag_row" where "f r = (if t_device_id r = dev \<and> t_tag_name r = n
      then r\<lparr>t_data_type := dt, t_unit := coalesce un (t_unit r),
             t_description := coalesce desc (t_description r),
             t_metadata := coalesce md (t_metadata r)\<rparr> else r)" for r
  have "t_id ` set (map f (tags D)) = t_id ` set (tags D)"
    by (rule image_map_same) (simp add: f_def)
  moreover have "t_id old \<in> t_id ` set (tags D)" using Some by (auto simp: find_Some_iff)
  ultimately show ?thesis using assms Some
    by (auto simp: upsert_tag_def tag_ids_def f_def[abs_def] simp del: set_map)
qed

lemma save_orphan_ids: "save_orphan um msg l ts n rs D = Inr D' \<Longrightarrow> tag_ids D' = tag_ids D"
  by (auto simp: save_orphan_def tag_ids_def split: option.splits)

lemma sim_save:
  assumes "sim bw c d"
  shows "\<exists>er c' d'. OrphanRepository_Save all_done um msg l ts n rs c = (er, c')
           \<and> OrphanRepository_Save all_done um msg l ts n rs d = (er, d')
           \<and> sim bw c' d' \<and> tag_ids (db c') = tag_ids (db c)"
proof (cases "save_orphan um msg l ts n rs (db c)")
  case (Inl er)
  with assms show ?thesis
    by (simp add: OrphanRepository_Save_def outcome_simps sim_def save_orphan_settled)
next
  case (Inr D')
  from save_orphan_ids[OF Inr] have "tag_ids D' = tag_ids (db c)" .
  with assms Inr show ?thesis
    by (auto simp: OrphanRepository_Save_def outcome_simps sim_def save_orphan_settled
        elim: flushable_mono)
qed

lemma sim_create:
  assumes "sim bw c d"
  shows "\<exists>r c' d'. TagRepository_Create all_done dev n dt un desc md c = (r, c')
           \<and> TagRepository_Create all_done dev n dt un desc md d = (r, d')
           \<and> sim bw c' d' \<and> tag_ids (db c) \<subseteq> tag_ids (db c')
           \<and> (\<forall>i. r = Inr i \<longrightarrow> i \<in> tag_ids (db c'))"
proof -
  define j where "j = (if md = [] then None else Some (JObj md))"
  have eq: "TagRepository_Create all_done dev n dt un desc md x
      = exec_returning all_done (upsert_tag dev n dt un desc j) x" for x
    by (simp add: TagRepository_Create_def TagRepository_CreateOrUpdate_def j_def)
  show ?thesis
  proof (cases "upsert_tag dev n dt un desc j (db c)")
    case (Inl er)
    with assms show ?thesis unfolding eq
      by (simp add: outcome_simps sim_def upsert_tag_settled)
  next
    case (Inr p)
    obtain i D' where p: "p = (i, D')" by (cases p)
    from upsert_tag_ids[OF Inr[unfolded p]] assms Inr p show ?thesis unfolding eq
      by (auto simp: outcome_simps sim_def upsert_tag_settled elim: flushable_mono)
  qed
qed

lemma sim_resolve:
  assumes "sim bw c d" and "cache_tags_ok ca (db c)"
  shows "\<exists>t ca' c' d'. resolve_tag all_done um msg hv dev n v ca c = (t, ca', c')
           \<and> resolve_tag all_done um msg hv dev n v ca d = (t, ca', d')
           \<and> sim bw c' d' \<and> cache_tags_ok ca' (db c')
           \<and> (\<forall>tag. t = Some tag \<longrightarrow> tg_ID tag \<in> tag_ids (db c'))"
proof (cases "GetTag ca dev n")
  case (Some tag)
  with assms show ?thesis by (auto simp: resolve_tag_def cache_tags_ok_def)
next
  case None
  obtain un desc md where fe: "field_enrichment ca hv n = (un, desc, md)" by (metis surj_pair)
  obtain r c1 d1 where 1:
    "TagRepository_Create all_done dev n (determineDataType v) un desc md c = (r, c1)"
    "TagRepository_Create all_done dev n (determineDataType v) un desc md d = (r, d1)"
    "sim bw c1 d1" "tag_ids (db c) \<subseteq> tag_ids (db c1)" "\<forall>i. r = Inr i \<longrightarrow> i \<in> tag_ids (db c1)"
    using sim_create[OF assms(1)] by meson
  have ok: "cache_tags_ok ca (db c1)" using assms(2) 1(4) by (rule cache_tags_ok_mono)
  show ?thesis
  proof (cases r)
    case (Inl er)
    obtain er2 c2 d2 where 2:
      "OrphanRepository_Save all_done um msg (hv_lsid hv) (hv_timestamp hv) n
         ''failed_to_create_tag'' c1 = (er2, c2)"
      "OrphanRepository_Save all_done um msg (hv_lsid hv) (hv_timestamp hv) n
         ''failed_to_create_tag'' d1 = (er2, d2)"
      "sim bw c2 d2" "tag_ids (db c2) = tag_ids (db c1)"
      using sim_save[OF 1(3)] by meson
    from 1 2 None fe Inl ok show ?thesis
      by (simp add: resolve_tag_def) (blast intro: cache_tags_ok_mono)
  next
    case (Inr i)
    have "cache_tags_ok (SetTag dev n \<lparr>tg_ID = i, tg_DeviceID = dev, tg_TagName = n,
        tg_DataType = determineDataType v, tg_Unit = un, tg_Description = desc\<rparr> ca) (db c1)"
      using ok 1(5) Inr by (simp add: cache_tags_ok_def)
    with 1 None fe Inr show ?thesis by (simp add: resolve_tag_def Let_def)
  qed
qed

section \<open>Records\<close>

text \<open>Adding a record: pending or flushed, the settled database has it.\<close>

lemma flush_numeric_done:
  assumes "flushable bw (db c)"
  shows "\<exists>bw' c'. flushNumericLocked all_done bw c = (None, bw', c')
           \<and> settled bw' (db c') = settled bw (db c) \<and> flushable bw' (db c')
           \<and> tag_ids (db c') = tag_ids (db c) \<and> pending (bw_numeric bw') = []
           \<and> bw_text bw' = bw_text bw \<and> bw_null bw' = bw_null bw"
proof -
  have "num_lane.flushable (bw_numeric bw) (db c)" using assms by (simp add: flushable_def)
  from num_lane.flush_done[OF this, of "bw_totalFlushes bw"] obtain l n c' where
    "num_lane.flush all_done (bw_numeric bw) (bw_totalFlushes bw) c = (None, l, n, c')"
    "pending l = []" "db c' = num_lane.settled (bw_numeric bw) (db c)" by blast
  with assms show ?thesis
    by (simp add: flushNumericLocked_def settled_def num_lane.settled_def insert_new_def
        flushable_defs tag_ids_def)
qed

lemma flush_text_done:
  assumes "flushable bw (db c)"
  shows "\<exists>bw' c'. flushTextLocked all_done bw c = (None, bw', c')
           \<and> settled bw' (db c') = settled bw (db c) \<and> flushable bw' (db c')
           \<and> tag_ids (db c') = tag_ids (db c) \<and> pending (bw_text bw') = []
           \<and> bw_numeric bw' = bw_numeric bw \<and> bw_null bw' = bw_null bw"
proof -
  have "txt_lane.flushable (bw_text bw) (db c)" using assms by (simp add: flushable_def)
  from txt_lane.flush_done[OF this, of "bw_totalFlushes bw"] obtain l n c' where
    "txt_lane.flush all_done (bw_text bw) (bw_totalFlushes bw) c = (None, l, n, c')"
    "pending l = []" "db c' = txt_lane.settled (bw_text bw) (db c)" by blast
  with assms show ?thesis
    by (simp add: flushTextLocked_def settled_def txt_lane.settled_def insert_new_def
        flushable_defs tag_ids_def)
qed

lemma flush_null_done:
  assumes "flushable bw (db c)"
  shows "\<exists>bw' c'. flushNullLocked all_done bw c = (None, bw', c')
           \<and> settled bw' (db c') = settled bw (db c) \<and> flushable bw' (db c')
           \<and> tag_ids (db c') = tag_ids (db c) \<and> pending (bw_null bw') = []
           \<and> bw_numeric bw' = bw_numeric bw \<and> bw_text bw' = bw_text bw"
proof -
  have "nul_lane.flushable (bw_null bw) (db c)" using assms by (simp add: flushable_def)
  from nul_lane.flush_done[OF this, of "bw_totalFlushes bw"] obtain l n c' where
    "nul_lane.flush all_done (bw_null bw) (bw_totalFlushes bw) c = (None, l, n, c')"
    "pending l = []" "db c' = nul_lane.settled (bw_null bw) (db c)" by blast
  with assms show ?thesis
    by (simp add: flushNullLocked_def settled_def nul_lane.settled_def insert_new_def
        flushable_defs tag_ids_def)
qed

lemma FlushAll_done:
  assumes "flushable bw (db c)"
  shows "\<exists>bw' c'. FlushAll all_done bw c = (None, bw', c') \<and> db c' = settled bw (db c)
           \<and> GetBatchSizes bw' = (0, 0, 0)"
proof -
  obtain bw1 c1 where 1: "flushNumericLocked all_done bw c = (None, bw1, c1)"
    "settled bw1 (db c1) = settled bw (db c)" "flushable bw1 (db c1)"
    "pending (bw_numeric bw1) = []" using flush_numeric_done[OF assms] by blast
  obtain bw2 c2 where 2: "flushTextLocked all_done bw1 c1 = (None, bw2, c2)"
    "settled bw2 (db c2) = settled bw1 (db c1)" "flushable bw2 (db c2)"
    "pending (bw_text bw2) = []" "bw_numeric bw2 = bw_numeric bw1"
    using flush_text_done[OF 1(3)] by blast
  obtain bw3 c3 where 3: "flushNullLocked all_done bw2 c2 = (None, bw3, c3)"
    "settled bw3 (db c3) = settled bw2 (db c2)" "pending (bw_null bw3) = []"
    "bw_numeric bw3 = bw_numeric bw2" "bw_text bw3 = bw_text bw2"
    using flush_null_done[OF 2(3)] by blast
  have "settled bw3 (db c3) = db c3"
    using 1 2 3 by (simp add: settled_def insert_new_def)
  with 1 2 3 show ?thesis by (simp add: FlushAll_def GetBatchSizes_def)
qed

lemma add_numeric_sim:
  assumes "sim bw c d" and "tag \<in> tag_ids (db c)"
  shows "\<exists>bw' c' d'. AddNumeric all_done tag v ts bw c = (None, bw', c')
           \<and> RecordRepository_InsertNumeric all_done tag v ts d = (None, d')
           \<and> sim bw' c' d' \<and> tag_ids (db c') = tag_ids (db c)"
proof -
  define bw1 where "bw1 = bw\<lparr>bw_numeric := add_pending tag v ts (bw_numeric bw)\<rparr>"
  define D where "D = settled bw1 (db c)"
  have f: "flushable bw1 (db c)"
    using assms by (auto simp: sim_def bw1_def flushable_defs add_pending_def)
  have "insert_numeric [(tag, v, ts)] (db d) = Inr D"
    using assms by (simp add: insert_numeric_def insert_records_def D_def bw1_def add_pending_def
        sim_def settled_def insert_new_def tag_ids_def)
  then have "\<exists>d'. RecordRepository_InsertNumeric all_done tag v ts d = (None, d') \<and> db d' = D"
    by (simp add: RecordRepository_InsertNumeric_def outcome_simps)
  moreover have "\<exists>bw' c'. AddNumeric all_done tag v ts bw c = (None, bw', c')
      \<and> settled bw' (db c') = D \<and> flushable bw' (db c') \<and> tag_ids (db c') = tag_ids (db c)"
    using flush_numeric_done[OF f] f unfolding AddNumeric_def Let_def bw1_def[symmetric] D_def
    by auto
  ultimately show ?thesis unfolding sim_def by metis
qed

lemma add_text_sim:
  assumes "sim bw c d" and "tag \<in> tag_ids (db c)"
  shows "\<exists>bw' c' d'. AddText all_done tag v ts bw c = (None, bw', c')
           \<and> RecordRepository_InsertText all_done tag v ts d = (None, d')
           \<and> sim bw' c' d' \<and> tag_ids (db c') = tag_ids (db c)"
proof -
  define bw1 where "bw1 = bw\<lparr>bw_text := add_pending tag v ts (bw_text bw)\<rparr>"
  define D where "D = settled bw1 (db c)"
  have f: "flushable bw1 (db c)"
    using assms by (auto simp: sim_def bw1_def flushable_defs add_pending_def)
  have "insert_text [(tag, v, ts)] (db d) = Inr D"
    using assms by (simp add: insert_text_def insert_records_def D_def bw1_def add_pending_def
        sim_def settled_def insert_new_def tag_ids_def)
  then have "\<exists>d'. RecordRepository_InsertText all_done tag v ts d = (None, d') \<and> db d' = D"
    by (simp add: RecordRepository_InsertText_def outcome_simps)
  moreover have "\<exists>bw' c'. AddText all_done tag v ts bw c = (None, bw', c')
      \<and> settled bw' (db c') = D \<and> flushable bw' (db c') \<and> tag_ids (db c') = tag_ids (db c)"
    using flush_text_done[OF f] f unfolding AddText_def Let_def bw1_def[symmetric] D_def
    by auto
  ultimately show ?thesis unfolding sim_def by metis
qed

lemma add_null_sim:
  assumes "sim bw c d" and "tag \<in> tag_ids (db c)"
  shows "\<exists>bw' c' d'. AddNull all_done tag ts bw c = (None, bw', c')
           \<and> RecordRepository_InsertNull all_done tag ts d = (None, d')
           \<and> sim bw' c' d' \<and> tag_ids (db c') = tag_ids (db c)"
proof -
  define bw1 where "bw1 = bw\<lparr>bw_null := add_pending tag () ts (bw_null bw)\<rparr>"
  define D where "D = settled bw1 (db c)"
  have f: "flushable bw1 (db c)"
    using assms by (auto simp: sim_def bw1_def flushable_defs add_pending_def)
  have "insert_null [(tag, (), ts)] (db d) = Inr D"
    using assms by (simp add: insert_null_def insert_records_def D_def bw1_def add_pending_def
        sim_def settled_def insert_new_def tag_ids_def)
  then have "\<exists>d'. RecordRepository_InsertNull all_done tag ts d = (None, d') \<and> db d' = D"
    by (simp add: RecordRepository_InsertNull_def outcome_simps)
  moreover have "\<exists>bw' c'. AddNull all_done tag ts bw c = (None, bw', c')
      \<and> settled bw' (db c') = D \<and> flushable bw' (db c') \<and> tag_ids (db c') = tag_ids (db c)"
    using flush_null_done[OF f] f unfolding AddNull_def Let_def bw1_def[symmetric] D_def
    by auto
  ultimately show ?thesis unfolding sim_def by metis
qed

lemma sim_record:
  assumes "sim bw c d" and "tg_ID tag \<in> tag_ids (db c)"
  shows "\<exists>er bw' c' d'. addRecordToBatch all_done tag v ts bw c = (er, bw', c')
           \<and> RecordRepository_Insert all_done tag v ts d = (er, d')
           \<and> sim bw' c' d' \<and> tag_ids (db c') = tag_ids (db c)"
  using add_numeric_sim[OF assms] add_text_sim[OF assms] add_null_sim[OF assms] assms(1)
  unfolding addRecordToBatch_def RecordRepository_Insert_def
  by (cases v) (simp_all, (metis | blast)+)

section \<open>Messages\<close>

lemma sim_field:
  assumes "sim bw c d" and "cache_tags_ok ca (db c)"
  shows "\<exists>ca' bw' c' d'. pool_field all_done um msg hv dev field (ca, bw, c) = (ca', bw', c')
           \<and> direct_field all_done um msg hv dev field (ca, d) = (ca', d')
           \<and> sim bw' c' d' \<and> cache_tags_ok ca' (db c')"
proof -
  obtain n v where f: "field = (n, v)" by (cases field)
  obtain t ca1 c1 d1 where 1: "resolve_tag all_done um msg hv dev n v ca c = (t, ca1, c1)"
    "resolve_tag all_done um msg hv dev n v ca d = (t, ca1, d1)"
    "sim bw c1 d1" "cache_tags_ok ca1 (db c1)"
    "\<forall>tag. t = Some tag \<longrightarrow> tg_ID tag \<in> tag_ids (db c1)"
    using sim_resolve[OF assms] by meson
  show ?thesis
  proof (cases "n = ''ts'' \<or> t = None")
    case True
    with 1 f assms show ?thesis by (auto simp: pool_field_def direct_field_def)
  next
    case False
    then obtain tag where t: "t = Some tag" by auto
    obtain er bw2 c2 d2 where 2:
      "addRecordToBatch all_done tag v (hv_timestamp hv) bw c1 = (er, bw2, c2)"
      "RecordRepository_Insert all_done tag v (hv_timestamp hv) d1 = (er, d2)"
      "sim bw2 c2 d2" "tag_ids (db c2) = tag_ids (db c1)"
      using sim_record[OF 1(3)] 1(5) t by blast
    have "cache_tags_ok ca1 (db c2)" by (rule cache_tags_ok_mono[OF 1(4)]) (simp add: 2(4))
    with 1 2 f False t show ?thesis by (simp add: pool_field_def direct_field_def)
  qed
qed

lemma sim_fields:
  assumes "sim bw c d" and "cache_tags_ok ca (db c)"
  shows "\<exists>ca' bw' c' d'. fold (pool_field all_done um msg hv dev) data (ca, bw, c) = (ca', bw', c')
           \<and> fold (direct_field all_done um msg hv dev) data (ca, d) = (ca', d')
           \<and> sim bw' c' d' \<and> cache_tags_ok ca' (db c')"
  using assms
proof (induction data arbitrary: ca bw c d)
  case Nil
  then show ?case by simp
next
  case (Cons field data)
  from sim_field[OF Cons.prems, of um msg hv dev field] Cons.IH show ?case
    by (metis fold_simps(2))
qed

lemma note_type_tags [simp]: "cache_tags_ok (note_type l dvc dst ca) D = cache_tags_ok ca D"
  by (simp add: note_type_def cache_tags_ok_def)

lemma sim_message:
  assumes "sim bw c d" and "cache_tags_ok ca (db c)"
  shows "\<exists>er ca' bw' c' d'. processMessage all_done um msg ca bw c = (er, ca', bw', c')
           \<and> DataProcessor_ProcessMessage all_done um msg ca d = (er, ca', d')
           \<and> sim bw' c' d' \<and> cache_tags_ok ca' (db c')"
proof -
  define hv where "hv = read_headers (m_headers msg)"
  consider (nolsid) "hv_lsid hv = 0" | (orphan) "hv_lsid hv \<noteq> 0" "GetDevice ca (hv_lsid hv) = None"
    | (dev) device where "hv_lsid hv \<noteq> 0" "GetDevice ca (hv_lsid hv) = Some device"
    by (cases "GetDevice ca (hv_lsid hv)") auto
  then show ?thesis
  proof cases
    case nolsid
    with assms show ?thesis
      by (simp add: processMessage_def DataProcessor_ProcessMessage_def hv_def Let_def)
  next
    case orphan
    obtain er c' d' where
      "OrphanRepository_Save all_done um msg (hv_lsid hv) (hv_timestamp hv) [] ''missing_device'' c
         = (er, c')"
      "OrphanRepository_Save all_done um msg (hv_lsid hv) (hv_timestamp hv) [] ''missing_device'' d
         = (er, d')" "sim bw c' d'" "tag_ids (db c') = tag_ids (db c)"
      using sim_save[OF assms(1)] by meson
    with orphan assms(2) show ?thesis
      by (auto simp: processMessage_def DataProcessor_ProcessMessage_def hv_def Let_def
          elim: cache_tags_ok_mono)
  next
    case dev
    define ca1 where "ca1 = note_type (hv_lsid hv) device (hv_dataStructureType hv) ca"
    show ?thesis
    proof (cases "unmarshal_map um (m_value msg)")
      case None
      with dev assms show ?thesis
        by (simp add: processMessage_def DataProcessor_ProcessMessage_def hv_def Let_def)
    next
      case (Some data)
      have "cache_tags_ok ca1 (db c)" using assms(2) by (simp add: ca1_def)
      from sim_fields[OF assms(1) this] obtain ca' bw' c' d' where
        "fold (pool_field all_done um msg hv (dv_ID device)) data (ca1, bw, c) = (ca', bw', c')"
        "fold (direct_field all_done um msg hv (dv_ID device)) data (ca1, d) = (ca', d')"
        "sim bw' c' d'" "cache_tags_ok ca' (db c')" by meson
      with dev Some show ?thesis
        unfolding processMessage_def DataProcessor_ProcessMessage_def Let_def hv_def[symmetric]
        by (simp add: ca1_def[symmetric])
    qed
  qed
qed

fun run_pool ::
    "env \<Rightarrow> decoder \<Rightarrow> message list \<Rightarrow> Cache \<Rightarrow> BatchWriter \<Rightarrow> database conn
     \<Rightarrow> go_error option list \<times> Cache \<times> BatchWriter \<times> database conn" where
  "run_pool e um [] ca bw c = ([], ca, bw, c)"
| "run_pool e um (m # ms) ca bw c =
     (let (er, ca1, bw1, c1) = processMessage e um m ca bw c;
          (ers, ca2, bw2, c2) = run_pool e um ms ca1 bw1 c1
      in (er # ers, ca2, bw2, c2))"

fun run_direct ::
    "env \<Rightarrow> decoder \<Rightarrow> message list \<Rightarrow> Cache \<Rightarrow> database conn
     \<Rightarrow> go_error option list \<times> Cache \<times> database conn" where
  "run_direct e um [] ca c = ([], ca, c)"
| "run_direct e um (m # ms) ca c =
     (let (er, ca1, c1) = DataProcessor_ProcessMessage e um m ca c;
          (ers, ca2, c2) = run_direct e um ms ca1 c1
      in (er # ers, ca2, c2))"

lemma sim_run:
  assumes "sim bw c d" and "cache_tags_ok ca (db c)"
  shows "\<exists>ers ca' bw' c' d'. run_pool all_done um msgs ca bw c = (ers, ca', bw', c')
           \<and> run_direct all_done um msgs ca d = (ers, ca', d')
           \<and> sim bw' c' d' \<and> cache_tags_ok ca' (db c')"
  using assms
proof (induction msgs arbitrary: ca bw c d)
  case Nil
  then show ?case by simp
next
  case (Cons m ms)
  obtain er ca1 bw1 c1 d1 where 1: "processMessage all_done um m ca bw c = (er, ca1, bw1, c1)"
    "DataProcessor_ProcessMessage all_done um m ca d = (er, ca1, d1)"
    "sim bw1 c1 d1" "cache_tags_ok ca1 (db c1)" using sim_message[OF Cons.prems] by meson
  from Cons.IH[OF 1(3,4)] 1(1,2) show ?case by auto
qed

text \<open>
  C2: The optimised path is equivalent to the direct one.  From an empty batch writer with any flush
  size, processing any messages through the worker pool and then flushing gives every message the
  same result, the cache the same content and the database the same content as the direct path that
  inserts record by record, as long as no external call fails and the cached tags are rows.
\<close>

theorem pool_refines_direct:
  assumes "cache_tags_ok ca D"
  shows "\<exists>ers ca' bw c bw' c' d.
           run_pool all_done um msgs ca (NewBatchWriter flushSize) \<lparr>db = D, calls = 0\<rparr>
             = (ers, ca', bw, c)
         \<and> run_direct all_done um msgs ca \<lparr>db = D, calls = 0\<rparr> = (ers, ca', d)
         \<and> FlushAll all_done bw c = (None, bw', c') \<and> db c' = db d \<and> GetBatchSizes bw' = (0, 0, 0)"
proof -
  have "sim (NewBatchWriter flushSize) \<lparr>db = D, calls = 0\<rparr> \<lparr>db = D, calls = 0\<rparr>"
    by (simp add: sim_def settled_def NewBatchWriter_def insert_new_def flushable_defs)
  from sim_run[OF this, of ca um msgs] assms obtain ers ca' bw c d where
    "run_pool all_done um msgs ca (NewBatchWriter flushSize) \<lparr>db = D, calls = 0\<rparr> = (ers, ca', bw, c)"
    "run_direct all_done um msgs ca \<lparr>db = D, calls = 0\<rparr> = (ers, ca', d)" "sim bw c d" by auto
  with FlushAll_done[of bw c] show ?thesis by (auto simp: sim_def)
qed

section \<open>A concrete message\<close>

text \<open>Device 7 with the tag \<open>temp\<close>, and a message with a number, a null, a boolean and a string.\<close>

definition sample_cache :: Cache where
  "sample_cache =
     SetTag 1 ''temp'' (tag_of_row sample_tag) (SetDevice 7 (device_of_row sample_device) NewCache)"

definition sample_msg :: message where
  "sample_msg = \<lparr>m_topic = ''weather.iss'', m_partition = 0, m_offset = 3, m_key = ''7:100'',
                 m_value = ''body'',
                 m_headers = [(''lsid'', ''7''), (''timestamp'', ''100'')]\<rparr>"

definition sample_data :: json_map where
  "sample_data = [(''ts'', JNum 100), (''hum'', JNum 40), (''wind'', JNull), (''ok'', JBool True),
                  (''name'', JStr ''roof''), (''temp'', JNum 5)]"

definition sample_decoder :: decoder where
  "sample_decoder s = (if s = ''body'' then Some (JObj sample_data) else None)"

lemma sample_coherence: "cache_tags_ok sample_cache sample_db"
  by (simp add: cache_tags_ok_def sample_cache_def sample_db_def tag_ids_def tag_of_row_def
      GetTag_def NewCache_def) (simp add: SetTag_def SetDevice_def)

lemma pool_refines_direct_witness:
  "\<exists>ers ca' bw c bw' c' d.
     run_pool all_done sample_decoder [sample_msg, sample_msg] sample_cache (NewBatchWriter 2)
         \<lparr>db = sample_db, calls = 0\<rparr> = (ers, ca', bw, c)
   \<and> run_direct all_done sample_decoder [sample_msg, sample_msg] sample_cache
         \<lparr>db = sample_db, calls = 0\<rparr> = (ers, ca', d)
   \<and> FlushAll all_done bw c = (None, bw', c') \<and> db c' = db d \<and> GetBatchSizes bw' = (0, 0, 0)"
  by (rule pool_refines_direct[OF sample_coherence])

end
