(* ===== verification/Wl_Ingest.thy ===== *)
theory Wl_Ingest
  imports Wl_Refine
begin

text \<open>
  What message processing guarantees for every schedule of failures (the keys of the schema, the
  records already there, the agreement of the tag cache with the tag table), what becomes of each
  kind of JSON value, and that a numeric reading of a known device reaches its table.
\<close>

section \<open>The tag cache agrees with the tag table\<close>

definition tag_idents :: "database \<Rightarrow> (int \<times> int \<times> string) set" where
  "tag_idents D = (\<lambda>r. (t_id r, tag_key r)) ` set (tags D)"

definition cache_coherent :: "Cache \<Rightarrow> database \<Rightarrow> bool" where
  "cache_coherent ca D \<longleftrightarrow>
     (\<forall>dev n tag. GetTag ca dev n = Some tag \<longrightarrow>
        tg_DeviceID tag = dev \<and> tg_TagName tag = n \<and> (tg_ID tag, dev, n) \<in> tag_idents D)"

lemma cache_coherent_tags_ok: "cache_coherent ca D \<Longrightarrow> cache_tags_ok ca D"
  unfolding cache_coherent_def cache_tags_ok_def tag_idents_def tag_ids_def by force

lemma cache_coherent_mono:
  "cache_coherent ca D \<Longrightarrow> tag_idents D \<subseteq> tag_idents D' \<Longrightarrow> cache_coherent ca D'"
  unfolding cache_coherent_def by blast

lemma upsert_tag_idents:
  assumes "upsert_tag dev n dt un desc md D = Inr (i, D')"
  shows "tag_idents D \<subseteq> tag_idents D' \<and> (i, dev, n) \<in> tag_idents D'"
proof (cases "find (\<lambda>r. t_device_id r = dev \<and> t_tag_name r = n) (tags D)")
  case None
  with assms show ?thesis
    by (auto simp: upsert_tag_def tag_idents_def tag_key_def split: if_splits)
next
  case (Some old)
  define f :: "tag_row \<Rightarrow> tag_row" where "f r = (if t_device_id r = dev \<and> t_tag_name r = n
      then r\<lparr>t_data_type := dt, t_unit := coalesce un (t_unit r),
             t_description := coalesce desc (t_description r),
             t_metadata := coalesce md (t_metadata r)\<rparr> else r)" for r
  have "(\<lambda>r. (t_id r, tag_key r)) ` set (map f (tags D)) = (\<lambda>r. (t_id r, tag_key r)) ` set (tags D)"
    by (rule image_map_same) (simp add: f_def tag_key_def)
  moreover have "(t_id old, dev, n) \<in> (\<lambda>r. (t_id r, tag_key r)) ` set (tags D)"
    using Some by (force simp: find_Some_iff tag_key_def)
  ultimately show ?thesis using assms Some
    by (auto simp: upsert_tag_def tag_idents_def f_def[abs_def] simp del: set_map)
qed

lemma repo_step_tag_idents: "repo_step D D' \<Longrightarrow> tag_idents D \<subseteq> tag_idents D'"
proof (induction rule: repo_step.induct)
  case (upsert_tag dev nm dt un desc meta D i D')
  then show ?case by (blast dest: upsert_tag_idents)
next
  case (enrich_tag tid un desc' meta' D D')
  define f :: "tag_row \<Rightarrow> tag_row" where "f r = (if t_id r = tid
      then r\<lparr>t_unit := coalesce (t_unit r) (Some un),
             t_description := coalesce (t_description r) (Some desc'),
             t_metadata := coalesce (t_metadata r) (Some meta')\<rparr> else r)" for r
  have "(\<lambda>r. (t_id r, tag_key r)) ` set (map f (tags D)) = (\<lambda>r. (t_id r, tag_key r)) ` set (tags D)"
    by (rule image_map_same) (simp add: f_def tag_key_def)
  then show ?case using enrich_tag
    by (auto simp: enrich_tag_def tag_idents_def f_def[abs_def] simp del: set_map)
qed (auto simp: insert_defs insert_records_def upsert_device_def update_station_def
       upsert_catalog_def save_orphan_def tag_idents_def split: if_splits option.splits)

interpretation idents: db_invariant "\<lambda>D. S \<subseteq> tag_idents D" for S
  by unfold_locales (blast dest: repo_step_tag_idents)

lemma repo_steps_tag_idents: "repo_steps D D' \<Longrightarrow> tag_idents D \<subseteq> tag_idents D'"
  by (rule idents.statements) auto

lemma resolve_tag_coherent:
  assumes "resolve_tag e um msg hv dev n v ca c = (t, ca', c')" and "cache_coherent ca (db c)"
  shows "cache_coherent ca' (db c')"
proof (cases "GetTag ca dev n")
  case (Some tag)
  with assms show ?thesis by (simp add: resolve_tag_def)
next
  case None
  have mono: "tag_idents (db c) \<subseteq> tag_idents (db c')"
    using repo_steps_tag_idents[OF resolve_tag_repo[of c e um msg hv dev n v ca]] assms(1) by simp
  obtain un desc md where fe: "field_enrichment ca hv n = (un, desc, md)" by (metis surj_pair)
  obtain r c1 where cr: "TagRepository_Create e dev n (determineDataType v) un desc md c = (r, c1)"
    by (metis surj_pair)
  show ?thesis
  proof (cases r)
    case (Inl er)
    with assms cr fe None have "ca' = ca" by (simp add: resolve_tag_def Let_def)
    with assms(2) mono show ?thesis by (auto intro: cache_coherent_mono)
  next
    case (Inr i)
    with assms(1) cr fe None have eq: "c' = c1"
      "ca' = SetTag dev n \<lparr>tg_ID = i, tg_DeviceID = dev, tg_TagName = n,
               tg_DataType = determineDataType v, tg_Unit = un, tg_Description = desc\<rparr> ca"
      by (auto simp: resolve_tag_def Let_def)
    from cr Inr have "(i, dev, n) \<in> tag_idents (db c1)"
      unfolding TagRepository_Create_def TagRepository_CreateOrUpdate_def Let_def
      by (auto dest!: exec_returning_Inr dest: upsert_tag_idents)
    moreover have "cache_coherent ca (db c1)"
      using assms(2) mono eq(1) by (auto intro: cache_coherent_mono)
    ultimately show ?thesis unfolding eq cache_coherent_def by auto
  qed
qed

lemma pool_field_coherent:
  assumes "cache_coherent (fst s) (db (snd (snd s)))"
  shows "cache_coherent (fst (pool_field e um msg hv dev field s))
           (db (snd (snd (pool_field e um msg hv dev field s))))"
proof -
  obtain ca bw c where s: "s = (ca, bw, c)" by (cases s)
  obtain n v where f: "field = (n, v)" by (cases field)
  obtain t ca1 c1 where r: "resolve_tag e um msg hv dev n v ca c = (t, ca1, c1)" by (metis surj_pair)
  have 1: "cache_coherent ca1 (db c1)" using resolve_tag_coherent[OF r] assms s by simp
  show ?thesis
  proof (cases "n = ''ts'' \<or> t = None")
    case True
    with 1 r f s assms show ?thesis by (auto simp: pool_field_def)
  next
    case False
    then obtain tag where t: "t = Some tag" by auto
    obtain er bw2 c2 where a: "addRecordToBatch e tag v (hv_timestamp hv) bw c1 = (er, bw2, c2)"
      by (metis surj_pair)
    have "repo_steps (db c1) (db c2)"
      using addRecordToBatch_repo[of c1 e tag v "hv_timestamp hv" bw] a by simp
    with 1 have "cache_coherent ca1 (db c2)"
      by (blast intro: cache_coherent_mono dest: repo_steps_tag_idents)
    with False r f s t a show ?thesis by (simp add: pool_field_def)
  qed
qed

lemma note_type_coherent [simp]: "cache_coherent (note_type l dvc dst ca) D = cache_coherent ca D"
  by (simp add: note_type_def cache_coherent_def)

lemma processMessage_coherent:
  assumes "processMessage e um msg ca bw c = (er, ca', bw', c')" and "cache_coherent ca (db c)"
  shows "cache_coherent ca' (db c')"
proof -
  define hv where "hv = read_headers (m_headers msg)"
  have mono: "tag_idents (db c) \<subseteq> tag_idents (db c')"
    using repo_steps_tag_idents[OF processMessage_repo[of c e um msg ca bw]] assms(1) by simp
  have loop: "cache_coherent (fst (fold (pool_field e um msg hv dev) data (ca1, bw, c)))
      (db (snd (snd (fold (pool_field e um msg hv dev) data (ca1, bw, c)))))"
    if "cache_coherent ca1 (db c)" for dev data ca1
    by (rule fold_preserves[where P = "\<lambda>s. cache_coherent (fst s) (db (snd (snd s)))"])
      (use pool_field_coherent that in auto)
  consider (nolsid) "hv_lsid hv = 0" | (orphan) "hv_lsid hv \<noteq> 0" "GetDevice ca (hv_lsid hv) = None"
    | (dev) device where "hv_lsid hv \<noteq> 0" "GetDevice ca (hv_lsid hv) = Some device"
    by (cases "GetDevice ca (hv_lsid hv)") auto
  then show ?thesis
  proof cases
    case nolsid
    with assms show ?thesis by (simp add: processMessage_def hv_def Let_def)
  next
    case orphan
    with assms(1) have "ca' = ca"
      by (simp add: processMessage_def hv_def Let_def split: prod.splits)
    with assms(2) mono show ?thesis by (auto intro: cache_coherent_mono)
  next
    case dev
    define ca1 where "ca1 = note_type (hv_lsid hv) device (hv_dataStructureType hv) ca"
    have "cache_coherent ca1 (db c)" using assms(2) by (simp add: ca1_def)
    then have after: "cache_coherent ca2 (db c2)"
      if "fold (pool_field e um msg hv (dv_ID device)) data (ca1, bw, c) = (ca2, bw2, c2)"
      for data ca2 bw2 c2
      using loop[of ca1 "dv_ID device" data] that by simp
    show ?thesis
    proof (cases "unmarshal_map um (m_value msg)")
      case None
      with dev assms(1) \<open>cache_coherent ca1 (db c)\<close> show ?thesis
        unfolding processMessage_def Let_def hv_def[symmetric] by (simp add: ca1_def)
    next
      case (Some data)
      with dev assms(1)
      have "fold (pool_field e um msg hv (dv_ID device)) data (ca1, bw, c) = (ca', bw', c')"
        unfolding processMessage_def Let_def hv_def[symmetric]
        by (simp add: ca1_def[symmetric] split: prod.splits)
      then show ?thesis by (rule after)
    qed
  qed
qed

lemma run_pool_keeps:
  assumes "run_pool e um msgs ca bw c = (ers, ca', bw', c')" and "cache_coherent ca (db c)"
  shows "cache_coherent ca' (db c') \<and> repo_steps (db c) (db c')"
  using assms
proof (induction msgs arbitrary: ca bw c ers)
  case Nil
  then show ?case by simp
next
  case (Cons m ms)
  obtain er ca1 bw1 c1 where 1: "processMessage e um m ca bw c = (er, ca1, bw1, c1)"
    by (metis surj_pair)
  have "repo_steps (db c) (db c1)" using processMessage_repo[of c e um m ca bw] 1 by simp
  with Cons 1 processMessage_coherent[OF 1 Cons.prems(2)] show ?case
    by (fastforce split: prod.splits)
qed

lemma LoadTags_coherent:
  assumes "LoadTags e NewCache c = (er, ca, c')"
  shows "cache_coherent ca (db c')"
proof (cases "TagRepository_LoadAll e c")
  case (Pair r c1)
  have dbc: "db c1 = db c" using LoadAll_db(2)[of e c] Pair by simp
  have ts: "ts = map tag_of_row (tags (db c))" if "r = Inr ts" for ts
    using Pair that
    by (auto simp: TagRepository_LoadAll_def query_stmt_def next_outcome_def
        split: sum.splits prod.splits outcome.splits)
  have empty: "GetTag NewCache dev n = None" for dev n by (simp add: GetTag_def NewCache_def)
  show ?thesis
  proof (cases r)
    case (Inl er')
    with assms Pair show ?thesis by (auto simp: LoadTags_def cache_coherent_def GetTag_def NewCache_def)
  next
    case (Inr ts)
    have "tag \<in> set ts \<and> tg_DeviceID tag = dev \<and> tg_TagName tag = n"
      if "GetTag (fold (\<lambda>tag. SetTag (tg_DeviceID tag) (tg_TagName tag) tag) ts NewCache) dev n = Some tag"
      for dev n tag
      using that tag_store.lookup_fold_inv[of "\<lambda>t. (tg_DeviceID t, tg_TagName t)" ts NewCache "(dev, n)"]
      by (simp add: empty)
    moreover have "(tg_ID tag, tg_DeviceID tag, tg_TagName tag) \<in> tag_idents (db c')"
      if "tag \<in> set ts" for tag
      using that assms Pair Inr ts[OF Inr] dbc
      by (force simp add: LoadTags_def tag_idents_def tag_of_row_def tag_key_def)
    moreover have "ca = fold (\<lambda>tag. SetTag (tg_DeviceID tag) (tg_TagName tag) tag) ts NewCache"
      using assms Pair Inr by (simp add: LoadTags_def)
    ultimately show ?thesis unfolding cache_coherent_def by blast
  qed
qed

section \<open>Properties\<close>

text \<open>
  C6: Whatever fails and whenever, loading the tags, processing any messages through the pool and
  flushing keep the unique and foreign keys of the schema, change no record that was there, and leave
  a tag cache in which every entry is the row of its device and name.
\<close>

theorem ingest_keeps_integrity:
  assumes "LoadTags e NewCache c = (er, ca, c1)" and "run_pool e um msgs ca bw c1 = (ers, ca', bw', c2)"
    and "FlushAll e bw' c2 = (er', bw'', c3)" and "db_wf (db c)"
  shows "db_wf (db c3) \<and> records_le (db c) (db c3) \<and> cache_coherent ca' (db c3)"
proof -
  have "cache_coherent ca (db c1)" using assms(1) by (rule LoadTags_coherent)
  from run_pool_keeps[OF assms(2) this]
  have coh: "cache_coherent ca' (db c2)" and 12: "repo_steps (db c1) (db c2)" by auto
  have "db (snd (TagRepository_LoadAll e c)) = db c" by simp
  with assms(1) have 01: "db c1 = db c"
    by (cases "TagRepository_LoadAll e c") (auto simp: LoadTags_def split: sum.splits)
  have 23: "repo_steps (db c2) (db c3)" using FlushAll_repo[of c2 e bw'] assms(3) by simp
  from 12 23 01 have "repo_steps (db c) (db c3)" by (metis rtranclp_trans)
  then show ?thesis
    using wf.statements assms(4) repo_steps_records_le coh 23 repo_steps_tag_idents
    by (blast intro: cache_coherent_mono)
qed

text \<open>
  What becomes of the first value seen for a field, by its kind, once its tag was created: a null, a number and
  a string are added to the batch of their kind.  A boolean (though its tag is typed numeric) and an
  array or an object (though their tag is typed text) are rejected and nothing is added.
\<close>

theorem first_value_by_kind:
  assumes "GetTag ca dev n = None" and "resolve_tag e um msg hv dev n v ca c = (Some tag, ca', c')"
  shows "addRecordToBatch e' tag v ts bw d =
     (case v of
        JNull \<Rightarrow> AddNull e' (tg_ID tag) ts bw d
      | JNum x \<Rightarrow> AddNumeric e' (tg_ID tag) x ts bw d
      | JStr s \<Rightarrow> AddText e' (tg_ID tag) s ts bw d
      | JBool b \<Rightarrow> (Some (Err ''unsupported numeric type for value''), bw, d)
      | JArr xs \<Rightarrow> (Some (Err ''expected string value''), bw, d)
      | JObj m \<Rightarrow> (Some (Err ''expected string value''), bw, d))"
proof -
  have "tg_DataType tag = determineDataType v"
    using assms by (auto simp: resolve_tag_def Let_def split: prod.splits sum.splits)
  then show ?thesis by (cases v) (simp_all add: addRecordToBatch_def determineDataType_def)
qed

text \<open>
  C22: When the first value of a field is null, its tag is created with the type "null", and from then
  on the cached tag makes every value of the field other than null an error: no later reading of the
  field is stored.
\<close>

theorem null_first_value_locks_field:
  assumes "GetTag ca dev n = None"
    and "resolve_tag e um msg hv dev n JNull ca c = (Some tag, ca', c')" and "v \<noteq> JNull"
  shows "resolve_tag e' um' msg' hv' dev n v ca' d = (Some tag, ca', d)
         \<and> addRecordToBatch e' tag v ts bw d
             = (Some (Wrap ''unknown data type'' (Err ''null'')), bw, d)"
proof -
  have "tg_DataType tag = ''null'' \<and> GetTag ca' dev n = Some tag"
    using assms by (auto simp: resolve_tag_def determineDataType_def Let_def
        split: prod.splits sum.splits)
  then show ?thesis using assms(3) by (simp add: resolve_tag_def addRecordToBatch_def)
qed

section \<open>A reading reaches its table\<close>

lemma direct_field_other_tag:
  assumes "direct_field e um msg hv dev (n, v) (ca, c) = (ca', c')" and "n' \<noteq> n"
  shows "GetTag ca' dev n' = GetTag ca dev n'"
proof -
  obtain t ca1 c1 where r: "resolve_tag e um msg hv dev n v ca c = (t, ca1, c1)" by (metis surj_pair)
  have "GetTag ca1 dev n' = GetTag ca dev n'"
    using r assms(2)
    by (auto simp: resolve_tag_def Let_def split: option.splits prod.splits sum.splits)
  with assms(1) r show ?thesis
    by (auto simp: direct_field_def split: if_splits option.splits)
qed

lemma direct_fold:
  assumes "fold (direct_field e um msg hv dev) data (ca, c) = (ca', c')"
  shows "repo_steps (db c) (db c')"
    and "n \<notin> fst ` set data \<Longrightarrow> GetTag ca' dev n = GetTag ca dev n"
proof -
  have "repo_steps (db c) (db c') \<and> (n \<notin> fst ` set data \<longrightarrow> GetTag ca' dev n = GetTag ca dev n)"
    using assms
  proof (induction data arbitrary: ca c)
    case Nil
    then show ?case by simp
  next
    case (Cons f data)
    obtain m v where f: "f = (m, v)" by (cases f)
    obtain ca1 c1 where 1: "direct_field e um msg hv dev f (ca, c) = (ca1, c1)" by (metis surj_pair)
    have "repo_steps (db c) (db c1)" using direct_field_repo[of c e um msg hv dev f ca] 1 by simp
    moreover have "n \<noteq> m \<longrightarrow> GetTag ca1 dev n = GetTag ca dev n"
      using direct_field_other_tag[of e um msg hv dev m v ca c] 1 f by simp
    moreover have "fold (direct_field e um msg hv dev) data (ca1, c1) = (ca', c')"
      using Cons.prems 1 by simp
    ultimately show ?case using Cons.IH[of ca1 c1] f
      by (auto intro: rtranclp_trans[of repo_step])
  qed
  then show "repo_steps (db c) (db c')"
    and "n \<notin> fst ` set data \<Longrightarrow> GetTag ca' dev n = GetTag ca dev n" by auto
qed

lemma direct_fold_coherent:
  assumes "fold (direct_field e um msg hv dev) data (ca, c) = (ca', c')"
    and "cache_coherent ca (db c)"
  shows "cache_coherent ca' (db c')"
  using assms
proof (induction data arbitrary: ca c)
  case Nil
  then show ?case by simp
next
  case (Cons f data)
  obtain n v where f: "f = (n, v)" by (cases f)
  obtain t ca1 c1 where r: "resolve_tag e um msg hv dev n v ca c = (t, ca1, c1)" by (metis surj_pair)
  have 1: "cache_coherent ca1 (db c1)" using r Cons.prems(2) by (rule resolve_tag_coherent)
  have "cache_coherent ca1 (db (snd (RecordRepository_Insert e tag v ts c1)))" for tag ts
    using 1 Insert_repo[of c1 e tag v ts] by (blast intro: cache_coherent_mono dest: repo_steps_tag_idents)
  with 1 r f Cons show ?case
    by (auto simp: direct_field_def split: if_splits option.splits)
qed

lemma repo_step_device_ids: "repo_step D D' \<Longrightarrow> device_ids D \<subseteq> device_ids D'"
proof (induction rule: repo_step.induct)
  case (upsert_device row D D')
  define f where "f r = (if d_lsid r = d_lsid row
    then row\<lparr>d_id := d_id r, d_rt_data_structure_type := d_rt_data_structure_type r\<rparr> else r)" for r
  have "d_id ` set (map f (devices D)) = d_id ` set (devices D)"
    by (rule image_map_same) (simp add: f_def)
  with upsert_device show ?case
    by (auto simp: upsert_device_def device_ids_def f_def[abs_def] simp del: set_map split: if_splits)
next
  case (update_station sid nm uuid D D')
  define f where "f r = (if d_station_id r = Some sid \<or> d_station_id r = None
    then r\<lparr>d_station_id := Some sid, d_station_name := nm,
           d_station_id_uuid := stringOrNil uuid\<rparr> else r)" for r :: device_row
  have "d_id ` set (map f (devices D)) = d_id ` set (devices D)"
    by (rule image_map_same) (simp add: f_def)
  with update_station show ?case
    by (auto simp: update_station_def device_ids_def f_def[abs_def] simp del: set_map)
next
  case (upsert_tag dev nm dt un desc meta D i D')
  then show ?case by (auto simp: upsert_tag_def device_ids_def split: option.splits if_splits)
qed (auto simp: insert_defs insert_records_def enrich_tag_def upsert_catalog_def save_orphan_def
       device_ids_def split: if_splits option.splits)

interpretation dev_ids: db_invariant "\<lambda>D. i \<in> device_ids D" for i
  by unfold_locales (blast dest: repo_step_device_ids)

lemma resolve_tag_succeeds:
  assumes "dev \<in> device_ids (db c)" and "cache_coherent ca (db c)"
  shows "\<exists>tag ca' c'. resolve_tag all_done um msg hv dev n v ca c = (Some tag, ca', c')
           \<and> tg_ID tag \<in> tag_ids (db c') \<and> GetTag ca' dev n = Some tag
           \<and> tg_DataType tag = (case GetTag ca dev n of
                 None \<Rightarrow> determineDataType v | Some t \<Rightarrow> tg_DataType t)"
proof (cases "GetTag ca dev n")
  case (Some tag)
  with cache_coherent_tags_ok[OF assms(2)] show ?thesis
    by (simp add: resolve_tag_def cache_tags_ok_def)
next
  case None
  obtain un desc md where fe: "field_enrichment ca hv n = (un, desc, md)" by (metis surj_pair)
  define j where "j = (if md = [] then None else Some (JObj md))"
  have "\<exists>i D'. upsert_tag dev n (determineDataType v) un desc j (db c) = Inr (i, D')"
    using assms(1) unfolding upsert_tag_def device_ids_def
    by (cases "find (\<lambda>r. t_device_id r = dev \<and> t_tag_name r = n) (tags (db c))") simp_all
  then obtain i D' where up: "upsert_tag dev n (determineDataType v) un desc j (db c) = Inr (i, D')"
    by blast
  then have "TagRepository_Create all_done dev n (determineDataType v) un desc md c
      = (Inr i, c\<lparr>db := D', calls := Suc (calls c)\<rparr>)"
    by (simp add: TagRepository_Create_def TagRepository_CreateOrUpdate_def j_def[symmetric]
        outcome_simps)
  with None fe upsert_tag_ids[OF up] show ?thesis by (simp add: resolve_tag_def Let_def)
qed

text \<open>Rows of a tag are left alone by the fields of other names.\<close>

lemma upsert_tag_records: "upsert_tag dev n dt un desc j D = Inr (i, D') \<Longrightarrow> records_numeric D' = records_numeric D"
  by (auto simp: upsert_tag_def split: option.splits if_splits)

lemma Save_records: "records_numeric (db (snd (OrphanRepository_Save e um msg l ts nm rs c))) = records_numeric (db c)"
  unfolding OrphanRepository_Save_def
  by (rule exec_stmt_inv) (auto simp: save_orphan_def split: option.splits if_splits)

lemma resolve_tag_records:
  assumes "resolve_tag e um msg hv dev n v ca c = (t, ca', c')"
  shows "records_numeric (db c') = records_numeric (db c)"
proof (cases "GetTag ca dev n")
  case (Some tag)
  with assms show ?thesis by (simp add: resolve_tag_def)
next
  case None
  obtain un desc md where fe: "field_enrichment ca hv n = (un, desc, md)" by (metis surj_pair)
  obtain r c1 where cr: "TagRepository_Create e dev n (determineDataType v) un desc md c = (r, c1)"
    by (metis surj_pair)
  have "records_numeric (db (snd (exec_returning e (upsert_tag dev n dt un desc j) c))) = records_numeric (db c)" for dt j
    by (rule exec_returning_inv[where I = "\<lambda>D. records_numeric D = records_numeric (db c)"])
      (simp_all add: upsert_tag_records)
  then have "records_numeric (db c1) = records_numeric (db c)"
    using cr by (metis TagRepository_Create_def TagRepository_CreateOrUpdate_def snd_conv)
  with None fe cr assms show ?thesis
    by (cases r) (auto simp: resolve_tag_def Let_def Save_records)
qed

lemma Insert_other_row:
  assumes "i \<noteq> tg_ID tag"
  shows "records_numeric (db (snd (RecordRepository_Insert e tag v ts c))) (i, ts') = records_numeric (db c) (i, ts')"
proof -
  have "records_numeric (db (snd (RecordRepository_InsertNumeric e (tg_ID tag) x ts c))) (i, ts')
          = records_numeric (db c) (i, ts')" for x
    unfolding RecordRepository_InsertNumeric_def using assms
    by (intro exec_stmt_inv[where I = "\<lambda>D. records_numeric D (i, ts') = records_numeric (db c) (i, ts')"])
      (auto simp: insert_defs insert_records_def insert_new_def map_insert_new_apply split: if_splits)
  moreover have "records_numeric (db (snd (RecordRepository_InsertText e (tg_ID tag) x ts c))) = records_numeric (db c)"
    "records_numeric (db (snd (RecordRepository_InsertNull e (tg_ID tag) ts c))) = records_numeric (db c)" for x
    unfolding RecordRepository_InsertText_def RecordRepository_InsertNull_def
    by (rule exec_stmt_inv; auto simp: insert_defs insert_records_def split: if_splits)+
  ultimately show ?thesis by (simp add: RecordRepository_Insert_def split: json.splits)
qed

lemma tag_idents_unique:
  assumes "db_wf D" and "(i, dev, n) \<in> tag_idents D" and "(i, dev', n') \<in> tag_idents D"
  shows "dev' = dev \<and> n' = n"
proof -
  from assms(1) have inj: "inj_on t_id (set (tags D))" by (simp add: db_wf_def distinct_map)
  from assms(2,3) obtain r r' where "r \<in> set (tags D)" "t_id r = i" "tag_key r = (dev, n)"
    "r' \<in> set (tags D)" "t_id r' = i" "tag_key r' = (dev', n')" unfolding tag_idents_def by fastforce
  with inj_onD[OF inj, of r r'] show ?thesis by simp
qed

lemma direct_fold_other_row:
  assumes "fold (direct_field e um msg hv dev) data (ca, c) = (ca', c')" and "cache_coherent ca (db c)"
    and "n \<notin> fst ` set data" and "db_wf D" and "(i, dev, n) \<in> tag_idents D" and "tag_idents (db c') \<subseteq> tag_idents D"
  shows "records_numeric (db c') (i, ts) = records_numeric (db c) (i, ts)"
  using assms(1-3,6)
proof (induction data arbitrary: ca c)
  case Nil
  then show ?case by simp
next
  case (Cons f data)
  obtain m v where f: "f = (m, v)" by (cases f)
  obtain ca1 c1 where 1: "direct_field e um msg hv dev f (ca, c) = (ca1, c1)" by (metis surj_pair)
  then have rest: "fold (direct_field e um msg hv dev) data (ca1, c1) = (ca', c')" using Cons.prems(1) by simp
  have coh1: "cache_coherent ca1 (db c1)"
    using direct_fold_coherent[of e um msg hv dev "[f]" ca c ca1 c1] 1 Cons.prems(2) by simp
  have le: "tag_idents (db c1) \<subseteq> tag_idents D"
    using repo_steps_tag_idents[OF direct_fold(1)[OF rest]] Cons.prems(4) by blast
  have "records_numeric (db c1) (i, ts) = records_numeric (db c) (i, ts)"
  proof -
    obtain t ca2 c2 where r: "resolve_tag e um msg hv dev m v ca c = (t, ca2, c2)" by (metis surj_pair)
    note same = resolve_tag_records[OF r]
    show ?thesis
    proof (cases "m = ''ts'' \<or> t = None")
      case True
      with 1 r f same show ?thesis by (auto simp: direct_field_def split: if_splits)
    next
      case False
      then obtain tag where t: "t = Some tag" by blast
      then have c1: "ca1 = ca2" "c1 = snd (RecordRepository_Insert e tag v (hv_timestamp hv) c2)"
        using 1 r f False by (auto simp: direct_field_def)
      have "GetTag ca2 dev m = Some tag"
        using r t by (auto simp: resolve_tag_def Let_def split: option.splits prod.splits sum.splits)
      then have "(tg_ID tag, dev, m) \<in> tag_idents D" using coh1 le c1(1) by (auto simp: cache_coherent_def)
      then have "i \<noteq> tg_ID tag" using tag_idents_unique[OF assms(4,5)] Cons.prems(3) f by auto
      with same show ?thesis by (simp add: c1(2) Insert_other_row)
    qed
  qed
  with Cons.IH[OF rest coh1 _ Cons.prems(4)] Cons.prems(3) show ?case by simp
qed

lemma numeric_reading_direct:
  assumes msg: "hv = read_headers (m_headers msg)" "hv_lsid hv \<noteq> 0"
    and dev: "GetDevice ca (hv_lsid hv) = Some device" "dv_ID device \<in> device_ids (db c)"
    and data: "unmarshal_map um (m_value msg) = Some data" "distinct (map fst data)"
    and reading: "(n, JNum x) \<in> set data" "n \<noteq> ''ts''"
    and ca: "cache_coherent ca (db c)"
    and tag: "\<And>t. GetTag ca (dv_ID device) n = Some t \<Longrightarrow> tg_DataType t = ''numeric''"
    and wf: "db_wf (db c)"
    and run: "DataProcessor_ProcessMessage all_done um msg ca c = (er, ca', c')"
  shows "\<exists>i. (i, dv_ID device, n) \<in> tag_idents (db c')
             \<and> records_numeric (db c') (i, hv_timestamp hv) =
                 Some (case records_numeric (db c) (i, hv_timestamp hv) of None \<Rightarrow> x | Some w \<Rightarrow> w)"
proof -
  define d where "d = dv_ID device"
  define ca0 where "ca0 = note_type (hv_lsid hv) device (hv_dataStructureType hv) ca"
  have ca0: "cache_coherent ca0 (db c)" "GetTag ca0 d n = GetTag ca d n"
    using ca by (simp_all add: ca0_def) (simp add: note_type_def)
  obtain xs ys where split: "data = xs @ (n, JNum x) # ys" using reading(1) by (meson split_list)
  with data(2) have nxs: "n \<notin> fst ` set xs" by auto
  obtain ca1 c1 where 1: "fold (direct_field all_done um msg hv d) xs (ca0, c) = (ca1, c1)"
    by (metis surj_pair)
  have s1: "repo_steps (db c) (db c1)" and t1: "GetTag ca1 d n = GetTag ca d n"
    using direct_fold[OF 1] nxs ca0(2) by auto
  have coh1: "cache_coherent ca1 (db c1)"
    using direct_fold_coherent[OF 1 ca0(1)] .
  have "d \<in> device_ids (db c1)" using dev_ids.statements[OF s1] dev(2) d_def by simp
  from resolve_tag_succeeds[OF this coh1, of um msg hv n "JNum x"]
  obtain tg ca2 c2 where 2:
    "resolve_tag all_done um msg hv d n (JNum x) ca1 c1 = (Some tg, ca2, c2)"
    "tg_ID tg \<in> tag_ids (db c2)" "GetTag ca2 d n = Some tg" "tg_DataType tg = ''numeric''"
    using tag unfolding t1 d_def[symmetric]
    by (auto simp: determineDataType_def split: option.splits)
  have coh2: "cache_coherent ca2 (db c2)" by (rule resolve_tag_coherent[OF 2(1) coh1])
  define D3 where "D3 = (db c2)\<lparr>records_numeric := insert_new [(tg_ID tg, x, hv_timestamp hv)]
                          (records_numeric (db c2))\<rparr>"
  have "insert_numeric [(tg_ID tg, x, hv_timestamp hv)] (db c2) = Inr D3"
    using 2(2) by (simp add: insert_numeric_def insert_records_def D3_def)
  then have 3: "direct_field all_done um msg hv d (n, JNum x) (ca1, c1)
      = (ca2, c2\<lparr>db := D3, calls := Suc (calls c2)\<rparr>)"
    using 2 reading(2) by (simp add: direct_field_def RecordRepository_Insert_def
        RecordRepository_InsertNumeric_def outcome_simps)
  have "fold (direct_field all_done um msg hv d) data (ca0, c) = (ca', c')"
    using run msg dev(1) data(1)
    by (simp add: DataProcessor_ProcessMessage_def ca0_def d_def Let_def split: prod.splits)
  then have 4: "fold (direct_field all_done um msg hv d) ys
      (ca2, c2\<lparr>db := D3, calls := Suc (calls c2)\<rparr>) = (ca', c')"
    by (simp add: split 1 3)
  have s4: "repo_steps D3 (db c')" using direct_fold(1)[OF 4] by simp
  have "(tg_ID tg, d, n) \<in> tag_idents D3"
    using coh2 2(3) by (simp add: cache_coherent_def D3_def tag_idents_def)
  moreover have "records_numeric (db c') (tg_ID tg, hv_timestamp hv)
      = Some (case records_numeric (db c) (tg_ID tg, hv_timestamp hv) of None \<Rightarrow> x | Some w \<Rightarrow> w)"
  proof -
    have steps2: "repo_steps (db c1) (db c2)"
      using resolve_tag_repo[of c1 all_done um msg hv d n "JNum x" ca1] 2(1) by simp
    have "db_wf (db c2)" using wf s1 steps2 by (metis wf.statements)
    moreover have "(tg_ID tg, d, n) \<in> tag_idents (db c2)" using coh2 2(3) by (simp add: cache_coherent_def)
    ultimately have "records_numeric (db c1) (tg_ID tg, hv_timestamp hv) = records_numeric (db c) (tg_ID tg, hv_timestamp hv)"
      using direct_fold_other_row[OF 1 ca0(1) nxs] repo_steps_tag_idents[OF steps2] by blast
    then have "records_numeric D3 (tg_ID tg, hv_timestamp hv)
        = Some (case records_numeric (db c) (tg_ID tg, hv_timestamp hv) of None \<Rightarrow> x | Some w \<Rightarrow> w)"
      using resolve_tag_records[OF 2(1)]
      by (cases "records_numeric (db c) (tg_ID tg, hv_timestamp hv)")
        (simp_all add: D3_def insert_new_def map_insert_new_apply)
    then show ?thesis
      using repo_steps_records_le[OF s4] unfolding records_le_def map_le_def by (metis domIff option.distinct(1))
  qed
  ultimately show ?thesis using repo_steps_tag_idents[OF s4] unfolding d_def by blast
qed

lemma settled_wf:
  fixes c :: "database conn"
  assumes "db_wf (db c)" and "flushable bw (db c)"
  shows "db_wf (settled bw (db c))"
  using FlushAll_done[OF assms(2)] FlushAll_repo[of c all_done bw] wf.statements[OF _ assms(1)]
  by (metis snd_conv)

lemma numeric_reading_reaches_table:
  assumes "hv = read_headers (m_headers msg)" and "hv_lsid hv \<noteq> 0"
    and "GetDevice ca (hv_lsid hv) = Some device" and "dv_ID device \<in> device_ids (db c)"
    and "unmarshal_map um (m_value msg) = Some data" and "distinct (map fst data)"
    and "(n, JNum x) \<in> set data" and "n \<noteq> ''ts''"
    and "cache_coherent ca (db c)" and "flushable bw (db c)" and "db_wf (db c)"
    and "\<And>t. GetTag ca (dv_ID device) n = Some t \<Longrightarrow> tg_DataType t = ''numeric''"
    and "processMessage all_done um msg ca bw c = (er, ca', bw', c1)"
    and "FlushAll all_done bw' c1 = (er', bw'', c2)"
  shows "er' = None \<and> (\<exists>i. (i, dv_ID device, n) \<in> tag_idents (db c2)
           \<and> records_numeric (db c2) (i, hv_timestamp hv) =
               Some (case records_numeric (settled bw (db c)) (i, hv_timestamp hv) of None \<Rightarrow> x | Some w \<Rightarrow> w))"
proof -
  define d where "d = \<lparr>db = settled bw (db c), calls = 0\<rparr>"
  have "sim bw c d" using assms(10) by (simp add: sim_def d_def)
  from sim_message[OF this cache_coherent_tags_ok[OF assms(9)], of um msg] assms(13)
  obtain d' where d': "DataProcessor_ProcessMessage all_done um msg ca d = (er, ca', d')"
    and s: "sim bw' c1 d'" by auto
  have "dv_ID device \<in> device_ids (db d)" and "cache_coherent ca (db d)"
    using assms(4,9) by (simp_all add: d_def settled_def device_ids_def cache_coherent_def tag_idents_def)
  moreover have "db_wf (db d)" using settled_wf[OF assms(11,10)] by (simp add: d_def)
  ultimately have "\<exists>i. (i, dv_ID device, n) \<in> tag_idents (db d')
      \<and> records_numeric (db d') (i, hv_timestamp hv) =
          Some (case records_numeric (db d) (i, hv_timestamp hv) of None \<Rightarrow> x | Some w \<Rightarrow> w)"
    using numeric_reading_direct[OF assms(1-3) _ assms(5-8) _ assms(12) _ d'] by blast
  moreover have "er' = None \<and> db c2 = db d'"
    using FlushAll_done[of bw' c1] s assms(14) by (auto simp: sim_def)
  ultimately show ?thesis by (simp add: d_def)
qed

text \<open>
  C3: A numeric reading of a known device reaches its table.  When nothing fails, the device of the
  message is cached and has its row, and the field is new or typed numeric, then after the message and
  a flush the table \<open>records_numeric\<close> has, for the tag of that device and field and the timestamp of the
  headers, the value of the message, or the value that was stored or pending for it before, whatever the other
  fields are and in whatever order they come.
\<close>

theorem numeric_reading_is_stored:
  assumes "hv = read_headers (m_headers msg)" and "hv_lsid hv \<noteq> 0"
    and "GetDevice ca (hv_lsid hv) = Some device" and "dv_ID device \<in> device_ids (db c)"
    and "unmarshal_map um (m_value msg) = Some data" and "distinct (map fst data)"
    and "(n, JNum x) \<in> set data" and "n \<noteq> ''ts''"
    and "cache_coherent ca (db c)" and "flushable bw (db c)" and "db_wf (db c)"
    and "\<And>t. GetTag ca (dv_ID device) n = Some t \<Longrightarrow> tg_DataType t = ''numeric''"
    and "processMessage all_done um msg ca bw c = (er, ca', bw', c1)"
    and "FlushAll all_done bw' c1 = (er', bw'', c2)"
  shows "er' = None \<and> (\<exists>i. (i, dv_ID device, n) \<in> tag_idents (db c2)
           \<and> records_numeric (db c2) (i, hv_timestamp hv) =
               Some (case records_numeric (settled bw (db c)) (i, hv_timestamp hv) of None \<Rightarrow> x | Some w \<Rightarrow> w))"
  by (rule numeric_reading_reaches_table[OF assms])

section \<open>Concrete runs\<close>

lemma sample_coherent: "cache_coherent sample_cache sample_db"
  by (simp add: cache_coherent_def sample_cache_def tag_of_row_def sample_tag_def)
    (simp add: GetTag_def NewCache_def SetDevice_def tag_idents_def sample_db_def tag_key_def sample_tag_def)

lemma sample_wf: "db_wf sample_db"
  by (simp add: db_wf_def sample_db_def empty_database_def device_ids_def tag_ids_def record_tags_def
      sample_tag_def sample_device_def upsert_row_def)

definition sample_schedule :: env where
  "sample_schedule n = (if n = 3 then Refused Canceled else if n = 7 then Lost EOF else Done)"

lemma ingest_keeps_integrity_witness:
  "\<exists>er ca c1 ers ca' bw c2 er' bw' c3.
     LoadTags sample_schedule NewCache \<lparr>db = sample_db, calls = 0\<rparr> = (er, ca, c1)
   \<and> run_pool sample_schedule sample_decoder [sample_msg, sample_msg] ca (NewBatchWriter 1) c1
       = (ers, ca', bw, c2)
   \<and> FlushAll sample_schedule bw c2 = (er', bw', c3)
   \<and> db_wf (db c3) \<and> records_le sample_db (db c3) \<and> cache_coherent ca' (db c3)"
proof -
  let ?c = "\<lparr>db = sample_db, calls = 0\<rparr>"
  obtain er ca c1 where 1: "LoadTags sample_schedule NewCache ?c = (er, ca, c1)"
    by (rule prod_cases3)
  obtain ers ca' bw c2 where 2:
    "run_pool sample_schedule sample_decoder [sample_msg, sample_msg] ca (NewBatchWriter 1) c1
       = (ers, ca', bw, c2)"
    by (rule prod_cases4)
  obtain er' bw' c3 where 3: "FlushAll sample_schedule bw c2 = (er', bw', c3)"
    by (rule prod_cases3)
  from ingest_keeps_integrity[OF 1 2 3] sample_wf
  have "db_wf (db c3) \<and> records_le sample_db (db c3) \<and> cache_coherent ca' (db c3)" by simp
  with 1 2 3 show ?thesis by blast
qed

lemma sample_new_tag:
  assumes "n \<in> {''wind'', ''ok''}"
  shows "GetTag sample_cache 1 n = None"
    and "resolve_tag all_done sample_decoder sample_msg (read_headers []) 1 n v sample_cache
           \<lparr>db = sample_db, calls = 0\<rparr>
         = (Some \<lparr>tg_ID = 2, tg_DeviceID = 1, tg_TagName = n, tg_DataType = determineDataType v,
                  tg_Unit = None, tg_Description = None\<rparr>,
            SetTag 1 n \<lparr>tg_ID = 2, tg_DeviceID = 1, tg_TagName = n, tg_DataType = determineDataType v,
                  tg_Unit = None, tg_Description = None\<rparr> sample_cache,
            \<lparr>db = sample_db\<lparr>tags := [sample_tag, \<lparr>t_id = 2, t_device_id = 1, t_tag_name = n,
                       t_data_type = determineDataType v, t_unit = None, t_description = None,
                       t_metadata = None\<rparr>], next_tag_id := 3\<rparr>, calls = 1\<rparr>)"
proof -
  show new: "GetTag sample_cache 1 n = None"
    using assms by (auto simp: sample_cache_def GetTag_def NewCache_def SetTag_def SetDevice_def
        tag_cache_key_inj)
  have "field_enrichment sample_cache (read_headers []) n = (None, None, [])"
    by (simp add: field_enrichment_def read_headers_def)
  moreover have "n \<noteq> ''temp''" using assms by auto
  ultimately show "resolve_tag all_done sample_decoder sample_msg (read_headers []) 1 n v sample_cache
           \<lparr>db = sample_db, calls = 0\<rparr>
         = (Some \<lparr>tg_ID = 2, tg_DeviceID = 1, tg_TagName = n, tg_DataType = determineDataType v,
                  tg_Unit = None, tg_Description = None\<rparr>,
            SetTag 1 n \<lparr>tg_ID = 2, tg_DeviceID = 1, tg_TagName = n, tg_DataType = determineDataType v,
                  tg_Unit = None, tg_Description = None\<rparr> sample_cache,
            \<lparr>db = sample_db\<lparr>tags := [sample_tag, \<lparr>t_id = 2, t_device_id = 1, t_tag_name = n,
                       t_data_type = determineDataType v, t_unit = None, t_description = None,
                       t_metadata = None\<rparr>], next_tag_id := 3\<rparr>, calls = 1\<rparr>)"
    using new by (simp add: resolve_tag_def TagRepository_Create_def TagRepository_CreateOrUpdate_def
        outcome_simps upsert_tag_def Let_def sample_db_def sample_tag_def sample_device_def
        upsert_row_def)
qed

lemma first_value_by_kind_witness:
  "\<exists>tag ca' c'. resolve_tag all_done sample_decoder sample_msg (read_headers []) 1 ''ok'' (JBool True)
       sample_cache \<lparr>db = sample_db, calls = 0\<rparr> = (Some tag, ca', c')
     \<and> tg_DataType tag = ''numeric''
     \<and> addRecordToBatch all_done tag (JBool True) 100 (NewBatchWriter 5) c'
         = (Some (Err ''unsupported numeric type for value''), NewBatchWriter 5, c')"
  using first_value_by_kind[OF sample_new_tag(1) sample_new_tag(2)[where v = "JBool True"], of "''ok''"]
    sample_new_tag(2)[of "''ok''" "JBool True"]
  by (simp add: determineDataType_def)

lemma null_first_value_locks_field_witness:
  "\<exists>tag ca' c'. resolve_tag all_done sample_decoder sample_msg (read_headers []) 1 ''wind'' JNull
       sample_cache \<lparr>db = sample_db, calls = 0\<rparr> = (Some tag, ca', c')
     \<and> addRecordToBatch all_done tag (JNum 12) 200 (NewBatchWriter 5) c'
         = (Some (Wrap ''unknown data type'' (Err ''null'')), NewBatchWriter 5, c')"
proof -
  note new = sample_new_tag[of "''wind''"]
  have "JNum 12 \<noteq> JNull" by simp
  from null_first_value_locks_field[OF new(1) new(2)[where v = JNull] this] new(2)[where v = JNull]
  show ?thesis by simp
qed

lemma sample_headers:
  "read_headers (m_headers sample_msg)
     = \<lparr>hv_lsid = 7, hv_timestamp = 100, hv_sensorType = 0, hv_dataStructureType = 0\<rparr>"
  by code_simp

lemma numeric_reading_is_stored_witness:
  "\<exists>er ca' bw' c1 er' bw'' c2 i.
     processMessage all_done sample_decoder sample_msg sample_cache (NewBatchWriter 2)
       \<lparr>db = sample_db, calls = 0\<rparr> = (er, ca', bw', c1)
   \<and> FlushAll all_done bw' c1 = (er', bw'', c2)
   \<and> (i, 1, ''temp'') \<in> tag_idents (db c2) \<and> records_numeric (db c2) (i, 100) = Some 5"
proof -
  let ?bw = "NewBatchWriter 2" and ?c = "\<lparr>db = sample_db, calls = 0\<rparr>"
  let ?dev = "device_of_row sample_device"
  obtain er ca' bw' c1 where 1:
    "processMessage all_done sample_decoder sample_msg sample_cache ?bw ?c = (er, ca', bw', c1)"
    by (metis surj_pair)
  obtain er' bw'' c2 where 2: "FlushAll all_done bw' c1 = (er', bw'', c2)" by (metis surj_pair)
  have dev: "GetDevice sample_cache 7 = Some ?dev" by (simp add: sample_cache_def)
  have id: "dv_ID ?dev = 1" by (simp add: device_of_row_def sample_device_def)
  have row: "dv_ID ?dev \<in> device_ids (db ?c)"
    unfolding id by (simp add: device_ids_def sample_db_def sample_device_def)
  have um: "unmarshal_map sample_decoder (m_value sample_msg) = Some sample_data"
    by (simp add: unmarshal_map_def sample_decoder_def sample_msg_def)
  have dist: "distinct (map fst sample_data)" by (simp add: sample_data_def)
  have mem: "(''temp'', JNum 5) \<in> set sample_data" by (simp add: sample_data_def)
  have fl: "flushable ?bw (db ?c)" by (simp add: flushable_defs NewBatchWriter_def)
  have wf: "db_wf (db ?c)" using sample_wf by simp
  have dtype: "tg_DataType t = ''numeric''" if "GetTag sample_cache (dv_ID ?dev) ''temp'' = Some t" for t
    using that unfolding id by (simp add: sample_cache_def tag_of_row_def sample_tag_def)
      (metis Tag.select_convs(4))
  have coh: "cache_coherent sample_cache (db ?c)" using sample_coherent by simp
  have old: "records_numeric (settled ?bw (db ?c)) (i, 100) = None" for i
    by (simp add: settled_def NewBatchWriter_def insert_new_def sample_db_def empty_database_def)
  have "\<exists>i. (i, dv_ID ?dev, ''temp'') \<in> tag_idents (db c2) \<and> records_numeric (db c2) (i, 100) = Some 5"
    using numeric_reading_is_stored[OF sample_headers[symmetric] _ _ row um dist mem _ coh fl wf dtype 1 2] old
    by (simp add: dev)
  with 1 2 id show ?thesis by auto
qed

end
