(* ===== verification/Wl_Metadata.thy ===== *)
theory Wl_Metadata
  imports Wl_Ingest
begin

text \<open>
  The other inputs of \<open>weatherlink-sql\<close>: sensor and station metadata (\<open>service/metadata.go\<close>), the
  sensor catalog (\<open>service/catalog.go\<close>) and the enrichment of tags from it (\<open>service/enrichment.go\<close>).

  Marshalling a decoded object back to JSON gives the object (\<open>TagRepository_Enrich\<close> takes the value);
  the text of a decoding error is not modelled.
\<close>

section \<open>metadata.go\<close>

definition LoadDevices :: "env \<Rightarrow> Cache \<Rightarrow> database conn \<Rightarrow> go_error option \<times> Cache \<times> database conn" where
  "LoadDevices e ca c =
     (case DeviceRepository_LoadAll e c of
        (Inl er, c') \<Rightarrow> (Some (Wrap ''failed to load devices'' er), ca, c')
      | (Inr ds, c') \<Rightarrow> (None, fold (\<lambda>d. SetDevice (dv_LSID d) d) ds ca, c'))"

text \<open>The loop over the stations: the first failing update saves the message and ends it.\<close>

fun update_stations ::
    "env \<Rightarrow> decoder \<Rightarrow> message \<Rightarrow> json list \<Rightarrow> database conn \<Rightarrow> go_error option \<times> database conn" where
  "update_stations e um msg [] c = (None, c)"
| "update_stations e um msg (st # sts) c =
     (case as_obj (Some st) of
        None \<Rightarrow> update_stations e um msg sts c
      | Some station \<Rightarrow>
          (case as_num (map_of station ''station_id'') of
             None \<Rightarrow> update_stations e um msg sts c
           | Some stationID \<Rightarrow>
               (case DeviceRepository_UpdateStationInfo e (int_of_float stationID)
                       (str_or_empty station ''station_name'')
                       (str_or_empty station ''station_id_uuid'') c of
                  (Some er, c1) \<Rightarrow>
                    (Some (Wrap ''failed to update station info'' er),
                     snd (OrphanRepository_Save e um msg 0 0 []
                            (''failed to update station info for station_id ''
                             @ itoa (int_of_float stationID) @ '': '' @ error_text er) c1))
                | (None, c1) \<Rightarrow> update_stations e um msg sts c1)))"

definition processStationMetadata ::
    "env \<Rightarrow> decoder \<Rightarrow> message \<Rightarrow> json list \<Rightarrow> Cache \<Rightarrow> database conn
     \<Rightarrow> go_error option \<times> Cache \<times> database conn" where
  "processStationMetadata e um msg stations ca c =
     (if stations = [] then (Some (Err ''stations array is empty''), ca, c)
      else case update_stations e um msg stations c of
             (Some er, c1) \<Rightarrow> (Some er, ca, c1)
           | (None, c1) \<Rightarrow> LoadDevices e ca c1)"

definition MetadataProcessor_ProcessMessage ::
    "env \<Rightarrow> decoder \<Rightarrow> message \<Rightarrow> Cache \<Rightarrow> database conn
     \<Rightarrow> go_error option \<times> Cache \<times> database conn" where
  "MetadataProcessor_ProcessMessage e um msg ca c =
     (case unmarshal_map um (m_value msg) of
        None \<Rightarrow>
          (Some (Err ''failed to parse metadata''), ca,
           snd (OrphanRepository_Save e um msg 0 0 [] ''failed to parse metadata'' c))
      | Some metadata \<Rightarrow>
          (case as_arr (map_of metadata ''stations'') of
             Some stations \<Rightarrow> processStationMetadata e um msg stations ca c
           | None \<Rightarrow>
               (case as_num (map_of metadata ''lsid'') of
                  None \<Rightarrow>
                    (Some (Err ''missing or invalid lsid in metadata''), ca,
                     snd (OrphanRepository_Save e um msg 0 0 []
                            ''missing or invalid lsid in metadata'' c))
                | Some lsid \<Rightarrow>
                    (case DeviceRepository_Upsert e metadata c of
                       (Some er, c1) \<Rightarrow>
                         (Some (Wrap ''failed to upsert device'' er), ca,
                          snd (OrphanRepository_Save e um msg (int_of_float lsid) 0 []
                                 (''failed to upsert device: '' @ error_text er) c1))
                     | (None, c1) \<Rightarrow> LoadDevices e ca c1))))"

section \<open>catalog.go\<close>

definition LoadCatalog :: "env \<Rightarrow> Cache \<Rightarrow> database conn \<Rightarrow> go_error option \<times> Cache \<times> database conn" where
  "LoadCatalog e ca c =
     (case CatalogRepository_LoadAll e c of
        (Inl er, c') \<Rightarrow> (Some er, ca, c')
      | (Inr None, c') \<Rightarrow> (None, ca, c')
      | (Inr (Some entries), c') \<Rightarrow>
          (None, fold (\<lambda>m. SetCatalogMetadata (fm_SensorType m) (fm_DataStructureType m)
                             (fm_FieldName m) m) entries ca, c'))"

definition catalog_field ::
    "env \<Rightarrow> int \<Rightarrow> string \<Rightarrow> string \<Rightarrow> string \<times> json \<Rightarrow> Cache \<times> database conn
     \<Rightarrow> Cache \<times> database conn" where
  "catalog_field e sensorType dsType dsDescription field s =
     (let (fieldName, fieldDef) = field; (ca, c) = s in
      case as_obj (Some fieldDef) of
        None \<Rightarrow> (ca, c)
      | Some fieldDefMap \<Rightarrow>
          let fieldType = str_or_empty fieldDefMap ''type'';
              un = str_or_empty fieldDefMap ''units''
          in case CatalogRepository_Upsert e sensorType dsType fieldName fieldType un dsDescription c of
               (Some _, c1) \<Rightarrow> (ca, c1)
             | (None, c1) \<Rightarrow>
                 (SetCatalogMetadata sensorType dsType fieldName
                    \<lparr>fm_FieldName = fieldName, fm_FieldType = fieldType, fm_Units = un,
                     fm_Description = dsDescription, fm_DataStructureType = dsType,
                     fm_SensorType = sensorType, fm_RawMetadata = fieldDefMap\<rparr> ca, c1))"

definition catalog_structure ::
    "env \<Rightarrow> int \<Rightarrow> json \<Rightarrow> Cache \<times> database conn \<Rightarrow> Cache \<times> database conn" where
  "catalog_structure e sensorType ds s =
     (case as_obj (Some ds) of
        None \<Rightarrow> s
      | Some dsMap \<Rightarrow>
          (case as_str (map_of dsMap ''data_structure_type'') of
             None \<Rightarrow> s
           | Some dsType \<Rightarrow>
               (case as_obj (map_of dsMap ''data_structure'') of
                  None \<Rightarrow> s
                | Some dataStructure \<Rightarrow>
                    fold (catalog_field e sensorType dsType (str_or_empty dsMap ''description''))
                         dataStructure s)))"

definition processSensorType ::
    "env \<Rightarrow> json_map \<Rightarrow> Cache \<times> database conn \<Rightarrow> go_error option \<times> Cache \<times> database conn" where
  "processSensorType e sensorTypeMap s =
     (case as_num (map_of sensorTypeMap ''sensor_type'') of
        None \<Rightarrow> (Some (Err ''missing sensor_type in catalog message''), s)
      | Some sensorType \<Rightarrow>
          (case as_arr (map_of sensorTypeMap ''data_structures'') of
             None \<Rightarrow> (Some (Err ''missing data_structures in catalog message''), s)
           | Some dataStructures \<Rightarrow>
               (None, fold (catalog_structure e (int_of_float sensorType)) dataStructures s)))"

definition sensor_type_entry :: "env \<Rightarrow> json \<Rightarrow> Cache \<times> database conn \<Rightarrow> Cache \<times> database conn" where
  "sensor_type_entry e st s =
     (case as_obj (Some st) of None \<Rightarrow> s | Some m \<Rightarrow> snd (processSensorType e m s))"

definition CatalogProcessor_ProcessMessage ::
    "env \<Rightarrow> decoder \<Rightarrow> message \<Rightarrow> Cache \<times> database conn
     \<Rightarrow> go_error option \<times> Cache \<times> database conn" where
  "CatalogProcessor_ProcessMessage e um msg s =
     (case unmarshal_map um (m_value msg) of
        None \<Rightarrow> (Some (Err ''failed to parse catalog''), s)
      | Some catalogData \<Rightarrow>
          (case as_arr (map_of catalogData ''sensor_types'') of
             Some sensorTypes \<Rightarrow> (None, fold (sensor_type_entry e) sensorTypes s)
           | None \<Rightarrow>
               if map_of catalogData ''sensor_type'' \<noteq> None
               then processSensorType e catalogData s
               else (Some (Err ''missing sensor_types in catalog''), s)))"

section \<open>enrichment.go\<close>

definition update_cached_tag :: "int \<Rightarrow> string \<Rightarrow> FieldMetadata \<Rightarrow> Cache \<Rightarrow> Cache" where
  "update_cached_tag deviceID tagName fm ca =
     (case GetTag ca deviceID tagName of
        None \<Rightarrow> ca
      | Some tag \<Rightarrow> SetTag deviceID tagName
                      (tag\<lparr>tg_Unit := Some (fm_Units fm), tg_Description := Some (fm_Description fm)\<rparr>) ca)"

definition enrich_one ::
    "env \<Rightarrow> TagEnrichmentInfo \<Rightarrow> Cache \<times> database conn \<Rightarrow> Cache \<times> database conn" where
  "enrich_one e info s =
     (let (ca, c) = s in
      case te_DataStructureType info of
        None \<Rightarrow> (ca, c)
      | Some dst \<Rightarrow>
          (case GetCatalogMetadata ca (te_SensorType info) dst (te_TagName info) of
             None \<Rightarrow> (ca, c)
           | Some fm \<Rightarrow>
               (case TagRepository_Enrich e (te_TagID info) (fm_Units fm) (fm_Description fm)
                       (JObj (tag_metadata fm)) c of
                  (Some _, c1) \<Rightarrow> (ca, c1)
                | (None, c1) \<Rightarrow> (update_cached_tag (te_DeviceID info) (te_TagName info) fm ca, c1))))"

definition EnrichTags :: "env \<Rightarrow> Cache \<times> database conn \<Rightarrow> go_error option \<times> Cache \<times> database conn" where
  "EnrichTags e s =
     (let (ca, c) = s in
      case TagRepository_FindTagsNeedingEnrichment e c of
        (Inl er, c1) \<Rightarrow> (Some er, ca, c1)
      | (Inr ts, c1) \<Rightarrow> (None, fold (enrich_one e) ts (ca, c1)))"

definition EnrichTag ::
    "env \<Rightarrow> int \<Rightarrow> int \<Rightarrow> string \<Rightarrow> int \<Rightarrow> int \<Rightarrow> Cache \<times> database conn
     \<Rightarrow> go_error option \<times> Cache \<times> database conn" where
  "EnrichTag e tagID deviceID tagName sensorType dataStructureType s =
     (let (ca, c) = s in
      case GetCatalogMetadata ca sensorType dataStructureType tagName of
        None \<Rightarrow> (Some (Err (''no catalog metadata found for tag '' @ tagName)), ca, c)
      | Some fm \<Rightarrow>
          (case TagRepository_Enrich e tagID (fm_Units fm) (fm_Description fm)
                  (JObj (tag_metadata fm)) c of
             (Some er, c1) \<Rightarrow> (Some (Wrap (''failed to enrich tag '' @ itoa tagID) er), ca, c1)
           | (None, c1) \<Rightarrow> (None, update_cached_tag deviceID tagName fm ca, c1)))"

section \<open>Everything is a sequence of statements\<close>

lemma LoadAll_dbD:
  "DeviceRepository_LoadAll e c = (r1, c1) \<Longrightarrow> db c1 = db c"
  "TagRepository_LoadAll e c = (r2, c2) \<Longrightarrow> db c2 = db c"
  "CatalogRepository_LoadAll e c = (r3, c3) \<Longrightarrow> db c3 = db c"
  using LoadAll_db(1-3)[of e c] by (simp_all del: LoadAll_db)

lemma Load_db [simp]:
  "db (snd (snd (LoadDevices e ca c))) = db c"
  "db (snd (snd (LoadTags e ca c))) = db c"
  "db (snd (snd (LoadCatalog e ca c))) = db c"
  by (auto simp: LoadDevices_def LoadTags_def LoadCatalog_def
      split: prod.splits sum.splits option.splits dest: LoadAll_dbD)

lemma update_stations_repo [repo_intros]:
  "repo_steps (db c) (db (snd (update_stations e um msg sts c)))"
proof (induction e um msg sts c rule: update_stations.induct)
  case (2 e um msg st sts c)
  show ?case
  proof (cases "\<exists>station i. as_obj (Some st) = Some station
                  \<and> as_num (map_of station ''station_id'') = Some i")
    case True
    then obtain station i where st: "as_obj (Some st) = Some station"
      and i: "as_num (map_of station ''station_id'') = Some i" by blast
    obtain r c1 where u: "DeviceRepository_UpdateStationInfo e (int_of_float i)
        (str_or_empty station ''station_name'') (str_or_empty station ''station_id_uuid'') c = (r, c1)"
      by (metis surj_pair)
    have 1: "repo_steps (db c) (db c1)"
      using UpdateStationInfo_repo[of c e "int_of_float i" "str_or_empty station ''station_name''"
          "str_or_empty station ''station_id_uuid''"] u by simp
    show ?thesis
    proof (cases r)
      case None
      with 2(3)[OF st i u[symmetric]] st i u 1 show ?thesis by (auto intro: rtranclp_trans)
    next
      case (Some er)
      with st i u 1 show ?thesis
        by (auto intro: rtranclp_trans[OF _ Save_repo])
    qed
  next
    case False
    then show ?thesis using 2(1,2) by (auto split: option.splits)
  qed
qed simp

lemma MetadataProcessor_repo [repo_intros]:
  "repo_steps (db c) (db (snd (snd (MetadataProcessor_ProcessMessage e um msg ca c))))"
proof -
  have st: "repo_steps (db c) (db (snd (snd (processStationMetadata e um msg sts ca c))))" for sts
    using update_stations_repo[of c e um msg sts]
    by (auto simp: processStationMetadata_def split: prod.splits option.splits)
  have up: "repo_steps (db c) (db c1)" if "DeviceRepository_Upsert e m c = (r, c1)" for m r c1
    using Upsert_repo[of c e m] that by simp
  show ?thesis
    using st up
    by (auto simp: MetadataProcessor_ProcessMessage_def Save_repo
        split: option.splits prod.splits intro: rtranclp_trans[OF _ Save_repo])
qed

lemma catalog_field_repo:
  "repo_steps (db (snd s)) (db (snd (catalog_field e st ds desc field s)))"
proof -
  obtain n v where f: "field = (n, v)" by (cases field)
  have "repo_steps (db (snd s)) (db c1)"
    if "CatalogRepository_Upsert e st ds n ft un desc (snd s) = (r, c1)" for ft un r c1
    using CatalogUpsert_repo[of "snd s" e st ds n ft un desc] that by simp
  then show ?thesis
    by (auto simp: catalog_field_def f Let_def split: option.splits prod.splits)
qed

lemma catalog_structure_repo:
  "repo_steps (db (snd s)) (db (snd (catalog_structure e st ds s)))"
  unfolding catalog_structure_def
  by (auto split: option.splits intro: fold_repo[where g = "\<lambda>s. db (snd s)"] catalog_field_repo)

lemma processSensorType_repo:
  "repo_steps (db (snd s)) (db (snd (snd (processSensorType e m s))))"
  unfolding processSensorType_def
  by (auto split: option.splits intro: fold_repo[where g = "\<lambda>s. db (snd s)"] catalog_structure_repo)

lemma CatalogProcessor_repo [repo_intros]:
  "repo_steps (db (snd s)) (db (snd (snd (CatalogProcessor_ProcessMessage e um msg s))))"
proof -
  have "repo_steps (db (snd s)) (db (snd (sensor_type_entry e st s)))" for st s
    by (auto simp: sensor_type_entry_def processSensorType_repo split: option.splits)
  then have "repo_steps (db (snd s)) (db (snd (fold (sensor_type_entry e) sts s)))" for sts
    by (intro fold_repo[where g = "\<lambda>s. db (snd s)"])
  then show ?thesis
    by (auto simp: CatalogProcessor_ProcessMessage_def processSensorType_repo split: option.splits)
qed

lemma enrich_one_repo: "repo_steps (db (snd s)) (db (snd (enrich_one e info s)))"
proof -
  have "repo_steps (db (snd s)) (db c1)"
    if "TagRepository_Enrich e tid un desc m (snd s) = (r, c1)" for tid un desc m r c1
    using Enrich_repo[of "snd s" e tid un desc m] that by simp
  then show ?thesis by (auto simp: enrich_one_def split: option.splits prod.splits)
qed

lemma EnrichTags_repo [repo_intros]:
  "repo_steps (db (snd s)) (db (snd (snd (EnrichTags e s))))"
proof -
  obtain ca c where s: "s = (ca, c)" by (cases s)
  obtain r c1 where q: "TagRepository_FindTagsNeedingEnrichment e c = (r, c1)" by (metis surj_pair)
  have "db c1 = db c" using LoadAll_db(4)[of e c] q by simp
  then show ?thesis
    using fold_repo[where g = "\<lambda>s. db (snd s)" and f = "enrich_one e" and s = "(ca, c1)",
        OF enrich_one_repo] q s
    by (auto simp: EnrichTags_def split: sum.splits)
qed

section \<open>Properties\<close>

text \<open>
  The enrichment of stored tags never does anything.  The column it depends on is written by no
  statement the service issues, so in every database the service can produce from one where the column
  is empty, \<open>EnrichTags\<close> finds no tag, writes nothing and leaves the cache alone.
\<close>

theorem enrichment_finds_nothing:
  assumes "no_rt_type D" and "repo_steps D (db c)"
  shows "fst (snd (EnrichTags e (ca, c))) = ca \<and> db (snd (snd (EnrichTags e (ca, c)))) = db c"
proof -
  have empty: "needs_enrichment (db c) = []"
    using rt.statements[OF assms(2,1)] by (rule needs_enrichment_empty)
  obtain r c1 where q: "TagRepository_FindTagsNeedingEnrichment e c = (r, c1)" by (metis surj_pair)
  have "db c1 = db c" using LoadAll_db(4)[of e c] q by simp
  moreover have "r = Inr ts \<Longrightarrow> ts = []" for ts
    using q empty by (auto simp: TagRepository_FindTagsNeedingEnrichment_def query_stmt_def
        next_outcome_def split: outcome.splits sum.splits prod.splits)
  ultimately show ?thesis using q by (cases r) (auto simp: EnrichTags_def)
qed

text \<open>
  A metadata message whose body is not JSON cannot be kept as an orphan: the column for the body
  takes JSON only, so the save fails whatever the connection does, and the message leaves no trace.
\<close>

theorem unparsable_metadata_is_lost:
  assumes "um (m_value msg) = None"
  shows "fst (MetadataProcessor_ProcessMessage e um msg ca c) = Some (Err ''failed to parse metadata'')
         \<and> fst (snd (MetadataProcessor_ProcessMessage e um msg ca c)) = ca
         \<and> db (snd (snd (MetadataProcessor_ProcessMessage e um msg ca c))) = db c"
  using assms
  by (simp add: MetadataProcessor_ProcessMessage_def unmarshal_map_def OrphanRepository_Save_def
      exec_stmt_def next_outcome_def save_orphan_def split: outcome.splits)

section \<open>Concrete runs\<close>

lemma enrichment_finds_nothing_witness:
  "fst (snd (EnrichTags all_done (sample_cache, \<lparr>db = sample_db, calls = 0\<rparr>))) = sample_cache
   \<and> db (snd (snd (EnrichTags all_done (sample_cache, \<lparr>db = sample_db, calls = 0\<rparr>)))) = sample_db"
proof -
  have "no_rt_type sample_db"
    by (simp add: no_rt_type_def sample_db_def sample_device_def upsert_row_def)
  from enrichment_finds_nothing[OF this, of "\<lparr>db = sample_db, calls = 0\<rparr>" all_done sample_cache]
  show ?thesis by simp
qed

lemma unparsable_metadata_is_lost_witness:
  "fst (MetadataProcessor_ProcessMessage all_done (\<lambda>s. None) sample_msg NewCache
          \<lparr>db = sample_db, calls = 0\<rparr>) = Some (Err ''failed to parse metadata'')
   \<and> db (snd (snd (MetadataProcessor_ProcessMessage all_done (\<lambda>s. None) sample_msg NewCache
          \<lparr>db = sample_db, calls = 0\<rparr>))) = sample_db"
  using unparsable_metadata_is_lost[of "\<lambda>s. None" sample_msg all_done NewCache
      "\<lparr>db = sample_db, calls = 0\<rparr>"] by simp

end
