(* ===== verification/Wl_Service.thy ===== *)
theory Wl_Service
  imports Wl_Metadata
begin

text \<open>
  The materializer (\<open>service/materializer.go\<close>) with its listeners and its worker pool as one state
  machine.  A step is one message read and submitted, one offset committed, one message processed by
  a worker, one metadata or catalog message, or one tick of the flusher; the steps of the goroutines
  come in any order.  Inside a step nothing interleaves: two workers that meet in the middle of a
  message only exchange statements, each of which the invariants hold for (\<open>db_invariant\<close>).
\<close>

section \<open>Devices and catalog entries in the cache\<close>

definition device_idents :: "database \<Rightarrow> (int \<times> int) set" where
  "device_idents D = (\<lambda>r. (d_id r, d_lsid r)) ` set (devices D)"

definition devices_coherent :: "Cache \<Rightarrow> database \<Rightarrow> bool" where
  "devices_coherent ca D \<longleftrightarrow> (\<forall>l d. GetDevice ca l = Some d \<longrightarrow> (dv_ID d, l) \<in> device_idents D)"

definition catalog_idents :: "database \<Rightarrow> (int \<times> string \<times> string) set" where
  "catalog_idents D = catalog_key ` set (sensor_catalog D)"

definition catalog_coherent :: "Cache \<Rightarrow> database \<Rightarrow> bool" where
  "catalog_coherent ca D \<longleftrightarrow>
     (\<forall>st ds fn m. catalog_at ca (itoa st) ds fn = Some m \<longrightarrow> (st, ds, fn) \<in> catalog_idents D)"

lemma repo_step_idents:
  "repo_step D D' \<Longrightarrow> device_idents D \<subseteq> device_idents D' \<and> catalog_idents D \<subseteq> catalog_idents D'"
proof (induction rule: repo_step.induct)
  case (upsert_device row D D')
  define f where "f r = (if d_lsid r = d_lsid row
    then row\<lparr>d_id := d_id r, d_rt_data_structure_type := d_rt_data_structure_type r\<rparr> else r)" for r
  have "(\<lambda>r. (d_id r, d_lsid r)) ` set (map f (devices D)) = (\<lambda>r. (d_id r, d_lsid r)) ` set (devices D)"
    by (rule image_map_same) (simp add: f_def)
  with upsert_device show ?case
    by (auto simp: upsert_device_def device_idents_def catalog_idents_def f_def[abs_def]
        simp del: set_map split: if_splits)
next
  case (update_station sid nm uuid D D')
  define f where "f r = (if d_station_id r = Some sid \<or> d_station_id r = None
    then r\<lparr>d_station_id := Some sid, d_station_name := nm,
           d_station_id_uuid := stringOrNil uuid\<rparr> else r)" for r :: device_row
  have "(\<lambda>r. (d_id r, d_lsid r)) ` set (map f (devices D)) = (\<lambda>r. (d_id r, d_lsid r)) ` set (devices D)"
    by (rule image_map_same) (simp add: f_def)
  with update_station show ?case
    by (auto simp: update_station_def device_idents_def catalog_idents_def f_def[abs_def]
        simp del: set_map)
next
  case (upsert_tag dev nm dt un desc meta D i D')
  then show ?case
    by (auto simp: upsert_tag_def device_idents_def catalog_idents_def split: option.splits if_splits)
next
  case (upsert_catalog crow D D')
  define f where "f r = (if catalog_key r = catalog_key crow then crow else r)" for r
  have "catalog_key ` set (map f (sensor_catalog D)) = catalog_key ` set (sensor_catalog D)"
    by (rule image_map_same) (simp add: f_def)
  with upsert_catalog show ?case
    by (auto simp: upsert_catalog_def device_idents_def catalog_idents_def f_def[abs_def]
        simp del: set_map split: if_splits)
qed (auto simp: insert_defs insert_records_def enrich_tag_def save_orphan_def device_idents_def
       catalog_idents_def split: if_splits option.splits)

interpretation dev_row: db_invariant "\<lambda>D. S \<subseteq> device_idents D" for S
  by unfold_locales (blast dest: repo_step_idents)

interpretation cat_row: db_invariant "\<lambda>D. S \<subseteq> catalog_idents D" for S
  by unfold_locales (blast dest: repo_step_idents)

definition coherent :: "Cache \<Rightarrow> database \<Rightarrow> bool" where
  "coherent ca D \<longleftrightarrow> cache_coherent ca D \<and> devices_coherent ca D \<and> catalog_coherent ca D"

lemma coherent_mono:
  assumes "coherent ca D" and "repo_steps D D'"
  shows "coherent ca D'"
  using assms repo_steps_tag_idents[OF assms(2)] dev_row.statements[OF assms(2), of "device_idents D"]
    cat_row.statements[OF assms(2), of "catalog_idents D"]
  unfolding coherent_def cache_coherent_def devices_coherent_def catalog_coherent_def by blast

lemma coherent_NewCache: "coherent NewCache D"
  by (simp add: coherent_def cache_coherent_def devices_coherent_def catalog_coherent_def
      GetTag_def GetDevice_def catalog_at_def NewCache_def)

subsection \<open>Loading\<close>

lemma DeviceLoadAll_Inr:
  "DeviceRepository_LoadAll e c = (Inr ds, c') \<Longrightarrow> ds = map device_of_row (devices (db c))"
  by (auto simp: DeviceRepository_LoadAll_def query_stmt_def next_outcome_def
      split: sum.splits prod.splits outcome.splits)

lemma TagLoadAll_Inr:
  "TagRepository_LoadAll e c = (Inr ts, c') \<Longrightarrow> ts = map tag_of_row (tags (db c))"
  by (auto simp: TagRepository_LoadAll_def query_stmt_def next_outcome_def
      split: sum.splits prod.splits outcome.splits)

lemma CatalogLoadAll_Inr:
  "CatalogRepository_LoadAll e c = (Inr (Some fs), c') \<Longrightarrow>
     fs = map field_of_row (sensor_catalog (db c))"
  by (auto simp: CatalogRepository_LoadAll_def query_stmt_def next_outcome_def
      split: sum.splits prod.splits outcome.splits)

lemma fold_SetDevice_frame [simp]:
  "GetTag (fold (\<lambda>d. SetDevice (dv_LSID d) d) ds ca) = GetTag ca"
  "catalog_at (fold (\<lambda>d. SetDevice (dv_LSID d) d) ds ca) = catalog_at ca"
  by (induction ds arbitrary: ca) simp_all

lemma LoadDevices_coherent:
  assumes "coherent ca (db c)"
  shows "coherent (fst (snd (LoadDevices e ca c))) (db c)"
proof (cases "DeviceRepository_LoadAll e c")
  case (Pair r c1)
  show ?thesis
  proof (cases r)
    case (Inl er)
    with Pair assms show ?thesis by (simp add: LoadDevices_def)
  next
    case (Inr ds)
    let ?ca = "fold (\<lambda>d. SetDevice (dv_LSID d) d) ds ca"
    have ds: "ds = map device_of_row (devices (db c))" using Pair Inr DeviceLoadAll_Inr by blast
    have "(dv_ID d, l) \<in> device_idents (db c)" if "GetDevice ?ca l = Some d" for l d
      using device_store.lookup_fold_inv[OF that] assms
      by (auto simp: ds device_of_row_def device_idents_def coherent_def devices_coherent_def)
    with Pair Inr assms show ?thesis
      by (simp add: LoadDevices_def coherent_def devices_coherent_def cache_coherent_def
          catalog_coherent_def)
  qed
qed

lemma upsert_catalog_ident:
  "upsert_catalog row D = Inr D' \<Longrightarrow> catalog_key row \<in> catalog_idents D'"
proof (cases "catalog_key row \<in> catalog_key ` set (sensor_catalog D)")
  case True
  define f where "f r = (if catalog_key r = catalog_key row then row else r)" for r
  have "catalog_key ` set (map f (sensor_catalog D)) = catalog_key ` set (sensor_catalog D)"
    by (rule image_map_same) (simp add: f_def)
  moreover assume "upsert_catalog row D = Inr D'"
  ultimately show ?thesis using True
    by (auto simp: upsert_catalog_def catalog_idents_def f_def[abs_def] simp del: set_map)
qed (auto simp: upsert_catalog_def catalog_idents_def)

lemma catalog_field_coherent:
  assumes "coherent (fst s) (db (snd s))"
  shows "coherent (fst (catalog_field e st ds desc field s)) (db (snd (catalog_field e st ds desc field s)))"
proof -
  obtain n v where f: "field = (n, v)" by (cases field)
  obtain ca c where s: "s = (ca, c)" by (cases s)
  show ?thesis
  proof (cases "as_obj (Some v)")
    case None
    with assms show ?thesis by (simp add: catalog_field_def f s)
  next
    case (Some m)
    let ?ft = "str_or_empty m ''type''" and ?un = "str_or_empty m ''units''"
    obtain r c1 where u: "CatalogRepository_Upsert e st ds n ?ft ?un desc c = (r, c1)"
      by (metis surj_pair)
    have "repo_steps (db c) (db c1)" using CatalogUpsert_repo[of c e st ds n ?ft ?un desc] u by simp
    with assms s have coh: "coherent ca (db c1)" by (auto intro: coherent_mono)
    show ?thesis
    proof (cases r)
      case (Some er)
      with coh u \<open>as_obj (Some v) = Some m\<close> show ?thesis by (simp add: catalog_field_def f s Let_def)
    next
      case None
      with u have "upsert_catalog \<lparr>c_sensor_type = st, c_data_structure_type = ds, c_field_name = n,
          c_field_type = ?ft, c_units = ?un, c_description = desc\<rparr> (db c) = Inr (db c1)"
        unfolding CatalogRepository_Upsert_def
        by (auto split: prod.splits option.splits dest: exec_stmt_None)
      from upsert_catalog_ident[OF this] have "(st, ds, n) \<in> catalog_idents (db c1)"
        by (simp add: catalog_key_def)
      with coh u None \<open>as_obj (Some v) = Some m\<close> show ?thesis
        by (auto simp: catalog_field_def f s Let_def coherent_def catalog_coherent_def
            catalog_at_SetCatalogMetadata devices_coherent_def cache_coherent_def)
    qed
  qed
qed

abbreviation coherent_at :: "Cache \<times> database conn \<Rightarrow> bool" where
  "coherent_at s \<equiv> coherent (fst s) (db (snd s))"

lemma catalog_structure_coherent:
  "coherent_at s \<Longrightarrow> coherent_at (catalog_structure e st ds s)"
  unfolding catalog_structure_def
  by (auto split: option.splits intro: fold_preserves[where P = coherent_at] catalog_field_coherent)

lemma processSensorType_coherent:
  "coherent_at s \<Longrightarrow> coherent_at (snd (processSensorType e m s))"
  unfolding processSensorType_def
  by (auto split: option.splits intro: fold_preserves[where P = coherent_at] catalog_structure_coherent)

lemma CatalogProcessor_coherent:
  assumes "coherent_at s"
  shows "coherent_at (snd (CatalogProcessor_ProcessMessage e um msg s))"
proof -
  have "coherent_at (sensor_type_entry e st s)" if "coherent_at s" for st s
    using that by (auto simp: sensor_type_entry_def processSensorType_coherent split: option.splits)
  then have "coherent_at (fold (sensor_type_entry e) sts s)" for sts
    using assms by (intro fold_preserves[where P = coherent_at])
  with assms show ?thesis
    by (auto simp: CatalogProcessor_ProcessMessage_def processSensorType_coherent split: option.splits)
qed

lemma fold_SetTag_frame [simp]:
  "GetDevice (fold (\<lambda>t. SetTag (tg_DeviceID t) (tg_TagName t) t) ts ca) = GetDevice ca"
  "catalog_at (fold (\<lambda>t. SetTag (tg_DeviceID t) (tg_TagName t) t) ts ca) = catalog_at ca"
  by (induction ts arbitrary: ca) simp_all

lemma LoadTags_keeps_coherent:
  assumes "coherent ca (db c)"
  shows "coherent (fst (snd (LoadTags e ca c))) (db c)"
proof (cases "TagRepository_LoadAll e c")
  case (Pair r c1)
  show ?thesis
  proof (cases r)
    case (Inl er)
    with Pair assms show ?thesis by (simp add: LoadTags_def)
  next
    case (Inr ts)
    let ?ca = "fold (\<lambda>t. SetTag (tg_DeviceID t) (tg_TagName t) t) ts ca"
    have ts: "ts = map tag_of_row (tags (db c))" using Pair Inr TagLoadAll_Inr by blast
    have "cache_coherent ?ca (db c)"
      unfolding cache_coherent_def
    proof (intro allI impI)
      fix dev n tag assume "GetTag ?ca dev n = Some tag"
      with tag_store.lookup_fold_inv[of "\<lambda>t. (tg_DeviceID t, tg_TagName t)" ts ca "(dev, n)" tag]
      have "tag \<in> set ts \<and> tg_DeviceID tag = dev \<and> tg_TagName tag = n \<or> GetTag ca dev n = Some tag"
        by simp
      then show "tg_DeviceID tag = dev \<and> tg_TagName tag = n \<and> (tg_ID tag, dev, n) \<in> tag_idents (db c)"
        using assms by (auto simp: ts tag_of_row_def tag_idents_def tag_key_def coherent_def
            cache_coherent_def)
    qed
    with Pair Inr assms show ?thesis
      by (simp add: LoadTags_def coherent_def devices_coherent_def catalog_coherent_def)
  qed
qed

lemma fold_SetCatalog_frame [simp]:
  "GetDevice (fold (\<lambda>m. SetCatalogMetadata (fm_SensorType m) (fm_DataStructureType m)
      (fm_FieldName m) m) fs ca) = GetDevice ca"
  "GetTag (fold (\<lambda>m. SetCatalogMetadata (fm_SensorType m) (fm_DataStructureType m)
      (fm_FieldName m) m) fs ca) = GetTag ca"
  by (induction fs arbitrary: ca) simp_all

lemma LoadCatalog_coherent:
  assumes "coherent ca (db c)"
  shows "coherent (fst (snd (LoadCatalog e ca c))) (db c)"
proof (cases "CatalogRepository_LoadAll e c")
  case (Pair r c1)
  show ?thesis
  proof (cases "\<exists>fs. r = Inr (Some fs)")
    case False
    with Pair assms show ?thesis by (auto simp: LoadCatalog_def split: sum.splits option.splits)
  next
    case True
    then obtain fs where r: "r = Inr (Some fs)" by blast
    let ?key = "\<lambda>m. (fm_SensorType m, fm_DataStructureType m, fm_FieldName m)"
    let ?ca = "fold (\<lambda>m. SetCatalogMetadata (fm_SensorType m) (fm_DataStructureType m)
      (fm_FieldName m) m) fs ca"
    have fs: "fs = map field_of_row (sensor_catalog (db c))"
      using Pair r CatalogLoadAll_Inr by blast
    have "catalog_coherent ?ca (db c)"
      unfolding catalog_coherent_def
    proof (intro allI impI)
      fix st ds fn m assume "catalog_at ?ca (itoa st) ds fn = Some m"
      with catalog_store.lookup_fold_inv[of ?key fs ca "(st, ds, fn)" m]
      have "m \<in> set fs \<and> ?key m = (st, ds, fn) \<or> catalog_at ca (itoa st) ds fn = Some m" by simp
      then show "(st, ds, fn) \<in> catalog_idents (db c)"
        using assms by (auto simp: fs field_of_row_def catalog_idents_def catalog_key_def
            coherent_def catalog_coherent_def)
    qed
    with Pair r assms show ?thesis
      by (simp add: LoadCatalog_def coherent_def devices_coherent_def cache_coherent_def)
  qed
qed

subsection \<open>Processing\<close>

lemma EnrichTags_coherent:
  assumes "coherent_at s"
  shows "coherent_at (snd (EnrichTags e s))"
proof -
  have one: "coherent_at (enrich_one e info s)" if coh: "coherent_at s" for info s
  proof -
    obtain ca c where s: "s = (ca, c)" by (cases s)
    have upd: "coherent (update_cached_tag dev n fm ca) D" if "coherent ca D" for dev n fm D
      using that by (auto simp: update_cached_tag_def coherent_def cache_coherent_def
          devices_coherent_def catalog_coherent_def split: option.splits)
    have "coherent ca (db c1)" if "TagRepository_Enrich e tid un desc m c = (r, c1)"
      for tid un desc m r c1
      using coh s that Enrich_repo[of c e tid un desc m] by (auto intro: coherent_mono)
    with coh s upd show ?thesis
      by (auto simp: enrich_one_def split: option.splits prod.splits)
  qed
  obtain ca c where s: "s = (ca, c)" by (cases s)
  obtain r c1 where q: "TagRepository_FindTagsNeedingEnrichment e c = (r, c1)" by (metis surj_pair)
  have "db c1 = db c" using LoadAll_db(4)[of e c] q by simp
  with q assms s show ?thesis
    by (auto simp: EnrichTags_def split: sum.splits intro!: fold_preserves[where P = coherent_at] one)
qed

lemma MetadataProcessor_coherent:
  assumes "coherent ca (db c)"
  shows "coherent_at (snd (MetadataProcessor_ProcessMessage e um msg ca c))"
proof -
  let ?r = "MetadataProcessor_ProcessMessage e um msg ca c"
  have steps: "repo_steps (db c) (db (snd (snd ?r)))" by (rule MetadataProcessor_repo)
  have ld: "coherent_at (snd (LoadDevices e ca c1))" if "repo_steps (db c) (db c1)" for c1
    using LoadDevices_coherent[OF coherent_mono[OF assms that], of e] by simp
  have st: "coherent_at (snd (processStationMetadata e um msg sts ca c))
            \<or> fst (snd (processStationMetadata e um msg sts ca c)) = ca" for sts
    using ld update_stations_repo[of c e um msg sts]
    by (auto simp: processStationMetadata_def split: prod.splits option.splits)
  have up: "repo_steps (db c) (db c1)" if "DeviceRepository_Upsert e m c = (r, c1)" for m r c1
    using Upsert_repo[of c e m] that by simp
  have "coherent_at (snd ?r) \<or> fst (snd ?r) = ca"
    using st ld up by (auto simp: MetadataProcessor_ProcessMessage_def split: option.splits prod.splits)
  with steps assms show ?thesis by (auto intro: coherent_mono)
qed

lemma resolve_tag_frame:
  assumes "resolve_tag e um msg hv dev n v ca c = (t, ca', c')"
  shows "GetDevice ca' = GetDevice ca \<and> catalog_at ca' = catalog_at ca"
  using assms
  by (auto simp: resolve_tag_def Let_def split: option.splits prod.splits sum.splits)

lemma pool_field_frame:
  "GetDevice (fst (pool_field e um msg hv dev field s)) = GetDevice (fst s)
   \<and> catalog_at (fst (pool_field e um msg hv dev field s)) = catalog_at (fst s)"
proof -
  obtain n v where f: "field = (n, v)" by (cases field)
  obtain ca bw c where s: "s = (ca, bw, c)" by (cases s)
  obtain t ca1 c1 where r: "resolve_tag e um msg hv dev n v ca c = (t, ca1, c1)" by (metis surj_pair)
  with resolve_tag_frame[OF r] f s show ?thesis
    by (auto simp: pool_field_def split: option.splits prod.splits)
qed

lemma processMessage_coherent_all:
  assumes "processMessage e um msg ca bw c = (er, ca', bw', c')" and "coherent ca (db c)"
  shows "coherent ca' (db c')"
proof -
  define hv where "hv = read_headers (m_headers msg)"
  have steps: "repo_steps (db c) (db c')" using processMessage_repo[of c e um msg ca bw] assms(1) by simp
  have tags: "cache_coherent ca' (db c')"
    using processMessage_coherent[OF assms(1)] assms(2) by (simp add: coherent_def)
  have loop: "GetDevice (fst (fold (pool_field e um msg hv dev) data s)) = GetDevice (fst s)
      \<and> catalog_at (fst (fold (pool_field e um msg hv dev) data s)) = catalog_at (fst s)" for dev data s
    using pool_field_frame by (induction data arbitrary: s) simp_all
  have "catalog_at ca' = catalog_at ca \<and>
      (\<forall>l d. GetDevice ca' l = Some d \<longrightarrow> (\<exists>d0. GetDevice ca l = Some d0 \<and> dv_ID d0 = dv_ID d))"
  proof (cases "GetDevice ca (hv_lsid hv)")
    case None
    with assms(1) have "ca' = ca"
      by (auto simp: processMessage_def hv_def Let_def split: if_splits prod.splits)
    then show ?thesis by simp
  next
    case (Some device)
    define ca1 where "ca1 = note_type (hv_lsid hv) device (hv_dataStructureType hv) ca"
    have "ca' = ca \<or> ca' = ca1 \<or> (\<exists>data. ca' = fst (fold (pool_field e um msg hv (dv_ID device)) data (ca1, bw, c)))"
    proof (cases "unmarshal_map um (m_value msg)")
      case None
      with assms(1) Some show ?thesis
        unfolding processMessage_def Let_def hv_def[symmetric] by (auto simp: ca1_def split: if_splits)
    next
      case (Some data)
      obtain ca2 bw2 c2 where fo:
        "fold (pool_field e um msg hv (dv_ID device)) data (ca1, bw, c) = (ca2, bw2, c2)"
        by (rule prod_cases3)
      have "hv_lsid hv = 0 \<longrightarrow> ca' = ca"
        using assms(1) unfolding processMessage_def Let_def hv_def[symmetric] by (auto split: if_splits)
      moreover have "hv_lsid hv \<noteq> 0 \<longrightarrow>
          ca' = fst (fold (pool_field e um msg hv (dv_ID device)) data (ca1, bw, c))"
        using assms(1) Some \<open>GetDevice ca (hv_lsid hv) = Some device\<close> fo
        unfolding processMessage_def Let_def hv_def[symmetric]
        by (auto simp: ca1_def split: if_splits)
      ultimately show ?thesis by blast
    qed
    then have "ca' = ca \<or> GetDevice ca' = GetDevice ca1 \<and> catalog_at ca' = catalog_at ca1"
      using loop by auto
    moreover have "catalog_at ca1 = catalog_at ca" by (simp add: ca1_def note_type_def)
    moreover have "\<exists>d0. GetDevice ca l = Some d0 \<and> dv_ID d0 = dv_ID d" if "GetDevice ca1 l = Some d" for l d
      using that Some by (auto simp: ca1_def note_type_def split: if_splits)
    ultimately show ?thesis by auto
  qed
  then have "devices_coherent ca' (db c) \<and> catalog_coherent ca' (db c)"
    using assms(2) unfolding coherent_def devices_coherent_def catalog_coherent_def by metis
  with tags show ?thesis
    using dev_row.statements[OF steps, of "device_idents (db c)"]
      cat_row.statements[OF steps, of "catalog_idents (db c)"]
    unfolding coherent_def devices_coherent_def catalog_coherent_def by blast
qed

section \<open>The service\<close>

record materializer =
  sv_cache :: Cache
  sv_batch :: BatchWriter
  sv_conn :: "database conn"
  sv_queue :: "message list"      \<comment> \<open>\<open>messageChan\<close>\<close>
  sv_submitted :: "message list"
  sv_committed :: "message list"
  sv_processed :: int
  sv_errors :: int

text \<open>
  \<open>Start\<close>: the four loads, whose errors are only logged.  \<open>EnrichTags\<close> runs after the catalog.
\<close>

definition Materializer_Start :: "env \<Rightarrow> int \<Rightarrow> database conn \<Rightarrow> materializer" where
  "Materializer_Start e batchSize c =
     (let (_, ca1, c1) = LoadDevices e NewCache c;
          (_, ca2, c2) = LoadTags e ca1 c1;
          (_, ca3, c3) = LoadCatalog e ca2 c2;
          (_, ca4, c4) = EnrichTags e (ca3, c3)
      in \<lparr>sv_cache = ca4, sv_batch = NewBatchWriter batchSize, sv_conn = c4, sv_queue = [],
          sv_submitted = [], sv_committed = [], sv_processed = 0, sv_errors = 0\<rparr>)"

text \<open>\<open>worker\<close>: one message from the channel; the counters follow the result.\<close>

definition worker_step :: "env \<Rightarrow> decoder \<Rightarrow> message \<Rightarrow> message list \<Rightarrow> materializer \<Rightarrow> materializer" where
  "worker_step e um msg rest s =
     (let (er, ca, bw, c) = processMessage e um msg (sv_cache s) (sv_batch s) (sv_conn s) in
      s\<lparr>sv_cache := ca, sv_batch := bw, sv_conn := c, sv_queue := rest,
        sv_processed := (if er = None then i64 (sv_processed s + 1) else sv_processed s),
        sv_errors := (if er = None then sv_errors s else i64 (sv_errors s + 1))\<rparr>)"

text \<open>One turn of the catalog listener: the enrichment follows a catalog message that succeeded.\<close>

definition catalog_turn :: "env \<Rightarrow> decoder \<Rightarrow> message \<Rightarrow> Cache \<times> database conn \<Rightarrow> Cache \<times> database conn" where
  "catalog_turn e um msg s =
     (case CatalogProcessor_ProcessMessage e um msg s of
        (Some _, s1) \<Rightarrow> s1
      | (None, s1) \<Rightarrow> snd (EnrichTags e s1))"

inductive service_step :: "env \<Rightarrow> decoder \<Rightarrow> int \<Rightarrow> materializer \<Rightarrow> materializer \<Rightarrow> bool"
  for e um workers where
  submit:
    "int (length (sv_queue s)) < i64 (workers * 2) \<Longrightarrow> is_data_topic (m_topic msg) \<Longrightarrow>
     service_step e um workers s
       (s\<lparr>sv_queue := sv_queue s @ [msg], sv_submitted := sv_submitted s @ [msg]\<rparr>)"
| commit:
    "msg \<in> set (sv_submitted s) \<Longrightarrow>
     service_step e um workers s (s\<lparr>sv_committed := sv_committed s @ [msg]\<rparr>)"
| work:
    "sv_queue s = msg # rest \<Longrightarrow> service_step e um workers s (worker_step e um msg rest s)"
| metadata:
    "MetadataProcessor_ProcessMessage e um msg (sv_cache s) (sv_conn s) = (er, ca, c) \<Longrightarrow>
     service_step e um workers s (s\<lparr>sv_cache := ca, sv_conn := c\<rparr>)"
| catalog:
    "catalog_turn e um msg (sv_cache s, sv_conn s) = (ca, c) \<Longrightarrow>
     service_step e um workers s (s\<lparr>sv_cache := ca, sv_conn := c\<rparr>)"
| tick:
    "FlushAll e (sv_batch s) (sv_conn s) = (er, bw, c) \<Longrightarrow>
     service_step e um workers s (s\<lparr>sv_batch := bw, sv_conn := c\<rparr>)"

text \<open>
  \<open>Close\<close>: the channel is closed, the workers drain it, then the batch writer flushes.
\<close>

fun drain :: "env \<Rightarrow> decoder \<Rightarrow> message list \<Rightarrow> materializer \<Rightarrow> materializer" where
  "drain e um [] s = s\<lparr>sv_queue := []\<rparr>"
| "drain e um (msg # rest) s = drain e um rest (worker_step e um msg rest s)"

definition Materializer_Close :: "env \<Rightarrow> decoder \<Rightarrow> materializer \<Rightarrow> materializer" where
  "Materializer_Close e um s =
     (let s1 = drain e um (sv_queue s) s;
          (er, bw, c) = Close e (sv_batch s1) (sv_conn s1)
      in s1\<lparr>sv_batch := bw, sv_conn := c\<rparr>)"

definition service_inv :: "database \<Rightarrow> int \<Rightarrow> materializer \<Rightarrow> bool" where
  "service_inv D0 workers s \<longleftrightarrow>
     repo_steps D0 (db (sv_conn s)) \<and> coherent (sv_cache s) (db (sv_conn s))
     \<and> (\<exists>handled. sv_submitted s = handled @ sv_queue s
            \<and> i64 (sv_processed s + sv_errors s) = i64 (int (length handled)))
     \<and> int (length (sv_queue s)) \<le> max 0 (i64 (workers * 2))
     \<and> set (sv_committed s) \<subseteq> set (sv_submitted s)"

lemma Start_inv: "service_inv (db c) workers (Materializer_Start e batchSize c)"
proof -
  obtain r1 ca1 c1 where 1: "LoadDevices e NewCache c = (r1, ca1, c1)" by (rule prod_cases3)
  obtain r2 ca2 c2 where 2: "LoadTags e ca1 c1 = (r2, ca2, c2)" by (rule prod_cases3)
  obtain r3 ca3 c3 where 3: "LoadCatalog e ca2 c2 = (r3, ca3, c3)" by (rule prod_cases3)
  obtain r4 ca4 c4 where 4: "EnrichTags e (ca3, c3) = (r4, ca4, c4)" by (rule prod_cases3)
  have d: "db c1 = db c" "db c2 = db c" "db c3 = db c"
    using Load_db(1)[of e NewCache c] Load_db(2)[of e ca1 c1] Load_db(3)[of e ca2 c2] 1 2 3 by simp_all
  have "coherent ca1 (db c)" using LoadDevices_coherent[OF coherent_NewCache, of e c] 1 by simp
  then have "coherent ca2 (db c)" using LoadTags_keeps_coherent[of ca1 c1 e] 2 d by simp
  then have "coherent ca3 (db c)" using LoadCatalog_coherent[of ca2 c2 e] 3 d by simp
  then have "coherent ca4 (db c4)" using EnrichTags_coherent[of "(ca3, c3)" e] 4 d by simp
  moreover have "repo_steps (db c) (db c4)" using EnrichTags_repo[of "(ca3, c3)" e] 4 d by simp
  ultimately show ?thesis using 1 2 3 4
    by (simp add: service_inv_def Materializer_Start_def i64_def)
qed

lemma i64_succ: "i64 (i64 (a + 1) + b) = i64 (i64 (a + b) + 1)"
  "i64 (a + i64 (b + 1)) = i64 (i64 (a + b) + 1)"
  by (simp_all add: i64_add_left add.commute add.left_commute)
    (metis add.assoc add.commute i64_add_left)+

lemma worker_step_inv:
  assumes inv: "service_inv D0 workers s" and q: "sv_queue s = msg # rest"
  shows "service_inv D0 workers (worker_step e um msg rest s)"
proof -
  obtain er ca bw c where p: "processMessage e um msg (sv_cache s) (sv_batch s) (sv_conn s) = (er, ca, bw, c)"
    by (rule prod_cases4)
  have "repo_steps (db (sv_conn s)) (db c)"
    using processMessage_repo[of "sv_conn s" e um msg "sv_cache s" "sv_batch s"] p by simp
  moreover have "coherent ca (db c)"
    using processMessage_coherent_all[OF p] inv by (simp add: service_inv_def)
  moreover obtain handled where h: "sv_submitted s = handled @ sv_queue s"
    "i64 (sv_processed s + sv_errors s) = i64 (int (length handled))"
    using inv by (auto simp: service_inv_def)
  have "i64 (i64 (int (length handled)) + 1) = i64 (int (length (handled @ [msg])))"
    using i64_add_left[of "int (length handled)" 1] by (simp add: add.commute)
  with h(2) have "i64 (i64 (sv_processed s + 1) + sv_errors s) = i64 (int (length (handled @ [msg])))"
    and "i64 (sv_processed s + i64 (sv_errors s + 1)) = i64 (int (length (handled @ [msg])))"
    unfolding i64_succ by simp_all
  moreover have "sv_submitted s = (handled @ [msg]) @ rest" using h(1) q by simp
  ultimately show ?thesis using inv q p
    by (auto simp: service_inv_def worker_step_def intro!: exI[of _ "handled @ [msg]"])
qed

lemma FlushAll_empty: "FlushAll e bw c = (er, bw', c') \<Longrightarrow> GetBatchSizes bw' = (0, 0, 0)"
  by (auto simp: FlushAll_def flush_defs GetBatchSizes_def Let_def split: prod.splits
      dest!: num_lane.flush_empties txt_lane.flush_empties nul_lane.flush_empties)

lemma service_step_inv:
  assumes "service_step e um workers s s'" and inv: "service_inv D0 workers s"
  shows "service_inv D0 workers s'"
  using assms(1)
proof cases
  case (submit msg)
  with inv show ?thesis by (auto simp: service_inv_def)
next
  case (commit msg)
  with inv show ?thesis by (auto simp: service_inv_def)
next
  case (work msg rest)
  with inv show ?thesis by (auto intro: worker_step_inv)
next
  case (metadata msg er ca c)
  have "repo_steps (db (sv_conn s)) (db c)" "coherent ca (db c)"
    using MetadataProcessor_repo[of "sv_conn s" e um msg "sv_cache s"]
      MetadataProcessor_coherent[of "sv_cache s" "sv_conn s" e um msg] inv metadata(2)
    by (simp_all add: service_inv_def)
  with inv metadata(1) show ?thesis by (auto simp: service_inv_def)
next
  case (catalog msg ca c)
  obtain r s1 where 1: "CatalogProcessor_ProcessMessage e um msg (sv_cache s, sv_conn s) = (r, s1)"
    by (metis surj_pair)
  have a: "repo_steps (db (sv_conn s)) (db (snd s1))" "coherent_at s1"
    using CatalogProcessor_repo[of "(sv_cache s, sv_conn s)" e um msg]
      CatalogProcessor_coherent[of "(sv_cache s, sv_conn s)" e um msg] inv 1
    by (simp_all add: service_inv_def)
  have b: "repo_steps (db (snd s1)) (db (snd (snd (EnrichTags e s1))))"
    "coherent_at (snd (EnrichTags e s1))"
    using EnrichTags_repo EnrichTags_coherent[OF a(2)] by auto
  from a b 1 catalog(2) have "repo_steps (db (sv_conn s)) (db c)" "coherent ca (db c)"
    by (cases r; auto simp: catalog_turn_def)+
  with inv catalog(1) show ?thesis by (auto simp: service_inv_def)
next
  case (tick er bw c)
  have "repo_steps (db (sv_conn s)) (db c)"
    using FlushAll_repo[of "sv_conn s" e "sv_batch s"] tick(2) by simp
  with inv tick(1) show ?thesis by (auto simp: service_inv_def intro: coherent_mono)
qed

lemma service_run_inv:
  assumes "(service_step e um workers)\<^sup>*\<^sup>* (Materializer_Start e batchSize c) s"
  shows "service_inv (db c) workers s"
  using assms by (induction rule: rtranclp_induct) (auto intro: Start_inv service_step_inv)

lemma drain_inv:
  assumes "service_inv D0 workers s" and "sv_queue s = q"
  shows "service_inv D0 workers (drain e um q s) \<and> sv_queue (drain e um q s) = []
         \<and> sv_submitted (drain e um q s) = sv_submitted s"
  using assms
proof (induction q arbitrary: s)
  case Nil
  then show ?case by (cases s) (simp add: service_inv_def)
next
  case (Cons msg rest)
  have "service_inv D0 workers (worker_step e um msg rest s)"
    using Cons.prems by (rule worker_step_inv)
  moreover have "sv_queue (worker_step e um msg rest s) = rest"
    and "sv_submitted (worker_step e um msg rest s) = sv_submitted s"
    by (auto simp: worker_step_def split: prod.splits)
  ultimately show ?case using Cons.IH by simp
qed

section \<open>Properties\<close>


text \<open>
  C19: Closing the service handles every message that was submitted, leaves the queue and the batches
  empty and keeps the keys of the schema, whatever fails on the way.
\<close>

theorem close_drains:
  assumes "(service_step e um workers)\<^sup>*\<^sup>* (Materializer_Start e batchSize c) s" and "db_wf (db c)"
  shows "sv_queue (Materializer_Close e' um s) = []
         \<and> GetBatchSizes (sv_batch (Materializer_Close e' um s)) = (0, 0, 0)
         \<and> i64 (sv_processed (Materializer_Close e' um s) + sv_errors (Materializer_Close e' um s))
             = i64 (int (length (sv_submitted s)))
         \<and> db_wf (db (sv_conn (Materializer_Close e' um s)))"
proof -
  let ?s1 = "drain e' um (sv_queue s) s"
  obtain er bw c' where f: "FlushAll e' (sv_batch ?s1) (sv_conn ?s1) = (er, bw, c')"
    by (rule prod_cases3)
  have cl: "Materializer_Close e' um s = ?s1\<lparr>sv_batch := bw, sv_conn := c'\<rparr>"
    using f by (simp add: Materializer_Close_def Close_def Let_def)
  have d: "service_inv (db c) workers ?s1 \<and> sv_queue ?s1 = [] \<and> sv_submitted ?s1 = sv_submitted s"
    by (rule drain_inv[OF service_run_inv[OF assms(1)] refl])
  have "repo_steps (db (sv_conn ?s1)) (db c')"
    using FlushAll_repo[of "sv_conn ?s1" e' "sv_batch ?s1"] f by simp
  with d have "repo_steps (db c) (db c')"
    by (auto simp: service_inv_def intro: rtranclp_trans)
  then have "db_wf (db c')" using assms(2) by (rule wf.statements)
  with d FlushAll_empty[OF f] cl show ?thesis by (auto simp: service_inv_def)
qed

text \<open>
  An offset can be committed before its message has been processed: the service can reach a state in
  which a message is committed while it is still in the channel, no worker has handled any message and
  the database is as it was, so that a crash there loses the message.
\<close>

theorem commit_before_processing:
  assumes "is_data_topic (m_topic msg)" and "0 < workers" and "workers < 4611686018427387904"
  shows "\<exists>s. (service_step e um workers)\<^sup>*\<^sup>* (Materializer_Start e batchSize c) s
             \<and> sv_committed s = [msg] \<and> sv_queue s = [msg]
             \<and> sv_processed s = 0 \<and> sv_errors s = 0 \<and> sv_batch s = NewBatchWriter batchSize
             \<and> db (sv_conn s) = db (sv_conn (Materializer_Start e batchSize c))"
proof -
  let ?s0 = "Materializer_Start e batchSize c"
  let ?s1 = "?s0\<lparr>sv_queue := sv_queue ?s0 @ [msg], sv_submitted := sv_submitted ?s0 @ [msg]\<rparr>"
  let ?s2 = "?s1\<lparr>sv_committed := sv_committed ?s1 @ [msg]\<rparr>"
  have s0: "sv_queue ?s0 = [] \<and> sv_submitted ?s0 = [] \<and> sv_committed ?s0 = [] \<and> sv_processed ?s0 = 0
      \<and> sv_errors ?s0 = 0 \<and> sv_batch ?s0 = NewBatchWriter batchSize"
    by (simp add: Materializer_Start_def split: prod.splits)
  have "in_i64 (workers * 2)" using assms(2,3) by (simp add: in_i64_def)
  then have "0 < i64 (workers * 2)" using assms(2) by (simp add: i64_id)
  then have "service_step e um workers ?s0 ?s1"
    using s0 assms(1) by (intro service_step.submit) simp
  moreover have "service_step e um workers ?s1 ?s2"
    by (rule service_step.commit) (simp add: s0)
  ultimately have "(service_step e um workers)\<^sup>*\<^sup>* ?s0 ?s2" by auto
  with s0 show ?thesis by (intro exI[of _ ?s2]) simp
qed

text \<open>
  A sensor metadata message makes its device known: when nothing fails, the message with the number
  \<open>lsid\<close> is accepted and the cache then has, under the integer part of that number, the device row with
  the sensor type of the message.
\<close>

theorem metadata_makes_device_known:
  assumes "db_wf (db c)" and "unmarshal_map um (m_value msg) = Some m"
    and "as_arr (map_of m ''stations'') = None" and "map_of m ''lsid'' = Some (JNum x)"
    and "MetadataProcessor_ProcessMessage all_done um msg ca c = (er, ca', c')"
  shows "er = None \<and> (\<exists>d. GetDevice ca' (int_of_float x) = Some d
           \<and> (dv_ID d, int_of_float x) \<in> device_idents (db c')
           \<and> dv_SensorType d = int_of_float (num_or_zero m ''sensor_type''))"
proof -
  define row where "row = upsert_row m x"
  have "\<exists>D. upsert_device row (db c) = Inr D"
    unfolding upsert_device_def
    by (cases "d_lsid row \<in> d_lsid ` set (devices (db c))") simp_all
  then obtain D where up: "upsert_device row (db c) = Inr D" by blast
  have wfD: "db_wf D" using up assms(1) by (rule upsert_device_wf)
  have lsid: "d_lsid row = int_of_float x" by (simp add: row_def upsert_row_def)
  have "\<exists>r \<in> set (devices D). d_lsid r = d_lsid row \<and> d_sensor_type r = d_sensor_type row"
  proof (cases "d_lsid row \<in> d_lsid ` set (devices (db c))")
    case True
    then obtain q where "q \<in> set (devices (db c))" "d_lsid q = d_lsid row" by auto
    then have "row\<lparr>d_id := d_id q, d_rt_data_structure_type := d_rt_data_structure_type q\<rparr>
        \<in> set (devices D)"
      using up True by (auto simp: upsert_device_def)
    then show ?thesis by (rule rev_bexI) simp
  next
    case False
    with up show ?thesis by (auto simp: upsert_device_def)
  qed
  then obtain r where r: "r \<in> set (devices D)" "d_lsid r = int_of_float x"
    "d_sensor_type r = int_of_float (num_or_zero m ''sensor_type'')"
    by (auto simp: lsid) (simp add: row_def upsert_row_def)
  have run: "er = None" "db c' = D"
    "ca' = fold (\<lambda>d. SetDevice (dv_LSID d) d) (map device_of_row (devices D)) ca"
    using assms(2-5) up by (auto simp: MetadataProcessor_ProcessMessage_def DeviceRepository_Upsert_def
        row_def LoadDevices_def DeviceRepository_LoadAll_def outcome_simps)
  have "distinct (map dv_LSID (map device_of_row (devices D)))"
    using wfD by (simp add: db_wf_def device_of_row_def comp_def)
  moreover have "device_of_row r \<in> set (map device_of_row (devices D))" using r(1) by simp
  ultimately have "GetDevice ca' (dv_LSID (device_of_row r)) = Some (device_of_row r)"
    unfolding run(3) by (rule device_store.lookup_fold_distinct)
  then have "GetDevice ca' (int_of_float x) = Some (device_of_row r)"
    by (simp add: device_of_row_def r(2))
  with r run show ?thesis by (force simp: device_of_row_def device_idents_def)
qed

section \<open>Concrete runs\<close>

definition sample_start :: materializer where
  "sample_start = Materializer_Start sample_schedule 1 \<lparr>db = sample_db, calls = 0\<rparr>"

text \<open>A message is submitted and handled while the third and the seventh call fail.\<close>

definition sample_handled :: materializer where
  "sample_handled = worker_step sample_schedule sample_decoder sample_msg []
     (sample_start\<lparr>sv_queue := [sample_msg], sv_submitted := [sample_msg]\<rparr>)"

lemma sample_start_fields:
  "sv_queue sample_start = [] \<and> sv_submitted sample_start = []"
  by (simp add: sample_start_def Materializer_Start_def split: prod.splits)

lemma sample_topic: "is_data_topic (m_topic sample_msg)"
  by (simp add: is_data_topic_def sample_msg_def)

lemma sample_reach:
  "(service_step sample_schedule sample_decoder 2)\<^sup>*\<^sup>*
     (Materializer_Start sample_schedule 1 \<lparr>db = sample_db, calls = 0\<rparr>) sample_handled"
proof -
  let ?s1 = "sample_start\<lparr>sv_queue := [sample_msg], sv_submitted := [sample_msg]\<rparr>"
  have "service_step sample_schedule sample_decoder 2 sample_start ?s1"
    using service_step.submit[of sample_start 2 sample_msg sample_schedule sample_decoder]
      sample_start_fields sample_topic by (simp add: i64_def)
  moreover have "service_step sample_schedule sample_decoder 2 ?s1 sample_handled"
    unfolding sample_handled_def by (rule service_step.work) simp
  ultimately show ?thesis unfolding sample_start_def[symmetric] by auto
qed

lemma sample_handled_fields: "sv_queue sample_handled = [] \<and> sv_submitted sample_handled = [sample_msg]"
  by (simp add: sample_handled_def worker_step_def split: prod.splits)


lemma close_drains_witness:
  "sv_queue (Materializer_Close all_done sample_decoder sample_handled) = []
   \<and> GetBatchSizes (sv_batch (Materializer_Close all_done sample_decoder sample_handled)) = (0, 0, 0)
   \<and> db_wf (db (sv_conn (Materializer_Close all_done sample_decoder sample_handled)))"
  using close_drains[OF sample_reach, of all_done] sample_wf by simp

lemma commit_before_processing_witness:
  "\<exists>s. (service_step all_done sample_decoder 4)\<^sup>*\<^sup>*
          (Materializer_Start all_done 100 \<lparr>db = sample_db, calls = 0\<rparr>) s
       \<and> sv_committed s = [sample_msg] \<and> sv_queue s = [sample_msg]
       \<and> sv_processed s = 0 \<and> sv_batch s = NewBatchWriter 100"
  using commit_before_processing[OF sample_topic, of 4 all_done sample_decoder 100
      "\<lparr>db = sample_db, calls = 0\<rparr>"] by auto

definition sample_metadata_decoder :: decoder where
  "sample_metadata_decoder s =
     Some (JObj [(''lsid'', JNum 9), (''sensor_type'', JNum 45), (''station_id'', JNum 3)])"

lemma metadata_makes_device_known_witness:
  "\<exists>er ca c d. MetadataProcessor_ProcessMessage all_done sample_metadata_decoder sample_msg NewCache
       \<lparr>db = sample_db, calls = 0\<rparr> = (er, ca, c)
     \<and> er = None \<and> GetDevice ca 9 = Some d \<and> dv_SensorType d = 45"
proof -
  let ?m = "[(''lsid'', JNum 9), (''sensor_type'', JNum 45), (''station_id'', JNum 3)]"
  obtain er ca c where r: "MetadataProcessor_ProcessMessage all_done sample_metadata_decoder sample_msg
      NewCache \<lparr>db = sample_db, calls = 0\<rparr> = (er, ca, c)" by (rule prod_cases3)
  have i: "int_of_float 9 = 9" "int_of_float 45 = 45"
    using int_of_float_of_int[of 9] int_of_float_of_int[of 45] by (simp_all add: in_i64_def)
  have "db_wf (db \<lparr>db = sample_db, calls = 0\<rparr>)" using sample_wf by simp
  from metadata_makes_device_known[OF this _ _ _ r, of ?m 9] show ?thesis
    using r by (auto simp: unmarshal_map_def sample_metadata_decoder_def num_or_zero_def i)
qed

end
