(* ===== verification/Bf_Service.thy ===== *)
theory Bf_Service
  imports Wl_Service
begin

text \<open>
  \<open>services/weatherlink-sql-backfill\<close>: topics of Kafka are read from an offset to an offset and go
  through the same worker pool and batch writer as in \<open>weatherlink-sql\<close>.  The repositories, the batch
  writer and the cache are the same files; the differences are in \<open>service/\<close> and modelled here: what is
  saved as an orphan, how the metadata topics fill the cache, the reading of a topic, the phases of
  \<open>Start\<close> and the end of a run.

  What the reader of a topic returns, call after call, is a list of \<open>fetch\<close> results; the end of the
  list stands for the cancellation of the context, which the loop tests before every read.
\<close>

section \<open>worker_pool.go\<close>

definition bf_resolve_tag ::
    "env \<Rightarrow> decoder \<Rightarrow> message \<Rightarrow> header_vals \<Rightarrow> int \<Rightarrow> string \<Rightarrow> json \<Rightarrow> Cache \<Rightarrow> database conn
     \<Rightarrow> Tag option \<times> Cache \<times> database conn" where
  "bf_resolve_tag e unmarshal msg hv deviceID fieldName fieldValue ca c =
     (case GetTag ca deviceID fieldName of
        Some tag \<Rightarrow> (Some tag, ca, c)
      | None \<Rightarrow>
          let dataType = determineDataType fieldValue;
              (un, desc, metadata) = field_enrichment ca hv fieldName
          in case TagRepository_Create e deviceID fieldName dataType un desc metadata c of
               (Inl er, c1) \<Rightarrow>
                 (None, ca, snd (OrphanRepository_Save e unmarshal msg (hv_lsid hv) (hv_timestamp hv)
                                   fieldName (''failed_to_create_tag: '' @ error_text er) c1))
             | (Inr tagID, c1) \<Rightarrow>
                 let tag = \<lparr>tg_ID = tagID, tg_DeviceID = deviceID, tg_TagName = fieldName,
                            tg_DataType = dataType, tg_Unit = un, tg_Description = desc\<rparr>
                 in (Some tag, SetTag deviceID fieldName tag ca, c1))"

definition bf_field ::
    "env \<Rightarrow> decoder \<Rightarrow> message \<Rightarrow> header_vals \<Rightarrow> int \<Rightarrow> string \<times> json
     \<Rightarrow> Cache \<times> BatchWriter \<times> database conn \<Rightarrow> Cache \<times> BatchWriter \<times> database conn" where
  "bf_field e unmarshal msg hv deviceID field s =
     (let (fieldName, fieldValue) = field; (ca, bw, c) = s in
      if fieldName = ''ts'' then (ca, bw, c)
      else case bf_resolve_tag e unmarshal msg hv deviceID fieldName fieldValue ca c of
             (None, ca1, c1) \<Rightarrow> (ca1, bw, c1)
           | (Some tag, ca1, c1) \<Rightarrow>
               let (er, bw', c2) = addRecordToBatch e tag fieldValue (hv_timestamp hv) bw c1
               in (ca1, bw', c2))"

definition bf_processMessage ::
    "env \<Rightarrow> decoder \<Rightarrow> message \<Rightarrow> Cache \<Rightarrow> BatchWriter \<Rightarrow> database conn
     \<Rightarrow> go_error option \<times> Cache \<times> BatchWriter \<times> database conn" where
  "bf_processMessage e unmarshal msg ca bw c =
     (let hv = read_headers (m_headers msg) in
      if hv_lsid hv = 0 then (Some (Err ''missing lsid in message headers''), ca, bw, c)
      else case GetDevice ca (hv_lsid hv) of
             None \<Rightarrow>
               (Some (Err (''missing device for lsid='' @ itoa (hv_lsid hv))), ca, bw,
                snd (OrphanRepository_Save e unmarshal msg (hv_lsid hv) (hv_timestamp hv) []
                       ''missing_device'' c))
           | Some device \<Rightarrow>
               let ca1 = note_type (hv_lsid hv) device (hv_dataStructureType hv) ca in
               case unmarshal_map unmarshal (m_value msg) of
                 None \<Rightarrow>
                   (Some (Err ''failed to parse message body''), ca1, bw,
                    snd (OrphanRepository_Save e unmarshal msg (hv_lsid hv) (hv_timestamp hv) []
                           ''failed to parse message body'' c))
               | Some data \<Rightarrow>
                   let (ca2, bw2, c2) =
                     fold (bf_field e unmarshal msg hv (dv_ID device)) data (ca1, bw, c)
                   in (None, ca2, bw2, c2))"

section \<open>metadata_processor.go\<close>

text \<open>The device put in the cache has no database id: \<open>ID\<close> stays zero until the cache is reloaded.\<close>

definition extractDeviceFromMetadata :: "json_map \<Rightarrow> Device option" where
  "extractDeviceFromMetadata metadata =
     (case as_num (map_of metadata ''lsid'') of
        None \<Rightarrow> None
      | Some lsid \<Rightarrow>
          Some \<lparr>dv_ID = 0, dv_LSID = int_of_float lsid,
                dv_SensorType = (case as_num (map_of metadata ''sensor_type'') of
                                   Some t \<Rightarrow> int_of_float t | None \<Rightarrow> 0),
                dv_DataStructureType = None,
                dv_Category = str_or_empty metadata ''category'',
                dv_Manufacturer = str_or_empty metadata ''manufacturer'',
                dv_ProductName = str_or_empty metadata ''product_name'',
                dv_CreatedDate = None, dv_ModifiedDate = None\<rparr>)"

definition bf_processStationMetadata ::
    "env \<Rightarrow> decoder \<Rightarrow> message \<Rightarrow> json list \<Rightarrow> database conn \<Rightarrow> go_error option \<times> database conn" where
  "bf_processStationMetadata e um msg stations c =
     (if stations = [] then (Some (Err ''stations array is empty''), c)
      else update_stations e um msg stations c)"

definition bf_metadata_message ::
    "env \<Rightarrow> decoder \<Rightarrow> message \<Rightarrow> Cache \<times> database conn \<Rightarrow> go_error option \<times> Cache \<times> database conn" where
  "bf_metadata_message e um msg s =
     (let (ca, c) = s in
      case unmarshal_map um (m_value msg) of
        None \<Rightarrow>
          (Some (Err ''failed to parse metadata''), ca,
           snd (OrphanRepository_Save e um msg 0 0 [] ''failed to parse metadata'' c))
      | Some metadata \<Rightarrow>
          (case as_arr (map_of metadata ''stations'') of
             Some stations \<Rightarrow>
               let (er, c1) = bf_processStationMetadata e um msg stations c in (er, ca, c1)
           | None \<Rightarrow>
               (case as_num (map_of metadata ''lsid'') of
                  None \<Rightarrow>
                    (Some (Err ''missing or invalid lsid in metadata''), ca,
                     snd (OrphanRepository_Save e um msg 0 0 []
                            ''missing or invalid lsid in metadata'' c))
                | Some lsid \<Rightarrow>
                    (case DeviceRepository_Upsert e metadata c of
                       (Some er, c1) \<Rightarrow>
                         (Some (Wrap ''failed to upsert device'' er), ca,
                          snd (OrphanRepository_Save e um msg (int_of_float lsid) 0 []
                                 (''failed to upsert device: '' @ error_text er) c1))
                     | (None, c1) \<Rightarrow>
                         (None, (case extractDeviceFromMetadata metadata of
                                   None \<Rightarrow> ca | Some d \<Rightarrow> SetDevice (dv_LSID d) d ca), c1)))))"

section \<open>catalog_processor.go\<close>

definition bf_catalog_message ::
    "env \<Rightarrow> decoder \<Rightarrow> message \<Rightarrow> Cache \<times> database conn \<Rightarrow> go_error option \<times> Cache \<times> database conn" where
  "bf_catalog_message e um msg s =
     (let (ca, c) = s;
          orphan = (\<lambda>reason. (Some (Err reason), ca, snd (OrphanRepository_Save e um msg 0 0 [] reason c)))
      in case unmarshal_map um (m_value msg) of
           None \<Rightarrow> orphan ''failed to parse catalog''
         | Some sensorTypeData \<Rightarrow>
             (case as_num (map_of sensorTypeData ''sensor_type'') of
                None \<Rightarrow> orphan ''missing sensor_type in catalog message''
              | Some sensorType \<Rightarrow>
                  (case as_arr (map_of sensorTypeData ''data_structures'') of
                     None \<Rightarrow> orphan ''missing data_structures in catalog message''
                   | Some dataStructures \<Rightarrow>
                       (None, fold (catalog_structure e (int_of_float sensorType)) dataStructures (ca, c)))))"

section \<open>backfill.go: reading a topic\<close>

datatype fetch = Fetched message | FetchError go_error

datatype position = FirstOffset | LastOffset | Offset int

definition start_position :: "int \<Rightarrow> position" where
  "start_position startOffset =
     (if startOffset = - 2 \<or> startOffset = 0 then FirstOffset
      else if startOffset = - 1 then LastOffset
      else Offset startOffset)"

definition formatOffsetForLog :: "int \<Rightarrow> string" where
  "formatOffsetForLog offset =
     (if offset = - 2 then ''earliest'' else if offset = - 1 then ''latest''
      else if offset = 0 then ''earliest (0)'' else itoa offset)"

record TopicProgress =
  tp_StartOffset :: int
  tp_EndOffset :: int
  tp_CurrentOffset :: int
  tp_MessagesProcessed :: int

definition new_progress :: "int \<Rightarrow> TopicProgress" where
  "new_progress endOffset =
     \<lparr>tp_StartOffset = 0, tp_EndOffset = endOffset, tp_CurrentOffset = 0, tp_MessagesProcessed = 0\<rparr>"

text \<open>
  The loop of \<open>processTopic\<close>: the messages submitted to the pool (which refuses none: its context is
  never cancelled), the progress and the result.
\<close>

fun topic_loop :: "int \<Rightarrow> fetch list \<Rightarrow> int \<Rightarrow> TopicProgress \<Rightarrow> message list
    \<Rightarrow> go_error option \<times> TopicProgress \<times> message list" where
  "topic_loop endOffset [] cnt p sub = (Some Canceled, p, sub)"
| "topic_loop endOffset (FetchError er # fs) cnt p sub =
     (if er = DeadlineExceeded then (None, p, sub)
      else (Some (Wrap ''failed to fetch message'' er), p, sub))"
| "topic_loop endOffset (Fetched msg # fs) cnt p sub =
     (let p1 = (if cnt = 0 then p\<lparr>tp_StartOffset := m_offset msg\<rparr> else p) in
      if endOffset \<ge> 0 \<and> m_offset msg \<ge> endOffset then (None, p1, sub)
      else topic_loop endOffset fs (i64 (cnt + 1))
             (p1\<lparr>tp_CurrentOffset := i64 (m_offset msg + 1),
                 tp_MessagesProcessed := i64 (tp_MessagesProcessed p1 + 1)\<rparr>)
             (sub @ [msg]))"

definition processTopic :: "int \<Rightarrow> fetch list \<Rightarrow> go_error option \<times> TopicProgress \<times> message list" where
  "processTopic endOffset fs = topic_loop endOffset fs 0 (new_progress endOffset) []"

text \<open>\<open>processMetadataTopic\<close>: each message is processed in the loop; its error is only logged.\<close>

fun metadata_topic_loop ::
    "(message \<Rightarrow> Cache \<times> database conn \<Rightarrow> go_error option \<times> Cache \<times> database conn) \<Rightarrow> int
     \<Rightarrow> fetch list \<Rightarrow> Cache \<times> database conn \<Rightarrow> go_error option \<times> Cache \<times> database conn" where
  "metadata_topic_loop proc endOffset [] s = (Some Canceled, s)"
| "metadata_topic_loop proc endOffset (FetchError er # fs) s =
     (if er = DeadlineExceeded then (None, s)
      else (Some (Wrap ''failed to fetch message'' er), s))"
| "metadata_topic_loop proc endOffset (Fetched msg # fs) s =
     (if endOffset \<ge> 0 \<and> m_offset msg \<ge> endOffset then (None, s)
      else metadata_topic_loop proc endOffset fs (snd (proc msg s)))"

section \<open>backfill.go: a run\<close>

text \<open>The three metadata topics, in the order of the foreign keys; the first error ends the phase.\<close>

definition processMetadataPhase ::
    "env \<Rightarrow> decoder \<Rightarrow> int \<Rightarrow> fetch list \<Rightarrow> fetch list \<Rightarrow> fetch list \<Rightarrow> Cache \<times> database conn
     \<Rightarrow> go_error option \<times> Cache \<times> database conn" where
  "processMetadataPhase e um endOffset sensors catalog station s =
     (case metadata_topic_loop (bf_metadata_message e um) endOffset sensors s of
        (Some er, s1) \<Rightarrow> (Some (Wrap ''failed to process topic weather.metadata.sensors'' er), s1)
      | (None, s1) \<Rightarrow>
     (case metadata_topic_loop (bf_catalog_message e um) endOffset catalog s1 of
        (Some er, s2) \<Rightarrow> (Some (Wrap ''failed to process topic weather.metadata.catalog'' er), s2)
      | (None, s2) \<Rightarrow>
     (case metadata_topic_loop (bf_metadata_message e um) endOffset station s2 of
        (Some er, s3) \<Rightarrow> (Some (Wrap ''failed to process topic weather.metadata.station'' er), s3)
      | (None, s3) \<Rightarrow> (None, s3))))"

text \<open>\<open>Start\<close> up to the start of the worker pool.\<close>

definition bf_Start ::
    "env \<Rightarrow> decoder \<Rightarrow> bool \<Rightarrow> int \<Rightarrow> fetch list \<Rightarrow> fetch list \<Rightarrow> fetch list \<Rightarrow> database conn
     \<Rightarrow> go_error option \<times> Cache \<times> database conn" where
  "bf_Start e um includeMetadata endOffset sensors catalog station c =
     (case LoadDevices e NewCache c of
        (Some er, ca1, c1) \<Rightarrow> (Some er, ca1, c1)
      | (None, ca1, c1) \<Rightarrow>
     (case LoadTags e ca1 c1 of
        (Some er, ca2, c2) \<Rightarrow> (Some er, ca2, c2)
      | (None, ca2, c2) \<Rightarrow>
        let (_, ca3, c3) = LoadCatalog e ca2 c2 in
        if \<not> includeMetadata then (None, ca3, c3)
        else (case processMetadataPhase e um endOffset sensors catalog station (ca3, c3) of
                (Some er, ca4, c4) \<Rightarrow> (Some (Wrap ''metadata phase failed'' er), ca4, c4)
              | (None, ca4, c4) \<Rightarrow>
             (case LoadDevices e ca4 c4 of
                (Some er, ca5, c5) \<Rightarrow> (Some er, ca5, c5)
              | (None, ca5, c5) \<Rightarrow>
                  let (_, ca6, c6) = LoadCatalog e ca5 c5 in (None, ca6, c6)))))"

text \<open>
  The end of \<open>processTopics\<close>: the workers drain the channel (with a background context), then
  \<open>FlushAll(ctx)\<close> runs under the context of the run.  When that was cancelled, the pool refuses to
  begin a transaction.
\<close>

definition under_ctx :: "bool \<Rightarrow> env \<Rightarrow> env" where
  "under_ctx canceled e = (if canceled then (\<lambda>_. Refused Canceled) else e)"

fun bf_drain ::
    "env \<Rightarrow> decoder \<Rightarrow> message list \<Rightarrow> Cache \<Rightarrow> BatchWriter \<Rightarrow> database conn
     \<Rightarrow> Cache \<times> BatchWriter \<times> database conn" where
  "bf_drain e um [] ca bw c = (ca, bw, c)"
| "bf_drain e um (msg # msgs) ca bw c =
     (let (er, ca1, bw1, c1) = bf_processMessage e um msg ca bw c in bf_drain e um msgs ca1 bw1 c1)"

definition bf_finish ::
    "env \<Rightarrow> decoder \<Rightarrow> bool \<Rightarrow> message list \<Rightarrow> Cache \<Rightarrow> BatchWriter \<Rightarrow> database conn
     \<Rightarrow> BatchWriter \<times> database conn" where
  "bf_finish e um canceled queue ca bw c =
     (let (ca1, bw1, c1) = bf_drain e um queue ca bw c;
          (er, bw2, c2) = FlushAll (under_ctx canceled e) bw1 c1;
          (er', bw3, c3) = Close e bw2 c2
      in (bw3, c3))"

section \<open>What a topic yields\<close>

text \<open>The messages before the first error, and those of them below the end offset.\<close>

fun fetched_prefix :: "fetch list \<Rightarrow> message list" where
  "fetched_prefix (Fetched msg # fs) = msg # fetched_prefix fs"
| "fetched_prefix _ = []"

definition below_end :: "int \<Rightarrow> message \<Rightarrow> bool" where
  "below_end endOffset msg \<longleftrightarrow> \<not> (endOffset \<ge> 0 \<and> m_offset msg \<ge> endOffset)"

lemma topic_loop_spec:
  "topic_loop endOffset fs cnt p sub = (er, p', sub') \<Longrightarrow>
     sub' = sub @ takeWhile (below_end endOffset) (fetched_prefix fs)
     \<and> tp_MessagesProcessed p' = i64 (tp_MessagesProcessed p
           + int (length (takeWhile (below_end endOffset) (fetched_prefix fs))))
         \<or> \<not> in_i64 (tp_MessagesProcessed p)"
proof (induction endOffset fs cnt p sub rule: topic_loop.induct)
  case (1 endOffset cnt p sub)
  then show ?case by (auto simp: i64_id)
next
  case (2 endOffset e fs cnt p sub)
  then show ?case by (auto simp: i64_id split: if_splits)
next
  case (3 endOffset msg fs cnt p sub)
  show ?case
  proof (cases "below_end endOffset msg")
    case False
    with 3(2) show ?thesis by (auto simp: below_end_def Let_def i64_id split: if_splits)
  next
    case True
    then have n: "\<not> (endOffset \<ge> 0 \<and> m_offset msg \<ge> endOffset)" by (simp add: below_end_def)
    let ?p1 = "(if cnt = 0 then p\<lparr>tp_StartOffset := m_offset msg\<rparr> else p)"
    let ?p2 = "?p1\<lparr>tp_CurrentOffset := i64 (m_offset msg + 1),
                 tp_MessagesProcessed := i64 (tp_MessagesProcessed ?p1 + 1)\<rparr>"
    have "topic_loop endOffset fs (i64 (cnt + 1)) ?p2 (sub @ [msg]) = (er, p', sub')"
      using 3(2) n by (auto simp: Let_def)
    from 3(1)[OF refl n this] True show ?thesis
      by (auto simp: i64_add_left algebra_simps)
  qed
qed

text \<open>
  C23: Reading a topic submits exactly the messages that arrive before the first error of the reader and
  below the end offset (all of them when the end offset is negative), in order and once each, and
  counts them.
\<close>

theorem topic_yields_window:
  "snd (snd (processTopic endOffset fs)) = takeWhile (below_end endOffset) (fetched_prefix fs)
   \<and> tp_MessagesProcessed (fst (snd (processTopic endOffset fs)))
       = i64 (int (length (takeWhile (below_end endOffset) (fetched_prefix fs))))"
proof -
  obtain er p sub where r: "processTopic endOffset fs = (er, p, sub)" by (rule prod_cases3)
  from topic_loop_spec[OF r[unfolded processTopic_def]] show ?thesis
    by (simp add: r new_progress_def in_i64_def)
qed

section \<open>The same records as the live service\<close>

lemma bf_resolve_tag_same:
  assumes "dev \<in> device_ids (db c)"
  shows "bf_resolve_tag all_done um msg hv dev n v ca c = resolve_tag all_done um msg hv dev n v ca c"
proof (cases "GetTag ca dev n")
  case (Some tag)
  then show ?thesis by (simp add: bf_resolve_tag_def resolve_tag_def)
next
  case None
  obtain un desc md where fe: "field_enrichment ca hv n = (un, desc, md)" by (rule prod_cases3)
  define j where "j = (if md = [] then None else Some (JObj md))"
  have "\<exists>i D. upsert_tag dev n (determineDataType v) un desc j (db c) = Inr (i, D)"
    using assms unfolding upsert_tag_def device_ids_def
    by (cases "find (\<lambda>r. t_device_id r = dev \<and> t_tag_name r = n) (tags (db c))") simp_all
  then obtain i D where "upsert_tag dev n (determineDataType v) un desc j (db c) = Inr (i, D)" by blast
  then have "TagRepository_Create all_done dev n (determineDataType v) un desc md c
      = (Inr i, c\<lparr>db := D, calls := Suc (calls c)\<rparr>)"
    by (simp add: TagRepository_Create_def TagRepository_CreateOrUpdate_def j_def[symmetric]
        outcome_simps)
  with None fe show ?thesis by (simp add: bf_resolve_tag_def resolve_tag_def)
qed

lemma bf_fields_same:
  assumes "dev \<in> device_ids (db c)"
  shows "fold (bf_field all_done um msg hv dev) data (ca, bw, c)
       = fold (pool_field all_done um msg hv dev) data (ca, bw, c)"
  using assms
proof (induction data arbitrary: ca bw c)
  case Nil
  then show ?case by simp
next
  case (Cons f data)
  obtain n v where f: "f = (n, v)" by (cases f)
  have same: "bf_field all_done um msg hv dev f (ca, bw, c) = pool_field all_done um msg hv dev f (ca, bw, c)"
    by (simp add: bf_field_def pool_field_def f bf_resolve_tag_same[OF Cons.prems])
  obtain ca1 bw1 c1 where 1: "pool_field all_done um msg hv dev f (ca, bw, c) = (ca1, bw1, c1)"
    by (rule prod_cases3)
  have "repo_steps (db c) (db c1)"
    using pool_field_repo[of c all_done um msg hv dev f ca bw] 1 by simp
  then have "dev \<in> device_ids (db c1)" using dev_ids.statements Cons.prems by blast
  with Cons.IH same 1 show ?case by simp
qed


text \<open>
  Cancelling a run loses what is still pending: when the context is cancelled, the final flush cannot
  begin a transaction and forgets the batches, and the flush of \<open>Close\<close> finds nothing; the database is
  the one from before the flushes.
\<close>

theorem cancelled_run_drops_pending:
  assumes "bf_drain e um queue ca bw c = (ca1, bw1, c1)"
  shows "db (snd (bf_finish e um True queue ca bw c)) = db c1
         \<and> GetBatchSizes (fst (bf_finish e um True queue ca bw c)) = (0, 0, 0)"
proof -
  let ?e = "under_ctx True e"
  have refuse: "db c' = db d" if "flush_lane (copy_records ?e ins) l n d = (er, l', n', c')"
    for ins :: "(int \<times> 'v \<times> int) list \<Rightarrow> database \<Rightarrow> database result" and l n d er l' n' c'
    using that by (auto simp: flush_lane_def swap_out_def copy_records_def tx_call_def next_outcome_def
        under_ctx_def split: if_splits)
  obtain er bw2 c2 where 2: "FlushAll ?e bw1 c1 = (er, bw2, c2)" by (rule prod_cases3)
  have copies: "copyNumericRecords ?e = copy_records ?e insert_numeric"
    "copyTextRecords ?e = copy_records ?e insert_text" "copyNullRecords ?e = copy_records ?e insert_null"
    by (simp_all add: copy_defs fun_eq_iff)
  have "db c2 = db c1"
    using 2 unfolding FlushAll_def flush_defs copies Let_def
    by (auto split: prod.splits dest!: refuse)
  moreover have "GetBatchSizes bw2 = (0, 0, 0)" by (rule FlushAll_empty[OF 2])
  moreover have "FlushAll e bw2 c2 = (None, bw2, c2)"
    using \<open>GetBatchSizes bw2 = (0, 0, 0)\<close>
    by (simp add: GetBatchSizes_def FlushAll_def flush_defs flush_lane_def)
  ultimately show ?thesis using assms 2 by (simp add: bf_finish_def Close_def)
qed

section \<open>The cache after the metadata phase\<close>

text \<open>During the phase a cached device may lack its id; what holds then is that its \<open>lsid\<close> has a row.\<close>

definition phase_coherent :: "Cache \<times> database conn \<Rightarrow> bool" where
  "phase_coherent s \<longleftrightarrow>
     cache_coherent (fst s) (db (snd s)) \<and> catalog_coherent (fst s) (db (snd s))
     \<and> (\<forall>l d. GetDevice (fst s) l = Some d \<longrightarrow> l \<in> snd ` device_idents (db (snd s)))"

lemma phase_coherent_mono:
  assumes "phase_coherent (ca, c)" and "repo_steps (db c) (db c')"
  shows "phase_coherent (ca, c')"
  using assms(1) repo_steps_tag_idents[OF assms(2)]
    dev_row.statements[OF assms(2), of "device_idents (db c)"]
    cat_row.statements[OF assms(2), of "catalog_idents (db c)"]
  unfolding phase_coherent_def cache_coherent_def catalog_coherent_def
  by simp (meson image_mono subset_iff)

lemma coherent_phase: "coherent ca (db c) \<Longrightarrow> phase_coherent (ca, c)"
  unfolding coherent_def phase_coherent_def devices_coherent_def by force

lemma phase_orphan:
  "phase_coherent (ca, c) \<Longrightarrow> phase_coherent (ca, snd (OrphanRepository_Save e um msg l ts n rs c))"
  by (rule phase_coherent_mono) (auto intro: Save_repo)

lemma upsert_device_lsid:
  "upsert_device row D = Inr D' \<Longrightarrow> d_lsid row \<in> snd ` device_idents D'"
proof (cases "d_lsid row \<in> d_lsid ` set (devices D)")
  case True
  then obtain q where q: "q \<in> set (devices D)" "d_lsid q = d_lsid row" by auto
  assume "upsert_device row D = Inr D'"
  with True q have "row\<lparr>d_id := d_id q, d_rt_data_structure_type := d_rt_data_structure_type q\<rparr>
      \<in> set (devices D')" by (auto simp: upsert_device_def)
  then show ?thesis unfolding device_idents_def image_image by (rule rev_image_eqI) simp
qed (auto simp: upsert_device_def device_idents_def)

lemma bf_metadata_phase:
  assumes "phase_coherent s"
  shows "phase_coherent (snd (bf_metadata_message e um msg s))"
proof -
  obtain ca c where s: "s = (ca, c)" by (cases s)
  note start = assms[unfolded s]
  show ?thesis
  proof (cases "unmarshal_map um (m_value msg)")
    case None
    with start s show ?thesis by (simp add: bf_metadata_message_def phase_orphan)
  next
    case (Some m)
    show ?thesis
    proof (cases "as_arr (map_of m ''stations'')")
      case stations: (Some sts)
      obtain r c1 where r: "bf_processStationMetadata e um msg sts c = (r, c1)" by (metis surj_pair)
      then have "repo_steps (db c) (db c1)"
        using update_stations_repo[of c e um msg sts]
        by (auto simp: bf_processStationMetadata_def split: if_splits)
      with start s Some stations r show ?thesis
        by (simp add: bf_metadata_message_def phase_coherent_mono)
    next
      case no_stations: None
      show ?thesis
      proof (cases "as_num (map_of m ''lsid'')")
        case None
        with start s Some no_stations show ?thesis by (simp add: bf_metadata_message_def phase_orphan)
      next
        case lsid: (Some x)
        obtain r c1 where r: "DeviceRepository_Upsert e m c = (r, c1)" by (metis surj_pair)
        have "repo_steps (db c) (db c1)" using Upsert_repo[of c e m] r by simp
        with start have 1: "phase_coherent (ca, c1)" by (rule phase_coherent_mono)
        show ?thesis
        proof (cases r)
          case (Some er)
          with s \<open>unmarshal_map um (m_value msg) = Some m\<close> no_stations lsid r 1 show ?thesis
            by (simp add: bf_metadata_message_def phase_orphan)
        next
          case None
          with r lsid have "upsert_device (upsert_row m x) (db c) = Inr (db c1)"
            by (auto simp: DeviceRepository_Upsert_def dest: exec_stmt_None)
          from upsert_device_lsid[OF this] have "int_of_float x \<in> snd ` device_idents (db c1)"
            by (simp add: upsert_row_def)
          with s \<open>unmarshal_map um (m_value msg) = Some m\<close> no_stations lsid r None 1 show ?thesis
            by (auto simp: bf_metadata_message_def extractDeviceFromMetadata_def phase_coherent_def
                cache_coherent_def catalog_coherent_def)
        qed
      qed
    qed
  qed
qed

lemma catalog_field_phase:
  assumes "phase_coherent s"
  shows "phase_coherent (catalog_field e st ds desc field s)"
proof -
  obtain n v where f: "field = (n, v)" by (cases field)
  obtain ca c where s: "s = (ca, c)" by (cases s)
  show ?thesis
  proof (cases "as_obj (Some v)")
    case None
    with assms show ?thesis by (simp add: catalog_field_def f s)
  next
    case (Some m)
    let ?ft = "str_or_empty m ''type''" and ?un = "str_or_empty m ''units''"
    obtain r c1 where u: "CatalogRepository_Upsert e st ds n ?ft ?un desc c = (r, c1)"
      by (metis surj_pair)
    have "repo_steps (db c) (db c1)" using CatalogUpsert_repo[of c e st ds n ?ft ?un desc] u by simp
    with assms s have coh: "phase_coherent (ca, c1)" by (auto intro: phase_coherent_mono)
    show ?thesis
    proof (cases r)
      case (Some er)
      with coh u \<open>as_obj (Some v) = Some m\<close> show ?thesis by (simp add: catalog_field_def f s Let_def)
    next
      case None
      with u have "upsert_catalog \<lparr>c_sensor_type = st, c_data_structure_type = ds, c_field_name = n,
          c_field_type = ?ft, c_units = ?un, c_description = desc\<rparr> (db c) = Inr (db c1)"
        unfolding CatalogRepository_Upsert_def
        by (auto split: prod.splits option.splits dest: exec_stmt_None)
      from upsert_catalog_ident[OF this] have "(st, ds, n) \<in> catalog_idents (db c1)"
        by (simp add: catalog_key_def)
      with coh u None \<open>as_obj (Some v) = Some m\<close> show ?thesis
        by (auto simp: catalog_field_def f s Let_def phase_coherent_def catalog_coherent_def
            catalog_at_SetCatalogMetadata cache_coherent_def)
    qed
  qed
qed

lemma bf_catalog_phase:
  assumes "phase_coherent s"
  shows "phase_coherent (snd (bf_catalog_message e um msg s))"
proof -
  obtain ca c where s: "s = (ca, c)" by (cases s)
  have "phase_coherent (catalog_structure e st ds s)" if "phase_coherent s" for st ds s
    using that unfolding catalog_structure_def
    by (auto split: option.splits intro: fold_preserves[where P = phase_coherent] catalog_field_phase)
  then have "phase_coherent (fold (catalog_structure e st) dss (ca, c))" for st dss
    using assms s by (intro fold_preserves[where P = phase_coherent]) auto
  with assms s show ?thesis
    by (auto simp: bf_catalog_message_def Let_def phase_orphan split: option.splits)
qed

lemma metadata_topic_phase:
  assumes "\<And>msg s. phase_coherent s \<Longrightarrow> phase_coherent (snd (proc msg s))" and "phase_coherent s"
  shows "phase_coherent (snd (metadata_topic_loop proc endOffset fs s))"
  using assms(2)
proof (induction fs arbitrary: s)
  case Nil
  then show ?case by simp
next
  case (Cons f fs)
  with assms(1) show ?case by (cases f) simp_all
qed

lemma metadata_phase_coherent:
  assumes "phase_coherent s"
  shows "phase_coherent (snd (processMetadataPhase e um endOffset sensors catalog station s))"
proof -
  let ?m = "metadata_topic_loop (bf_metadata_message e um) endOffset"
  let ?c = "metadata_topic_loop (bf_catalog_message e um) endOffset"
  have m: "phase_coherent (snd (?m fs s))" if "phase_coherent s" for fs s
    using that by (intro metadata_topic_phase bf_metadata_phase)
  have c: "phase_coherent (snd (?c fs s))" if "phase_coherent s" for fs s
    using that by (intro metadata_topic_phase bf_catalog_phase)
  obtain r1 s1 where 1: "?m sensors s = (r1, s1)" by (metis surj_pair)
  obtain r2 s2 where 2: "?c catalog s1 = (r2, s2)" by (metis surj_pair)
  obtain r3 s3 where 3: "?m station s2 = (r3, s3)" by (metis surj_pair)
  have "phase_coherent s1" using m[OF assms, of sensors] 1 by simp
  moreover from this have "phase_coherent s2" using c[of s1 catalog] 2 by simp
  moreover from this have "phase_coherent s3" using m[of s2 station] 3 by simp
  ultimately show ?thesis using 1 2 3
    by (cases r1; cases r2; cases r3) (simp_all add: processMetadataPhase_def)
qed

lemma reload_devices:
  assumes "phase_coherent (ca, c)" and "LoadDevices e ca c = (None, ca', c')"
  shows "coherent ca' (db c')"
proof -
  obtain ds where q: "DeviceRepository_LoadAll e c = (Inr ds, c')"
    and ca': "ca' = fold (\<lambda>d. SetDevice (dv_LSID d) d) ds ca"
    using assms(2) by (auto simp: LoadDevices_def split: prod.splits sum.splits)
  have ds: "ds = map device_of_row (devices (db c))" and dbc: "db c' = db c"
    using DeviceLoadAll_Inr[OF q] LoadAll_dbD(1)[OF q] by auto
  have "(dv_ID d, l) \<in> device_idents (db c)" if get: "GetDevice ca' l = Some d" for l d
  proof (cases "find (\<lambda>v. dv_LSID v = l) (rev ds)")
    case (Some v)
    with get have "d = v" by (simp add: ca' device_store.lookup_fold)
    moreover have "v \<in> set ds \<and> dv_LSID v = l"
      using Some by (auto simp: find_Some_iff) (metis length_rev nth_mem set_rev)
    ultimately show ?thesis by (auto simp: ds device_of_row_def device_idents_def)
  next
    case None
    with get have "GetDevice ca l = Some d" by (simp add: ca' device_store.lookup_fold)
    then have "l \<in> snd ` device_idents (db c)" using assms(1) by (simp add: phase_coherent_def)
    moreover have "\<not> (\<exists>v \<in> set ds. dv_LSID v = l)" using None by (auto simp: find_None_iff)
    ultimately show ?thesis by (auto simp: ds device_of_row_def device_idents_def)
  qed
  then show ?thesis using assms(1) unfolding coherent_def devices_coherent_def phase_coherent_def
    by (simp add: ca' dbc cache_coherent_def catalog_coherent_def)
qed

text \<open>
  When \<open>Start\<close> reaches the data topics, every cached device, tag and catalog entry is a row of the
  database, for every schedule of failures and every content of the metadata topics: the reload after
  the metadata phase replaces all the devices the phase had cached without their id.
\<close>

theorem backfill_starts_coherent:
  assumes "bf_Start e um includeMetadata endOffset sensors catalog station c = (None, ca, c')"
  shows "coherent ca (db c')"
proof -
  obtain r1 ca1 c1 where 1: "LoadDevices e NewCache c = (r1, ca1, c1)" by (rule prod_cases3)
  obtain r2 ca2 c2 where 2: "LoadTags e ca1 c1 = (r2, ca2, c2)" by (rule prod_cases3)
  obtain r3 ca3 c3 where 3: "LoadCatalog e ca2 c2 = (r3, ca3, c3)" by (rule prod_cases3)
  obtain r4 ca4 c4 where 4:
    "processMetadataPhase e um endOffset sensors catalog station (ca3, c3) = (r4, ca4, c4)"
    by (rule prod_cases3)
  obtain r5 ca5 c5 where 5: "LoadDevices e ca4 c4 = (r5, ca5, c5)" by (rule prod_cases3)
  obtain r6 ca6 c6 where 6: "LoadCatalog e ca5 c5 = (r6, ca6, c6)" by (rule prod_cases3)
  have d: "db c1 = db c" "db c2 = db c1" "db c3 = db c2" "db c6 = db c5"
    using Load_db(1)[of e NewCache c] Load_db(2)[of e ca1 c1] Load_db(3)[of e ca2 c2]
      Load_db(3)[of e ca5 c5] 1 2 3 6 by simp_all
  have "coherent ca1 (db c1)" using LoadDevices_coherent[OF coherent_NewCache, of e c] 1 d by simp
  then have "coherent ca2 (db c2)" using LoadTags_keeps_coherent[of ca1 c1 e] 2 d by simp
  then have k3: "coherent ca3 (db c3)" using LoadCatalog_coherent[of ca2 c2 e] 3 d by simp
  have "phase_coherent (ca3, c3)" using k3 by (rule coherent_phase)
  from metadata_phase_coherent[OF this, of e um endOffset sensors catalog station] 4
  have k4: "phase_coherent (ca4, c4)" by simp
  have k5: "coherent ca5 (db c5)" if "r5 = None"
    using reload_devices[OF k4] 5 that by simp
  have "coherent ca6 (db c6)" if "r5 = None"
    using LoadCatalog_coherent[OF k5[OF that], of e] 6 d by simp
  with assms k3 1 2 3 4 5 6 show ?thesis
    by (auto simp: bf_Start_def Let_def split: option.splits if_splits)
qed

section \<open>Concrete runs\<close>


lemma cancelled_run_drops_pending_witness:
  "\<exists>ca1 bw1 c1. bf_drain all_done sample_decoder [] sample_cache
       ((NewBatchWriter 10)\<lparr>bw_numeric := \<lparr>pending = [(1, 5, 100)], inserts = 0\<rparr>\<rparr>)
       \<lparr>db = sample_db, calls = 0\<rparr> = (ca1, bw1, c1)
     \<and> pending (bw_numeric bw1) = [(1, 5, 100)]
     \<and> db (snd (bf_finish all_done sample_decoder True [] sample_cache
         ((NewBatchWriter 10)\<lparr>bw_numeric := \<lparr>pending = [(1, 5, 100)], inserts = 0\<rparr>\<rparr>)
         \<lparr>db = sample_db, calls = 0\<rparr>)) = sample_db"
  using cancelled_run_drops_pending[of all_done sample_decoder "[]" sample_cache
      "(NewBatchWriter 10)\<lparr>bw_numeric := \<lparr>pending = [(1, 5, 100)], inserts = 0\<rparr>\<rparr>"
      "\<lparr>db = sample_db, calls = 0\<rparr>"]
  by simp

lemma backfill_starts_coherent_witness:
  "\<exists>ca c'. bf_Start all_done sample_metadata_decoder True (- 1)
       [Fetched sample_msg, FetchError DeadlineExceeded] [FetchError DeadlineExceeded]
       [FetchError DeadlineExceeded] \<lparr>db = sample_db, calls = 0\<rparr> = (None, ca, c')
     \<and> coherent ca (db c')"
proof -
  let ?r = "bf_Start all_done sample_metadata_decoder True (- 1)
       [Fetched sample_msg, FetchError DeadlineExceeded] [FetchError DeadlineExceeded]
       [FetchError DeadlineExceeded] \<lparr>db = sample_db, calls = 0\<rparr>"
  have "fst ?r = None"
    by (simp add: bf_Start_def LoadDevices_def DeviceRepository_LoadAll_def LoadTags_def
        TagRepository_LoadAll_def outcome_simps processMetadataPhase_def Let_def
        split: prod.splits)
  then obtain ca c' where r: "?r = (None, ca, c')" by (metis prod.collapse)
  from backfill_starts_coherent[OF r] r show ?thesis by blast
qed

end
