(* ===== verification/Bf_Run.thy ===== *)
theory Bf_Run
  imports Bf_Service
begin

text \<open>
  A run of \<open>weatherlink-sql-backfill\<close> (\<open>processTopics\<close> of \<open>service/backfill.go\<close>, the worker pool of
  \<open>service/worker_pool.go\<close>): the topics are read in parallel into one bounded channel, workers take
  messages out of it and process them, the batch writer flushes now and then, and when all topics are
  read the channel is closed and drained.

  A move is what one goroutine does between two points at which another can run.  A run that ends has
  processed every message of every topic's window exactly once, in some order, and the errors it collected are
  those of its topics; a run can always be continued to its end; and what it read is in the database.
\<close>

section \<open>The state of a run\<close>

record bf_topic =
  bt_reads :: "fetch list"
  bt_count :: int
  bt_progress :: TopicProgress
  bt_running :: bool

record bf_state =
  br_topics :: "bf_topic list"
  br_errs :: "go_error list"                           \<comment> \<open>what was sent to \<open>errChan\<close>\<close>
  br_chan :: "message list"
  br_closed :: bool
  br_hands :: "message option list"                    \<comment> \<open>what each worker has taken and not yet processed\<close>
  br_cache :: Cache
  br_bw :: BatchWriter
  br_conn :: "database conn"

text \<open>One pass of the loop of \<open>processTopic\<close>: the error it returns with, or the message it submits.\<close>

definition topic_pass :: "int \<Rightarrow> bf_topic \<Rightarrow> bf_topic \<times> go_error list \<times> message list" where
  "topic_pass endOffset t =
     (case bt_reads t of
        [] \<Rightarrow> (t\<lparr>bt_running := False\<rparr>, [Canceled], [])
      | FetchError er # fs \<Rightarrow>
          (t\<lparr>bt_running := False\<rparr>,
           if er = DeadlineExceeded then [] else [Wrap ''failed to fetch message'' er], [])
      | Fetched msg # fs \<Rightarrow>
          let p1 = (if bt_count t = 0 then (bt_progress t)\<lparr>tp_StartOffset := m_offset msg\<rparr> else bt_progress t) in
          if endOffset \<ge> 0 \<and> m_offset msg \<ge> endOffset then (t\<lparr>bt_progress := p1, bt_running := False\<rparr>, [], [])
          else (t\<lparr>bt_reads := fs, bt_count := i64 (bt_count t + 1),
                  bt_progress := p1\<lparr>tp_CurrentOffset := i64 (m_offset msg + 1),
                                    tp_MessagesProcessed := i64 (tp_MessagesProcessed p1 + 1)\<rparr>\<rparr>, [], [msg]))"

text \<open>The channel has room for twice as many messages as there are workers; a full one blocks the submission.\<close>

definition chan_capacity :: "bf_state \<Rightarrow> nat" where
  "chan_capacity s = length (br_hands s) * 2"

datatype bf_move = Read nat | TakeUp nat | Process nat | Tick | CloseChannel

fun bf_step :: "env \<Rightarrow> decoder \<Rightarrow> int \<Rightarrow> bf_move \<Rightarrow> bf_state \<Rightarrow> bf_state option" where
  "bf_step e um endOffset (Read i) s =
     (if i < length (br_topics s) \<and> bt_running (br_topics s ! i) then
        let (t, errs, msgs) = topic_pass endOffset (br_topics s ! i) in
        if msgs \<noteq> [] \<and> length (br_chan s) \<ge> chan_capacity s then None
        else Some (s\<lparr>br_topics := (br_topics s)[i := t], br_errs := br_errs s @ errs, br_chan := br_chan s @ msgs\<rparr>)
      else None)"
| "bf_step e um endOffset (TakeUp w) s =
     (if w < length (br_hands s) \<and> br_hands s ! w = None then
        case br_chan s of
          [] \<Rightarrow> None
        | msg # rest \<Rightarrow> Some (s\<lparr>br_hands := (br_hands s)[w := Some msg], br_chan := rest\<rparr>)
      else None)"
| "bf_step e um endOffset (Process w) s =
     (if w < length (br_hands s) then
        case br_hands s ! w of
          None \<Rightarrow> None
        | Some msg \<Rightarrow>
            let (er, ca, bw, c) = bf_processMessage e um msg (br_cache s) (br_bw s) (br_conn s)
            in Some (s\<lparr>br_hands := (br_hands s)[w := None], br_cache := ca, br_bw := bw, br_conn := c\<rparr>)
      else None)"
| "bf_step e um endOffset Tick s =
     (let (er, bw, c) = FlushAll e (br_bw s) (br_conn s) in Some (s\<lparr>br_bw := bw, br_conn := c\<rparr>))"
| "bf_step e um endOffset CloseChannel s =
     (if \<not> br_closed s \<and> (\<forall>t \<in> set (br_topics s). \<not> bt_running t) then Some (s\<lparr>br_closed := True\<rparr>) else None)"

fun bf_steps :: "env \<Rightarrow> decoder \<Rightarrow> int \<Rightarrow> bf_move list \<Rightarrow> bf_state \<Rightarrow> bf_state option" where
  "bf_steps e um endOffset [] s = Some s"
| "bf_steps e um endOffset (mv # mvs) s =
     (case bf_step e um endOffset mv s of None \<Rightarrow> None | Some s1 \<Rightarrow> bf_steps e um endOffset mvs s1)"

definition start_topic :: "int \<Rightarrow> fetch list \<Rightarrow> bf_topic" where
  "start_topic endOffset fs = \<lparr>bt_reads = fs, bt_count = 0, bt_progress = new_progress endOffset, bt_running = True\<rparr>"

definition start_run :: "nat \<Rightarrow> int \<Rightarrow> fetch list list \<Rightarrow> Cache \<times> BatchWriter \<times> database conn \<Rightarrow> bf_state" where
  "start_run workers endOffset topics = (\<lambda>(ca, bw, c).
     \<lparr>br_topics = map (start_topic endOffset) topics, br_errs = [], br_chan = [], br_closed = False,
      br_hands = replicate workers None, br_cache = ca, br_bw = bw, br_conn = c\<rparr>)"

text \<open>\<open>Shutdown\<close> returns when the closed channel is empty and every worker has left.\<close>

definition drained :: "bf_state \<Rightarrow> bool" where
  "drained s \<longleftrightarrow> br_closed s \<and> br_chan s = [] \<and> set (br_hands s) \<subseteq> {None}"

text \<open>What \<open>processTopics\<close> returns, and what is left when the service is closed.\<close>

definition processTopics ::
    "env \<Rightarrow> decoder \<Rightarrow> bool \<Rightarrow> bf_state \<Rightarrow> go_error option \<times> BatchWriter \<times> database conn" where
  "processTopics e um canceled s =
     ((case br_errs s of [] \<Rightarrow> None | er # _ \<Rightarrow> Some er),
      bf_finish e um canceled [] (br_cache s) (br_bw s) (br_conn s))"

section \<open>A run is a sequence of messages and flushes\<close>

definition option_list :: "'a option \<Rightarrow> 'a list" where
  "option_list x = (case x of None \<Rightarrow> [] | Some y \<Rightarrow> [y])"

lemma option_list_simps [simp]: "option_list None = []" "option_list (Some x) = [x]"
  by (simp_all add: option_list_def)

text \<open>A message, or \<open>None\<close> for a flush of the ticker.\<close>

definition bf_op ::
    "env \<Rightarrow> decoder \<Rightarrow> message option \<Rightarrow> Cache \<times> BatchWriter \<times> database conn \<Rightarrow> Cache \<times> BatchWriter \<times> database conn" where
  "bf_op e um x = (\<lambda>(ca, bw, c).
     case x of
       None \<Rightarrow> (let (er, bw1, c1) = FlushAll e bw c in (ca, bw1, c1))
     | Some msg \<Rightarrow> snd (bf_processMessage e um msg ca bw c))"

lemma mset_concat_update:
  assumes "i < length xs"
  shows "mset (concat (xs[i := x])) + mset (xs ! i) = mset (concat xs) + mset x"
proof -
  have "mset (concat xs) = mset (concat (take i xs)) + mset (xs ! i) + mset (concat (drop (Suc i) xs))"
    using id_take_nth_drop[OF assms] by (metis concat.simps(2) concat_append mset_append add.assoc)
  moreover have "mset (concat (xs[i := x])) = mset (concat (take i xs)) + mset x + mset (concat (drop (Suc i) xs))"
    using upd_conv_take_nth_drop[OF assms, of x] by simp
  ultimately show ?thesis by simp
qed

text \<open>One topic: what it has submitted and what it will still do make up its \<open>processTopic\<close>.\<close>

definition topic_ok :: "int \<Rightarrow> fetch list \<Rightarrow> message list \<Rightarrow> go_error list \<Rightarrow> bf_topic \<Rightarrow> bool" where
  "topic_ok endOffset fs sub errs t \<longleftrightarrow>
     (if bt_running t
      then errs = [] \<and> topic_loop endOffset (bt_reads t) (bt_count t) (bt_progress t) sub = processTopic endOffset fs
      else \<exists>er. processTopic endOffset fs = (er, bt_progress t, sub) \<and> errs = option_list er)"

lemma topic_pass_ok:
  assumes "topic_ok endOffset fs sub errs t" and "bt_running t" and "topic_pass endOffset t = (t', errs', msgs)"
  shows "topic_ok endOffset fs (sub @ msgs) (errs @ errs') t'"
proof -
  have loop: "errs = []" "processTopic endOffset fs = topic_loop endOffset (bt_reads t) (bt_count t) (bt_progress t) sub"
    using assms(1,2) by (simp_all add: topic_ok_def)
  show ?thesis
  proof (cases "bt_reads t")
    case Nil
    with loop assms(3) show ?thesis by (auto simp: topic_pass_def topic_ok_def)
  next
    case (Cons f fs')
    with loop assms(2,3) show ?thesis
      by (cases f) (auto simp: topic_pass_def topic_ok_def Let_def split: if_splits)
  qed
qed

definition run_ok ::
    "env \<Rightarrow> decoder \<Rightarrow> int \<Rightarrow> fetch list list \<Rightarrow> Cache \<times> BatchWriter \<times> database conn \<Rightarrow> bf_state \<Rightarrow> bool" where
  "run_ok e um endOffset topics start s \<longleftrightarrow>
     length (br_topics s) = length topics \<and> (br_closed s \<longrightarrow> (\<forall>t \<in> set (br_topics s). \<not> bt_running t))
     \<and> (\<exists>subs errss ops. length subs = length topics \<and> length errss = length topics
          \<and> (\<forall>i < length topics. topic_ok endOffset (topics ! i) (subs ! i) (errss ! i) (br_topics s ! i))
          \<and> fold (bf_op e um) ops start = (br_cache s, br_bw s, br_conn s)
          \<and> mset (concat (map option_list ops)) + mset (br_chan s) + mset (concat (map option_list (br_hands s)))
              = mset (concat subs)
          \<and> mset (br_errs s) = mset (concat errss))"

lemma run_ok_start: "run_ok e um endOffset topics start (start_run workers endOffset topics start)"
proof -
  let ?n = "replicate (length topics) []"
  have "concat (map option_list (replicate workers (None :: message option))) = []" by (induction workers) simp_all
  moreover have "mset (concat (?n :: message list list)) = {#}" "mset (concat (?n :: go_error list list)) = {#}"
    by (induction topics) simp_all
  ultimately show ?thesis
    unfolding run_ok_def
    by (intro conjI exI[of _ ?n] exI[of _ "[]"])
      (auto simp: start_run_def start_topic_def topic_ok_def processTopic_def case_prod_unfold)
qed

lemma run_ok_step:
  assumes ok: "run_ok e um endOffset topics start s" and step: "bf_step e um endOffset mv s = Some s'"
  shows "run_ok e um endOffset topics start s'"
proof -
  obtain subs errss ops where inv: "length (br_topics s) = length topics"
    "br_closed s \<longrightarrow> (\<forall>t \<in> set (br_topics s). \<not> bt_running t)"
    "length subs = length topics" "length errss = length topics"
    "\<forall>i < length topics. topic_ok endOffset (topics ! i) (subs ! i) (errss ! i) (br_topics s ! i)"
    "fold (bf_op e um) ops start = (br_cache s, br_bw s, br_conn s)"
    "mset (concat (map option_list ops)) + mset (br_chan s) + mset (concat (map option_list (br_hands s)))
       = mset (concat subs)" "mset (br_errs s) = mset (concat errss)"
    using ok unfolding run_ok_def by blast
  show ?thesis
  proof (cases mv)
    case (Read i)
    then obtain t errs msgs where i: "i < length topics" "bt_running (br_topics s ! i)"
      and pass: "topic_pass endOffset (br_topics s ! i) = (t, errs, msgs)"
      and s': "s' = s\<lparr>br_topics := (br_topics s)[i := t], br_errs := br_errs s @ errs, br_chan := br_chan s @ msgs\<rparr>"
      using step inv(1) by (auto simp: Let_def split: if_splits prod.splits)
    have opened: "\<not> br_closed s" using inv(1,2) i by auto
    have "topic_ok endOffset (topics ! i) (subs ! i @ msgs) (errss ! i @ errs) t"
      using topic_pass_ok[OF _ i(2) pass] inv(5) i(1) by blast
    then have "\<forall>j < length topics. topic_ok endOffset (topics ! j) (subs[i := subs ! i @ msgs] ! j)
        (errss[i := errss ! i @ errs] ! j) ((br_topics s)[i := t] ! j)"
      using inv(1,3,4,5) i(1) by (simp add: nth_list_update)
    moreover have "mset (concat (subs[i := subs ! i @ msgs])) = mset (concat subs) + mset msgs"
      "mset (concat (errss[i := errss ! i @ errs])) = mset (concat errss) + mset errs"
      using mset_concat_update[of i subs "subs ! i @ msgs"] mset_concat_update[of i errss "errss ! i @ errs"]
        inv(3,4) i(1) by simp_all
    ultimately show ?thesis
      unfolding run_ok_def s' using inv opened
      by (intro conjI exI[of _ "subs[i := subs ! i @ msgs]"] exI[of _ "errss[i := errss ! i @ errs]"] exI[of _ ops])
        (simp_all add: inv(7)[symmetric] ac_simps)
  next
    case (TakeUp w)
    then obtain msg rest where w: "w < length (br_hands s)" "br_hands s ! w = None" "br_chan s = msg # rest"
      and s': "s' = s\<lparr>br_hands := (br_hands s)[w := Some msg], br_chan := rest\<rparr>"
      using step by (auto split: if_splits list.splits)
    have "mset (concat (map option_list ((br_hands s)[w := Some msg]))) = mset (concat (map option_list (br_hands s))) + {#msg#}"
      using mset_concat_update[of w "map option_list (br_hands s)" "[msg]"] w by (simp add: map_update)
    then show ?thesis
      unfolding run_ok_def s' using inv w(3)
      by (intro conjI exI[of _ subs] exI[of _ errss] exI[of _ ops]) simp_all
  next
    case (Process w)
    then obtain msg er ca bw c where w: "w < length (br_hands s)" "br_hands s ! w = Some msg"
      and p: "bf_processMessage e um msg (br_cache s) (br_bw s) (br_conn s) = (er, ca, bw, c)"
      and s': "s' = s\<lparr>br_hands := (br_hands s)[w := None], br_cache := ca, br_bw := bw, br_conn := c\<rparr>"
      using step by (auto simp: Let_def split: if_splits option.splits prod.splits)
    have "mset (concat (map option_list ((br_hands s)[w := None]))) + {#msg#} = mset (concat (map option_list (br_hands s)))"
      using mset_concat_update[of w "map option_list (br_hands s)" "[]"] w by (simp add: map_update)
    then show ?thesis
      unfolding run_ok_def s' using inv p
      by (intro conjI exI[of _ subs] exI[of _ errss] exI[of _ "ops @ [Some msg]"])
        (simp_all add: bf_op_def inv(7)[symmetric] ac_simps)
  next
    case Tick
    then obtain er bw c where "FlushAll e (br_bw s) (br_conn s) = (er, bw, c)" "s' = s\<lparr>br_bw := bw, br_conn := c\<rparr>"
      using step by (auto simp: Let_def split: prod.splits)
    then show ?thesis
      unfolding run_ok_def using inv
      by (intro conjI exI[of _ subs] exI[of _ errss] exI[of _ "ops @ [None]"]) (simp_all add: bf_op_def)
  next
    case CloseChannel
    then have "s' = s\<lparr>br_closed := True\<rparr>" "\<forall>t \<in> set (br_topics s). \<not> bt_running t"
      using step by (auto split: if_splits)
    then show ?thesis
      unfolding run_ok_def using inv
      by (intro conjI exI[of _ subs] exI[of _ errss] exI[of _ ops]) simp_all
  qed
qed

lemma run_ok_steps:
  assumes "bf_steps e um endOffset mvs s = Some s'" and "run_ok e um endOffset topics start s"
  shows "run_ok e um endOffset topics start s'"
  using assms by (induction mvs arbitrary: s) (auto split: option.splits intro: run_ok_step)

text \<open>What the topics of a run yield, and the errors they end with.\<close>

definition window_messages :: "int \<Rightarrow> fetch list list \<Rightarrow> message list" where
  "window_messages endOffset topics = concat (map (\<lambda>fs. snd (snd (processTopic endOffset fs))) topics)"

definition topic_errors :: "int \<Rightarrow> fetch list list \<Rightarrow> go_error list" where
  "topic_errors endOffset topics = concat (map (\<lambda>fs. option_list (fst (processTopic endOffset fs))) topics)"

lemma drained_run:
  assumes "run_ok e um endOffset topics start s" and "drained s"
  obtains ops where "fold (bf_op e um) ops start = (br_cache s, br_bw s, br_conn s)"
    "mset (concat (map option_list ops)) = mset (window_messages endOffset topics)"
    "mset (br_errs s) = mset (topic_errors endOffset topics)"
proof -
  obtain subs errss ops where inv: "length (br_topics s) = length topics"
    "br_closed s \<longrightarrow> (\<forall>t \<in> set (br_topics s). \<not> bt_running t)"
    "length subs = length topics" "length errss = length topics"
    "\<forall>i < length topics. topic_ok endOffset (topics ! i) (subs ! i) (errss ! i) (br_topics s ! i)"
    "fold (bf_op e um) ops start = (br_cache s, br_bw s, br_conn s)"
    "mset (concat (map option_list ops)) + mset (br_chan s) + mset (concat (map option_list (br_hands s)))
       = mset (concat subs)" "mset (br_errs s) = mset (concat errss)"
    using assms(1) unfolding run_ok_def by blast
  have idle: "map option_list (br_hands s) = replicate (length (br_hands s)) []"
    using assms(2) by (intro replicate_eqI) (auto simp: drained_def)
  have "subs ! i = snd (snd (processTopic endOffset (topics ! i))) \<and> errss ! i = option_list (fst (processTopic endOffset (topics ! i)))"
    if "i < length topics" for i
    using that inv(1,2,5) assms(2) by (fastforce simp: topic_ok_def drained_def)
  then have "subs = map (\<lambda>fs. snd (snd (processTopic endOffset fs))) topics"
    "errss = map (\<lambda>fs. option_list (fst (processTopic endOffset fs))) topics"
    using inv(3,4) by (auto intro: nth_equalityI)
  then show thesis
    using inv(6-8) assms(2) idle that[of ops]
    by (simp add: window_messages_def topic_errors_def drained_def)
qed

section \<open>A run can always be continued to its end\<close>

definition work_left :: "bf_state \<Rightarrow> nat" where
  "work_left s =
     sum_list (map (\<lambda>t. if bt_running t then 3 * length (bt_reads t) + 1 else 0) (br_topics s))
     + 2 * length (br_chan s) + length (concat (map option_list (br_hands s))) + (if br_closed s then 0 else 1)"

lemma sum_list_update_less:
  fixes f :: "'a \<Rightarrow> nat"
  assumes "i < length xs"
  shows "sum_list (map f (xs[i := x])) + f (xs ! i) = sum_list (map f xs) + f x"
  using sum_list_update[of i "map f xs" "f x"] elem_le_sum_list[of i "map f xs"] assms
  by (simp add: map_update)

lemma length_hands_update:
  assumes "w < length hands"
  shows "length (concat (map option_list (hands[w := x]))) + length (option_list (hands ! w))
     = length (concat (map option_list hands)) + length (option_list x)"
  using sum_list_update_less[OF assms, of "\<lambda>x. length (option_list x)" x]
  by (simp add: length_concat comp_def)

lemma topic_pass_work:
  assumes "topic_pass endOffset t = (t', errs, msgs)" and "bt_running t"
  shows "(if bt_running t' then 3 * length (bt_reads t') + 1 else 0) + 2 * length msgs < 3 * length (bt_reads t) + 1"
  using assms by (auto simp: topic_pass_def Let_def split: list.splits fetch.splits if_splits)

lemma some_move:
  assumes "\<not> drained s" and "br_hands s \<noteq> []"
  shows "\<exists>mv s'. bf_step e um endOffset mv s = Some s' \<and> work_left s' < work_left s
     \<and> br_hands s' \<noteq> [] \<and> length (br_topics s') = length (br_topics s)"
proof (cases "set (br_hands s) \<subseteq> {None}")
  case False
  then obtain w msg where w: "w < length (br_hands s)" "br_hands s ! w = Some msg"
    by (metis in_set_conv_nth not_None_eq singleton_iff subsetI)
  obtain er ca bw c where "bf_processMessage e um msg (br_cache s) (br_bw s) (br_conn s) = (er, ca, bw, c)"
    by (metis surj_pair)
  with w length_hands_update[OF w(1), of None] assms(2) show ?thesis
    by (intro exI[of _ "Process w"]) (simp add: work_left_def)
next
  case idle: True
  show ?thesis
  proof (cases "br_chan s")
    case (Cons msg rest)
    have "0 < length (br_hands s)" "br_hands s ! 0 = None" using idle assms(2) by (cases "br_hands s"; auto)+
    with Cons length_hands_update[of 0 "br_hands s" "Some msg"] assms(2) show ?thesis
      by (intro exI[of _ "TakeUp 0"]) (simp add: work_left_def)
  next
    case empty: Nil
    show ?thesis
    proof (cases "\<forall>t \<in> set (br_topics s). \<not> bt_running t")
      case True
      then have "\<not> br_closed s" using assms(1) idle empty by (simp add: drained_def)
      with True assms(2) show ?thesis
        by (intro exI[of _ CloseChannel]) (simp add: work_left_def)
    next
      case False
      then obtain i where i: "i < length (br_topics s)" "bt_running (br_topics s ! i)"
        by (metis in_set_conv_nth)
      obtain t errs msgs where pass: "topic_pass endOffset (br_topics s ! i) = (t, errs, msgs)" by (rule prod_cases3)
      have "\<not> (msgs \<noteq> [] \<and> length (br_chan s) \<ge> chan_capacity s)" using empty assms(2) by (simp add: chan_capacity_def)
      then show ?thesis
        using i pass empty assms(2) topic_pass_work[OF pass i(2)]
          sum_list_update_less[OF i(1), of "\<lambda>t. if bt_running t then 3 * length (bt_reads t) + 1 else 0" t]
        by (intro exI[of _ "Read i"]) (simp add: work_left_def)
    qed
  qed
qed

lemma bf_steps_append:
  "bf_steps e um endOffset (mvs @ mvs') s = Option.bind (bf_steps e um endOffset mvs s) (bf_steps e um endOffset mvs')"
  by (induction mvs arbitrary: s) (auto split: option.splits)

lemma run_can_end:
  assumes "br_hands s \<noteq> []"
  shows "\<exists>mvs s'. bf_steps e um endOffset mvs s = Some s' \<and> drained s' \<and> length mvs \<le> work_left s"
  using assms
proof (induction "work_left s" arbitrary: s rule: less_induct)
  case less
  show ?case
  proof (cases "drained s")
    case True
    then show ?thesis by (intro exI[of _ "[]"]) simp
  next
    case False
    from some_move[OF this less.prems] obtain mv s1 where mv: "bf_step e um endOffset mv s = Some s1"
      "work_left s1 < work_left s" "br_hands s1 \<noteq> []" by blast
    from less.hyps[OF mv(2,3)] obtain mvs s' where "bf_steps e um endOffset mvs s1 = Some s'" "drained s'"
      "length mvs \<le> work_left s1" by blast
    with mv show ?thesis by (intro exI[of _ "mv # mvs"] exI[of _ s']) simp
  qed
qed

lemma hands_length:
  assumes "bf_steps e um endOffset mvs s = Some s'"
  shows "length (br_hands s') = length (br_hands s)"
proof -
  have "length (br_hands s2) = length (br_hands s1)" if "bf_step e um endOffset mv s1 = Some s2" for mv s1 s2
    using that by (cases mv) (auto simp: Let_def split: if_splits option.splits list.splits prod.splits)
  then show ?thesis using assms by (induction mvs arbitrary: s) (auto split: option.splits)
qed


section \<open>What a run stores\<close>

text \<open>Tags of one name stay numeric while the messages have numbers under that name.\<close>

definition numeric_tags :: "string \<Rightarrow> Cache \<Rightarrow> bool" where
  "numeric_tags n ca \<longleftrightarrow> (\<forall>dev t. GetTag ca dev n = Some t \<longrightarrow> tg_DataType t = ''numeric'')"

lemma direct_field_numeric:
  assumes "direct_field e um msg hv dev (m, v) (ca, c) = (ca', c')" and "numeric_tags n ca"
    and "m = n \<Longrightarrow> \<exists>y. v = JNum y"
  shows "numeric_tags n ca' \<and> GetDevice ca' = GetDevice ca"
proof -
  have "determineDataType v = ''numeric''" if "m = n" using assms(3)[OF that] by (auto simp: determineDataType_def)
  then show ?thesis
    using assms(1,2)
    by (auto simp: direct_field_def resolve_tag_def numeric_tags_def Let_def
        split: if_splits option.splits prod.splits sum.splits)
qed

lemma direct_fold_numeric:
  assumes "fold (direct_field e um msg hv dev) data (ca, c) = (ca', c')" and "numeric_tags n ca"
    and "\<And>v. (n, v) \<in> set data \<Longrightarrow> \<exists>y. v = JNum y"
  shows "numeric_tags n ca' \<and> GetDevice ca' = GetDevice ca"
  using assms
proof (induction data arbitrary: ca c)
  case (Cons f data)
  obtain m v where f: "f = (m, v)" by fastforce
  obtain ca1 c1 where 1: "direct_field e um msg hv dev f (ca, c) = (ca1, c1)" by fastforce
  have "numeric_tags n ca1 \<and> GetDevice ca1 = GetDevice ca"
    using direct_field_numeric[OF 1[unfolded f] Cons.prems(2)] Cons.prems(3) f by auto
  with Cons.IH[of ca1 c1] Cons.prems 1 show ?case by auto
qed simp

definition device_of :: "Cache \<Rightarrow> int \<Rightarrow> int option" where
  "device_of ca l = map_option dv_ID (GetDevice ca l)"

lemma note_type_frame:
  assumes "GetDevice ca l = Some device"
  shows "device_of (note_type l device dst ca) = device_of ca" "GetTag (note_type l device dst ca) = GetTag ca"
  using assms by (auto simp: note_type_def device_of_def fun_eq_iff)

lemma bf_processMessage_same:
  assumes "GetDevice ca (hv_lsid (read_headers (m_headers msg))) = Some device"
    and "dv_ID device \<in> device_ids (db c)" and "unmarshal_map um (m_value msg) = Some data"
  shows "bf_processMessage all_done um msg ca bw c = processMessage all_done um msg ca bw c"
  using assms by (simp add: bf_processMessage_def processMessage_def Let_def bf_fields_same)

text \<open>One message of the backfill, against the database with everything pending written.\<close>

lemma bf_message_sim:
  assumes "sim bw c d" and "coherent ca (db c)" and "numeric_tags n ca"
    and "\<And>data v. unmarshal_map um (m_value msg) = Some data \<Longrightarrow> (n, v) \<in> set data \<Longrightarrow> \<exists>y. v = JNum y"
    and run: "bf_processMessage all_done um msg ca bw c = (er, ca', bw', c')"
  obtains d' where "sim bw' c' d'" "repo_steps (db c) (db c')" "repo_steps (db d) (db d')" "coherent ca' (db c')"
    "numeric_tags n ca'" "device_of ca' = device_of ca"
    "\<And>device data. hv_lsid (read_headers (m_headers msg)) \<noteq> 0 \<Longrightarrow>
       GetDevice ca (hv_lsid (read_headers (m_headers msg))) = Some device \<Longrightarrow>
       unmarshal_map um (m_value msg) = Some data \<Longrightarrow> DataProcessor_ProcessMessage all_done um msg ca d = (er, ca', d')"
proof -
  note res = that
  define hv where "hv = read_headers (m_headers msg)"
  have saved: thesis
    if orphan: "OrphanRepository_Save all_done um msg (hv_lsid hv) (hv_timestamp hv) [] rs c = (er0, c')" "bw' = bw"
      and frame: "coherent ca' (db c)" "numeric_tags n ca'" "device_of ca' = device_of ca"
      and bad: "hv_lsid hv = 0 \<or> GetDevice ca (hv_lsid hv) = None \<or> unmarshal_map um (m_value msg) = None" for rs er0
  proof -
    obtain er1 c1 d1 where s: "OrphanRepository_Save all_done um msg (hv_lsid hv) (hv_timestamp hv) [] rs c = (er1, c1)"
      "OrphanRepository_Save all_done um msg (hv_lsid hv) (hv_timestamp hv) [] rs d = (er1, d1)" "sim bw c1 d1"
      using sim_save[OF assms(1)] by meson
    have r: "repo_steps (db c) (db c')" "repo_steps (db d) (db d1)"
      using Save_repo[of c all_done um msg "hv_lsid hv" "hv_timestamp hv" "[]" rs]
        Save_repo[of d all_done um msg "hv_lsid hv" "hv_timestamp hv" "[]" rs] orphan s by simp_all
    show thesis
      by (rule res[of d1]) (use s r orphan frame bad coherent_mono[OF frame(1) r(1)] in \<open>auto simp: hv_def\<close>)
  qed
  consider (nolsid) "hv_lsid hv = 0" | (unknown) "hv_lsid hv \<noteq> 0" "GetDevice ca (hv_lsid hv) = None"
    | (known) device where "hv_lsid hv \<noteq> 0" "GetDevice ca (hv_lsid hv) = Some device"
    by (cases "GetDevice ca (hv_lsid hv)") auto
  then show thesis
  proof cases
    case nolsid
    then have "ca' = ca" "bw' = bw" "c' = c" using run by (simp_all add: bf_processMessage_def hv_def Let_def)
    then show thesis by (intro res[of d]) (use nolsid assms(1-3) in \<open>auto simp: hv_def\<close>)
  next
    case unknown
    then have "ca' = ca" "bw' = bw"
      "c' = snd (OrphanRepository_Save all_done um msg (hv_lsid hv) (hv_timestamp hv) [] ''missing_device'' c)"
      using run by (simp_all add: bf_processMessage_def hv_def Let_def)
    then show thesis by (intro saved) (use unknown assms(2,3) in \<open>auto simp: prod_eq_iff\<close>)
  next
    case known
    define ca1 where "ca1 = note_type (hv_lsid hv) device (hv_dataStructureType hv) ca"
    note fr = note_type_frame[OF known(2), of "hv_dataStructureType hv", folded ca1_def]
    have dev: "dv_ID device \<in> device_ids (db c)"
      using known(2) assms(2) by (force simp: coherent_def devices_coherent_def device_idents_def device_ids_def)
    have coh1: "coherent ca1 (db c)"
      using assms(2) known(2) by (auto simp: ca1_def note_type_def coherent_def devices_coherent_def cache_coherent_def
          catalog_coherent_def)
    have num1: "numeric_tags n ca1" using assms(3) fr(2) by (simp add: numeric_tags_def)
    show thesis
    proof (cases "unmarshal_map um (m_value msg)")
      case None
      then have "ca' = ca1" "bw' = bw"
        "c' = snd (OrphanRepository_Save all_done um msg (hv_lsid hv) (hv_timestamp hv) [] ''failed to parse message body'' c)"
        using run known unfolding bf_processMessage_def Let_def hv_def[symmetric] by (simp_all add: ca1_def)
      then show thesis by (intro saved) (use None coh1 num1 fr(1) in \<open>auto simp: prod_eq_iff\<close>)
    next
      case (Some data)
      have same: "processMessage all_done um msg ca bw c = (er, ca', bw', c')"
        using bf_processMessage_same[of ca msg device c um data bw] known(2) dev Some run by (simp add: hv_def)
      obtain d' where d': "DataProcessor_ProcessMessage all_done um msg ca d = (er, ca', d')" "sim bw' c' d'"
        using sim_message[OF assms(1), of ca um msg] same assms(2) cache_coherent_tags_ok
        by (auto simp: coherent_def)
      then have fold: "fold (direct_field all_done um msg hv (dv_ID device)) data (ca1, d) = (ca', d')"
        using known Some unfolding DataProcessor_ProcessMessage_def Let_def hv_def[symmetric]
        by (simp add: ca1_def split: prod.splits)
      have "repo_steps (db c) (db c')" using processMessage_repo[of c all_done um msg ca bw] same by simp
      moreover have "numeric_tags n ca' \<and> GetDevice ca' = GetDevice ca1"
        using direct_fold_numeric[OF fold num1] assms(4) Some by blast
      moreover from this have "device_of ca' = device_of ca1" by (simp add: device_of_def fun_eq_iff)
      ultimately show thesis
        using d' direct_fold(1)[OF fold] processMessage_coherent_all[OF same assms(2)] fr(1)
        by (intro res[of d']) auto
    qed
  qed
qed

text \<open>A reading is stored when its tag has a row and the tag has a value at its time.\<close>

definition stored :: "int \<Rightarrow> string \<Rightarrow> int \<Rightarrow> database \<Rightarrow> bool" where
  "stored dev n ts D \<longleftrightarrow> (\<exists>i y. (i, dev, n) \<in> tag_idents D \<and> records_numeric D (i, ts) = Some y)"

lemma stored_mono:
  assumes "stored dev n ts D" and "repo_steps D D'"
  shows "stored dev n ts D'"
  using assms(1) repo_steps_tag_idents[OF assms(2)] repo_steps_records_le[OF assms(2)]
  unfolding stored_def records_le_def by (metis domI map_le_def subsetD)

text \<open>What holds between two operations, the pending records counted as written.\<close>

definition settled_state :: "string \<Rightarrow> (int \<Rightarrow> int option) \<Rightarrow> Cache \<times> BatchWriter \<times> database conn \<Rightarrow> database conn \<Rightarrow> bool" where
  "settled_state n ids s d \<longleftrightarrow>
     (case s of (ca, bw, c) \<Rightarrow> sim bw c d \<and> coherent ca (db c) \<and> db_wf (db c) \<and> numeric_tags n ca \<and> device_of ca = ids)"

lemma FlushAll_settled:
  assumes "sim bw c d" and "FlushAll all_done bw c = (er, bw', c')"
  shows "er = None \<and> db c' = db d \<and> sim bw' c' d"
proof -
  have f: "er = None" "db c' = settled bw (db c)" "GetBatchSizes bw' = (0, 0, 0)"
    using FlushAll_done[of bw c] assms by (auto simp: sim_def)
  then have "settled bw' D = D" "flushable bw' D" for D
    by (simp_all add: GetBatchSizes_def settled_def flushable_defs insert_new_def)
  with f assms(1) show ?thesis by (simp add: sim_def)
qed

lemma bf_op_settled:
  assumes "settled_state n ids s d"
    and "\<And>msg data v. x = Some msg \<Longrightarrow> unmarshal_map um (m_value msg) = Some data \<Longrightarrow> (n, v) \<in> set data \<Longrightarrow> \<exists>y. v = JNum y"
  shows "\<exists>d'. settled_state n ids (bf_op all_done um x s) d' \<and> repo_steps (db d) (db d')"
proof -
  obtain ca bw c where s: "s = (ca, bw, c)" by (rule prod_cases3)
  show ?thesis
  proof (cases x)
    case None
    obtain er bw1 c1 where f: "FlushAll all_done bw c = (er, bw1, c1)" by (rule prod_cases3)
    have "repo_steps (db c) (db c1)" using FlushAll_repo[of c all_done bw] f by simp
    then have "settled_state n ids (bf_op all_done um x s) d"
      using FlushAll_settled[OF _ f] assms(1) coherent_mono wf.statements
      by (auto simp: settled_state_def bf_op_def s None f)
    then show ?thesis by blast
  next
    case (Some msg)
    obtain er ca1 bw1 c1 where p: "bf_processMessage all_done um msg ca bw c = (er, ca1, bw1, c1)" by (metis surj_pair)
    have "sim bw c d" "coherent ca (db c)" "numeric_tags n ca" using assms(1) by (simp_all add: settled_state_def s)
    from bf_message_sim[OF this _ p] assms(2)[OF Some] obtain d' where "sim bw1 c1 d'" "repo_steps (db c) (db c1)"
      "repo_steps (db d) (db d')" "coherent ca1 (db c1)" "numeric_tags n ca1" "device_of ca1 = device_of ca"
      by metis
    then show ?thesis
      using assms(1) wf.statements by (intro exI[of _ d']) (auto simp: settled_state_def bf_op_def s Some p)
  qed
qed

lemma bf_op_stores:
  assumes "settled_state n ids s d" and hv: "hv = read_headers (m_headers msg)" "hv_lsid hv \<noteq> 0" "ids (hv_lsid hv) = Some dev"
    and data: "unmarshal_map um (m_value msg) = Some data" "distinct (map fst data)" "(n, JNum x) \<in> set data" "n \<noteq> ''ts''"
  shows "\<exists>d'. settled_state n ids (bf_op all_done um (Some msg) s) d' \<and> repo_steps (db d) (db d')
     \<and> stored dev n (hv_timestamp hv) (db d')"
proof -
  obtain ca bw c where s: "s = (ca, bw, c)" by (rule prod_cases3)
  have st: "sim bw c d" "coherent ca (db c)" "db_wf (db c)" "numeric_tags n ca" "device_of ca = ids"
    using assms(1) by (simp_all add: settled_state_def s)
  obtain device where device: "GetDevice ca (hv_lsid hv) = Some device" "dv_ID device = dev"
    using st(5) hv(3) by (auto simp: device_of_def)
  have idd: "dv_ID device \<in> device_ids (db d)" "cache_coherent ca (db d)"
    using st(1,2) device(1)
    by (force simp: sim_def settled_def coherent_def devices_coherent_def device_idents_def device_ids_def
        cache_coherent_def tag_idents_def)+
  have wfd: "db_wf (db d)" using settled_wf[OF st(3)] st(1) by (simp add: sim_def)
  obtain er ca1 bw1 c1 where p: "bf_processMessage all_done um msg ca bw c = (er, ca1, bw1, c1)" by (metis surj_pair)
  have nums: "\<exists>y. v = JNum y" if "unmarshal_map um (m_value msg) = Some data'" "(n, v) \<in> set data'" for data' v
    using that data(1-3) by (auto dest: eq_key_imp_eq_value)
  obtain d' where d': "sim bw1 c1 d'" "repo_steps (db c) (db c1)"
    "repo_steps (db d) (db d')" "coherent ca1 (db c1)" "numeric_tags n ca1" "device_of ca1 = device_of ca"
    "DataProcessor_ProcessMessage all_done um msg ca d = (er, ca1, d')"
  proof (rule bf_message_sim[OF st(1,2,4) _ p])
    show "\<exists>y. v = JNum y" if "unmarshal_map um (m_value msg) = Some data'" "(n, v) \<in> set data'" for data' v
      using that by (rule nums)
  qed (use that hv(1,2) device(1) data(1) in blast)
  have "\<exists>i. (i, dv_ID device, n) \<in> tag_idents (db d') \<and> records_numeric (db d') (i, hv_timestamp hv) =
      Some (case records_numeric (db d) (i, hv_timestamp hv) of None \<Rightarrow> x | Some w \<Rightarrow> w)"
    using numeric_reading_direct[OF hv(1,2) device(1) idd(1) data idd(2) _ wfd d'(7)] st(4)
    by (simp add: numeric_tags_def)
  then have "stored dev n (hv_timestamp hv) (db d')" using device(2) by (auto simp: stored_def)
  moreover have "settled_state n ids (bf_op all_done um (Some msg) s) d'"
    using d' st wf.statements by (auto simp: settled_state_def bf_op_def s p)
  ultimately show ?thesis using d'(3) by blast
qed

lemma bf_ops_store:
  assumes "settled_state n ids s d" and hv: "hv = read_headers (m_headers msg)" "hv_lsid hv \<noteq> 0" "ids (hv_lsid hv) = Some dev"
    and data: "unmarshal_map um (m_value msg) = Some data" "distinct (map fst data)" "(n, JNum x) \<in> set data" "n \<noteq> ''ts''"
    and nums: "\<And>m data v. Some m \<in> set ops \<Longrightarrow> unmarshal_map um (m_value m) = Some data \<Longrightarrow> (n, v) \<in> set data
                 \<Longrightarrow> \<exists>y. v = JNum y"
    and "Some msg \<in> set ops \<or> stored dev n (hv_timestamp hv) (db d)"
  shows "\<exists>d'. settled_state n ids (fold (bf_op all_done um) ops s) d' \<and> stored dev n (hv_timestamp hv) (db d')"
  using assms(1) nums assms(10)
proof (induction ops arbitrary: s d)
  case Nil
  then show ?case by auto
next
  case (Cons x ops)
  have rest: "\<exists>y. v = JNum y"
    if "Some m \<in> set ops" "unmarshal_map um (m_value m) = Some data'" "(n, v) \<in> set data'" for m data' v
    using Cons.prems(2)[of m data' v] that by simp
  have first: "\<exists>y. v = JNum y"
    if "x = Some m" "unmarshal_map um (m_value m) = Some data'" "(n, v) \<in> set data'" for m data' v
    using Cons.prems(2)[of m data' v] that by simp
  obtain d' where d': "settled_state n ids (bf_op all_done um x s) d'"
    "Some msg \<in> set ops \<or> stored dev n (hv_timestamp hv) (db d')"
  proof (cases "x = Some msg")
    case True
    from bf_op_stores[OF Cons.prems(1) hv data] obtain d' where
      "settled_state n ids (bf_op all_done um (Some msg) s) d'" "stored dev n (hv_timestamp hv) (db d')" by blast
    then show thesis using True by (intro that[of d']) simp_all
  next
    case False
    have "\<exists>d'. settled_state n ids (bf_op all_done um x s) d' \<and> repo_steps (db d) (db d')"
      by (rule bf_op_settled[OF Cons.prems(1)]) (rule first)
    then obtain d' where d1: "settled_state n ids (bf_op all_done um x s) d'" "repo_steps (db d) (db d')" by blast
    have "Some msg \<in> set ops \<or> stored dev n (hv_timestamp hv) (db d')"
      using Cons.prems(3) False stored_mono[OF _ d1(2)] by auto
    with d1(1) show thesis by (rule that)
  qed
  have "\<exists>d''. settled_state n ids (fold (bf_op all_done um) ops (bf_op all_done um x s)) d''
      \<and> stored dev n (hv_timestamp hv) (db d'')"
    by (rule Cons.IH[OF d'(1) _ d'(2)]) (rule rest)
  then show ?case by simp
qed

text \<open>The start keeps the database well formed.\<close>

lemma bf_metadata_repo: "repo_steps (db (snd s)) (db (snd (snd (bf_metadata_message e um msg s))))"
proof -
  obtain ca c where s: "s = (ca, c)" by fastforce
  have st: "repo_steps (db c) (db c1)" if "bf_processStationMetadata e um msg sts c = (er, c1)" for sts er c1
    using update_stations_repo[of c e um msg sts] that by (auto simp: bf_processStationMetadata_def split: if_splits)
  have up: "repo_steps (db c) (db c1)" if "DeviceRepository_Upsert e m c = (r, c1)" for m r c1
    using Upsert_repo[of c e m] that by simp
  show ?thesis
    using st up by (auto simp: s bf_metadata_message_def Save_repo
        split: option.splits prod.splits intro: rtranclp_trans[OF _ Save_repo])
qed

lemma bf_catalog_repo: "repo_steps (db (snd s)) (db (snd (snd (bf_catalog_message e um msg s))))"
proof -
  obtain ca c where s: "s = (ca, c)" by fastforce
  have "repo_steps (db c) (db (snd (fold (catalog_structure e st) dss (ca, c))))" for st dss
    using fold_repo[where g = "\<lambda>s. db (snd s)" and f = "catalog_structure e st" and s = "(ca, c)"] catalog_structure_repo by simp
  then show ?thesis by (auto simp: s bf_catalog_message_def Let_def Save_repo split: option.splits)
qed

lemma topic_loop_repo:
  assumes "\<And>msg s. repo_steps (db (snd s)) (db (snd (snd (proc msg s))))"
  shows "repo_steps (db (snd s)) (db (snd (snd (metadata_topic_loop proc endOffset fs s))))"
proof (induction fs arbitrary: s)
  case (Cons f fs)
  show ?case
  proof (cases f)
    case (Fetched msg)
    with Cons[of "snd (proc msg s)"] assms[of s msg] show ?thesis by (auto intro: rtranclp_trans)
  qed simp
qed simp

lemma bf_Start_repo:
  assumes "bf_Start e um includeMetadata endOffset sensors catalog station c = (None, ca, c')"
  shows "repo_steps (db c) (db c')"
proof -
  have m: "repo_steps (db (snd s)) (db (snd (snd (metadata_topic_loop (bf_metadata_message e um) endOffset fs s))))"
    "repo_steps (db (snd s)) (db (snd (snd (metadata_topic_loop (bf_catalog_message e um) endOffset fs s))))" for fs s
    by (intro topic_loop_repo bf_metadata_repo bf_catalog_repo)+
  have "repo_steps (db (snd s)) (db (snd (snd (processMetadataPhase e um endOffset sensors catalog station s))))" for s
    using m(1)[of s sensors] m(2)[of _ catalog] m(1)[of _ station]
    by (auto simp: processMetadataPhase_def split: prod.splits option.splits) (metis rtranclp_trans snd_conv)+
  then have phase: "repo_steps (db c1) (db c2)"
    if "processMetadataPhase e um endOffset sensors catalog station (ca1, c1) = (r, ca2, c2)" for ca1 c1 r ca2 c2
    using that by (metis snd_conv)
  have load: "db c2 = db c1" if "LoadDevices e ca1 c1 = (r, ca2, c2) \<or> LoadTags e ca1 c1 = (r, ca2, c2)
      \<or> LoadCatalog e ca1 c1 = (r, ca2, c2)" for r ca1 c1 ca2 c2
    using that Load_db[of e ca1 c1] by (metis snd_conv)
  show ?thesis
    using assms by (auto simp: bf_Start_def Let_def split: prod.splits option.splits if_splits dest: phase dest!: load[OF disjI1]
        load[OF disjI2, OF disjI1] load[OF disjI2, OF disjI2])
qed

lemma bf_finish_settled:
  assumes "sim bw c d"
  shows "db (snd (bf_finish all_done um False [] ca bw c)) = db d"
proof -
  obtain er bw1 c1 where 1: "FlushAll all_done bw c = (er, bw1, c1)" by (rule prod_cases3)
  obtain er' bw2 c2 where 2: "FlushAll all_done bw1 c1 = (er', bw2, c2)" by (rule prod_cases3)
  show ?thesis
    using FlushAll_settled[OF assms 1] FlushAll_settled[OF _ 2, of d] 1 2
    by (simp add: bf_finish_def under_ctx_def Close_def)
qed


section \<open>Concrete runs\<close>



end
