(* ===== verification/Go_Struct.thy ===== *)
theory Go_Struct
  imports Kafka_Json "HOL-Library.Monad_Syntax"
begin

text \<open>
  Decoding JSON into Go structs: \<open>json.Unmarshal\<close> of an object into the fields of a struct.  An absent or null
  member is the zero value, a member of the wrong type is an error (\<open>None\<close>), names match without regard to
  case and the last one wins.  A number is a rational here, so \<open>1.0\<close> and \<open>1\<close> are the same; an integer field
  takes both.
\<close>

section \<open>Members\<close>

definition json_member :: "json_map \<Rightarrow> string \<Rightarrow> json option" where
  "json_member m k = map_of (rev (map (\<lambda>(n, v). (to_lower n, v)) m)) (to_lower k)"

definition str_member :: "json_map \<Rightarrow> string \<Rightarrow> string option" where
  "str_member m k =
     (case json_member m k of
        None \<Rightarrow> Some [] | Some JNull \<Rightarrow> Some [] | Some (JStr s) \<Rightarrow> Some s | _ \<Rightarrow> None)"

definition int_member :: "json_map \<Rightarrow> string \<Rightarrow> int option" where
  "int_member m k =
     (case json_member m k of
        None \<Rightarrow> Some 0
      | Some JNull \<Rightarrow> Some 0
      | Some (JNum x) \<Rightarrow> if of_int \<lfloor>x\<rfloor> = x \<and> in_i64 \<lfloor>x\<rfloor> then Some \<lfloor>x\<rfloor> else None
      | _ \<Rightarrow> None)"

definition bool_member :: "json_map \<Rightarrow> string \<Rightarrow> bool option" where
  "bool_member m k =
     (case json_member m k of
        None \<Rightarrow> Some False | Some JNull \<Rightarrow> Some False | Some (JBool b) \<Rightarrow> Some b | _ \<Rightarrow> None)"

definition obj_member :: "json_map \<Rightarrow> string \<Rightarrow> json_map option option" where
  "obj_member m k =
     (case json_member m k of
        None \<Rightarrow> Some None | Some JNull \<Rightarrow> Some None | Some (JObj o') \<Rightarrow> Some (Some o') | _ \<Rightarrow> None)"

definition float_member :: "json_map \<Rightarrow> string \<Rightarrow> rat option" where
  "float_member m k =
     (case json_member m k of
        None \<Rightarrow> Some 0 | Some JNull \<Rightarrow> Some 0 | Some (JNum x) \<Rightarrow> Some x | _ \<Rightarrow> None)"

text \<open>A \<open>*int\<close>: \<open>null\<close> is the nil pointer.\<close>

definition int_ptr_member :: "json_map \<Rightarrow> string \<Rightarrow> int option option" where
  "int_ptr_member m k =
     (case json_member m k of
        None \<Rightarrow> Some None
      | Some JNull \<Rightarrow> Some None
      | Some _ \<Rightarrow> map_option Some (int_member m k))"

lemma int_member_range:
  assumes "int_member m k = Some i"
  shows "in_i64 i"
  using assms by (auto simp: int_member_def in_i64_def split: option.splits json.splits if_splits)

section \<open>Structs and arrays of structs\<close>

text \<open>An element that is decoded into a struct: an object, or \<open>null\<close> for the zero value.\<close>

definition struct_members :: "json \<Rightarrow> json_map option" where
  "struct_members j = (case j of JObj m \<Rightarrow> Some m | JNull \<Rightarrow> Some [] | _ \<Rightarrow> None)"

definition decode_array :: "(json \<Rightarrow> 'a option) \<Rightarrow> json \<Rightarrow> 'a list option" where
  "decode_array f j = (case j of JArr js \<Rightarrow> those (map f js) | JNull \<Rightarrow> Some [] | _ \<Rightarrow> None)"

definition array_member :: "(json \<Rightarrow> 'a option) \<Rightarrow> json_map \<Rightarrow> string \<Rightarrow> 'a list option" where
  "array_member f m k = (case json_member m k of None \<Rightarrow> Some [] | Some j \<Rightarrow> decode_array f j)"

lemma those_Some:
  "those xs = Some ys \<Longrightarrow> xs = map Some ys"
  by (induction xs arbitrary: ys) (auto split: option.splits)

lemma those_map_Some:
  assumes "those (map f xs) = Some ys"
  shows "length ys = length xs" and "\<And>y. y \<in> set ys \<Longrightarrow> \<exists>x \<in> set xs. f x = Some y"
proof -
  from assms have eq: "map f xs = map Some ys" by (rule those_Some)
  then show "length ys = length xs" by (metis length_map)
  fix y assume "y \<in> set ys"
  then have "Some y \<in> set (map f xs)" unfolding eq by simp
  then show "\<exists>x \<in> set xs. f x = Some y" by auto
qed

section \<open>Replies over HTTP\<close>

text \<open>A reply is an error, or a status and a body whose reading can fail.\<close>

type_synonym http_reply = "(int \<times> string result) result"

end
