(* ===== verification/Ha_Command.thy ===== *)
theory Ha_Command
  imports Go_Struct
begin

text \<open>
  \<open>services/homeassistant-command\<close>: commands from Kafka are sent over a WebSocket to Home Assistant, with
  one reconnection when a call fails (\<open>ha/client.go\<close>, \<open>service/service.go\<close>, \<open>models/command.go\<close>).

  A connection is the list of what \<open>ReadMessage\<close> will return on it (a frame or an error; the end of the
  list is the end of the stream); the list of the connections to come is what \<open>Dial\<close> will return.  What
  is sent goes through \<open>exec_stmt\<close>: it can be refused, or sent although an error comes back.
  Frames are decoded into structs by the functions of \<open>Go_Struct\<close>.
\<close>

section \<open>Commands\<close>

record Command =
  cm_Domain :: string
  cm_Service :: string
  cm_EntityID :: string
  cm_Data :: json_map

definition decode_command :: "decoder \<Rightarrow> string \<Rightarrow> Command option" where
  "decode_command um body =
     (case unmarshal_map um body of
        None \<Rightarrow> None
      | Some m \<Rightarrow>
          (case (str_member m ''domain'', str_member m ''service'', str_member m ''entity_id'', obj_member m ''data'') of
             (Some d, Some s, Some i, Some da) \<Rightarrow>
               Some \<lparr>cm_Domain = d, cm_Service = s, cm_EntityID = i,
                     cm_Data = (case da of None \<Rightarrow> [] | Some o' \<Rightarrow> o')\<rparr>
           | _ \<Rightarrow> None))"

definition Validate :: "Command \<Rightarrow> go_error option" where
  "Validate c =
     (if cm_Domain c = [] then Some (Err ''domain is required'')
      else if cm_Service c = [] then Some (Err ''service is required'')
      else if cm_EntityID c = [] then Some (Err ''entity_id is required'')
      else None)"

section \<open>The client\<close>

record ha_client =
  hc_open :: bool
  hc_in :: "string result list"                  \<comment> \<open>what the open connection will return\<close>
  hc_msgID :: int
  hc_dials :: "string result list result list"   \<comment> \<open>what the next dials will return\<close>
  hc_sent :: "json list conn"                    \<comment> \<open>what reached Home Assistant\<close>

definition sendJSON :: "env \<Rightarrow> json \<Rightarrow> json list conn \<Rightarrow> go_error option \<times> json list conn" where
  "sendJSON e msg sent = exec_stmt e (\<lambda>s. Inr (s @ [msg])) sent"

text \<open>\<open>readJSON\<close>: the next frame as an object; the rest of the frames.\<close>

definition readJSON :: "decoder \<Rightarrow> string result list \<Rightarrow> json_map result \<times> string result list" where
  "readJSON um frames =
     (case frames of
        [] \<Rightarrow> (Inl EOF, [])
      | Inl er # rest \<Rightarrow> (Inl er, rest)
      | Inr payload # rest \<Rightarrow>
          (case unmarshal_map um payload of
             None \<Rightarrow> (Inl (Err ''invalid JSON''), rest)
           | Some m \<Rightarrow> (Inr m, rest)))"

definition auth_message :: "json_map \<Rightarrow> (string \<times> string) option" where
  "auth_message m =
     (case (str_member m ''type'', str_member m ''message'') of
        (Some t, Some msg) \<Rightarrow> Some (t, msg) | _ \<Rightarrow> None)"

definition expectAuthRequired :: "decoder \<Rightarrow> string result list \<Rightarrow> go_error option \<times> string result list" where
  "expectAuthRequired um frames =
     (case readJSON um frames of
        (Inl er, rest) \<Rightarrow> (Some er, rest)
      | (Inr m, rest) \<Rightarrow>
          (case auth_message m of
             None \<Rightarrow> (Some (Err ''invalid JSON''), rest)
           | Some (t, msg) \<Rightarrow>
               (if t \<noteq> ''auth_required'' then Some (Err (''expected auth_required, got '' @ t)) else None, rest)))"

definition expectAuthOK :: "decoder \<Rightarrow> string result list \<Rightarrow> go_error option \<times> string result list" where
  "expectAuthOK um frames =
     (case readJSON um frames of
        (Inl er, rest) \<Rightarrow> (Some er, rest)
      | (Inr m, rest) \<Rightarrow>
          (case auth_message m of
             None \<Rightarrow> (Some (Err ''invalid JSON''), rest)
           | Some (t, msg) \<Rightarrow>
               (if t \<noteq> ''auth_ok'' then
                  Some (Err (''auth failed: '' @ (if msg \<noteq> [] then msg else t))) else None, rest)))"

definition auth_request :: "string \<Rightarrow> json" where
  "auth_request token = JObj [(''type'', JStr ''auth''), (''access_token'', JStr token)]"

text \<open>The handshake on a fresh connection: the frames left when it succeeds.\<close>

definition handshake ::
    "env \<Rightarrow> decoder \<Rightarrow> string \<Rightarrow> string result list \<Rightarrow> json list conn
     \<Rightarrow> string result list result \<times> json list conn" where
  "handshake e um token frames sent =
     (case expectAuthRequired um frames of
        (Some er, _) \<Rightarrow> (Inl er, sent)
      | (None, rest) \<Rightarrow>
          (case sendJSON e (auth_request token) sent of
             (Some er, sent1) \<Rightarrow> (Inl er, sent1)
           | (None, sent1) \<Rightarrow>
               (case expectAuthOK um rest of
                  (Some er, _) \<Rightarrow> (Inl er, sent1)
                | (None, rest1) \<Rightarrow> (Inr rest1, sent1))))"

text \<open>\<open>Connect\<close> with what \<open>Dial\<close> returned.\<close>

definition Connect ::
    "env \<Rightarrow> decoder \<Rightarrow> string \<Rightarrow> string result list result \<Rightarrow> ha_client \<Rightarrow> go_error option \<times> ha_client" where
  "Connect e um token dialed c =
     (let c0 = c\<lparr>hc_open := False, hc_in := []\<rparr> in
      case dialed of
        Inl er \<Rightarrow> (Some (Wrap ''ws dial failed'' er), c0)
      | Inr frames \<Rightarrow>
          (case handshake e um token frames (hc_sent c0) of
             (Inl er, sent) \<Rightarrow> (Some er, c0\<lparr>hc_sent := sent\<rparr>)
           | (Inr rest, sent) \<Rightarrow>
               (None, c0\<lparr>hc_open := True, hc_in := rest, hc_msgID := 0, hc_sent := sent\<rparr>)))"

text \<open>
  \<open>ConnectWithRetry\<close>: it ends with the first connection that succeeds, or when the context is cancelled,
  which is the end of the list of dials.  The pauses it makes come back too.
\<close>

definition backoff_wait :: "int list \<Rightarrow> nat \<Rightarrow> int" where
  "backoff_wait backoff attempt = (if attempt < length backoff then backoff ! attempt else last backoff)"

fun connect_retry ::
    "env \<Rightarrow> decoder \<Rightarrow> string \<Rightarrow> int list \<Rightarrow> string result list result list \<Rightarrow> nat \<Rightarrow> ha_client
     \<Rightarrow> go_error option \<times> int list \<times> ha_client" where
  "connect_retry e um token backoff [] attempt c = (Some Canceled, [], c\<lparr>hc_dials := []\<rparr>)"
| "connect_retry e um token backoff (d # ds) attempt c =
     (case Connect e um token d c of
        (None, c1) \<Rightarrow> (None, [], c1\<lparr>hc_dials := ds\<rparr>)
      | (Some er, c1) \<Rightarrow>
          (let (r, waits, c2) = connect_retry e um token backoff ds (Suc attempt) c1
           in (r, backoff_wait backoff attempt # waits, c2)))"

definition ConnectWithRetry ::
    "env \<Rightarrow> decoder \<Rightarrow> string \<Rightarrow> int list \<Rightarrow> ha_client \<Rightarrow> go_error option \<times> ha_client" where
  "ConnectWithRetry e um token backoff c =
     (let (r, waits, c1) = connect_retry e um token backoff (hc_dials c) 0 c in (r, c1))"

definition ClearConnection :: "ha_client \<Rightarrow> ha_client" where
  "ClearConnection c = c\<lparr>hc_open := False, hc_in := []\<rparr>"

definition IsConnected :: "ha_client \<Rightarrow> bool" where
  "IsConnected c = hc_open c"

section \<open>Calls\<close>

record result_message =
  rm_ID :: int
  rm_Success :: bool
  rm_ErrorMsg :: string

definition decode_result :: "json_map \<Rightarrow> (int \<times> string \<times> bool \<times> string) option" where
  "decode_result m =
     (case (int_member m ''id'', str_member m ''type'', bool_member m ''success'', obj_member m ''error'') of
        (Some i, Some t, Some s, Some None) \<Rightarrow> Some (i, t, s, [])
      | (Some i, Some t, Some s, Some (Some er)) \<Rightarrow>
          (case (str_member er ''code'', str_member er ''message'') of
             (Some code, Some msg) \<Rightarrow> Some (i, t, s, code @ '': '' @ msg)
           | _ \<Rightarrow> None)
      | _ \<Rightarrow> None)"

fun readResult :: "decoder \<Rightarrow> int \<Rightarrow> string result list \<Rightarrow> result_message result \<times> string result list" where
  "readResult um expectedID [] = (Inl EOF, [])"
| "readResult um expectedID (Inl er # frames) = (Inl er, frames)"
| "readResult um expectedID (Inr payload # frames) =
     (case Option.bind (unmarshal_map um payload) decode_result of
        None \<Rightarrow> readResult um expectedID frames
      | Some (i, t, s, msg) \<Rightarrow>
          if t \<noteq> ''result'' \<or> i \<noteq> expectedID then readResult um expectedID frames
          else (Inr \<lparr>rm_ID = i, rm_Success = s, rm_ErrorMsg = msg\<rparr>, frames))"

definition call_request :: "int \<Rightarrow> Command \<Rightarrow> json" where
  "call_request i cmd =
     JObj ([(''id'', JNum (of_int i)), (''type'', JStr ''call_service''), (''domain'', JStr (cm_Domain cmd)),
            (''service'', JStr (cm_Service cmd)),
            (''target'', JObj [(''entity_id'', JStr (cm_EntityID cmd))])]
           @ (if cm_Data cmd \<noteq> [] then [(''service_data'', JObj (cm_Data cmd))] else []))"

definition CallService ::
    "env \<Rightarrow> decoder \<Rightarrow> Command \<Rightarrow> ha_client \<Rightarrow> go_error option \<times> ha_client" where
  "CallService e um cmd c =
     (if \<not> hc_open c then (Some (Err ''not connected to Home Assistant''), c)
      else let i = i64 (hc_msgID c + 1); c1 = c\<lparr>hc_msgID := i\<rparr>
           in case sendJSON e (call_request i cmd) (hc_sent c1) of
                (Some er, sent) \<Rightarrow> (Some (Wrap ''failed to send call_service'' er), c1\<lparr>hc_sent := sent\<rparr>)
              | (None, sent) \<Rightarrow>
                  (case readResult um i (hc_in c1) of
                     (Inl er, rest) \<Rightarrow>
                       (Some (Wrap ''failed to read call_service result'' er),
                        c1\<lparr>hc_sent := sent, hc_in := rest\<rparr>)
                   | (Inr result, rest) \<Rightarrow>
                       (if rm_Success result then None
                        else Some (Err (''call_service failed (id='' @ itoa i @ ''): '' @ rm_ErrorMsg result)),
                        c1\<lparr>hc_sent := sent, hc_in := rest\<rparr>)))"

text \<open>The frames \<open>Ping\<close> reads until its pong, an error or its deadline (the end of the list here).\<close>

fun read_pong :: "decoder \<Rightarrow> int \<Rightarrow> string result list \<Rightarrow> go_error option \<times> string result list" where
  "read_pong um i [] = (Some (Err ''ping timeout''), [])"
| "read_pong um i (Inl er # frames) = (Some (Wrap ''ping read failed'' er), frames)"
| "read_pong um i (Inr payload # frames) =
     (case unmarshal_map um payload of
        None \<Rightarrow> read_pong um i frames
      | Some m \<Rightarrow>
          (case (int_member m ''id'', str_member m ''type'') of
             (Some j, Some t) \<Rightarrow> if t = ''pong'' \<and> j = i then (None, frames) else read_pong um i frames
           | _ \<Rightarrow> read_pong um i frames))"

definition ping_request :: "int \<Rightarrow> json" where
  "ping_request i = JObj [(''id'', JNum (of_int i)), (''type'', JStr ''ping'')]"

definition Ping :: "env \<Rightarrow> decoder \<Rightarrow> ha_client \<Rightarrow> go_error option \<times> ha_client" where
  "Ping e um c =
     (if \<not> hc_open c then (Some (Err ''not connected''), c)
      else let i = i64 (hc_msgID c + 1); c1 = c\<lparr>hc_msgID := i\<rparr>
           in case sendJSON e (ping_request i) (hc_sent c1) of
                (Some er, sent) \<Rightarrow> (Some (Wrap ''ping send failed'' er), c1\<lparr>hc_sent := sent\<rparr>)
              | (None, sent) \<Rightarrow>
                  (let (r, rest) = read_pong um i (hc_in c1) in (r, c1\<lparr>hc_sent := sent, hc_in := rest\<rparr>)))"

section \<open>The service\<close>

definition executeWithReconnect ::
    "env \<Rightarrow> decoder \<Rightarrow> string \<Rightarrow> int list \<Rightarrow> Command \<Rightarrow> ha_client \<Rightarrow> go_error option \<times> ha_client" where
  "executeWithReconnect e um token backoff cmd c =
     (case CallService e um cmd c of
        (None, c1) \<Rightarrow> (None, c1)
      | (Some er, c1) \<Rightarrow>
          (case ConnectWithRetry e um token backoff (ClearConnection c1) of
             (Some er', c2) \<Rightarrow> (Some (Wrap ''reconnect failed'' er'), c2)
           | (None, c2) \<Rightarrow> CallService e um cmd c2))"

definition ha_processMessage ::
    "env \<Rightarrow> decoder \<Rightarrow> string \<Rightarrow> int list \<Rightarrow> message \<Rightarrow> ha_client \<Rightarrow> ha_client" where
  "ha_processMessage e um token backoff msg c =
     (case decode_command um (m_value msg) of
        None \<Rightarrow> c
      | Some cmd \<Rightarrow>
          (case Validate cmd of
             Some er \<Rightarrow> c
           | None \<Rightarrow> snd (executeWithReconnect e um token backoff cmd c)))"

definition keepAlive_tick ::
    "env \<Rightarrow> decoder \<Rightarrow> string \<Rightarrow> int list \<Rightarrow> ha_client \<Rightarrow> ha_client" where
  "keepAlive_tick e um token backoff c =
     (if \<not> IsConnected c then c
      else case Ping e um c of
             (None, c1) \<Rightarrow> c1
           | (Some er, c1) \<Rightarrow> snd (ConnectWithRetry e um token backoff (ClearConnection c1)))"

text \<open>
  The consume loop over what \<open>FetchMessage\<close> returns: every message fetched is processed, then committed.
\<close>

fun consume ::
    "env \<Rightarrow> decoder \<Rightarrow> string \<Rightarrow> int list \<Rightarrow> message result list \<Rightarrow> ha_client \<times> message list
     \<Rightarrow> ha_client \<times> message list" where
  "consume e um token backoff [] s = s"
| "consume e um token backoff (Inl er # fs) s = consume e um token backoff fs s"
| "consume e um token backoff (Inr msg # fs) (c, committed) =
     consume e um token backoff fs (ha_processMessage e um token backoff msg c, committed @ [msg])"

section \<open>What is sent\<close>

definition is_call :: "json \<Rightarrow> bool" where
  "is_call j = (case j of JObj m \<Rightarrow> map_of m ''type'' = Some (JStr ''call_service'') | _ \<Rightarrow> False)"

definition calls_sent :: "ha_client \<Rightarrow> json list" where
  "calls_sent c = filter is_call (db (hc_sent c))"

lemma is_call_simps [simp]:
  "is_call (call_request i cmd)" "\<not> is_call (auth_request token)" "\<not> is_call (ping_request i)"
  by (simp_all add: is_call_def call_request_def auth_request_def ping_request_def)

lemma sendJSON_cases:
  assumes "sendJSON e msg sent = (r, sent')"
  obtains (no) er where "r = Some er" "db sent' = db sent" | (yes) "db sent' = db sent @ [msg]"
  using assms by (auto simp: sendJSON_def elim!: exec_stmt_cases)

lemma sendJSON_calls:
  assumes "sendJSON e msg sent = (r, sent')" and "\<not> is_call msg"
  shows "filter is_call (db sent') = filter is_call (db sent)"
  using assms(2) by (cases rule: sendJSON_cases[OF assms(1)]) auto

lemma handshake_calls:
  "handshake e um token frames sent = (r, sent') \<Longrightarrow> filter is_call (db sent') = filter is_call (db sent)"
  by (auto simp: handshake_def split: prod.splits option.splits dest: sendJSON_calls)

lemma readJSON_rest: "readJSON um frames = (r, rest) \<Longrightarrow> set rest \<subseteq> set frames"
  by (auto simp: readJSON_def split: list.splits sum.splits option.splits)

lemma expectAuthRequired_rest: "expectAuthRequired um frames = (r, rest) \<Longrightarrow> set rest \<subseteq> set frames"
  by (auto simp: expectAuthRequired_def split: prod.splits sum.splits option.splits dest: readJSON_rest)

lemma expectAuthOK_rest: "expectAuthOK um frames = (r, rest) \<Longrightarrow> set rest \<subseteq> set frames"
  by (auto simp: expectAuthOK_def split: prod.splits sum.splits option.splits dest: readJSON_rest)

lemma handshake_rest:
  "handshake e um token frames sent = (Inr rest, sent') \<Longrightarrow> set rest \<subseteq> set frames"
  by (fastforce simp: handshake_def split: prod.splits option.splits
      dest: expectAuthRequired_rest expectAuthOK_rest)

lemma Connect_calls:
  "Connect e um token d c = (r, c') \<Longrightarrow> calls_sent c' = calls_sent c"
  by (auto simp: Connect_def calls_sent_def Let_def split: sum.splits prod.splits dest: handshake_calls)

lemma connect_retry_calls:
  "connect_retry e um token backoff ds attempt c = (r, waits, c') \<Longrightarrow> calls_sent c' = calls_sent c"
proof (induction ds arbitrary: attempt c r waits c')
  case (Cons d ds)
  obtain r1 c1 where con: "Connect e um token d c = (r1, c1)" by (metis surj_pair)
  obtain r2 w2 c2 where rec: "connect_retry e um token backoff ds (Suc attempt) c1 = (r2, w2, c2)"
    by (rule prod_cases3)
  show ?case
  proof (cases r1)
    case None
    with Cons.prems con Connect_calls[OF con] show ?thesis by (auto simp: calls_sent_def)
  next
    case (Some er)
    with Cons.prems con rec Cons.IH[OF rec] Connect_calls[OF con] show ?thesis by simp
  qed
qed (auto simp: calls_sent_def)

text \<open>The frames a client may still read: on its connection and on those to come.\<close>

definition frames_ahead :: "ha_client \<Rightarrow> string result set" where
  "frames_ahead c = set (hc_in c) \<union> (\<Union>frames \<in> {f. Inr f \<in> set (hc_dials c)}. set frames)"

lemma connect_retry_frames:
  assumes "connect_retry e um token backoff ds attempt c = (None, waits, c')"
  shows "set (hc_in c') \<subseteq> (\<Union>frames \<in> {f. Inr f \<in> set ds}. set frames)"
  using assms
proof (induction ds arbitrary: attempt c waits c')
  case (Cons d ds)
  obtain r1 c1 where con: "Connect e um token d c = (r1, c1)" by (metis surj_pair)
  obtain r2 w2 c2 where rec: "connect_retry e um token backoff ds (Suc attempt) c1 = (r2, w2, c2)"
    by (rule prod_cases3)
  show ?case
  proof (cases r1)
    case None
    with con have "set (hc_in c1) \<subseteq> (\<Union>frames \<in> {f. Inr f = d}. set frames)"
      by (auto simp: Connect_def Let_def split: sum.splits prod.splits
          dest: subsetD[OF handshake_rest])
    moreover have "hc_in c' = hc_in c1" using None Cons.prems con by auto
    ultimately show ?thesis by auto
  next
    case (Some er)
    with Cons.prems con rec have "connect_retry e um token backoff ds (Suc attempt) c1 = (None, w2, c')" by simp
    from Cons.IH[OF this] show ?thesis by auto
  qed
qed auto

lemma readResult_read:
  assumes "readResult um i frames = (Inr res, rest)"
  shows "\<exists>payload m msg. Inr payload \<in> set frames \<and> unmarshal_map um payload = Some m
     \<and> decode_result m = Some (i, ''result'', rm_Success res, msg)"
  using assms
proof (induction frames)
  case (Cons f frames)
  obtain payload where f: "f = Inr payload" using Cons.prems by (cases f) auto
  show ?case
  proof (cases "Option.bind (unmarshal_map um payload) decode_result")
    case None
    with Cons f show ?thesis by auto
  next
    case (Some q)
    obtain j t s msg where q: "q = (j, t, s, msg)" by (rule prod_cases4)
    show ?thesis
    proof (cases "t \<noteq> ''result'' \<or> j \<noteq> i")
      case True
      with Cons.prems f Some q have "readResult um i frames = (Inr res, rest)" by auto
      from Cons.IH[OF this] show ?thesis by auto
    next
      case False
      with Cons.prems f Some q have "res = \<lparr>rm_ID = j, rm_Success = s, rm_ErrorMsg = msg\<rparr>" by auto
      with Some q False f show ?thesis by (fastforce simp: bind_eq_Some_conv)
    qed
  qed
qed simp

lemma CallService_spec:
  assumes "CallService e um cmd c = (r, c')"
  shows "\<exists>l. calls_sent c' = calls_sent c @ l \<and> length l \<le> 1 \<and> set l \<subseteq> {call_request (i64 (hc_msgID c + 1)) cmd}
     \<and> hc_dials c' = hc_dials c
     \<and> (r = None \<longrightarrow> l = [call_request (i64 (hc_msgID c + 1)) cmd]
          \<and> (\<exists>payload m msg. Inr payload \<in> set (hc_in c) \<and> unmarshal_map um payload = Some m
               \<and> decode_result m = Some (i64 (hc_msgID c + 1), ''result'', True, msg)))"
proof (cases "hc_open c")
  case False
  with assms show ?thesis by (auto simp: CallService_def)
next
  case True
  define i where "i = i64 (hc_msgID c + 1)"
  obtain er sent where s: "sendJSON e (call_request i cmd) (hc_sent c) = (er, sent)" by (metis surj_pair)
  have l: "\<exists>l. filter is_call (db sent) = filter is_call (db (hc_sent c)) @ l \<and> length l \<le> 1
      \<and> set l \<subseteq> {call_request i cmd} \<and> (er = None \<longrightarrow> l = [call_request i cmd])"
    by (cases rule: sendJSON_cases[OF s]) auto
  show ?thesis
  proof (cases er)
    case (Some x)
    with assms True s l show ?thesis by (auto simp: CallService_def Let_def i_def calls_sent_def)
  next
    case None
    obtain res rest where rr: "readResult um i (hc_in c) = (res, rest)" by (metis surj_pair)
    show ?thesis
    proof (cases res)
      case (Inl x)
      with assms True s l None rr show ?thesis by (auto simp: CallService_def Let_def i_def calls_sent_def)
    next
      case (Inr result)
      from readResult_read[OF rr[unfolded Inr]] assms True s l None rr Inr show ?thesis
        by (auto simp: CallService_def Let_def i_def calls_sent_def split: if_splits)
    qed
  qed
qed

text \<open>
  A command that succeeded was acknowledged: when \<open>executeWithReconnect\<close> returns without an error, the
  last call sent is this command, and a result with its id and success was among the frames of the
  connection or of one dialled meanwhile.
\<close>

theorem success_was_acknowledged:
  assumes "executeWithReconnect e um token backoff cmd c = (None, c')"
  shows "\<exists>i payload m msg. calls_sent c' \<noteq> [] \<and> last (calls_sent c') = call_request i cmd
     \<and> Inr payload \<in> frames_ahead c \<and> unmarshal_map um payload = Some m
     \<and> decode_result m = Some (i, ''result'', True, msg)"
proof -
  obtain r1 c1 where c1: "CallService e um cmd c = (r1, c1)" by (metis surj_pair)
  show ?thesis
  proof (cases r1)
    case None
    with assms c1 have "c' = c1" by (simp add: executeWithReconnect_def)
    with CallService_spec[OF c1] None show ?thesis by (auto simp: frames_ahead_def)
  next
    case (Some er)
    obtain waits r2 c2 where c2: "connect_retry e um token backoff (hc_dials c1) 0 (ClearConnection c1) = (r2, waits, c2)"
      by (metis prod_cases3)
    have d: "hc_dials (ClearConnection c1) = hc_dials c1" by (simp add: ClearConnection_def)
    have r2: "r2 = None" and c': "CallService e um cmd c2 = (None, c')"
      using assms c1 Some c2 d
      by (auto simp: executeWithReconnect_def ConnectWithRetry_def split: prod.splits option.splits)
    have "set (hc_in c2) \<subseteq> frames_ahead c"
      using connect_retry_frames[OF c2[unfolded r2]] CallService_spec[OF c1] by (auto simp: frames_ahead_def)
    with CallService_spec[OF c'] show ?thesis by fastforce
  qed
qed

text \<open>
  A command is sent at most twice, whatever the network does: what \<open>executeWithReconnect\<close> adds to the
  calls sent are at most two requests for this command.
\<close>

theorem command_sent_at_most_twice:
  assumes "executeWithReconnect e um token backoff cmd c = (r, c')"
  shows "\<exists>l. calls_sent c' = calls_sent c @ l \<and> length l \<le> 2 \<and> set l \<subseteq> range (\<lambda>i. call_request i cmd)"
proof -
  obtain r1 c1 where c1: "CallService e um cmd c = (r1, c1)" by (metis surj_pair)
  obtain l1 where l1: "calls_sent c1 = calls_sent c @ l1" "length l1 \<le> 1" "set l1 \<subseteq> range (\<lambda>i. call_request i cmd)"
    using CallService_spec[OF c1] by blast
  show ?thesis
  proof (cases r1)
    case None
    with assms c1 l1 show ?thesis by (auto simp: executeWithReconnect_def)
  next
    case (Some er)
    obtain waits r2 c2 where c2: "connect_retry e um token backoff (hc_dials c1) 0 (ClearConnection c1) = (r2, waits, c2)"
      by (metis prod_cases3)
    have d: "hc_dials (ClearConnection c1) = hc_dials c1" "calls_sent (ClearConnection c1) = calls_sent c1"
      by (simp_all add: ClearConnection_def calls_sent_def)
    have same: "calls_sent c2 = calls_sent c1" using connect_retry_calls[OF c2] d by simp
    show ?thesis
    proof (cases r2)
      case (Some er')
      with assms c1 \<open>r1 = Some er\<close> c2 d same l1 show ?thesis
        by (auto simp: executeWithReconnect_def ConnectWithRetry_def)
    next
      case None
      then have c': "CallService e um cmd c2 = (r, c')"
        using assms c1 \<open>r1 = Some er\<close> c2 d by (auto simp: executeWithReconnect_def ConnectWithRetry_def)
      obtain l2 where "calls_sent c' = calls_sent c2 @ l2" "length l2 \<le> 1" "set l2 \<subseteq> range (\<lambda>i. call_request i cmd)"
        using CallService_spec[OF c'] by blast
      with l1 same show ?thesis by (intro exI[of _ "l1 @ l2"]) auto
    qed
  qed
qed

text \<open>
  A command that Home Assistant rejects is sent again: when the answer to the call is a result without
  success, the client drops the working connection, and if the new one authenticates the same command
  is sent a second time, although the connection was never broken.
\<close>

theorem rejected_command_sent_again:
  assumes "hc_open c" and "in_i64 (hc_msgID c + 1)"
    and "readResult um (hc_msgID c + 1) (hc_in c) = (Inr res, rest)" and "\<not> rm_Success res"
    and "hc_dials c = Inr frames # ds"
    and "expectAuthRequired um frames = (None, frames1)" and "expectAuthOK um frames1 = (None, frames2)"
  shows "calls_sent (snd (executeWithReconnect all_done um token backoff cmd c)) =
           calls_sent c @ [call_request (hc_msgID c + 1) cmd, call_request 1 cmd]"
proof -
  have send: "sendJSON all_done msg sent = (None, \<lparr>db = db sent @ [msg], calls = Suc (calls sent)\<rparr>)" for msg sent
    by (simp add: sendJSON_def outcome_simps)
  have i: "i64 (hc_msgID c + 1) = hc_msgID c + 1" "i64 1 = 1"
    using assms(2) by (simp_all add: i64_id in_i64_def)
  obtain er c1 where c1: "CallService all_done um cmd c = (Some er, c1)"
    "db (hc_sent c1) = db (hc_sent c) @ [call_request (hc_msgID c + 1) cmd]" "hc_dials c1 = hc_dials c"
    using assms(1,3,4) i by (simp add: CallService_def Let_def send)
  obtain c2 where c2: "ConnectWithRetry all_done um token backoff (ClearConnection c1) = (None, c2)"
    "hc_open c2" "hc_msgID c2 = 0" "db (hc_sent c2) = db (hc_sent c1) @ [auth_request token]"
    using assms(5-7) c1(3)
    by (simp add: ConnectWithRetry_def ClearConnection_def Connect_def handshake_def Let_def send)
  have "db (hc_sent (snd (CallService all_done um cmd c2))) = db (hc_sent c2) @ [call_request 1 cmd]"
    using c2 i by (simp add: CallService_def Let_def send split: prod.splits sum.splits)
  with c1 c2 show ?thesis by (simp add: executeWithReconnect_def calls_sent_def)
qed

lemma read_pong_skips:
  assumes "\<And>f. f \<in> set pre \<Longrightarrow> \<exists>payload. f = Inr payload \<and>
             (\<forall>m. unmarshal_map um payload = Some m \<longrightarrow>
                int_member m ''id'' \<noteq> Some j \<or> str_member m ''type'' \<noteq> Some ''pong'')"
  shows "read_pong um j (pre @ frames) = read_pong um j frames"
  using assms
proof (induction pre)
  case (Cons f pre)
  then obtain payload where f: "f = Inr payload"
    and m: "\<And>m. unmarshal_map um payload = Some m \<Longrightarrow>
              int_member m ''id'' \<noteq> Some j \<or> str_member m ''type'' \<noteq> Some ''pong''"
    by (metis list.set_intros(1))
  have "read_pong um j (pre @ frames) = read_pong um j frames" using Cons by simp
  with f m show ?case by (fastforce split: option.splits)
qed simp

lemma readResult_none:
  assumes "\<And>payload m q. Inr payload \<in> set frames \<Longrightarrow> unmarshal_map um payload = Some m \<Longrightarrow>
             decode_result m \<noteq> Some (i, ''result'', q)"
  shows "\<exists>er. fst (readResult um i frames) = Inl er"
proof (cases "readResult um i frames")
  case (Pair res rest)
  show ?thesis
  proof (cases res)
    case (Inr x)
    with readResult_read[OF Pair[unfolded Inr]] assms show ?thesis by blast
  qed (simp add: Pair)
qed

text \<open>
  A keep-alive ping can swallow the result of a command: the ping and the call read from the same
  connection, and when the ping reads first, it skips every frame before its pong, the result of the
  call \<open>i\<close> among them.  The ping succeeds, and the call then ends with an error, unless a second result
  with its id comes.
\<close>

theorem ping_swallows_result:
  assumes "Inr result \<in> set pre" and "Option.bind (unmarshal_map um result) decode_result = Some (i, ''result'', True, [])"
    and "\<And>f. f \<in> set pre \<Longrightarrow> \<exists>payload. f = Inr payload \<and>
             (\<forall>m. unmarshal_map um payload = Some m \<longrightarrow>
                int_member m ''id'' \<noteq> Some j \<or> str_member m ''type'' \<noteq> Some ''pong'')"
    and "unmarshal_map um pong = Some pm" and "int_member pm ''id'' = Some j" and "str_member pm ''type'' = Some ''pong''"
    and "\<And>payload m q. Inr payload \<in> set rest \<Longrightarrow> unmarshal_map um payload = Some m \<Longrightarrow>
             decode_result m \<noteq> Some (i, ''result'', q)"
  shows "(\<exists>res. fst (readResult um i (pre @ Inr pong # rest)) = Inr res)
     \<and> fst (read_pong um j (pre @ Inr pong # rest)) = None
     \<and> (\<exists>er. fst (readResult um i (snd (read_pong um j (pre @ Inr pong # rest)))) = Inl er)"
proof (intro conjI)
  have p: "read_pong um j (pre @ Inr pong # rest) = (None, rest)"
    using read_pong_skips[OF assms(3)] assms(4-6) by simp
  then show "fst (read_pong um j (pre @ Inr pong # rest)) = None" by simp
  show "\<exists>er. fst (readResult um i (snd (read_pong um j (pre @ Inr pong # rest)))) = Inl er"
    using readResult_none[OF assms(7)] p by simp
  have "\<exists>res. fst (readResult um i (fs @ frames)) = Inr res"
    if "Inr result \<in> set fs" "\<And>f. f \<in> set fs \<Longrightarrow> \<exists>payload. f = Inr payload" for fs frames
    using that
  proof (induction fs)
    case (Cons f fs)
    obtain payload where f: "f = Inr payload" using Cons.prems(2) by auto
    show ?case
    proof (cases "payload = result")
      case True
      with assms(2) f show ?thesis by simp
    next
      case False
      with Cons f have "\<exists>res. fst (readResult um i (fs @ frames)) = Inr res" by auto
      with f show ?thesis by (auto split: option.splits)
    qed
  qed simp
  with assms(1,3) show "\<exists>res. fst (readResult um i (pre @ Inr pong # rest)) = Inr res" by blast
qed

section \<open>Concrete runs\<close>

definition frame_decoder :: decoder where
  "frame_decoder s =
     map_of [(''required'', JObj [(''type'', JStr ''auth_required'')]),
             (''ok'', JObj [(''type'', JStr ''auth_ok'')]),
             (''done'', JObj [(''id'', JNum 1), (''type'', JStr ''result''), (''success'', JBool True)]),
             (''no'', JObj [(''id'', JNum 1), (''type'', JStr ''result''), (''success'', JBool False)]),
             (''pong'', JObj [(''id'', JNum 2), (''type'', JStr ''pong'')])] s"

definition lamp_on :: Command where
  "lamp_on = \<lparr>cm_Domain = ''light'', cm_Service = ''turn_on'', cm_EntityID = ''light.lamp'', cm_Data = []\<rparr>"

definition open_client :: "string list \<Rightarrow> string result list result list \<Rightarrow> ha_client" where
  "open_client frames dials = \<lparr>hc_open = True, hc_in = map Inr frames, hc_msgID = 0, hc_dials = dials,
     hc_sent = \<lparr>db = [], calls = 0\<rparr>\<rparr>"

lemmas frame_simps = frame_decoder_def unmarshal_map_def decode_result_def int_member_def str_member_def
  bool_member_def obj_member_def json_member_def to_lower_def lower_char_def

lemma read_done: "readResult frame_decoder 1 [Inr ''done''] = (Inr \<lparr>rm_ID = 1, rm_Success = True, rm_ErrorMsg = []\<rparr>, [])"
  by (simp add: frame_simps in_i64_def)

lemma read_no: "readResult frame_decoder 1 [Inr ''no''] = (Inr \<lparr>rm_ID = 1, rm_Success = False, rm_ErrorMsg = []\<rparr>, [])"
  by (simp add: frame_simps in_i64_def)

lemma sample_call:
  "executeWithReconnect all_done frame_decoder ''t'' [1] lamp_on (open_client [''done''] []) =
     (None, (open_client [] [])\<lparr>hc_msgID := 1, hc_sent := \<lparr>db = [call_request 1 lamp_on], calls = 1\<rparr>\<rparr>)"
  using read_done
  by (simp add: executeWithReconnect_def CallService_def open_client_def Let_def i64_id in_i64_def
      sendJSON_def outcome_simps)

lemma success_was_acknowledged_witness:
  "\<exists>i. last (calls_sent ((open_client [] [])\<lparr>hc_msgID := 1,
          hc_sent := \<lparr>db = [call_request 1 lamp_on], calls = 1\<rparr>\<rparr>)) = call_request i lamp_on"
  using success_was_acknowledged[OF sample_call] by blast

lemma command_sent_at_most_twice_witness:
  "\<exists>l. [call_request 1 lamp_on] = [] @ l \<and> length l \<le> 2"
  using command_sent_at_most_twice[OF sample_call] by (auto simp: calls_sent_def open_client_def)

lemma rejected_command_sent_again_witness:
  "calls_sent (snd (executeWithReconnect all_done frame_decoder ''t'' [1] lamp_on
      (open_client [''no''] [Inr [Inr ''required'', Inr ''ok'', Inr ''done'']])))
   = [call_request 1 lamp_on, call_request 1 lamp_on]"
proof -
  have "expectAuthRequired frame_decoder [Inr ''required'', Inr ''ok'', Inr ''done''] = (None, [Inr ''ok'', Inr ''done''])"
    "expectAuthOK frame_decoder [Inr ''ok'', Inr ''done''] = (None, [Inr ''done''])"
    by (simp_all add: expectAuthRequired_def expectAuthOK_def readJSON_def auth_message_def frame_simps)
  from rejected_command_sent_again[of "open_client [''no''] [Inr [Inr ''required'', Inr ''ok'', Inr ''done'']]"
      frame_decoder _ _ _ "[]" _ _ "''t''" "[1]" lamp_on, OF _ _ _ _ _ this] read_no
  show ?thesis by (simp add: open_client_def in_i64_def calls_sent_def)
qed

lemma ping_swallows_result_witness:
  "fst (read_pong frame_decoder 2 [Inr ''done'', Inr ''pong'']) = None
   \<and> (\<exists>er. fst (readResult frame_decoder 1 (snd (read_pong frame_decoder 2 [Inr ''done'', Inr ''pong'']))) = Inl er)"
proof -
  have "Option.bind (unmarshal_map frame_decoder ''done'') decode_result = Some (1, ''result'', True, [])"
    by (simp add: frame_simps in_i64_def)
  from ping_swallows_result[OF _ this, of "[Inr ''done'']" 2 "''pong''" _ "[]"]
  show ?thesis by (auto simp: frame_simps in_i64_def)
qed

end
