(* ===== verification/Uf_Archive.thy ===== *)
theory Uf_Archive
  imports Ha_Command
begin

text \<open>
  \<open>services/unifi-smart-archive/service\<close>: smart events become streams, one per camera and kind of
  detection; the frames of a stream's window are copied to its directory of the archive as they appear,
  and the stream is closed when its end has come.

  A path is the list of its elements; \<open>filepath.Join\<close> and its \<open>Clean\<close> are modelled.  The files are remote
  state: creating, writing, removing and reading can fail by an \<open>env\<close> like every other call.  A \<open>RemoveAll\<close>
  that fails removes nothing here.  The clock is an argument in nanoseconds and stands still during one
  step.  The steps hold the mutex, so a run is a sequence of them.
\<close>

section \<open>Paths and files\<close>

type_synonym path = "string list"

fun clean_steps :: "path \<Rightarrow> string list \<Rightarrow> path" where
  "clean_steps acc [] = rev acc"
| "clean_steps acc (p # ps) =
     (if p = [] \<or> p = ''.'' then clean_steps acc ps
      else if p = ''..'' then clean_steps (tl acc) ps
      else clean_steps (p # acc) ps)"

definition path_join :: "path \<Rightarrow> string list \<Rightarrow> path" where
  "path_join dir elems = clean_steps (rev dir) (concat (map (split_on CHR ''/'') elems))"

text \<open>The last element, \<open>filepath.Base\<close>.\<close>

definition path_base :: "path \<Rightarrow> string" where
  "path_base p = (if p = [] then ''/'' else last p)"

text \<open>
  The source directories are written by others: what \<open>ReadDir\<close> lists there, a directory as \<open>None\<close>, a file as
  its content.  Of the archive there are the directories and the files by path.
\<close>

record files =
  fl_source :: "path \<Rightarrow> (string \<times> string option) list option"
  fl_dirs :: "path list"
  fl_files :: "path \<rightharpoonup> string"

definition mkdir_all :: "path \<Rightarrow> files \<Rightarrow> files" where
  "mkdir_all p fs = fs\<lparr>fl_dirs := fl_dirs fs @ filter (\<lambda>q. q \<notin> set (fl_dirs fs)) (map (\<lambda>n. take n p) [0..<Suc (length p)])\<rparr>"

definition remove_all :: "path \<Rightarrow> files \<Rightarrow> files" where
  "remove_all p fs =
     fs\<lparr>fl_dirs := filter (\<lambda>q. \<not> has_prefix q p) (fl_dirs fs),
        fl_files := (\<lambda>q. if has_prefix q p then None else fl_files fs q)\<rparr>"

definition write_file :: "path \<Rightarrow> string \<Rightarrow> files \<Rightarrow> files" where
  "write_file p content fs = fs\<lparr>fl_files := (fl_files fs)(p \<mapsto> content)\<rparr>"

definition create_file :: "path \<Rightarrow> files \<Rightarrow> files result" where
  "create_file p fs =
     (if butlast p \<in> set (fl_dirs fs) then Inr (write_file p [] fs) else Inl (Err ''no such directory''))"

definition open_source :: "path \<Rightarrow> string \<Rightarrow> files \<Rightarrow> string option result" where
  "open_source dir name fs =
     (case fl_source fs dir of
        None \<Rightarrow> Inl (Err ''no such directory'')
      | Some entries \<Rightarrow>
          (case map_of entries name of None \<Rightarrow> Inl (Err ''no such file'') | Some content \<Rightarrow> Inr content))"

definition read_source :: "path \<Rightarrow> files \<Rightarrow> (string \<times> string option) list result" where
  "read_source dir fs =
     (case fl_source fs dir of None \<Rightarrow> Inl (Err ''no such directory'') | Some entries \<Rightarrow> Inr entries)"

text \<open>\<open>copyFile\<close>: open, create, copy, sync, each of which can fail.\<close>

definition copyFile ::
    "env \<Rightarrow> path \<Rightarrow> string \<Rightarrow> path \<Rightarrow> files conn \<Rightarrow> go_error option \<times> files conn" where
  "copyFile e dir name dst c =
     (case query_stmt e (open_source dir name) c of
        (Inl er, c1) \<Rightarrow> (Some er, c1)
      | (Inr content, c1) \<Rightarrow>
          (case exec_stmt e (create_file dst) c1 of
             (Some er, c2) \<Rightarrow> (Some er, c2)
           | (None, c2) \<Rightarrow>
               (case content of
                  None \<Rightarrow> (Some (Err ''is a directory''), c2)
                | Some bytes \<Rightarrow>
                    (case exec_stmt e (\<lambda>fs. Inr (write_file dst bytes fs)) c2 of
                       (Some er, c3) \<Rightarrow> (Some er, c3)
                     | (None, c3) \<Rightarrow> exec_stmt e Inr c3))))"

section \<open>The state\<close>

record SmartEvent =
  se_ID :: string
  se_Start :: int
  se_End :: int
  se_SmartDetectTypes :: "string list"

definition HasEnd :: "SmartEvent \<Rightarrow> bool" where
  "HasEnd ev \<longleftrightarrow> 0 < se_End ev"

record archive_config =
  ac_EventEndTimeout :: int
  ac_SourceDir :: path
  ac_ArchiveDir :: path
  ac_LeadSeconds :: int
  ac_TrailSeconds :: int
  ac_CopyDelaySeconds :: int
  ac_ArchiveRetentionDays :: int

record StreamSession =
  ss_CameraName :: string
  ss_DetectionType :: string
  ss_StartMs :: int
  ss_EndMs :: int
  ss_CopyAfterUnix :: int
  ss_ArchiveBase :: path
  ss_EventIDs :: "string list"
  ss_copied :: "int set"

record WaitingEvent =
  we_CameraName :: string
  we_DetectionType :: string
  we_StartMs :: int
  we_LastMessageAt :: int

text \<open>
  The maps are association lists, in the order they are ranged over; \<open>sv_watcher\<close> says whether there is a
  watcher, \<open>sv_watching\<close> which directories it watches.
\<close>

record smart_service =
  sv_watcher :: bool
  sv_watching :: "path set"
  sv_streams :: "(string \<times> StreamSession) list"
  sv_watchedDirs :: "(path \<times> int) list"
  sv_waitingForEnd :: "(string \<times> WaitingEvent) list"
  sv_done :: "string set"

definition smart_New :: "bool \<Rightarrow> smart_service" where
  "smart_New watcher =
     \<lparr>sv_watcher = watcher, sv_watching = {}, sv_streams = [], sv_watchedDirs = [], sv_waitingForEnd = [],
      sv_done = {}\<rparr>"

section \<open>Names and windows\<close>

definition sanitizeName :: "string \<Rightarrow> string" where
  "sanitizeName name = replace_char CHR ''-'' CHR ''_'' (replace_char CHR '' '' CHR ''_'' (to_lower name))"

definition cameraKey :: "string \<Rightarrow> string \<Rightarrow> string" where
  "cameraKey cameraName detectionType = cameraName @ ''|'' @ detectionType"

definition archiveBase :: "archive_config \<Rightarrow> string \<Rightarrow> string \<Rightarrow> int \<Rightarrow> path" where
  "archiveBase cfg cameraName detectionType startMs =
     path_join (ac_ArchiveDir cfg) [''smart'', detectionType, cameraName, itoa (go_div startMs 1000)]"

definition getHeader :: "message \<Rightarrow> string \<Rightarrow> string" where
  "getHeader msg key = (case first_header (m_headers msg) key of Some v \<Rightarrow> v | None \<Rightarrow> [])"

definition unix :: "int \<Rightarrow> int" where
  "unix now = now div 1000000000"

definition from_sec :: "archive_config \<Rightarrow> StreamSession \<Rightarrow> int" where
  "from_sec cfg s = i64 (go_div (ss_StartMs s) 1000 - ac_LeadSeconds cfg)"

definition end_sec :: "archive_config \<Rightarrow> StreamSession \<Rightarrow> int" where
  "end_sec cfg s = i64 (go_div (ss_EndMs s) 1000 + ac_TrailSeconds cfg)"

text \<open>The last second of the window: while the end is open, some seconds ahead of the clock.\<close>

definition to_sec :: "archive_config \<Rightarrow> int \<Rightarrow> int \<Rightarrow> StreamSession \<Rightarrow> int" where
  "to_sec cfg ahead now s = (if 0 < ss_EndMs s then end_sec cfg s else i64 (unix now + ahead))"

text \<open>The second a file name stands for.\<close>

definition frame_second :: "string \<Rightarrow> int option" where
  "frame_second name =
     (if \<not> has_suffix name ''.jpg'' then None
      else case parse_int (trim_suffix name ''.jpg'') of (ts, None) \<Rightarrow> Some ts | (ts, Some er) \<Rightarrow> None)"

section \<open>Copying frames\<close>

text \<open>One frame, if it is in the window and not copied yet; shared by the catch-up and the watcher.\<close>

definition copy_frame ::
    "env \<Rightarrow> archive_config \<Rightarrow> int \<Rightarrow> path \<Rightarrow> string \<Rightarrow> int \<Rightarrow> StreamSession \<times> files conn
     \<Rightarrow> StreamSession \<times> files conn" where
  "copy_frame e cfg toSec dir name ts = (\<lambda>(s, c).
     if ts < from_sec cfg s \<or> ts > toSec then (s, c)
     else if ts \<in> ss_copied s then (s, c)
     else case copyFile e dir name (path_join (ss_ArchiveBase s) [name]) c of
            (Some er, c1) \<Rightarrow> (s, c1)
          | (None, c1) \<Rightarrow> (s\<lparr>ss_copied := insert ts (ss_copied s)\<rparr>, c1))"

definition catch_up_entry ::
    "env \<Rightarrow> archive_config \<Rightarrow> int \<Rightarrow> path \<Rightarrow> string \<times> string option \<Rightarrow> StreamSession \<times> files conn
     \<Rightarrow> StreamSession \<times> files conn" where
  "catch_up_entry e cfg toSec dir = (\<lambda>(name, node) (s, c).
     if node = None then (s, c)
     else case frame_second name of
            None \<Rightarrow> (s, c)
          | Some ts \<Rightarrow> copy_frame e cfg toSec dir name ts (s, c))"

definition catchUpLocked ::
    "env \<Rightarrow> archive_config \<Rightarrow> int \<Rightarrow> StreamSession \<Rightarrow> files conn \<Rightarrow> StreamSession \<times> files conn" where
  "catchUpLocked e cfg now s c =
     (let sourceDir = path_join (ac_SourceDir cfg) [ss_CameraName s] in
      case query_stmt e (read_source sourceDir) c of
        (Inl er, c1) \<Rightarrow> (s, c1)
      | (Inr entries, c1) \<Rightarrow> fold (catch_up_entry e cfg (to_sec cfg 5 now s) sourceDir) entries (s, c1))"

section \<open>Watching directories\<close>

definition watch_count :: "smart_service \<Rightarrow> path \<Rightarrow> int" where
  "watch_count svc dir = (case map_of (sv_watchedDirs svc) dir of Some n \<Rightarrow> n | None \<Rightarrow> 0)"

definition watcher_add :: "env \<Rightarrow> path \<Rightarrow> files conn \<Rightarrow> unit result \<times> files conn" where
  "watcher_add e dir c =
     query_stmt e (\<lambda>fs. if fl_source fs dir = None then Inl (Err ''no such directory'') else Inr ()) c"

definition ensureWatchedLocked ::
    "env \<Rightarrow> archive_config \<Rightarrow> string \<Rightarrow> smart_service \<times> files conn \<Rightarrow> smart_service \<times> files conn" where
  "ensureWatchedLocked e cfg cameraName = (\<lambda>(svc, c).
     if \<not> sv_watcher svc then (svc, c)
     else let dir = path_join (ac_SourceDir cfg) [cameraName];
              n = watch_count svc dir + 1;
              svc1 = svc\<lparr>sv_watchedDirs := AList.update dir n (sv_watchedDirs svc)\<rparr>
          in if n > 1 then (svc1, c)
             else case watcher_add e dir c of
                    (Inl er, c1) \<Rightarrow> (svc1\<lparr>sv_watchedDirs := AList.update dir (n - 1) (sv_watchedDirs svc1)\<rparr>, c1)
                  | (Inr u, c1) \<Rightarrow> (svc1\<lparr>sv_watching := insert dir (sv_watching svc1)\<rparr>, c1))"

definition releaseWatchedLocked :: "archive_config \<Rightarrow> string \<Rightarrow> smart_service \<Rightarrow> smart_service" where
  "releaseWatchedLocked cfg cameraName svc =
     (if \<not> sv_watcher svc then svc
      else let dir = path_join (ac_SourceDir cfg) [cameraName];
               n = watch_count svc dir - 1
           in if n \<le> 0
              then svc\<lparr>sv_watchedDirs := AList.delete dir (sv_watchedDirs svc), sv_watching := sv_watching svc - {dir}\<rparr>
              else svc\<lparr>sv_watchedDirs := AList.update dir n (sv_watchedDirs svc)\<rparr>)"

section \<open>An event\<close>

definition str_elems :: "json_map \<Rightarrow> string \<Rightarrow> string list option" where
  "str_elems m k =
     (case json_member m k of
        None \<Rightarrow> Some []
      | Some JNull \<Rightarrow> Some []
      | Some (JArr js) \<Rightarrow>
          if list_all (\<lambda>j. case j of JStr _ \<Rightarrow> True | JNull \<Rightarrow> True | _ \<Rightarrow> False) js
          then Some (map (\<lambda>j. case j of JStr s \<Rightarrow> s | _ \<Rightarrow> []) js) else None
      | _ \<Rightarrow> None)"

definition decode_smart_event :: "decoder \<Rightarrow> string \<Rightarrow> SmartEvent option" where
  "decode_smart_event um body =
     (case unmarshal_map um body of
        None \<Rightarrow> None
      | Some m \<Rightarrow>
          (case (str_member m ''id'', int_member m ''start'', int_member m ''end'', str_elems m ''smartDetectTypes'') of
             (Some i, Some st, Some en, Some ts) \<Rightarrow>
               Some \<lparr>se_ID = i, se_Start = st, se_End = en, se_SmartDetectTypes = ts\<rparr>
           | _ \<Rightarrow> None))"

text \<open>The names of camera and detection, before they are sanitized.\<close>

definition event_camera :: "message \<Rightarrow> string" where
  "event_camera msg =
     (let header = getHeader msg ''camera_name'' in
      if header \<noteq> [] then header
      else case index_of (m_key msg) '':'' of
             Some idx \<Rightarrow> if idx > 0 then take idx (m_key msg) else []
           | None \<Rightarrow> [])"

definition event_detection :: "message \<Rightarrow> SmartEvent \<Rightarrow> string" where
  "event_detection msg ev =
     (let first = (case se_SmartDetectTypes ev of t # _ \<Rightarrow> t | [] \<Rightarrow> []);
          header = (if first = [] then getHeader msg ''detection_type'' else first)
      in if header = [] then ''unknown'' else header)"

definition copy_after :: "archive_config \<Rightarrow> SmartEvent \<Rightarrow> int" where
  "copy_after cfg ev =
     (if HasEnd ev then i64 (i64 (go_div (se_End ev) 1000 + ac_TrailSeconds cfg) + ac_CopyDelaySeconds cfg) else 0)"

text \<open>An earlier start moves the archive of the stream.\<close>

definition migrate ::
    "env \<Rightarrow> archive_config \<Rightarrow> int \<Rightarrow> string \<Rightarrow> string \<Rightarrow> SmartEvent \<Rightarrow> StreamSession \<times> files conn
     \<Rightarrow> StreamSession \<times> files conn" where
  "migrate e cfg now cameraName detectionType ev = (\<lambda>(existing, c).
     if se_Start ev < ss_StartMs existing then
       let oldBase = ss_ArchiveBase existing;
           s = existing\<lparr>ss_StartMs := se_Start ev,
                        ss_ArchiveBase := archiveBase cfg cameraName detectionType (se_Start ev)\<rparr>
       in if oldBase \<noteq> ss_ArchiveBase s then
            let c1 = snd (exec_stmt e (\<lambda>fs. Inr (mkdir_all (ss_ArchiveBase s) fs)) c);
                (s1, c2) = catchUpLocked e cfg now s c1
            in (s1, snd (exec_stmt e (\<lambda>fs. Inr (remove_all oldBase fs)) c2))
          else (s, c)
     else (existing, c))"

definition extend_end ::
    "env \<Rightarrow> archive_config \<Rightarrow> int \<Rightarrow> SmartEvent \<Rightarrow> StreamSession \<times> files conn \<Rightarrow> StreamSession \<times> files conn" where
  "extend_end e cfg now ev = (\<lambda>(s, c).
     if HasEnd ev then
       catchUpLocked e cfg now
         (s\<lparr>ss_EndMs := (if se_End ev > ss_EndMs s then se_End ev else ss_EndMs s),
            ss_CopyAfterUnix := (if copy_after cfg ev > ss_CopyAfterUnix s then copy_after cfg ev
                                 else ss_CopyAfterUnix s)\<rparr>) c
     else (s, c))"

definition merge_event ::
    "env \<Rightarrow> archive_config \<Rightarrow> int \<Rightarrow> string \<Rightarrow> string \<Rightarrow> SmartEvent \<Rightarrow> StreamSession \<Rightarrow> files conn
     \<Rightarrow> StreamSession \<times> files conn" where
  "merge_event e cfg now cameraName detectionType ev existing c =
     (let (s, c1) = extend_end e cfg now ev (migrate e cfg now cameraName detectionType ev (existing, c))
      in (s\<lparr>ss_EventIDs := ss_EventIDs s @ [se_ID ev]\<rparr>, c1))"

definition new_session ::
    "archive_config \<Rightarrow> string \<Rightarrow> string \<Rightarrow> SmartEvent \<Rightarrow> StreamSession" where
  "new_session cfg cameraName detectionType ev =
     \<lparr>ss_CameraName = cameraName, ss_DetectionType = detectionType, ss_StartMs = se_Start ev,
      ss_EndMs = se_End ev, ss_CopyAfterUnix = copy_after cfg ev,
      ss_ArchiveBase = archiveBase cfg cameraName detectionType (se_Start ev), ss_EventIDs = [se_ID ev],
      ss_copied = {}\<rparr>"

definition new_stream ::
    "env \<Rightarrow> archive_config \<Rightarrow> int \<Rightarrow> string \<Rightarrow> string \<Rightarrow> SmartEvent \<Rightarrow> smart_service \<times> files conn
     \<Rightarrow> smart_service \<times> files conn" where
  "new_stream e cfg now cameraName detectionType ev = (\<lambda>(svc, c).
     let session = new_session cfg cameraName detectionType ev;
         key = cameraKey cameraName detectionType
     in case exec_stmt e (\<lambda>fs. Inr (mkdir_all (ss_ArchiveBase session) fs)) c of
          (Some er, c1) \<Rightarrow> (svc, c1)
        | (None, c1) \<Rightarrow>
            (let (svc1, c2) = ensureWatchedLocked e cfg cameraName (svc, c1);
                 (session1, c3) = catchUpLocked e cfg now session c2
             in (svc1\<lparr>sv_streams := AList.update key session1 (sv_streams svc1),
                      sv_waitingForEnd :=
                        (if HasEnd ev then sv_waitingForEnd svc1
                         else AList.update (se_ID ev)
                                \<lparr>we_CameraName = cameraName, we_DetectionType = detectionType,
                                 we_StartMs = se_Start ev, we_LastMessageAt = now\<rparr>
                                (sv_waitingForEnd svc1))\<rparr>, c3)))"

text \<open>The event with its sanitized names, handled under the mutex.\<close>

definition handle_smart ::
    "env \<Rightarrow> archive_config \<Rightarrow> int \<Rightarrow> string \<Rightarrow> string \<Rightarrow> SmartEvent \<Rightarrow> smart_service \<times> files conn
     \<Rightarrow> smart_service \<times> files conn" where
  "handle_smart e cfg now cameraName detectionType ev = (\<lambda>(svc, c).
     if se_ID ev \<in> sv_done svc then (svc, c)
     else let svc0 = (if HasEnd ev
                      then svc\<lparr>sv_waitingForEnd := AList.delete (se_ID ev) (sv_waitingForEnd svc)\<rparr> else svc);
              key = cameraKey cameraName detectionType
          in case map_of (sv_streams svc0) key of
               Some existing \<Rightarrow>
                 (let (s, c1) = merge_event e cfg now cameraName detectionType ev existing c
                  in (svc0\<lparr>sv_streams := AList.update key s (sv_streams svc0)\<rparr>, c1))
             | None \<Rightarrow> new_stream e cfg now cameraName detectionType ev (svc0, c))"

text \<open>What of a message is handled: the names and the event, or nothing.\<close>

definition smart_message :: "decoder \<Rightarrow> message \<Rightarrow> (string \<times> string \<times> SmartEvent) option" where
  "smart_message um msg =
     (case decode_smart_event um (m_value msg) of
        None \<Rightarrow> None
      | Some ev \<Rightarrow>
          if se_ID ev = [] \<or> se_Start ev \<le> 0 then None
          else if event_camera msg = [] then None
          else Some (sanitizeName (event_camera msg), sanitizeName (event_detection msg ev), ev))"

definition smart_processMessage ::
    "env \<Rightarrow> decoder \<Rightarrow> archive_config \<Rightarrow> int \<Rightarrow> message \<Rightarrow> smart_service \<times> files conn
     \<Rightarrow> smart_service \<times> files conn" where
  "smart_processMessage e um cfg now msg st =
     (case smart_message um msg of
        None \<Rightarrow> st
      | Some (cameraName, detectionType, ev) \<Rightarrow> handle_smart e cfg now cameraName detectionType ev st)"

section \<open>A file that appears\<close>

fun watch_streams ::
    "env \<Rightarrow> archive_config \<Rightarrow> int \<Rightarrow> path \<Rightarrow> string \<Rightarrow> int \<Rightarrow> (string \<times> StreamSession) list \<Rightarrow> files conn
     \<Rightarrow> (string \<times> StreamSession) list \<times> files conn" where
  "watch_streams e cfg now dir name ts [] c = ([], c)"
| "watch_streams e cfg now dir name ts ((key, s) # rest) c =
     (let (s1, c1) = (if ss_CameraName s \<noteq> sanitizeName (path_base dir) then (s, c)
                      else copy_frame e cfg (to_sec cfg 60 now s) dir name ts (s, c));
          (rest1, c2) = watch_streams e cfg now dir name ts rest c1
      in ((key, s1) # rest1, c2))"

text \<open>\<open>runWatcher\<close> for one creation of a file, \<open>dir/name\<close>.\<close>

definition watch_event ::
    "env \<Rightarrow> archive_config \<Rightarrow> int \<Rightarrow> path \<Rightarrow> string \<Rightarrow> smart_service \<times> files conn
     \<Rightarrow> smart_service \<times> files conn" where
  "watch_event e cfg now dir name = (\<lambda>(svc, c).
     case frame_second name of
       None \<Rightarrow> (svc, c)
     | Some ts \<Rightarrow>
         (let (streams, c1) = watch_streams e cfg now dir name ts (sv_streams svc) c
          in (svc\<lparr>sv_streams := streams\<rparr>, c1)))"

section \<open>The worker\<close>

definition expire_one ::
    "env \<Rightarrow> archive_config \<Rightarrow> int \<Rightarrow> string \<times> WaitingEvent \<Rightarrow> smart_service \<times> files conn
     \<Rightarrow> smart_service \<times> files conn" where
  "expire_one e cfg now = (\<lambda>(id', ev) (svc, c).
     if we_LastMessageAt ev < now - ac_EventEndTimeout cfg then
       let svc1 = svc\<lparr>sv_waitingForEnd := AList.delete id' (sv_waitingForEnd svc)\<rparr>;
           key = cameraKey (we_CameraName ev) (we_DetectionType ev)
       in case map_of (sv_streams svc1) key of
            Some session \<Rightarrow>
              if ss_EndMs session = 0 \<and> ss_EventIDs session = [id'] then
                (releaseWatchedLocked cfg (we_CameraName ev)
                   (svc1\<lparr>sv_streams := AList.delete key (sv_streams svc1)\<rparr>),
                 snd (exec_stmt e (\<lambda>fs. Inr (remove_all (ss_ArchiveBase session) fs)) c))
              else (svc1, c)
          | None \<Rightarrow> (svc1, c)
     else (svc, c))"

definition expireWaitingForEnd ::
    "env \<Rightarrow> archive_config \<Rightarrow> int \<Rightarrow> smart_service \<times> files conn \<Rightarrow> smart_service \<times> files conn" where
  "expireWaitingForEnd e cfg now = (\<lambda>(svc, c). fold (expire_one e cfg now) (sv_waitingForEnd svc) (svc, c))"

text \<open>Whether a stream is to be closed; the look may catch up first.\<close>

definition close_check ::
    "env \<Rightarrow> archive_config \<Rightarrow> int \<Rightarrow> StreamSession \<Rightarrow> files conn \<Rightarrow> bool \<times> StreamSession \<times> files conn" where
  "close_check e cfg now s c =
     (if ss_EndMs s = 0 then (False, s, c)
      else let toSec = end_sec cfg s in
        if unix now < ss_CopyAfterUnix s then (False, s, c)
        else if toSec \<in> ss_copied s then (True, s, c)
        else let (s1, c1) = catchUpLocked e cfg now s c in
          if toSec \<in> ss_copied s1 then (True, s1, c1)
          else let (r, c2) = query_stmt e (open_source (path_join (ac_SourceDir cfg) [ss_CameraName s1])
                                             (itoa toSec @ ''.jpg'')) c1
               in (case r of Inl er \<Rightarrow> True | Inr _ \<Rightarrow> False, s1, c2))"

fun close_scan ::
    "env \<Rightarrow> archive_config \<Rightarrow> int \<Rightarrow> (string \<times> StreamSession) list \<Rightarrow> files conn
     \<Rightarrow> string list \<times> (string \<times> StreamSession) list \<times> files conn" where
  "close_scan e cfg now [] c = ([], [], c)"
| "close_scan e cfg now ((key, s) # rest) c =
     (let (close, s1, c1) = close_check e cfg now s c;
          (toClose, rest1, c2) = close_scan e cfg now rest c1
      in ((if close then key # toClose else toClose), (key, s1) # rest1, c2))"

definition close_one :: "archive_config \<Rightarrow> string \<Rightarrow> smart_service \<Rightarrow> smart_service" where
  "close_one cfg key svc =
     (case map_of (sv_streams svc) key of
        None \<Rightarrow> svc
      | Some session \<Rightarrow>
          let svc1 = releaseWatchedLocked cfg (ss_CameraName session)
                       (svc\<lparr>sv_streams := AList.delete key (sv_streams svc)\<rparr>)
          in svc1\<lparr>sv_done := sv_done svc1 \<union> set (ss_EventIDs session)\<rparr>)"

definition closeCompletedStreams ::
    "env \<Rightarrow> archive_config \<Rightarrow> int \<Rightarrow> smart_service \<times> files conn \<Rightarrow> smart_service \<times> files conn" where
  "closeCompletedStreams e cfg now = (\<lambda>(svc, c).
     let (toClose, streams, c1) = close_scan e cfg now (sv_streams svc) c
     in (fold (close_one cfg) toClose (svc\<lparr>sv_streams := streams\<rparr>), c1))"

section \<open>Retention\<close>

definition child_dirs :: "path \<Rightarrow> files \<Rightarrow> string list result" where
  "child_dirs p fs =
     (if p \<notin> set (fl_dirs fs) then Inl (Err ''no such directory'')
      else Inr (map last (filter (\<lambda>d. d \<noteq> [] \<and> butlast d = p) (fl_dirs fs))))"

text \<open>\<open>mtime\<close> is what \<open>Stat\<close> says of the modification time of a directory.\<close>

definition remove_old ::
    "env \<Rightarrow> (path \<Rightarrow> int option) \<Rightarrow> int \<Rightarrow> path \<Rightarrow> files conn \<Rightarrow> files conn" where
  "remove_old e mtime cutoff eventDir c =
     (case mtime eventDir of
        None \<Rightarrow> c
      | Some t \<Rightarrow> if t < cutoff then snd (exec_stmt e (\<lambda>fs. Inr (remove_all eventDir fs)) c) else c)"

text \<open>
  The subdirectories of a directory, visited one after the other; nothing when it cannot be read.  A name
  that \<open>ReadDir\<close> returns is one element of a path.
\<close>

definition each_child :: "env \<Rightarrow> path \<Rightarrow> (path \<Rightarrow> files conn \<Rightarrow> files conn) \<Rightarrow> files conn \<Rightarrow> files conn" where
  "each_child e dir visit c =
     (case query_stmt e (child_dirs dir) c of
        (Inl er, c1) \<Rightarrow> c1
      | (Inr names, c1) \<Rightarrow> fold (\<lambda>name. visit (dir @ [name])) names c1)"

definition removeOldEventDirsIn ::
    "env \<Rightarrow> (path \<Rightarrow> int option) \<Rightarrow> int \<Rightarrow> path \<Rightarrow> files conn \<Rightarrow> files conn" where
  "removeOldEventDirsIn e mtime cutoff cameraDir = each_child e cameraDir (remove_old e mtime cutoff)"

definition removeOldEventDirs ::
    "env \<Rightarrow> (path \<Rightarrow> int option) \<Rightarrow> int \<Rightarrow> path \<Rightarrow> files conn \<Rightarrow> files conn" where
  "removeOldEventDirs e mtime cutoff dir = each_child e dir (removeOldEventDirsIn e mtime cutoff)"

text \<open>\<open>AddDate(0, 0, -days)\<close> on a clock in UTC.\<close>

definition retention_cutoff :: "archive_config \<Rightarrow> int \<Rightarrow> int" where
  "retention_cutoff cfg now = now - ac_ArchiveRetentionDays cfg * 86400000000000"

definition runRetentionPass ::
    "env \<Rightarrow> archive_config \<Rightarrow> (path \<Rightarrow> int option) \<Rightarrow> int \<Rightarrow> files conn \<Rightarrow> files conn" where
  "runRetentionPass e cfg mtime now =
     each_child e (path_join (ac_ArchiveDir cfg) [''smart''])
       (removeOldEventDirs e mtime (retention_cutoff cfg now))"

definition retention_interval :: "archive_config \<Rightarrow> int" where
  "retention_interval cfg =
     (if ac_ArchiveRetentionDays cfg > 0 then
        let i = go_div (i64 (i64 (ac_ArchiveRetentionDays cfg * 24) * 3600000000000)) 24
        in if i > 3600000000000 then 3600000000000 else i
      else 3600000000000)"

text \<open>One tick of \<open>runWorker\<close>; \<open>last\<close> is the time of the last retention pass.\<close>

definition worker_tick ::
    "env \<Rightarrow> archive_config \<Rightarrow> (path \<Rightarrow> int option) \<Rightarrow> int \<Rightarrow> (smart_service \<times> files conn) \<times> int
     \<Rightarrow> (smart_service \<times> files conn) \<times> int" where
  "worker_tick e cfg mtime now = (\<lambda>(st, last).
     let (svc, c) = closeCompletedStreams e cfg now (expireWaitingForEnd e cfg now st)
     in if now - last \<ge> retention_interval cfg
        then ((svc, runRetentionPass e cfg mtime now c), now) else ((svc, c), last))"

end
