(* ===== verification/Wk_Time.thy ===== *)
theory Wk_Time
  imports Wl_Process
begin

text \<open>
  \<open>services/weatherlink-kafka/util\<close> and the checks of \<open>api/weatherlink.go\<close> that depend on it: weeks,
  24-hour windows, the topic of a category, timestamps in two notations.

  Times are Unix seconds.  \<open>StartOfWeekUnix\<close> is called with UTC times only, where a day is 86400
  seconds and day 0 a Thursday.  The window loop adds in 64 bits and need not end when the end is
  within a day of the largest number, so it is a partial function.
\<close>

definition StartOfWeekUnix :: "int \<Rightarrow> int" where
  "StartOfWeekUnix t =
     (let day = t div 86400;
          weekday = (day + 4) mod 7;
          daysSinceMonday = (weekday + 6) mod 7
      in (day - daysSinceMonday) * 86400)"

text \<open>
  \<open>ParseTimestamp\<close>: a number, or one of four layouts; \<open>time.Parse\<close> is the parameter \<open>parse\<close>, from the
  layout and the text to seconds.  When nothing fits the result is zero without an error.
\<close>

definition ParseTimestamp :: "(string \<Rightarrow> string \<Rightarrow> int option) \<Rightarrow> string \<Rightarrow> int \<times> go_error option" where
  "ParseTimestamp parse s =
     (case parse_int s of
        (ts, None) \<Rightarrow> (ts, None)
      | (_, Some _) \<Rightarrow>
          (case List.map_filter (\<lambda>layout. parse layout s)
                  [''2006-01-02 15:04:05'', ''2006-01-02T15:04:05'', ''2006-01-02 15:04'',
                   ''2006-01-02''] of
             [] \<Rightarrow> (0, None)
           | t # _ \<Rightarrow> (t, None)))"

partial_function (option) split_loop :: "int \<Rightarrow> int \<Rightarrow> (int \<times> int) list \<Rightarrow> (int \<times> int) list option" where
  "split_loop currentStart endTs windows =
     (if currentStart < endTs then
        let currentEnd = (if i64 (currentStart + 86400) > endTs then endTs
                          else i64 (currentStart + 86400))
        in split_loop currentEnd endTs (windows @ [(currentStart, currentEnd)])
      else Some windows)"

definition SplitInto24HourWindows :: "int \<Rightarrow> int \<Rightarrow> (int \<times> int) list option" where
  "SplitInto24HourWindows startTs endTs = split_loop startTs endTs []"

definition GetTopicForCategory :: "string \<Rightarrow> string" where
  "GetTopicForCategory category =
     (let c = to_upper category in
      if c = ''ISS'' then ''weather.iss''
      else if c = ''BAROMETER'' then ''weather.barometer''
      else if c = ''INSIDE TEMP/HUM'' then ''weather.indoor''
      else if c = ''HEALTH'' then ''weather.health''
      else ''weather.other'')"

definition KeysFromSet :: "(int \<times> 'a) list \<Rightarrow> int list" where
  "KeysFromSet m = map fst m"

text \<open>The validation \<open>FetchHistoricData\<close> does before the request; the difference wraps.\<close>

definition check_window :: "int \<Rightarrow> int \<Rightarrow> go_error option" where
  "check_window startTs endTs =
     (if i64 (endTs - startTs) > 86400 then Some (Err ''time window exceeds 24 hours'')
      else if startTs \<ge> endTs then Some (Err ''start timestamp must be before end timestamp'')
      else None)"

section \<open>Windows\<close>

text \<open>A chain of windows from one time to another.\<close>

fun window_chain :: "int \<Rightarrow> (int \<times> int) list \<Rightarrow> int \<Rightarrow> bool" where
  "window_chain a [] b = (a = b)"
| "window_chain a ((s, e) # ws) b = (s = a \<and> s < e \<and> e - s \<le> 86400 \<and> window_chain e ws b)"

lemma window_chain_snoc:
  "window_chain a (ws @ [(s, e)]) b \<longleftrightarrow> window_chain a ws s \<and> s < e \<and> e - s \<le> 86400 \<and> e = b"
  by (induction a ws s rule: window_chain.induct) auto

lemma window_chain_bounds:
  "window_chain a ws b \<Longrightarrow> a \<le> b \<and> (\<forall>(s, e) \<in> set ws. a \<le> s \<and> s < e \<and> e \<le> b \<and> e - s \<le> 86400)"
  by (induction a ws b rule: window_chain.induct) force+

lemma window_chain_empty: "window_chain a ws b \<Longrightarrow> b \<le> a \<Longrightarrow> ws = []"
  using window_chain_bounds[of a ws b] by (cases ws) force+

lemma split_loop_returns:
  assumes "in_i64 s" and "in_i64 e" and "e \<le> max_i64 - 86400" and "s \<le> e \<or> ws = []"
    and "s \<le> e \<longrightarrow> window_chain a ws s" and "e < s \<longrightarrow> a = s"
  shows "\<exists>ws'. split_loop s e ws = Some ws' \<and> (a < e \<longrightarrow> window_chain a ws' e) \<and> (e \<le> a \<longrightarrow> ws' = [])"
  using assms
proof (induction "nat (e - s)" arbitrary: s ws rule: less_induct)
  case less
  show ?case
  proof (cases "s < e")
    case False
    have "split_loop s e ws = Some ws" using False by (simp add: split_loop.simps)
    moreover have "window_chain a ws e" if "a < e"
      using less.prems False that by (cases "s = e") auto
    moreover have "ws = []" if "e \<le> a"
    proof (cases "s = e")
      case True
      with less.prems have "window_chain a ws e" by simp
      with that show ?thesis by (auto dest: window_chain_empty)
    qed (use less.prems False in auto)
    ultimately show ?thesis by blast
  next
    case True
    define c where "c = (if s + 86400 > e then e else s + 86400)"
    have "in_i64 (s + 86400)" using less.prems True by (auto simp: in_i64_def)
    then have step: "split_loop s e ws = split_loop c e (ws @ [(s, c)])"
      using True by (simp add: split_loop.simps[of s] c_def i64_id Let_def)
    have "s < c" "c \<le> e" "c - s \<le> 86400" using True by (auto simp: c_def)
    moreover have "in_i64 c" using less.prems \<open>s < c\<close> \<open>c \<le> e\<close> by (auto simp: in_i64_def)
    moreover have "window_chain a (ws @ [(s, c)]) c"
      using less.prems True \<open>s < c\<close> \<open>c - s \<le> 86400\<close> by (simp add: window_chain_snoc)
    ultimately show ?thesis
      unfolding step using less.prems True by (intro less.hyps) auto
  qed
qed

text \<open>
  C25: Splitting a time range returns, and the windows are a partition of it: they start at the start, each
  begins where the one before ends, none is empty or longer than 24 hours, and the last ends at the end;
  a range that is empty gives none.  Every window passes the check of \<open>FetchHistoricData\<close>.  (The end has
  to be a day away from the largest 64-bit number.)
\<close>

theorem windows_partition_range:
  assumes "in_i64 startTs" and "in_i64 endTs" and "endTs \<le> max_i64 - 86400"
  shows "\<exists>ws. SplitInto24HourWindows startTs endTs = Some ws
           \<and> (startTs < endTs \<longrightarrow> window_chain startTs ws endTs) \<and> (endTs \<le> startTs \<longrightarrow> ws = [])
           \<and> (\<forall>(s, e) \<in> set ws. check_window s e = None)"
proof -
  obtain ws where ws: "SplitInto24HourWindows startTs endTs = Some ws"
    "startTs < endTs \<longrightarrow> window_chain startTs ws endTs" "endTs \<le> startTs \<longrightarrow> ws = []"
    using split_loop_returns[of startTs endTs "[]" startTs] assms
    by (auto simp: SplitInto24HourWindows_def)
  have "check_window s e = None" if "(s, e) \<in> set ws" for s e
  proof -
    have "startTs < endTs" using that ws(3) by (cases "endTs \<le> startTs") auto
    with ws(2) have "s < e \<and> e - s \<le> 86400" using window_chain_bounds that by fast
    then show ?thesis by (simp add: check_window_def i64_id in_i64_def)
  qed
  with ws show ?thesis by blast
qed

lemma windows_partition_range_witness:
  "\<exists>ws. SplitInto24HourWindows 1000 200000 = Some ws \<and> window_chain 1000 ws 200000
      \<and> (\<forall>(s, e) \<in> set ws. check_window s e = None)"
  using windows_partition_range[of 1000 200000] by (auto simp: in_i64_def)

section \<open>Weeks and topics\<close>

text \<open>
  The start of a week is a Monday at midnight, at most the time and less than a week before it, and
  two times have the same one exactly when no Monday midnight lies between them; a metadata key made
  from it is used once a week.
\<close>

theorem start_of_week_spec:
  "StartOfWeekUnix t \<le> t \<and> t < StartOfWeekUnix t + 604800
   \<and> (StartOfWeekUnix t - 345600) mod 604800 = 0
   \<and> (StartOfWeekUnix t = StartOfWeekUnix t' \<longleftrightarrow> (t - 345600) div 604800 = (t' - 345600) div 604800)"
proof -
  have w: "StartOfWeekUnix u = ((u - 345600) div 604800) * 604800 + 345600" for u
  proof -
    define d where "d = u div 86400"
    have "((d + 4) mod 7 + 6) mod 7 = (d - 4) mod 7" by presburger
    then have "StartOfWeekUnix u = (d - (d - 4) mod 7) * 86400"
      by (simp add: StartOfWeekUnix_def d_def Let_def)
    also have "d - (d - 4) mod 7 = ((d - 4) div 7) * 7 + 4" by presburger
    also have "(d - 4) div 7 = (u - 345600) div 604800"
    proof -
      have "u - 345600 = u + (- 4) * 86400" by simp
      then have "(u - 345600) div 86400 = d - 4"
        unfolding d_def by (metis add.commute div_mult_self3 uminus_add_conv_diff zero_neq_numeral)
      then show ?thesis using zdiv_zmult2_eq[of 7 "u - 345600" 86400] by simp
    qed
    finally show ?thesis by simp
  qed
  show ?thesis unfolding w by (auto; presburger)
qed

lemma topic_is_data_topic: "is_data_topic (GetTopicForCategory c)"
  by (simp add: GetTopicForCategory_def is_data_topic_def Let_def)

end
