(* ===== verification/Wk_Api.thy ===== *)
theory Wk_Api
  imports Wk_Time Go_Struct "HOL-Library.List_Lexorder" "HOL-Library.Char_ord"
begin

text \<open>
  The client of the WeatherLink API (\<open>services/weatherlink-kafka/api\<close>) and its response types
  (\<open>models/types.go\<close>): requests, replies, the decoding of a reply into structs, and what
  \<open>json.Marshal\<close> makes of the structs that are published.

  What \<open>http.NewRequest\<close> and \<open>httpClient.Do\<close> do together is the parameter \<open>exchange\<close>, from a request to a
  reply.  A data point is a \<open>json.RawMessage\<close>: the parameter \<open>raw\<close> gives, for a body and the index of a sensor
  in it, the texts of the elements of its \<open>data\<close> member, compacted as \<open>json.Marshal\<close> publishes them.
\<close>

section \<open>Response types\<close>

text \<open>A slice or map that is marshalled again: nil (\<open>None\<close>) becomes \<open>null\<close>, an empty one \<open>[]\<close> or \<open>{}\<close>.\<close>

type_synonym 'a slice = "'a list option"

definition elems :: "'a slice \<Rightarrow> 'a list" where
  "elems s = (case s of None \<Rightarrow> [] | Some xs \<Rightarrow> xs)"

record Sensor =
  sn_LSID :: int
  sn_SensorType :: int
  sn_DataStructureType :: int
  sn_Data :: "string list"

record CurrentConditionsResponse =
  cc_StationID :: int
  cc_StationIDUUID :: string
  cc_Sensors :: "Sensor list"
  cc_GeneratedAt :: int

record SensorMetadata =
  sm_LSID :: int
  sm_SensorType :: int
  sm_Category :: string
  sm_Manufacturer :: string
  sm_ProductName :: string
  sm_ProductNumber :: string
  sm_RainCollectorType :: int
  sm_Active :: bool
  sm_TxID :: "int option"
  sm_PortNumber :: int
  sm_ParentDeviceType :: string
  sm_ParentDeviceName :: string
  sm_ParentDeviceID :: int
  sm_ParentDeviceIDHex :: string
  sm_StationID :: int
  sm_StationIDUUID :: string
  sm_StationName :: string
  sm_Latitude :: rat
  sm_Longitude :: rat
  sm_Elevation :: rat

record SensorsResponse =
  sr_Sensors :: "SensorMetadata list"
  sr_GeneratedAt :: int

record StationInfo =
  si_StationID :: int
  si_StationIDUUID :: string
  si_StationName :: string

record StationResponse =
  st_Stations :: "StationInfo slice"
  st_GeneratedAt :: int

record FieldDefinition =
  fd_Type :: string
  fd_Units :: string

record DataStructure =
  ds_DataStructureType :: string
  ds_Description :: string
  ds_DataStructure :: "(string \<times> FieldDefinition) slice"

record CatalogEntry =
  ce_SensorType :: int
  ce_Manufacturer :: string
  ce_ProductName :: string
  ce_ProductNumber :: string
  ce_Category :: string
  ce_DataStructures :: "DataStructure slice"

record SensorCatalogResponse =
  sc_SensorCatalog :: "CatalogEntry list"
  sc_GeneratedAt :: int

section \<open>Decoding a reply\<close>

definition slice_member :: "(json \<Rightarrow> 'a option) \<Rightarrow> json_map \<Rightarrow> string \<Rightarrow> 'a slice option" where
  "slice_member f m k =
     (case json_member m k of
        None \<Rightarrow> Some None | Some JNull \<Rightarrow> Some None | Some j \<Rightarrow> map_option Some (decode_array f j))"

text \<open>A JSON body into a struct, given the decoding of its members.\<close>

definition decode_body :: "decoder \<Rightarrow> (json_map \<Rightarrow> 'a option) \<Rightarrow> string \<Rightarrow> 'a option" where
  "decode_body um f body = do { j \<leftarrow> um body; m \<leftarrow> struct_members j; f m }"

definition decode_elem :: "(json_map \<Rightarrow> 'a option) \<Rightarrow> json \<Rightarrow> 'a option" where
  "decode_elem f j = do { m \<leftarrow> struct_members j; f m }"

definition data_member :: "string list \<Rightarrow> json_map \<Rightarrow> string list option" where
  "data_member texts m = map_option (\<lambda>n. take n texts)
     (case json_member m ''data'' of
        None \<Rightarrow> Some 0 | Some JNull \<Rightarrow> Some 0 | Some (JArr xs) \<Rightarrow> Some (length xs) | _ \<Rightarrow> None)"

definition decode_sensor :: "string list \<Rightarrow> json \<Rightarrow> Sensor option" where
  "decode_sensor texts = decode_elem (\<lambda>m. do {
     lsid \<leftarrow> int_member m ''lsid'';
     sensorType \<leftarrow> int_member m ''sensor_type'';
     structure \<leftarrow> int_member m ''data_structure_type'';
     dataPoints \<leftarrow> data_member texts m;
     Some \<lparr>sn_LSID = lsid, sn_SensorType = sensorType, sn_DataStructureType = structure, sn_Data = dataPoints\<rparr> })"

text \<open>The sensors of a body, each with the texts \<open>raw\<close> has for its index.\<close>

definition sensors_member :: "(nat \<Rightarrow> string list) \<Rightarrow> json_map \<Rightarrow> Sensor list option" where
  "sensors_member texts m =
     do { js \<leftarrow> array_member Some m ''sensors'';
          those (map (\<lambda>(i, j). decode_sensor (texts i) j) (enumerate 0 js)) }"

definition decode_current :: "decoder \<Rightarrow> (string \<Rightarrow> nat \<Rightarrow> string list) \<Rightarrow> string \<Rightarrow> CurrentConditionsResponse option" where
  "decode_current um raw body = decode_body um (\<lambda>m. do {
     station \<leftarrow> int_member m ''station_id'';
     uuid \<leftarrow> str_member m ''station_id_uuid'';
     sensors \<leftarrow> sensors_member (raw body) m;
     generated \<leftarrow> int_member m ''generated_at'';
     Some \<lparr>cc_StationID = station, cc_StationIDUUID = uuid, cc_Sensors = sensors, cc_GeneratedAt = generated\<rparr> }) body"

definition decode_metadata :: "json_map \<Rightarrow> SensorMetadata option" where
  "decode_metadata m = do {
     lsid \<leftarrow> int_member m ''lsid'';
     sensorType \<leftarrow> int_member m ''sensor_type'';
     category \<leftarrow> str_member m ''category'';
     manufacturer \<leftarrow> str_member m ''manufacturer'';
     productName \<leftarrow> str_member m ''product_name'';
     productNumber \<leftarrow> str_member m ''product_number'';
     rain \<leftarrow> int_member m ''rain_collector_type'';
     active \<leftarrow> bool_member m ''active'';
     tx \<leftarrow> int_ptr_member m ''tx_id'';
     port \<leftarrow> int_member m ''port_number'';
     parentType \<leftarrow> str_member m ''parent_device_type'';
     parentName \<leftarrow> str_member m ''parent_device_name'';
     parentID \<leftarrow> int_member m ''parent_device_id'';
     parentHex \<leftarrow> str_member m ''parent_device_id_hex'';
     station \<leftarrow> int_member m ''station_id'';
     uuid \<leftarrow> str_member m ''station_id_uuid'';
     stationName \<leftarrow> str_member m ''station_name'';
     latitude \<leftarrow> float_member m ''latitude'';
     longitude \<leftarrow> float_member m ''longitude'';
     elevation \<leftarrow> float_member m ''elevation'';
     Some \<lparr>sm_LSID = lsid, sm_SensorType = sensorType, sm_Category = category, sm_Manufacturer = manufacturer,
           sm_ProductName = productName, sm_ProductNumber = productNumber, sm_RainCollectorType = rain,
           sm_Active = active, sm_TxID = tx, sm_PortNumber = port, sm_ParentDeviceType = parentType,
           sm_ParentDeviceName = parentName, sm_ParentDeviceID = parentID, sm_ParentDeviceIDHex = parentHex,
           sm_StationID = station, sm_StationIDUUID = uuid, sm_StationName = stationName,
           sm_Latitude = latitude, sm_Longitude = longitude, sm_Elevation = elevation\<rparr> }"

definition decode_sensors :: "decoder \<Rightarrow> string \<Rightarrow> SensorsResponse option" where
  "decode_sensors um = decode_body um (\<lambda>m. do {
     sensors \<leftarrow> array_member (decode_elem decode_metadata) m ''sensors'';
     generated \<leftarrow> int_member m ''generated_at'';
     Some \<lparr>sr_Sensors = sensors, sr_GeneratedAt = generated\<rparr> })"

definition decode_station_info :: "json_map \<Rightarrow> StationInfo option" where
  "decode_station_info m = do {
     station \<leftarrow> int_member m ''station_id'';
     uuid \<leftarrow> str_member m ''station_id_uuid'';
     stationName \<leftarrow> str_member m ''station_name'';
     Some \<lparr>si_StationID = station, si_StationIDUUID = uuid, si_StationName = stationName\<rparr> }"

definition decode_station :: "decoder \<Rightarrow> string \<Rightarrow> StationResponse option" where
  "decode_station um = decode_body um (\<lambda>m. do {
     stations \<leftarrow> slice_member (decode_elem decode_station_info) m ''stations'';
     generated \<leftarrow> int_member m ''generated_at'';
     Some \<lparr>st_Stations = stations, st_GeneratedAt = generated\<rparr> })"

text \<open>A Go map is decoded member by member; a later member replaces an earlier one of the same name.\<close>

definition decode_field :: "string \<times> json \<Rightarrow> (string \<times> FieldDefinition) option" where
  "decode_field = (\<lambda>(n, j). do {
     d \<leftarrow> struct_members j;
     type \<leftarrow> str_member d ''type'';
     units \<leftarrow> str_member d ''units'';
     Some (n, \<lparr>fd_Type = type, fd_Units = units\<rparr>) })"

definition decode_fields :: "json_map \<Rightarrow> string \<Rightarrow> (string \<times> FieldDefinition) slice option" where
  "decode_fields m k =
     (case obj_member m k of
        None \<Rightarrow> None
      | Some None \<Rightarrow> Some None
      | Some (Some d) \<Rightarrow>
          map_option (\<lambda>fields. Some (fold (\<lambda>(n, f). AList.update n f) fields [])) (those (map decode_field d)))"

definition decode_structure :: "json_map \<Rightarrow> DataStructure option" where
  "decode_structure m = do {
     type \<leftarrow> str_member m ''data_structure_type'';
     description \<leftarrow> str_member m ''description'';
     fields \<leftarrow> decode_fields m ''data_structure'';
     Some \<lparr>ds_DataStructureType = type, ds_Description = description, ds_DataStructure = fields\<rparr> }"

definition decode_entry_fields :: "json_map \<Rightarrow> CatalogEntry option" where
  "decode_entry_fields m = do {
     sensorType \<leftarrow> int_member m ''sensor_type'';
     manufacturer \<leftarrow> str_member m ''manufacturer'';
     productName \<leftarrow> str_member m ''product_name'';
     productNumber \<leftarrow> str_member m ''product_number'';
     category \<leftarrow> str_member m ''category'';
     structures \<leftarrow> slice_member (decode_elem decode_structure) m ''data_structures'';
     Some \<lparr>ce_SensorType = sensorType, ce_Manufacturer = manufacturer, ce_ProductName = productName,
           ce_ProductNumber = productNumber, ce_Category = category, ce_DataStructures = structures\<rparr> }"

definition decode_catalog :: "decoder \<Rightarrow> string \<Rightarrow> SensorCatalogResponse option" where
  "decode_catalog um = decode_body um (\<lambda>m. do {
     entries \<leftarrow> array_member (decode_elem decode_entry_fields) m ''sensor_types'';
     generated \<leftarrow> int_member m ''generated_at'';
     Some \<lparr>sc_SensorCatalog = entries, sc_GeneratedAt = generated\<rparr> })"

section \<open>Marshalling\<close>

text \<open>\<open>json.Marshal\<close> writes the fields of a struct in their order and the keys of a map sorted.\<close>

definition json_int :: "int \<Rightarrow> json" where
  "json_int n = JNum (of_int n)"

definition metadata_fields :: "SensorMetadata \<Rightarrow> json_map" where
  "metadata_fields s =
     [(''lsid'', json_int (sm_LSID s)), (''sensor_type'', json_int (sm_SensorType s)),
      (''category'', JStr (sm_Category s)), (''manufacturer'', JStr (sm_Manufacturer s)),
      (''product_name'', JStr (sm_ProductName s)), (''product_number'', JStr (sm_ProductNumber s)),
      (''rain_collector_type'', json_int (sm_RainCollectorType s)), (''active'', JBool (sm_Active s)),
      (''tx_id'', (case sm_TxID s of None \<Rightarrow> JNull | Some n \<Rightarrow> json_int n)),
      (''port_number'', json_int (sm_PortNumber s)),
      (''parent_device_type'', JStr (sm_ParentDeviceType s)), (''parent_device_name'', JStr (sm_ParentDeviceName s)),
      (''parent_device_id'', json_int (sm_ParentDeviceID s)),
      (''parent_device_id_hex'', JStr (sm_ParentDeviceIDHex s)),
      (''station_id'', json_int (sm_StationID s)), (''station_id_uuid'', JStr (sm_StationIDUUID s)),
      (''station_name'', JStr (sm_StationName s)), (''latitude'', JNum (sm_Latitude s)),
      (''longitude'', JNum (sm_Longitude s)), (''elevation'', JNum (sm_Elevation s))]"

definition metadata_json :: "SensorMetadata \<Rightarrow> json" where
  "metadata_json s = JObj (metadata_fields s)"

definition slice_json :: "('a \<Rightarrow> json) \<Rightarrow> 'a slice \<Rightarrow> json" where
  "slice_json f s = (case s of None \<Rightarrow> JNull | Some xs \<Rightarrow> JArr (map f xs))"

definition station_info_json :: "StationInfo \<Rightarrow> json" where
  "station_info_json s =
     JObj [(''station_id'', json_int (si_StationID s)), (''station_id_uuid'', JStr (si_StationIDUUID s)),
           (''station_name'', JStr (si_StationName s))]"

definition station_json :: "StationResponse \<Rightarrow> json" where
  "station_json r =
     JObj [(''stations'', slice_json station_info_json (st_Stations r)),
           (''generated_at'', json_int (st_GeneratedAt r))]"

definition field_json :: "FieldDefinition \<Rightarrow> json" where
  "field_json d = JObj [(''type'', JStr (fd_Type d)), (''units'', JStr (fd_Units d))]"

definition fields_json :: "(string \<times> FieldDefinition) slice \<Rightarrow> json" where
  "fields_json s =
     (case s of None \<Rightarrow> JNull | Some fs \<Rightarrow> JObj (map (\<lambda>(n, f). (n, field_json f)) (sort_key fst fs)))"

definition structure_json :: "DataStructure \<Rightarrow> json" where
  "structure_json d =
     JObj [(''data_structure_type'', JStr (ds_DataStructureType d)), (''description'', JStr (ds_Description d)),
           (''data_structure'', fields_json (ds_DataStructure d))]"

definition entry_fields :: "CatalogEntry \<Rightarrow> json_map" where
  "entry_fields e =
     [(''sensor_type'', json_int (ce_SensorType e)), (''manufacturer'', JStr (ce_Manufacturer e)),
      (''product_name'', JStr (ce_ProductName e)), (''product_number'', JStr (ce_ProductNumber e)),
      (''category'', JStr (ce_Category e)),
      (''data_structures'', slice_json structure_json (ce_DataStructures e))]"

definition entry_json :: "CatalogEntry \<Rightarrow> json" where
  "entry_json e = JObj (entry_fields e)"

section \<open>The client\<close>

record wk_client =
  wc_apiKey :: string
  wc_apiSecret :: string
  wc_stationID :: string

record http_request =
  rq_method :: string
  rq_url :: string
  rq_headers :: "(string \<times> string) list"

text \<open>The body that was read, with the error that ended the reading.\<close>

type_synonym api_reply = "(int \<times> string \<times> go_error option) result"
type_synonym exchange = "http_request \<Rightarrow> api_reply"

definition makeRequest :: "exchange \<Rightarrow> wk_client \<Rightarrow> string \<Rightarrow> string result" where
  "makeRequest exchange c url =
     (case exchange \<lparr>rq_method = ''GET'', rq_url = url, rq_headers = [(''X-Api-Secret'', wc_apiSecret c)]\<rparr> of
        Inl er \<Rightarrow> Inl er
      | Inr (status, body, readErr) \<Rightarrow>
          if status \<noteq> 200
          then Inl (Wrap (''API request failed with status '' @ itoa status) (Err body))
          else (case readErr of None \<Rightarrow> Inr body | Some er \<Rightarrow> Inl er))"

definition fetch_decoded ::
    "exchange \<Rightarrow> wk_client \<Rightarrow> string \<Rightarrow> string \<Rightarrow> (string \<Rightarrow> 'a option) \<Rightarrow> 'a result" where
  "fetch_decoded exchange c url what decode =
     (case makeRequest exchange c url of
        Inl er \<Rightarrow> Inl (Wrap (''failed to fetch '' @ what) er)
      | Inr body \<Rightarrow>
          (case decode body of
             None \<Rightarrow> Inl (Err (''failed to parse '' @ what))
           | Some response \<Rightarrow> Inr response))"

definition apiBase :: string where
  "apiBase = ''https://api.weatherlink.com/v2/''"

definition FetchCurrentConditions ::
    "decoder \<Rightarrow> (string \<Rightarrow> nat \<Rightarrow> string list) \<Rightarrow> exchange \<Rightarrow> wk_client \<Rightarrow> CurrentConditionsResponse result" where
  "FetchCurrentConditions um raw exchange c =
     fetch_decoded exchange c (apiBase @ ''current/'' @ wc_stationID c @ ''?api-key='' @ wc_apiKey c)
       ''current conditions'' (decode_current um raw)"

definition FetchSensorMetadata :: "decoder \<Rightarrow> exchange \<Rightarrow> wk_client \<Rightarrow> SensorsResponse result" where
  "FetchSensorMetadata um exchange c =
     fetch_decoded exchange c (apiBase @ ''sensors?api-key='' @ wc_apiKey c) ''sensor metadata'' (decode_sensors um)"

definition FetchSensorCatalog :: "decoder \<Rightarrow> exchange \<Rightarrow> wk_client \<Rightarrow> SensorCatalogResponse result" where
  "FetchSensorCatalog um exchange c =
     fetch_decoded exchange c (apiBase @ ''sensor-catalog?api-key='' @ wc_apiKey c)
       ''sensor catalog'' (decode_catalog um)"

definition FetchStationInfo :: "decoder \<Rightarrow> exchange \<Rightarrow> wk_client \<Rightarrow> StationResponse result" where
  "FetchStationInfo um exchange c =
     fetch_decoded exchange c (apiBase @ ''stations/'' @ wc_stationID c @ ''?api-key='' @ wc_apiKey c)
       ''station info'' (decode_station um)"

definition historic_url :: "wk_client \<Rightarrow> int \<Rightarrow> int \<Rightarrow> string" where
  "historic_url c startTs endTs =
     apiBase @ ''historic/'' @ wc_stationID c @ ''?api-key='' @ wc_apiKey c
       @ ''&start-timestamp='' @ itoa startTs @ ''&end-timestamp='' @ itoa endTs"

definition FetchHistoricData ::
    "decoder \<Rightarrow> (string \<Rightarrow> nat \<Rightarrow> string list) \<Rightarrow> exchange \<Rightarrow> wk_client \<Rightarrow> int \<Rightarrow> int
     \<Rightarrow> CurrentConditionsResponse result" where
  "FetchHistoricData um raw exchange c startTs endTs =
     (case check_window startTs endTs of
        Some er \<Rightarrow> Inl er
      | None \<Rightarrow> fetch_decoded exchange c (historic_url c startTs endTs) ''historic data'' (decode_current um raw))"

section \<open>What a decoded reply looks like\<close>

definition go_ints :: "Sensor \<Rightarrow> bool" where
  "go_ints sensor \<longleftrightarrow> in_i64 (sn_LSID sensor) \<and> in_i64 (sn_SensorType sensor)
     \<and> in_i64 (sn_DataStructureType sensor)"

lemma decode_sensor_SomeD:
  assumes "decode_sensor texts j = Some s"
  shows "go_ints s" and "set (sn_Data s) \<subseteq> set texts"
  using assms
  by (auto simp: decode_sensor_def decode_elem_def go_ints_def bind_eq_Some_conv int_member_range data_member_def
      dest: in_set_takeD)

lemma sensors_member_ints:
  assumes "sensors_member texts m = Some ss"
  shows "list_all go_ints ss"
  using assms
  by (auto simp: sensors_member_def bind_eq_Some_conv list_all_iff
      dest!: those_map_Some(2) decode_sensor_SomeD(1))

lemma decode_current_SomeD:
  assumes "decode_current um raw body = Some r"
  shows "list_all go_ints (cc_Sensors r)" and "in_i64 (cc_StationID r)" and "in_i64 (cc_GeneratedAt r)"
  using assms
  by (auto simp: decode_current_def decode_body_def bind_eq_Some_conv dest: sensors_member_ints int_member_range)

lemma fetch_decoded_Inr:
  assumes "fetch_decoded exchange c url what decode = Inr r"
  shows "\<exists>body. decode body = Some r \<and> makeRequest exchange c url = Inr body"
  using assms by (auto simp: fetch_decoded_def split: sum.splits option.splits)

lemma fetched_conditions_ints:
  assumes "FetchCurrentConditions um raw exchange c = Inr r"
  shows "list_all go_ints (cc_Sensors r)"
  using fetch_decoded_Inr[OF assms[unfolded FetchCurrentConditions_def]] decode_current_SomeD(1) by blast

lemma fetched_history_ints:
  assumes "FetchHistoricData um raw exchange c startTs endTs = Inr r"
  shows "list_all go_ints (cc_Sensors r)"
  using assms decode_current_SomeD(1)
  by (auto simp: FetchHistoricData_def split: option.splits dest!: fetch_decoded_Inr)

text \<open>What the consumers look up in a published object.\<close>

lemma metadata_fields_lookup [simp]:
  "map_of (metadata_fields s) ''lsid'' = Some (json_int (sm_LSID s))"
  "map_of (metadata_fields s) ''sensor_type'' = Some (json_int (sm_SensorType s))"
  "map_of (metadata_fields s) ''stations'' = None"
  by (simp_all add: metadata_fields_def)

lemma entry_fields_lookup [simp]:
  "map_of (entry_fields e) ''sensor_type'' = Some (json_int (ce_SensorType e))"
  "map_of (entry_fields e) ''sensor_types'' = None"
  "map_of (entry_fields e) ''data_structures'' = Some (slice_json structure_json (ce_DataStructures e))"
  by (simp_all add: entry_fields_def)

lemma decode_fields_distinct:
  assumes "decode_fields m k = Some fs"
  shows "distinct (map fst (elems fs))"
proof -
  have "distinct (map fst (fold (\<lambda>(n, f). AList.update n f) xs acc))" if "distinct (map fst acc)"
    for xs and acc :: "(string \<times> FieldDefinition) list"
    using that by (induction xs arbitrary: acc) (auto intro: distinct_update)
  from this[of "[]"] assms show ?thesis
    by (auto simp: decode_fields_def elems_def split: option.splits)
qed

lemma slice_member_elem:
  assumes "slice_member f m k = Some xs" and "x \<in> set (elems xs)"
  shows "\<exists>j. f j = Some x"
  using assms
  by (auto simp: slice_member_def decode_array_def elems_def split: option.splits json.splits
      dest!: those_map_Some(2))

lemma fields_of_entry:
  assumes "decode_entry_fields m = Some e" and "d \<in> set (elems (ce_DataStructures e))"
  shows "distinct (map fst (elems (ds_DataStructure d)))"
proof -
  from assms(1) have "slice_member (decode_elem decode_structure) m ''data_structures''
      = Some (ce_DataStructures e)"
    by (auto simp: decode_entry_fields_def bind_eq_Some_conv)
  from slice_member_elem[OF this assms(2)] obtain k where "decode_fields k ''data_structure'' = Some (ds_DataStructure d)"
    by (auto simp: decode_elem_def decode_structure_def bind_eq_Some_conv)
  then show ?thesis by (rule decode_fields_distinct)
qed

end
