(* ===== verification/Wk_Publish.thy ===== *)
theory Wk_Publish
  imports Wk_Api Wl_Service
begin

text \<open>
  What \<open>weatherlink-kafka\<close> publishes: current conditions (\<open>service/conditions.go\<close>), historic data
  (\<open>service/backfill.go\<close>), sensor, catalog and station metadata (\<open>service/metadata.go\<close>), and the scan of
  the existing keys (\<open>service/scanner.go\<close>), which together keep a key from being published twice.

  Kafka is the list of the messages that reached it, newest last.  A publish can be refused, or
  delivered, or delivered with the report lost (\<open>outcome\<close>).  A response is what a function of \<open>Wk_Api\<close> returned.
  A data point is its raw JSON, compacted, which marshalling a \<open>json.RawMessage\<close> leaves as it is,
  and is decoded by the parameter \<open>unmarshal\<close>.  The bytes of other marshalled values are the parameter
  \<open>encode\<close>.
\<close>

section \<open>State\<close>

record wk_service =
  wk_stationID :: string
  wk_sensorMap :: "int \<rightharpoonup> SensorMetadata"
  wk_sensorTypes :: "int set"
  wk_recordKeys :: "string set"
  wk_metadataKeys :: "string set"

type_synonym kafka = "message list"

text \<open>
  \<open>Publish\<close> waits for the delivery report.  The order of the headers is that of a Go map: a parameter
  \<open>order\<close>, a permutation of the list it is given.
\<close>

definition produce :: "message \<Rightarrow> kafka \<Rightarrow> kafka result" where
  "produce msg k = Inr (k @ [msg])"

definition Publish ::
    "env \<Rightarrow> ((string \<times> string) list \<Rightarrow> (string \<times> string) list) \<Rightarrow> string \<Rightarrow> string \<Rightarrow> string
     \<Rightarrow> (string \<times> string) list \<Rightarrow> kafka conn \<Rightarrow> go_error option \<times> kafka conn" where
  "Publish e order topic key body headers c =
     (case exec_stmt e (produce \<lparr>m_topic = topic, m_partition = 0, m_offset = 0, m_key = key,
                                 m_value = body, m_headers = order headers\<rparr>) c of
        (None, c1) \<Rightarrow> (None, c1)
      | (Some er, c1) \<Rightarrow> (Some (Wrap ''delivery failed'' er), c1))"

section \<open>Conditions\<close>

definition data_timestamp :: "json_map \<Rightarrow> int" where
  "data_timestamp dataMap =
     (case as_num (map_of dataMap ''ts'') of Some ts \<Rightarrow> int_of_float ts | None \<Rightarrow> 0)"

definition record_key :: "int \<Rightarrow> int \<Rightarrow> string" where
  "record_key lsid timestamp = itoa lsid @ '':'' @ itoa timestamp"

definition record_headers :: "Sensor \<Rightarrow> int \<Rightarrow> (string \<times> string) list" where
  "record_headers sensor timestamp =
     [(''schema_version'', ''1''), (''lsid'', itoa (sn_LSID sensor)), (''timestamp'', itoa timestamp),
      (''sensor_type'', itoa (sn_SensorType sensor)),
      (''data_structure_type'', itoa (sn_DataStructureType sensor))]"

type_synonym header_order = "(string \<times> string) list \<Rightarrow> (string \<times> string) list"

text \<open>
  One data point of \<open>fetchCurrentConditions\<close>: \<open>seenKeys\<close> holds the keys tried in this response, the
  service's set the keys known to be in Kafka.
\<close>

definition conditions_point ::
    "env \<Rightarrow> decoder \<Rightarrow> header_order \<Rightarrow> string \<Rightarrow> Sensor \<Rightarrow> string
     \<Rightarrow> string set \<times> wk_service \<times> kafka conn \<Rightarrow> string set \<times> wk_service \<times> kafka conn" where
  "conditions_point e unmarshal order topic sensor dataPoint s =
     (let (seen, svc, c) = s in
      case unmarshal_map unmarshal dataPoint of
        None \<Rightarrow> (seen, svc, c)
      | Some dataMap \<Rightarrow>
          let timestamp = data_timestamp dataMap;
              key = record_key (sn_LSID sensor) timestamp
          in if key \<in> seen then (seen, svc, c)
             else if key \<in> wk_recordKeys svc then (seen, svc, c)
             else (case Publish e order topic key dataPoint (record_headers sensor timestamp) c of
                     (Some _, c1) \<Rightarrow> (insert key seen, svc, c1)
                   | (None, c1) \<Rightarrow>
                       (insert key seen, svc\<lparr>wk_recordKeys := insert key (wk_recordKeys svc)\<rparr>, c1)))"

definition conditions_sensor ::
    "env \<Rightarrow> decoder \<Rightarrow> header_order \<Rightarrow> Sensor
     \<Rightarrow> string set \<times> wk_service \<times> kafka conn \<Rightarrow> string set \<times> wk_service \<times> kafka conn" where
  "conditions_sensor e unmarshal order sensor s =
     (case wk_sensorMap (fst (snd s)) (sn_LSID sensor) of
        None \<Rightarrow> s
      | Some metadata \<Rightarrow>
          fold (conditions_point e unmarshal order (GetTopicForCategory (sm_Category metadata)) sensor)
               (sn_Data sensor) s)"

definition fetchCurrentConditions ::
    "env \<Rightarrow> decoder \<Rightarrow> header_order \<Rightarrow> CurrentConditionsResponse result \<Rightarrow> wk_service \<times> kafka conn
     \<Rightarrow> go_error option \<times> wk_service \<times> kafka conn" where
  "fetchCurrentConditions e unmarshal order response s =
     (case response of
        Inl er \<Rightarrow> (Some er, s)
      | Inr r \<Rightarrow> (None, snd (fold (conditions_sensor e unmarshal order) (cc_Sensors r) ({}, s))))"

section \<open>Historic data\<close>

text \<open>
  \<open>PublishAsync\<close> only queues the message and returns; the report of its delivery goes to the log of the
  service.  So a \<open>Lost\<close> outcome is here a message that was queued and never delivered: no error comes back,
  and the message is not in Kafka.  \<open>historic_point\<close> records the key as soon as the message is queued.
\<close>

definition PublishAsync ::
    "env \<Rightarrow> ((string \<times> string) list \<Rightarrow> (string \<times> string) list) \<Rightarrow> string \<Rightarrow> string \<Rightarrow> string
     \<Rightarrow> (string \<times> string) list \<Rightarrow> kafka conn \<Rightarrow> go_error option \<times> kafka conn" where
  "PublishAsync e order topic key body headers c =
     (let (out, c1) = next_outcome e c in
      case out of
        Done \<Rightarrow> (None, c1\<lparr>db := db c1 @ [\<lparr>m_topic = topic, m_partition = 0, m_offset = 0, m_key = key,
                                       m_value = body, m_headers = order headers\<rparr>]\<rparr>)
      | Refused er \<Rightarrow> (Some (Wrap ''failed to produce message'' er), c1)
      | Lost er \<Rightarrow> (None, c1))"

definition historic_point ::
    "env \<Rightarrow> decoder \<Rightarrow> header_order \<Rightarrow> string \<Rightarrow> Sensor \<Rightarrow> string
     \<Rightarrow> (int \<times> int) \<times> wk_service \<times> kafka conn \<Rightarrow> (int \<times> int) \<times> wk_service \<times> kafka conn" where
  "historic_point e unmarshal order topic sensor dataPoint s =
     (let ((published, skipped), svc, c) = s in
      case unmarshal_map unmarshal dataPoint of
        None \<Rightarrow> ((published, skipped), svc, c)
      | Some dataMap \<Rightarrow>
          let timestamp = data_timestamp dataMap;
              key = record_key (sn_LSID sensor) timestamp
          in if key \<in> wk_recordKeys svc then ((published, i64 (skipped + 1)), svc, c)
             else (case PublishAsync e order topic key dataPoint (record_headers sensor timestamp) c of
                     (Some _, c1) \<Rightarrow> ((published, skipped), svc, c1)
                   | (None, c1) \<Rightarrow>
                       ((i64 (published + 1), skipped),
                        svc\<lparr>wk_recordKeys := insert key (wk_recordKeys svc)\<rparr>, c1)))"

definition historic_sensor ::
    "env \<Rightarrow> decoder \<Rightarrow> header_order \<Rightarrow> Sensor
     \<Rightarrow> (int \<times> int) \<times> wk_service \<times> kafka conn \<Rightarrow> (int \<times> int) \<times> wk_service \<times> kafka conn" where
  "historic_sensor e unmarshal order sensor s =
     (case wk_sensorMap (fst (snd s)) (sn_LSID sensor) of
        None \<Rightarrow> s
      | Some metadata \<Rightarrow>
          fold (historic_point e unmarshal order (GetTopicForCategory (sm_Category metadata)) sensor)
               (sn_Data sensor) s)"

definition processHistoricDataAsync ::
    "env \<Rightarrow> decoder \<Rightarrow> header_order \<Rightarrow> Sensor list \<Rightarrow> wk_service \<times> kafka conn
     \<Rightarrow> (int \<times> int) \<times> wk_service \<times> kafka conn" where
  "processHistoricDataAsync e unmarshal order sensors s =
     fold (historic_sensor e unmarshal order) sensors ((0, 0), s)"

section \<open>Metadata\<close>

definition metadata_key :: "string \<Rightarrow> int \<Rightarrow> string" where
  "metadata_key a n = a @ '':'' @ itoa n"

definition publish_metadata ::
    "env \<Rightarrow> header_order \<Rightarrow> string \<Rightarrow> string \<Rightarrow> string \<Rightarrow> (string \<times> string) list
     \<Rightarrow> wk_service \<times> kafka conn \<Rightarrow> go_error option \<times> wk_service \<times> kafka conn" where
  "publish_metadata e order topic key body headers s =
     (let (svc, c) = s in
      if key \<in> wk_metadataKeys svc then (None, svc, c)
      else case Publish e order topic key body headers c of
             (Some er, c1) \<Rightarrow> (Some er, svc, c1)
           | (None, c1) \<Rightarrow> (None, svc\<lparr>wk_metadataKeys := insert key (wk_metadataKeys svc)\<rparr>, c1))"

definition sensor_entry ::
    "env \<Rightarrow> (json \<Rightarrow> string) \<Rightarrow> header_order \<Rightarrow> int \<Rightarrow> SensorMetadata
     \<Rightarrow> wk_service \<times> kafka conn \<Rightarrow> wk_service \<times> kafka conn" where
  "sensor_entry e encode order weekStart sensor s =
     (let (svc, c) = s;
          svc1 = svc\<lparr>wk_sensorMap := (wk_sensorMap svc)(sm_LSID sensor \<mapsto> sensor),
                     wk_sensorTypes := insert (sm_SensorType sensor) (wk_sensorTypes svc)\<rparr>
      in snd (publish_metadata e order ''weather.metadata.sensors''
                (metadata_key (itoa (sm_LSID sensor)) weekStart) (encode (metadata_json sensor))
                [(''schema_version'', ''1'')] (svc1, c)))"

definition fetchSensorMetadata ::
    "env \<Rightarrow> (json \<Rightarrow> string) \<Rightarrow> header_order \<Rightarrow> int \<Rightarrow> SensorsResponse result
     \<Rightarrow> wk_service \<times> kafka conn \<Rightarrow> go_error option \<times> wk_service \<times> kafka conn" where
  "fetchSensorMetadata e encode order now response s =
     (case response of
        Inl er \<Rightarrow> (Some er, s)
      | Inr r \<Rightarrow> (None, fold (sensor_entry e encode order (StartOfWeekUnix now)) (sr_Sensors r) s))"

definition maxDataStructureType :: "CatalogEntry \<Rightarrow> int \<times> bool" where
  "maxDataStructureType entry =
     fold (\<lambda>dst (maxValue, found).
             case parse_int dst of
               (value, None) \<Rightarrow> if \<not> found \<or> value > maxValue then (value, True) else (maxValue, found)
             | (_, Some _) \<Rightarrow> (maxValue, found))
          (map ds_DataStructureType (elems (ce_DataStructures entry))) (0, False)"

definition catalog_entry ::
    "env \<Rightarrow> (json \<Rightarrow> string) \<Rightarrow> header_order \<Rightarrow> int \<Rightarrow> CatalogEntry
     \<Rightarrow> wk_service \<times> kafka conn \<Rightarrow> wk_service \<times> kafka conn" where
  "catalog_entry e encode order generatedAt entry s =
     (case maxDataStructureType entry of
        (_, False) \<Rightarrow> s
      | (maxStructureType, True) \<Rightarrow>
          snd (publish_metadata e order ''weather.metadata.catalog''
                 (metadata_key (itoa (ce_SensorType entry)) maxStructureType) (encode (entry_json entry))
                 [(''schema_version'', ''1''), (''generated_at'', itoa generatedAt)] s))"

definition fetchCatalogMetadata ::
    "env \<Rightarrow> (json \<Rightarrow> string) \<Rightarrow> header_order \<Rightarrow> SensorCatalogResponse result
     \<Rightarrow> wk_service \<times> kafka conn \<Rightarrow> go_error option \<times> wk_service \<times> kafka conn" where
  "fetchCatalogMetadata e encode order response s =
     (case response of
        Inl er \<Rightarrow> (Some er, s)
      | Inr r \<Rightarrow>
          (None, fold (catalog_entry e encode order (sc_GeneratedAt r))
                   (filter (\<lambda>en. ce_SensorType en \<in> wk_sensorTypes (fst s)) (sc_SensorCatalog r)) s))"

definition fetchStationMetadata ::
    "env \<Rightarrow> (json \<Rightarrow> string) \<Rightarrow> header_order \<Rightarrow> int \<Rightarrow> StationResponse result
     \<Rightarrow> wk_service \<times> kafka conn \<Rightarrow> go_error option \<times> wk_service \<times> kafka conn" where
  "fetchStationMetadata e encode order now response s =
     (case response of
        Inl er \<Rightarrow> (Some er, s)
      | Inr r \<Rightarrow>
          publish_metadata e order ''weather.metadata.station''
            (metadata_key (wk_stationID (fst s)) (StartOfWeekUnix now)) (encode (station_json r))
            [(''schema_version'', ''1''), (''station_id'', wk_stationID (fst s))] s)"

definition fetchAllMetadata ::
    "env \<Rightarrow> (json \<Rightarrow> string) \<Rightarrow> header_order \<Rightarrow> int \<Rightarrow> SensorsResponse result
     \<Rightarrow> SensorCatalogResponse result \<Rightarrow> StationResponse result
     \<Rightarrow> wk_service \<times> kafka conn \<Rightarrow> wk_service \<times> kafka conn" where
  "fetchAllMetadata e encode order now sensors catalog station s =
     (let s1 = snd (fetchSensorMetadata e encode order now sensors s);
          s2 = snd (fetchCatalogMetadata e encode order catalog s1)
      in snd (fetchStationMetadata e encode order now station s2))"

section \<open>The scan of existing keys\<close>

text \<open>
  The end offsets: for every topic that exists, for every partition whose watermarks can be queried.
  \<open>partitions\<close> is what the broker knows of a topic.
\<close>

definition query_partition ::
    "string \<Rightarrow> int \<times> (int \<times> int) result \<Rightarrow> ((string \<times> int) \<times> int) list \<times> int
     \<Rightarrow> ((string \<times> int) \<times> int) list \<times> int" where
  "query_partition topic part s =
     (case part of
        (pid, Inl er) \<Rightarrow> s
      | (pid, Inr (low, high)) \<Rightarrow>
          (AList.update (topic, pid) high (fst s), i64 (snd s + i64 (high - low))))"

definition query_offsets ::
    "(string \<Rightarrow> (int \<times> (int \<times> int) result) list option) \<Rightarrow> string list
     \<Rightarrow> ((string \<times> int) \<times> int) list \<times> int" where
  "query_offsets partitions topics =
     fold (\<lambda>topic s. case partitions topic of
                       None \<Rightarrow> s
                     | Some ps \<Rightarrow> fold (query_partition topic) ps s) topics ([], 0)"

text \<open>
  What \<open>ReadMessage\<close> returns, call after call: a message, a time-out (with what \<open>Position\<close> then returns
  for each partition), or another error.  The end of the list stands for the cancellation.
\<close>

datatype scan_event =
    ScanMessage string
  | ScanTimeout "string \<times> int \<Rightarrow> int result"
  | ScanError go_error

definition reached_end :: "((string \<times> int) \<times> int) list \<Rightarrow> (string \<times> int \<Rightarrow> int result) \<Rightarrow> bool" where
  "reached_end endOffsets position =
     list_all (\<lambda>(tp, endOffset). case position tp of Inl er \<Rightarrow> True | Inr offset \<Rightarrow> \<not> offset < endOffset) endOffsets"

fun scan_loop ::
    "((string \<times> int) \<times> int) list \<Rightarrow> int \<Rightarrow> scan_event list \<Rightarrow> int \<Rightarrow> string set \<Rightarrow> go_error option \<times> string set" where
  "scan_loop endOffsets totalMessages [] scanned cache = (Some Canceled, cache)"
| "scan_loop endOffsets totalMessages (ScanError er # evs) scanned cache =
     (Some (Wrap ''failed to read message'' er), cache)"
| "scan_loop endOffsets totalMessages (ScanTimeout position # evs) scanned cache =
     (if reached_end endOffsets position then (None, cache)
      else scan_loop endOffsets totalMessages evs scanned cache)"
| "scan_loop endOffsets totalMessages (ScanMessage key # evs) scanned cache =
     (let cache1 = (if key \<noteq> [] then insert key cache else cache) in
      if i64 (scanned + 1) \<ge> totalMessages then (None, cache1)
      else scan_loop endOffsets totalMessages evs (i64 (scanned + 1)) cache1)"

text \<open>\<open>setup\<close> is the error of creating or subscribing the consumer or of reading the cluster metadata.\<close>

definition scanExistingKeys ::
    "go_error option \<Rightarrow> (string \<Rightarrow> (int \<times> (int \<times> int) result) list option) \<Rightarrow> string list \<Rightarrow> scan_event list
     \<Rightarrow> string set \<Rightarrow> go_error option \<times> string set" where
  "scanExistingKeys setup partitions topics evs cache =
     (case setup of
        Some er \<Rightarrow> (Some er, cache)
      | None \<Rightarrow>
          let (endOffsets, totalMessages) = query_offsets partitions topics in
          if totalMessages = 0 then (None, cache)
          else scan_loop endOffsets totalMessages evs 0 cache)"

text \<open>\<open>Start\<close> up to the loops: the two scans, whose errors are only logged.  \<open>weather.other\<close> is not scanned.\<close>

definition record_topics :: "string list" where
  "record_topics = [''weather.iss'', ''weather.barometer'', ''weather.indoor'', ''weather.health'']"

definition metadata_topics_scanned :: "string list" where
  "metadata_topics_scanned =
     [''weather.metadata.catalog'', ''weather.metadata.station'', ''weather.metadata.sensors'']"

definition start_scans ::
    "go_error option \<times> go_error option \<Rightarrow> (string \<Rightarrow> (int \<times> (int \<times> int) result) list option)
     \<Rightarrow> scan_event list \<times> scan_event list \<Rightarrow> wk_service \<Rightarrow> wk_service" where
  "start_scans setup partitions evs svc =
     svc\<lparr>wk_recordKeys := snd (scanExistingKeys (fst setup) partitions record_topics (fst evs) (wk_recordKeys svc)),
         wk_metadataKeys := snd (scanExistingKeys (snd setup) partitions metadata_topics_scanned (snd evs)
                                   (wk_metadataKeys svc))\<rparr>"

fun keys_read :: "scan_event list \<Rightarrow> string list" where
  "keys_read [] = []"
| "keys_read (ScanMessage key # evs) = key # keys_read evs"
| "keys_read (_ # evs) = keys_read evs"

lemma scan_loop_reads:
  assumes "scan_loop endOffsets total_cnt evs scanned cache = (r, cache')"
    and "0 \<le> scanned" and "scanned + int (length evs) \<le> max_i64"
  shows "\<exists>n \<le> length evs. cache' = cache \<union> {k \<in> set (keys_read (take n evs)). k \<noteq> []}
     \<and> (r = None \<longrightarrow>
          total_cnt \<le> scanned + int (length (keys_read (take n evs)))
          \<or> (\<exists>position. 0 < n \<and> evs ! (n - 1) = ScanTimeout position \<and> reached_end endOffsets position))"
  using assms
proof (induction endOffsets total_cnt evs scanned cache rule: scan_loop.induct)
  case (1 endOffsets total_cnt scanned cache)
  then show ?case by auto
next
  case (2 endOffsets total_cnt er evs scanned cache)
  then show ?case by (intro exI[of _ 0]) auto
next
  case (3 endOffsets total_cnt position evs scanned cache)
  show ?case
  proof (cases "reached_end endOffsets position")
    case True
    with 3(2) show ?thesis by (intro exI[of _ 1]) auto
  next
    case False
    with 3(2) have "scan_loop endOffsets total_cnt evs scanned cache = (r, cache')" by simp
    from 3(1)[OF False this] 3(3,4) obtain n where "n \<le> length evs"
      "cache' = cache \<union> {k \<in> set (keys_read (take n evs)). k \<noteq> []}"
      "r = None \<longrightarrow> total_cnt \<le> scanned + int (length (keys_read (take n evs)))
          \<or> (\<exists>position. 0 < n \<and> evs ! (n - 1) = ScanTimeout position \<and> reached_end endOffsets position)"
      by auto
    then show ?thesis by (intro exI[of _ "Suc n"]) (auto simp: nth_Cons')
  qed
next
  case (4 endOffsets total_cnt key evs scanned cache)
  define cache1 where "cache1 = (if key \<noteq> [] then insert key cache else cache)"
  have s1: "i64 (scanned + 1) = scanned + 1" using 4(3,4) by (simp add: i64_id in_i64_def)
  show ?case
  proof (cases "total_cnt \<le> scanned + 1")
    case True
    with 4(2) s1 have "r = None" "cache' = cache1" by (auto simp: cache1_def Let_def)
    with True show ?thesis by (intro exI[of _ 1]) (auto simp: cache1_def)
  next
    case False
    with 4(2) s1 have "scan_loop endOffsets total_cnt evs (i64 (scanned + 1)) cache1 = (r, cache')"
      by (simp add: cache1_def Let_def)
    from 4(1)[OF cache1_def _ this] False s1 4(3,4) obtain n where "n \<le> length evs"
      "cache' = cache1 \<union> {k \<in> set (keys_read (take n evs)). k \<noteq> []}"
      "r = None \<longrightarrow> total_cnt \<le> scanned + 1 + int (length (keys_read (take n evs)))
          \<or> (\<exists>position. 0 < n \<and> evs ! (n - 1) = ScanTimeout position \<and> reached_end endOffsets position)"
      by auto
    then show ?thesis by (intro exI[of _ "Suc n"]) (auto simp: cache1_def nth_Cons')
  qed
qed

section \<open>Headers survive the trip\<close>

lemma read_header_commute:
  assumes "fst h \<noteq> fst h'"
  shows "read_header h \<circ> read_header h' = read_header h' \<circ> read_header h"
  using assms by (auto simp: fun_eq_iff read_header_def Let_def)

lemma read_headers_permuted:
  assumes "mset hs = mset hs'" and "distinct (map fst hs)"
  shows "read_headers hs = read_headers hs'"
proof -
  have "read_header x \<circ> read_header y = read_header y \<circ> read_header x"
    if "x \<in> set hs" "y \<in> set hs" for x y
    using that assms(2) read_header_commute by (cases "fst x = fst y") (metis eq_key_imp_eq_value prod.collapse, blast)
  then have "fold read_header hs = fold read_header hs'"
    using assms(1) by (rule fold_multiset_equiv)
  then show ?thesis by (simp add: read_headers_def)
qed

lemma read_record_headers:
  assumes "mset (order (record_headers sensor ts)) = mset (record_headers sensor ts)"
    and "in_i64 (sn_LSID sensor)" and "in_i64 (sn_SensorType sensor)"
    and "in_i64 (sn_DataStructureType sensor)" and "in_i64 ts"
  shows "read_headers (order (record_headers sensor ts)) =
     \<lparr>hv_lsid = sn_LSID sensor, hv_timestamp = ts, hv_sensorType = sn_SensorType sensor,
      hv_dataStructureType = sn_DataStructureType sensor\<rparr>"
proof -
  have "read_headers (order (record_headers sensor ts)) = read_headers (record_headers sensor ts)"
    using assms(1) by (intro read_headers_permuted[symmetric]) (simp_all add: record_headers_def)
  also have "\<dots> = \<lparr>hv_lsid = sn_LSID sensor, hv_timestamp = ts, hv_sensorType = sn_SensorType sensor,
      hv_dataStructureType = sn_DataStructureType sensor\<rparr>"
    using assms(2-5)
    by (simp add: read_headers_def record_headers_def read_header_def atoi_ignoring_def parse_int_itoa)
  finally show ?thesis .
qed

section \<open>What is in Kafka\<close>

definition data_keys :: "kafka \<Rightarrow> string list" where
  "data_keys k = map m_key (filter (\<lambda>m. is_data_topic (m_topic m)) k)"

definition key_of_headers :: "message \<Rightarrow> bool" where
  "key_of_headers m \<longleftrightarrow>
     m_key m = record_key (hv_lsid (read_headers (m_headers m))) (hv_timestamp (read_headers (m_headers m)))"

definition no_lost :: "env \<Rightarrow> bool" where
  "no_lost e \<longleftrightarrow> (\<forall>n er. e n \<noteq> Lost er)"

text \<open>
  The invariant of the publisher that found \<open>old\<close> in Kafka: every data message it added carries its key
  in its headers; when no report is lost, the key of every data message is known and no two data
  messages have the same key.
\<close>

definition wk_inv :: "kafka \<Rightarrow> bool \<Rightarrow> wk_service \<times> kafka conn \<Rightarrow> bool" where
  "wk_inv old exact s \<longleftrightarrow>
     (\<forall>m \<in> set (db (snd s)) - set old. is_data_topic (m_topic m) \<longrightarrow> key_of_headers m)
     \<and> (exact \<longrightarrow> set (data_keys (db (snd s))) \<subseteq> wk_recordKeys (fst s)
                 \<and> distinct (data_keys (db (snd s))))"

lemma Publish_cases:
  assumes "Publish e order topic key body headers c = (r, c')"
  obtains (no) er where "r = Some er" "db c' = db c"
    | (yes) "db c' = db c @ [\<lparr>m_topic = topic, m_partition = 0, m_offset = 0, m_key = key,
                          m_value = body, m_headers = order headers\<rparr>]" "no_lost e \<longrightarrow> r = None"
proof -
  have "(\<exists>er. r = Some er \<and> db c' = db c) \<or> (no_lost e \<longrightarrow> r = None)"
    using assms by (auto simp: Publish_def exec_stmt_def produce_def next_outcome_def no_lost_def
      split: outcome.splits option.splits)
  moreover have "(\<exists>er. r = Some er \<and> db c' = db c) \<or> db c' = db c @ [\<lparr>m_topic = topic,
      m_partition = 0, m_offset = 0, m_key = key, m_value = body, m_headers = order headers\<rparr>]"
    using assms by (auto simp: Publish_def exec_stmt_def produce_def next_outcome_def
      split: outcome.splits option.splits)
  ultimately show thesis using that by blast
qed

lemma Publish_None:
  assumes "Publish e order topic key body headers c = (None, c')"
  shows "db c' = db c @ [\<lparr>m_topic = topic, m_partition = 0, m_offset = 0, m_key = key,
                          m_value = body, m_headers = order headers\<rparr>]"
  using assms by (auto elim: Publish_cases)

lemma wk_inv_publish:
  assumes inv: "wk_inv old exact (svc, c)" and exact: "exact \<longrightarrow> no_lost e"
    and p: "Publish e order topic key body headers c = (r, c')"
    and data: "is_data_topic topic \<longrightarrow> key_of_headers \<lparr>m_topic = topic, m_partition = 0, m_offset = 0,
                 m_key = key, m_value = body, m_headers = order headers\<rparr> \<and> (exact \<longrightarrow> key \<notin> wk_recordKeys svc)"
  shows "r \<noteq> None \<Longrightarrow> wk_inv old exact (svc, c')"
    and "wk_inv old exact (svc\<lparr>wk_recordKeys := insert key (wk_recordKeys svc)\<rparr>, c')"
    and "\<not> is_data_topic topic \<Longrightarrow> wk_inv old exact (svc, c')"
proof -
  show "r \<noteq> None \<Longrightarrow> wk_inv old exact (svc, c')"
    using p inv exact data by (cases rule: Publish_cases[OF p]) (auto simp: wk_inv_def data_keys_def)
  show "wk_inv old exact (svc\<lparr>wk_recordKeys := insert key (wk_recordKeys svc)\<rparr>, c')"
    using p inv exact data by (cases rule: Publish_cases[OF p]) (auto simp: wk_inv_def data_keys_def)
  show "\<not> is_data_topic topic \<Longrightarrow> wk_inv old exact (svc, c')"
    using p inv exact data by (cases rule: Publish_cases[OF p]) (auto simp: wk_inv_def data_keys_def)
qed

lemma PublishAsync_cases:
  assumes "PublishAsync e order topic key body headers c = (r, c')"
  obtains (no) er where "r = Some er" "db c' = db c"
    | (lost) "r = None" "db c' = db c"
    | (yes) "r = None" "db c' = db c @ [\<lparr>m_topic = topic, m_partition = 0, m_offset = 0, m_key = key,
                          m_value = body, m_headers = order headers\<rparr>]"
  using assms by (auto simp: PublishAsync_def next_outcome_def split: outcome.splits)

lemma PublishAsync_done [outcome_simps]:
  "PublishAsync all_done order topic key body headers c =
     (None, c\<lparr>db := db c @ [\<lparr>m_topic = topic, m_partition = 0, m_offset = 0, m_key = key,
                            m_value = body, m_headers = order headers\<rparr>], calls := Suc (calls c)\<rparr>)"
  by (simp add: PublishAsync_def next_outcome_def all_done_def)

lemma wk_inv_async:
  assumes inv: "wk_inv old exact (svc, c)"
    and p: "PublishAsync e order topic key body headers c = (r, c')"
    and data: "is_data_topic topic \<longrightarrow> key_of_headers \<lparr>m_topic = topic, m_partition = 0, m_offset = 0,
                 m_key = key, m_value = body, m_headers = order headers\<rparr> \<and> (exact \<longrightarrow> key \<notin> wk_recordKeys svc)"
  shows "r \<noteq> None \<Longrightarrow> wk_inv old exact (svc, c')"
    and "wk_inv old exact (svc\<lparr>wk_recordKeys := insert key (wk_recordKeys svc)\<rparr>, c')"
proof -
  show "r \<noteq> None \<Longrightarrow> wk_inv old exact (svc, c')"
    using inv by (cases rule: PublishAsync_cases[OF p]) (auto simp: wk_inv_def)
  show "wk_inv old exact (svc\<lparr>wk_recordKeys := insert key (wk_recordKeys svc)\<rparr>, c')"
    using inv data by (cases rule: PublishAsync_cases[OF p]) (auto simp: wk_inv_def data_keys_def)
qed

definition permutes_headers :: "header_order \<Rightarrow> bool" where
  "permutes_headers order \<longleftrightarrow> (\<forall>hs. mset (order hs) = mset hs)"

lemma data_timestamp_in_i64 [simp]: "in_i64 (data_timestamp m)"
  by (simp add: data_timestamp_def in_i64_def split: option.splits)
    (metis in_i64_def in_i64_int_of_float)

lemma record_key_of_headers:
  assumes "permutes_headers order" and "go_ints sensor"
  shows "key_of_headers \<lparr>m_topic = topic, m_partition = 0, m_offset = 0,
           m_key = record_key (sn_LSID sensor) (data_timestamp m), m_value = body,
           m_headers = order (record_headers sensor (data_timestamp m))\<rparr>"
  using assms read_record_headers[of order sensor "data_timestamp m"]
  by (simp add: key_of_headers_def permutes_headers_def go_ints_def)

lemma conditions_point_inv:
  assumes "wk_inv old exact (snd s)" and "exact \<longrightarrow> no_lost e" and "permutes_headers order"
    and "go_ints sensor"
  shows "wk_inv old exact (snd (conditions_point e um order (GetTopicForCategory cat) sensor dp s))"
proof -
  obtain seen svc c where s: "s = (seen, svc, c)" by (cases s)
  show ?thesis
  proof (cases "unmarshal_map um dp")
    case None
    with assms(1) s show ?thesis by (simp add: conditions_point_def)
  next
    case (Some m)
    let ?key = "record_key (sn_LSID sensor) (data_timestamp m)"
    show ?thesis
    proof (cases "?key \<in> seen \<or> ?key \<in> wk_recordKeys svc")
      case True
      with Some assms(1) s show ?thesis by (auto simp: conditions_point_def Let_def)
    next
      case False
      obtain r c' where p: "Publish e order (GetTopicForCategory cat) ?key dp
          (record_headers sensor (data_timestamp m)) c = (r, c')" by (metis surj_pair)
      have inv: "wk_inv old exact (svc, c)" using assms(1) s by simp
      note pub = wk_inv_publish[OF inv assms(2) p]
      show ?thesis
        using False Some s p pub(1,2) record_key_of_headers[OF assms(3,4)]
        by (cases r) (auto simp: conditions_point_def Let_def)
    qed
  qed
qed

lemma historic_point_inv:
  assumes "wk_inv old exact (snd s)" and "permutes_headers order"
    and "go_ints sensor"
  shows "wk_inv old exact (snd (historic_point e um order (GetTopicForCategory cat) sensor dp s))"
proof -
  obtain pb sk svc c where s: "s = ((pb, sk), svc, c)" by (metis surj_pair)
  show ?thesis
  proof (cases "unmarshal_map um dp")
    case None
    with assms(1) s show ?thesis by (simp add: historic_point_def)
  next
    case (Some m)
    let ?key = "record_key (sn_LSID sensor) (data_timestamp m)"
    show ?thesis
    proof (cases "?key \<in> wk_recordKeys svc")
      case True
      with Some assms(1) s show ?thesis by (auto simp: historic_point_def Let_def)
    next
      case False
      obtain r c' where p: "PublishAsync e order (GetTopicForCategory cat) ?key dp
          (record_headers sensor (data_timestamp m)) c = (r, c')" by (metis surj_pair)
      have inv: "wk_inv old exact (svc, c)" using assms(1) s by simp
      note pub = wk_inv_async[OF inv p]
      show ?thesis
        using False Some s p pub(1,2) record_key_of_headers[OF assms(2,3)]
        by (cases r) (auto simp: historic_point_def Let_def)
    qed
  qed
qed

lemma metadata_topics [simp]:
  "\<not> is_data_topic ''weather.metadata.sensors''" "\<not> is_data_topic ''weather.metadata.catalog''"
  "\<not> is_data_topic ''weather.metadata.station''"
  by (simp_all add: is_data_topic_def)

lemma publish_metadata_inv:
  assumes "wk_inv old exact s" and "exact \<longrightarrow> no_lost e" and "\<not> is_data_topic topic"
  shows "wk_inv old exact (snd (publish_metadata e order topic key body headers s))"
proof -
  obtain svc c where s: "s = (svc, c)" by (cases s)
  obtain r c' where p: "Publish e order topic key body headers c = (r, c')" by (metis surj_pair)
  have "wk_inv old exact (svc, c')" using wk_inv_publish(3)[OF assms(1)[unfolded s] assms(2) p] assms(3) by simp
  then have "wk_inv old exact (svc\<lparr>wk_metadataKeys := K\<rparr>, c')" for K by (simp add: wk_inv_def)
  with \<open>wk_inv old exact (svc, c')\<close> p s assms(1) show ?thesis
    by (auto simp: publish_metadata_def split: option.splits)
qed

lemma fold_point_inv:
  assumes "\<And>x s. wk_inv old exact (snd s) \<Longrightarrow> wk_inv old exact (snd (f x s))" and "wk_inv old exact (snd s)"
  shows "wk_inv old exact (snd (fold f xs s))"
  by (rule fold_preserves[where P = "\<lambda>s. wk_inv old exact (snd s)"]) (use assms in auto)

lemma fetchCurrentConditions_inv:
  assumes "wk_inv old exact s" and "exact \<longrightarrow> no_lost e" and "permutes_headers order"
    and "\<And>r. response = Inr r \<Longrightarrow> list_all go_ints (cc_Sensors r)"
  shows "wk_inv old exact (snd (fetchCurrentConditions e um order response s))"
proof (cases response)
  case (Inl er)
  with assms(1) show ?thesis by (simp add: fetchCurrentConditions_def)
next
  case (Inr r)
  have one: "wk_inv old exact (snd (conditions_sensor e um order sensor t))"
    if "wk_inv old exact (snd t)" "go_ints sensor" for sensor t
    using that assms(2,3)
    by (auto simp: conditions_sensor_def split: option.splits intro!: fold_point_inv conditions_point_inv)
  have "wk_inv old exact (snd (fold (conditions_sensor e um order) (cc_Sensors r) t))"
    if "wk_inv old exact (snd t)" for t
    using that one assms(4)[OF Inr]
    by (intro fold_preserves[where P = "\<lambda>t. wk_inv old exact (snd t)"]) (auto simp: list_all_iff)
  with assms(1) Inr show ?thesis by (simp add: fetchCurrentConditions_def)
qed

lemma processHistoricDataAsync_inv:
  assumes "wk_inv old exact s" and "permutes_headers order"
    and "list_all go_ints sensors"
  shows "wk_inv old exact (snd (processHistoricDataAsync e um order sensors s))"
proof -
  have one: "wk_inv old exact (snd (historic_sensor e um order sensor t))"
    if "wk_inv old exact (snd t)" "go_ints sensor" for sensor t
    using that assms(2)
    by (auto simp: historic_sensor_def split: option.splits intro!: fold_point_inv historic_point_inv)
  show ?thesis
    unfolding processHistoricDataAsync_def using one assms(1,3)
    by (intro fold_preserves[where P = "\<lambda>t. wk_inv old exact (snd t)"]) (auto simp: list_all_iff)
qed

lemma sensor_entry_inv:
  assumes "wk_inv old exact s" and "exact \<longrightarrow> no_lost e"
  shows "wk_inv old exact (sensor_entry e encode order w sensor s)"
proof -
  obtain svc c where s: "s = (svc, c)" by (cases s)
  have "wk_inv old exact (svc\<lparr>wk_sensorMap := M, wk_sensorTypes := T\<rparr>, c)" for M T
    using assms(1) s by (simp add: wk_inv_def)
  with assms(2) show ?thesis by (simp add: sensor_entry_def s publish_metadata_inv)
qed

lemma catalog_entry_inv:
  assumes "wk_inv old exact s" and "exact \<longrightarrow> no_lost e"
  shows "wk_inv old exact (catalog_entry e encode order g en s)"
  using assms by (auto simp: catalog_entry_def publish_metadata_inv split: prod.splits bool.splits)

lemma fetchStationMetadata_inv:
  assumes "wk_inv old exact s" and "exact \<longrightarrow> no_lost e"
  shows "wk_inv old exact (snd (fetchStationMetadata e encode order now station s))"
  using assms by (auto simp: fetchStationMetadata_def publish_metadata_inv split: sum.splits)

lemma fetchAllMetadata_inv:
  assumes "wk_inv old exact s" and ex: "exact \<longrightarrow> no_lost e"
  shows "wk_inv old exact (fetchAllMetadata e encode order now sensors catalog station s)"
proof -
  have 1: "wk_inv old exact (snd (fetchSensorMetadata e encode order now sensors t))" if "wk_inv old exact t" for t
    using that ex by (auto simp: fetchSensorMetadata_def sensor_entry_inv split: sum.splits
        intro: fold_preserves[where P = "wk_inv old exact"])
  have 2: "wk_inv old exact (snd (fetchCatalogMetadata e encode order catalog t))" if "wk_inv old exact t" for t
    using that ex by (auto simp: fetchCatalogMetadata_def catalog_entry_inv split: sum.splits
        intro: fold_preserves[where P = "wk_inv old exact"])
  show ?thesis unfolding fetchAllMetadata_def Let_def by (intro fetchStationMetadata_inv 1 2 assms)
qed

text \<open>
  A historic reading whose delivery is lost is counted and remembered as published: nothing is in Kafka, and
  no later pass of this process publishes it.
\<close>

lemma lost_delivery_is_remembered:
  assumes "unmarshal_map um dp = Some m" and "record_key (sn_LSID sensor) (data_timestamp m) \<notin> wk_recordKeys svc"
    and "e (calls c) = Lost er"
    and "historic_point e um order topic sensor dp (counts, svc, c) = (counts', svc', c')"
  shows "db c' = db c \<and> fst counts' = i64 (fst counts + 1)
     \<and> (\<forall>e2 c2. db (snd (snd (historic_point e2 um order topic sensor dp (counts', svc', c2)))) = db c2)"
proof -
  obtain n k where "counts = (n, k)" by (cases counts)
  then have "counts' = (i64 (n + 1), k)" "db c' = db c"
    "wk_recordKeys svc' = insert (record_key (sn_LSID sensor) (data_timestamp m)) (wk_recordKeys svc)"
    using assms by (auto simp: historic_point_def PublishAsync_def next_outcome_def)
  with \<open>counts = (n, k)\<close> assms(1) show ?thesis by (simp add: historic_point_def Let_def)
qed

section \<open>Runs of the publisher\<close>

inductive wk_step ::
    "env \<Rightarrow> decoder \<Rightarrow> (json \<Rightarrow> string) \<Rightarrow> header_order
     \<Rightarrow> wk_service \<times> kafka conn \<Rightarrow> wk_service \<times> kafka conn \<Rightarrow> bool"
  for e um encode order where
  conditions:
    "(\<And>r. response = Inr r \<Longrightarrow> list_all go_ints (cc_Sensors r)) \<Longrightarrow>
     wk_step e um encode order s (snd (fetchCurrentConditions e um order response s))"
| historic:
    "list_all go_ints sensors \<Longrightarrow>
     wk_step e um encode order s (snd (processHistoricDataAsync e um order sensors s))"
| metadata:
    "wk_step e um encode order s (fetchAllMetadata e encode order now sensors' catalog station s)"

lemma wk_step_inv:
  assumes "wk_step e um encode order s s'" and "wk_inv old exact s"
    and "exact \<longrightarrow> no_lost e" and "permutes_headers order"
  shows "wk_inv old exact s'"
  using assms(1)
proof cases
  case (conditions response)
  show ?thesis unfolding conditions(1)
    by (rule fetchCurrentConditions_inv[OF assms(2-4) conditions(2)])
next
  case (historic sensors)
  show ?thesis unfolding historic(1)
    by (rule processHistoricDataAsync_inv[OF assms(2,4) historic(2)])
next
  case (metadata now sensors' catalog station)
  show ?thesis unfolding metadata by (rule fetchAllMetadata_inv[OF assms(2,3)])
qed

lemma wk_run_inv:
  assumes "(wk_step e um encode order)\<^sup>*\<^sup>* s s'" and "wk_inv old exact s"
    and "exact \<longrightarrow> no_lost e" and "permutes_headers order"
  shows "wk_inv old exact s'"
  using assms(1,2) by (induction rule: rtranclp_induct) (auto intro: wk_step_inv[OF _ _ assms(3,4)])


text \<open>
  C24: What is published can be read back: every message the service adds on a topic the materializer
  subscribes to has headers from which the materializer reads the sensor and the time its key was made
  from, in whatever order the headers were put, and whatever was refused or lost on the way.
\<close>

theorem published_readings_readable:
  assumes "(wk_step e um encode order)\<^sup>*\<^sup>* (svc, c) (svc', c')"
    and "permutes_headers order" and "m \<in> set (db c')" and "m \<notin> set (db c)"
    and "is_data_topic (m_topic m)"
  shows "m_key m = record_key (hv_lsid (read_headers (m_headers m)))
                     (hv_timestamp (read_headers (m_headers m)))"
proof -
  have "wk_inv (db c) False (svc, c)" by (simp add: wk_inv_def)
  from wk_run_inv[OF assms(1) this] assms(2-5) show ?thesis
    by (simp add: wk_inv_def key_of_headers_def)
qed

text \<open>
  The headers of a reading survive the trip: whatever the order in which the map of headers is sent,
  the materializer reads the sensor, the time, the sensor type and the data structure type that were
  put in.
\<close>

theorem reading_headers_roundtrip:
  assumes "permutes_headers order" and "go_ints sensor" and "in_i64 ts"
  shows "read_headers (order (record_headers sensor ts)) =
     \<lparr>hv_lsid = sn_LSID sensor, hv_timestamp = ts, hv_sensorType = sn_SensorType sensor,
      hv_dataStructureType = sn_DataStructureType sensor\<rparr>"
  using assms by (intro read_record_headers) (simp_all add: permutes_headers_def go_ints_def)

text \<open>
  Sensor and station metadata share one set of keys: when the station id is also the id of a sensor
  whose metadata is already in the set for this week, the station metadata is not published, and no
  error is reported.
\<close>

theorem station_key_collision:
  assumes "metadata_key (itoa lsid) (StartOfWeekUnix now) \<in> wk_metadataKeys svc"
    and "wk_stationID svc = itoa lsid"
  shows "fetchStationMetadata e encode order now (Inr body) (svc, c) = (None, svc, c)"
  using assms by (simp add: fetchStationMetadata_def publish_metadata_def)

text \<open>
  The scan makes what is in Kafka known.  When the broker delivers the messages of the scanned topics
  (their keys, in some order, not empty, as many as the watermarks say) and the scan ends without an
  error before a time-out, every one of the keys is in the set afterwards, and nothing that was not
  there or read.
\<close>

theorem scan_makes_keys_known:
  assumes "scanExistingKeys setup partitions topics evs cache = (None, cache')"
    and "\<And>position. ScanTimeout position \<notin> set evs" and "int (length evs) \<le> max_i64"
    and "snd (query_offsets partitions topics) = int (length keys)"
    and "keys_read evs = keys @ later" and "[] \<notin> set keys"
  shows "set keys \<subseteq> cache' \<and> cache' \<subseteq> cache \<union> set (keys_read evs)"
proof -
  obtain endOffsets total_cnt where q: "query_offsets partitions topics = (endOffsets, total_cnt)" by (cases "query_offsets partitions topics")
  with assms(4) have total_cnt: "total_cnt = int (length keys)" by simp
  have su: "setup = None" using assms(1) by (cases "setup") (auto simp: scanExistingKeys_def)
  show ?thesis
  proof (cases "total_cnt = 0")
    case True
    with assms(1) q su total_cnt show ?thesis by (auto simp: scanExistingKeys_def)
  next
    case False
    with assms(1) q su have "scan_loop endOffsets total_cnt evs 0 cache = (None, cache')"
      by (simp add: scanExistingKeys_def)
    from scan_loop_reads[OF this] assms(3) obtain n where n: "n \<le> length evs"
      "cache' = cache \<union> {k \<in> set (keys_read (take n evs)). k \<noteq> []}"
      "total_cnt \<le> int (length (keys_read (take n evs)))
         \<or> (\<exists>position. 0 < n \<and> evs ! (n - 1) = ScanTimeout position)" by auto
    have "\<not> (0 < n \<and> evs ! (n - 1) = ScanTimeout position)" for position
    proof
      assume a: "0 < n \<and> evs ! (n - 1) = ScanTimeout position"
      with n(1) have "n - 1 < length evs" by arith
      from nth_mem[OF this] a assms(2)[of position] show False by simp
    qed
    with n(3) total_cnt have len: "length keys \<le> length (keys_read (take n evs))" by auto
    have app: "keys_read (xs @ ys) = keys_read xs @ keys_read ys" for xs ys
      by (induction xs rule: keys_read.induct) auto
    have split: "keys_read evs = keys_read (take n evs) @ keys_read (drop n evs)"
      using app[of "take n evs" "drop n evs"] by simp
    have "keys = take (length keys) (keys_read (take n evs))"
      using split assms(5) len by (metis append_eq_append_conv_if append_take_drop_id)
    then have "set keys \<subseteq> set (keys_read (take n evs))" by (metis set_take_subset)
    with n(2) assms(6) split show ?thesis by auto
  qed
qed

text \<open>
  The topic of unknown categories is never scanned: whatever its messages, a restart does not know
  their keys, and a reading of such a sensor that is in Kafka already is published again.
\<close>

theorem other_topic_not_scanned:
  assumes "GetTopicForCategory category = ''weather.other''"
  shows "GetTopicForCategory category \<notin> set record_topics
     \<and> start_scans setup (partitions(''weather.other'' := x)) evs svc = start_scans setup partitions evs svc"
proof -
  have "query_offsets (partitions(''weather.other'' := x)) topics = query_offsets partitions topics"
    if "''weather.other'' \<notin> set topics" for topics
    using that unfolding query_offsets_def by (intro fold_cong refl) (auto split: option.splits)
  from this[of record_topics] this[of metadata_topics_scanned]
  have "query_offsets (partitions(''weather.other'' := x)) record_topics = query_offsets partitions record_topics"
    "query_offsets (partitions(''weather.other'' := x)) metadata_topics_scanned
       = query_offsets partitions metadata_topics_scanned"
    by (simp_all add: record_topics_def metadata_topics_scanned_def)
  then have "start_scans setup (partitions(''weather.other'' := x)) evs svc = start_scans setup partitions evs svc"
    unfolding start_scans_def scanExistingKeys_def by (simp only: fst_conv snd_conv)
  then show ?thesis using assms by (simp add: record_topics_def)
qed

section \<open>Concrete runs\<close>

definition sample_sensor :: Sensor where
  "sample_sensor = \<lparr>sn_LSID = 7, sn_SensorType = 45, sn_DataStructureType = 10,
                    sn_Data = [''a'', ''b'', ''a'']\<rparr>"

definition point_decoder :: decoder where
  "point_decoder s = (if s = ''a'' then Some (JObj [(''ts'', JNum 100)])
                      else Some (JObj [(''ts'', JNum 400)]))"

definition sample_metadata :: SensorMetadata where
  "sample_metadata =
     \<lparr>sm_LSID = 7, sm_SensorType = 45, sm_Category = ''ISS'', sm_Manufacturer = ''Davis'',
      sm_ProductName = ''Vantage'', sm_ProductNumber = ''6322'', sm_RainCollectorType = 0, sm_Active = True,
      sm_TxID = Some 1, sm_PortNumber = 0, sm_ParentDeviceType = ''Gateway'', sm_ParentDeviceName = ''Hub'',
      sm_ParentDeviceID = 12, sm_ParentDeviceIDHex = ''c'', sm_StationID = 3, sm_StationIDUUID = ''u'',
      sm_StationName = ''Home'', sm_Latitude = 1, sm_Longitude = 2, sm_Elevation = 3\<rparr>"

lemma sample_metadata_fields [simp]:
  "sm_LSID sample_metadata = 7" "sm_SensorType sample_metadata = 45" "sm_Category sample_metadata = ''ISS''"
  by (simp_all add: sample_metadata_def)

definition sample_service :: wk_service where
  "sample_service = \<lparr>wk_stationID = ''7'', wk_sensorMap = [7 \<mapsto> sample_metadata], wk_sensorTypes = {45}, wk_recordKeys = {},
      wk_metadataKeys = {''7:1767571200''}\<rparr>"

definition sample_response :: "CurrentConditionsResponse result" where
  "sample_response =
     Inr \<lparr>cc_StationID = 3, cc_StationIDUUID = ''u'', cc_Sensors = [sample_sensor], cc_GeneratedAt = 500\<rparr>"

lemma sample_ints: "go_ints sample_sensor"
  by (simp add: go_ints_def sample_sensor_def in_i64_def)

lemma rev_permutes: "permutes_headers rev"
  by (simp add: permutes_headers_def)

lemma sample_order:
  "wk_step all_done point_decoder (\<lambda>j. []) rev (sample_service, \<lparr>db = [], calls = 0\<rparr>)
     (snd (fetchCurrentConditions all_done point_decoder rev sample_response
             (sample_service, \<lparr>db = [], calls = 0\<rparr>)))"
  by (rule wk_step.conditions) (auto simp: sample_response_def sample_ints)

lemma sample_timestamps:
  "data_timestamp [(''ts'', JNum 100)] = 100" "data_timestamp [(''ts'', JNum 400)] = 400"
  using int_of_float_of_int[of 100] int_of_float_of_int[of 400]
  by (simp_all add: data_timestamp_def in_i64_def)

lemma sample_keys: "record_key 7 100 = ''7:100''" "record_key 7 400 = ''7:400''"
  by code_simp+

lemma sample_published:
  "map m_key (db (snd (snd (fetchCurrentConditions all_done point_decoder rev sample_response
             (sample_service, \<lparr>db = [], calls = 0\<rparr>))))) = [''7:100'', ''7:400'']"
  by (simp add: sample_response_def fetchCurrentConditions_def conditions_sensor_def sample_service_def
      sample_sensor_def conditions_point_def point_decoder_def unmarshal_map_def Let_def
      sample_timestamps sample_keys Publish_def produce_def outcome_simps)


lemma published_readings_readable_witness:
  "map (\<lambda>m. record_key (hv_lsid (read_headers (m_headers m))) (hv_timestamp (read_headers (m_headers m))))
     (db (snd (snd (fetchCurrentConditions all_done point_decoder rev sample_response
             (sample_service, \<lparr>db = [], calls = 0\<rparr>))))) = [''7:100'', ''7:400'']"
proof -
  obtain svc c where r: "snd (fetchCurrentConditions all_done point_decoder rev sample_response
             (sample_service, \<lparr>db = [], calls = 0\<rparr>)) = (svc, c)" by (metis surj_pair)
  have "map (\<lambda>m. is_data_topic (m_topic m)) (db (snd (snd (fetchCurrentConditions all_done point_decoder rev
      sample_response (sample_service, \<lparr>db = [], calls = 0\<rparr>))))) = [True, True]"
    by (simp add: sample_response_def fetchCurrentConditions_def conditions_sensor_def sample_service_def
        sample_sensor_def conditions_point_def point_decoder_def unmarshal_map_def Let_def
        sample_timestamps sample_keys Publish_def produce_def outcome_simps topic_is_data_topic)
  then have topic: "is_data_topic (m_topic m)" if "m \<in> set (db c)" for m
    using that r by (auto simp: map_eq_Cons_conv)
  have "map (\<lambda>m. record_key (hv_lsid (read_headers (m_headers m))) (hv_timestamp (read_headers (m_headers m))))
      (db c) = map m_key (db c)"
    using published_readings_readable[OF r_into_rtranclp[of "wk_step all_done point_decoder (\<lambda>j. []) rev",
        OF sample_order[unfolded r]] rev_permutes] topic by simp
  with sample_published show ?thesis by (simp add: r)
qed

lemma reading_headers_roundtrip_witness:
  "read_headers (rev (record_headers sample_sensor (- 3))) =
     \<lparr>hv_lsid = 7, hv_timestamp = - 3, hv_sensorType = 45, hv_dataStructureType = 10\<rparr>"
  using reading_headers_roundtrip[OF rev_permutes sample_ints, of "- 3"]
  by (simp add: sample_sensor_def in_i64_def)

lemma station_key_collision_witness:
  "fetchStationMetadata all_done (\<lambda>j. []) rev 1767600000 (Inr \<lparr>st_Stations = None, st_GeneratedAt = 0\<rparr>)
       (sample_service, \<lparr>db = [], calls = 0\<rparr>)
     = (None, sample_service, \<lparr>db = [], calls = 0\<rparr>)"
proof -
  have key: "metadata_key (itoa 7) (StartOfWeekUnix 1767600000) = ''7:1767571200''"
    by (simp add: metadata_key_def StartOfWeekUnix_def itoa_eval)
  show ?thesis
    by (rule station_key_collision[of 7]) (simp_all add: key, simp_all add: sample_service_def itoa_eval)
qed

lemma scan_makes_keys_known_witness:
  "scanExistingKeys None [''weather.iss'' \<mapsto> [(0, Inr (3, 5))]] record_topics
       [ScanMessage ''7:100'', ScanMessage ''7:400''] {} = (None, {''7:400'', ''7:100''})
   \<and> set [''7:100'', ''7:400''] \<subseteq> {''7:400'', ''7:100''}"
proof -
  have run: "scanExistingKeys None [''weather.iss'' \<mapsto> [(0, Inr (3, 5))]] record_topics
       [ScanMessage ''7:100'', ScanMessage ''7:400''] {} = (None, {''7:400'', ''7:100''})"
    and q: "snd (query_offsets [''weather.iss'' \<mapsto> [(0, Inr (3, 5))]] record_topics) = 2"
    by (simp_all add: scanExistingKeys_def query_offsets_def record_topics_def query_partition_def i64_def)
  from scan_makes_keys_known[OF run, of "[''7:100'', ''7:400'']" "[]"] q run show ?thesis by simp
qed

lemma other_topic_not_scanned_witness:
  "GetTopicForCategory ''Soil'' \<notin> set record_topics"
  using other_topic_not_scanned[of "''Soil''"] by (simp add: GetTopicForCategory_def to_upper_def upper_char_def)

end
