(* ===== verification/Uf_Video.thy ===== *)
theory Uf_Video
  imports Uf_Archive Wk_Publish
begin

text \<open>
  \<open>services/unifi-video-jpg/stream\<close> and \<open>services/unifi-video-kafka/stream\<close>: the bytes that ffmpeg writes are
  cut into JPEG frames, whatever pieces they arrive in, and every frame is written to a file or published.

  The pipe is the list of what \<open>Read\<close> returns, a piece with an error or none; the end of the list is the
  moment the context is cancelled.  Where a frame goes is a parameter \<open>out\<close>, instantiated by \<open>writeFrame\<close> and
  \<open>publishFrame\<close>; \<open>clock n\<close> is the time at which the n-th frame is taken from the buffer.
\<close>

section \<open>Cutting\<close>

definition jpegSOI :: string where
  "jpegSOI = [CHR 0xFF, CHR 0xD8]"

definition jpegEOI :: string where
  "jpegEOI = [CHR 0xFF, CHR 0xD9]"

definition extractFrame :: "string \<Rightarrow> (string \<times> string) option" where
  "extractFrame data =
     (case index_of data jpegSOI of
        None \<Rightarrow> None
      | Some soiIdx \<Rightarrow>
          (case index_of (drop (soiIdx + 2) data) jpegEOI of
             None \<Rightarrow> None
           | Some eoiIdx \<Rightarrow>
               let frameEnd = soiIdx + 2 + eoiIdx + 2
               in Some (take (frameEnd - soiIdx) (drop soiIdx data), drop frameEnd data)))"

lemma jpeg_length [simp]: "length jpegSOI = 2" "length jpegEOI = 2"
  by (simp_all add: jpegSOI_def jpegEOI_def)

text \<open>A frame found: what is before it, the frame between its markers, what is after it.\<close>

lemma extractFrame_at:
  assumes "index_of data jpegSOI = Some i" "index_of (drop (i + 2) data) jpegEOI = Some j"
  shows "extractFrame data = Some (take (j + 4) (drop i data), drop (i + j + 4) data)"
proof -
  have "i + 2 + j + 2 = i + j + 4" "i + 2 + j + 2 - i = j + 4" by simp_all
  with assms show ?thesis by (simp only: extractFrame_def Let_def option.case)
qed

lemma extractFrame_cases:
  assumes "extractFrame data = Some (frame, remaining)"
  obtains i j where "index_of data jpegSOI = Some i" "index_of (drop (i + 2) data) jpegEOI = Some j"
    "frame = take (j + 4) (drop i data)" "remaining = drop (i + j + 4) data"
proof -
  obtain i where i: "index_of data jpegSOI = Some i"
    using assms by (auto simp: extractFrame_def split: option.splits)
  obtain j where j: "index_of (drop (i + 2) data) jpegEOI = Some j"
    using assms i by (auto simp: extractFrame_def split: option.splits)
  show thesis by (rule that[OF i j]) (use assms extractFrame_at[OF i j] in \<open>simp_all\<close>)
qed

lemma extractFrame_Some:
  assumes "extractFrame data = Some (frame, remaining)"
  shows "\<exists>gap body. data = gap @ frame @ remaining \<and> frame = jpegSOI @ body @ jpegEOI
     \<and> index_of (body @ jpegEOI @ remaining) jpegEOI = Some (length body)"
proof -
  obtain i j where i: "index_of data jpegSOI = Some i" and j: "index_of (drop (i + 2) data) jpegEOI = Some j"
    and f: "frame = take (j + 4) (drop i data)" "remaining = drop (i + j + 4) data"
    using assms by (rule extractFrame_cases)
  obtain r where r: "drop i data = jpegSOI @ r" using index_of_Some[OF i] by (auto simp: has_prefix_iff)
  have "drop (i + 2) data = drop 2 (drop i data)" by (simp add: add.commute)
  then have d2: "drop (i + 2) data = r" by (simp add: r)
  obtain t where t: "drop j r = jpegEOI @ t" "j \<le> length r"
    using index_of_Some[OF j] d2 by (auto simp: has_prefix_iff)
  define body where "body = take j r"
  have rr: "r = body @ jpegEOI @ t" and lb: "length body = j"
    using t by (simp_all add: body_def) (metis append_take_drop_id)
  have "drop (i + j + 4) data = drop (j + 4) (drop i data)" by (simp add: add.commute add.left_commute add.assoc)
  then have rem: "remaining = t" using f(2) r rr lb by simp
  have fr: "frame = jpegSOI @ body @ jpegEOI" using f(1) r rr lb by simp
  have "data = take i data @ frame @ remaining"
    using r rr fr rem append_take_drop_id[of i data] by simp
  moreover have "index_of (body @ jpegEOI @ remaining) jpegEOI = Some (length body)"
    using j d2 rr lb rem by simp
  ultimately show ?thesis using fr by blast
qed

lemma extractFrame_shorter:
  assumes "extractFrame data = Some (frame, remaining)"
  shows "length remaining < length data"
proof -
  obtain gap body where "data = gap @ frame @ remaining" "frame = jpegSOI @ body @ jpegEOI"
    using extractFrame_Some[OF assms] by blast
  then show ?thesis by simp
qed

text \<open>A match stays the first one when more bytes come.\<close>

lemma index_of_append: "index_of xs sub = Some i \<Longrightarrow> index_of (xs @ ys) sub = Some i"
proof (induction xs arbitrary: i)
  case Nil
  then have "sub = []" "i = 0" by (auto split: if_splits)
  then show ?case by (cases ys) (auto simp: has_prefix_def)
next
  case (Cons x xs)
  show ?case
  proof (cases "has_prefix (x # xs) sub")
    case True
    then have "has_prefix (x # xs @ ys) sub" by (metis append_Cons append_assoc has_prefix_iff)
    with True Cons.prems show ?thesis by simp
  next
    case False
    with Cons.prems obtain k where k: "index_of xs sub = Some k" "i = Suc k" by auto
    have "length sub \<le> length (x # xs)" using index_of_Some[OF k(1)] by simp
    then have "take (length sub) (x # xs @ ys) = take (length sub) (x # xs)"
      by (metis append_Cons append_is_Nil_conv diff_is_0_eq take_0 take_append append_Nil2)
    with False have "\<not> has_prefix (x # xs @ ys) sub" by (simp add: has_prefix_def)
    with False k Cons.IH[OF k(1)] show ?thesis by simp
  qed
qed

lemma extractFrame_append:
  assumes "extractFrame x = Some (frame, remaining)"
  shows "extractFrame (x @ y) = Some (frame, remaining @ y)"
proof -
  obtain i j where i: "index_of x jpegSOI = Some i" and j: "index_of (drop (i + 2) x) jpegEOI = Some j"
    and f: "frame = take (j + 4) (drop i x)" "remaining = drop (i + j + 4) x"
    using assms by (rule extractFrame_cases)
  have li: "i + 2 \<le> length x" using index_of_Some[OF i] by simp
  have "j + 2 \<le> length x - (i + 2)" using index_of_Some[OF j] by simp
  with li have lj: "i + j + 4 \<le> length x" by arith
  have "index_of (drop (i + 2) (x @ y)) jpegEOI = Some j" using index_of_append[OF j, of y] li by simp
  from extractFrame_at[OF index_of_append[OF i] this] f lj show ?thesis by simp
qed

section \<open>The loops\<close>

type_synonym 's sink = "string \<Rightarrow> int \<Rightarrow> 's \<Rightarrow> go_error option \<times> 's"

text \<open>The frames seen, the frames handed over without an error (\<open>frameCount\<close>), and where they went.\<close>

record 's frame_state =
  fr_seen :: nat
  fr_count :: int
  fr_out :: 's

definition take_frame :: "'s sink \<Rightarrow> (nat \<Rightarrow> int) \<Rightarrow> string \<Rightarrow> 's frame_state \<Rightarrow> 's frame_state" where
  "take_frame out clock frame st =
     (case out frame (clock (fr_seen st)) (fr_out st) of
        (Some er, s) \<Rightarrow> st\<lparr>fr_seen := fr_seen st + 1, fr_out := s\<rparr>
      | (None, s) \<Rightarrow> st\<lparr>fr_seen := fr_seen st + 1, fr_count := i64 (fr_count st + 1), fr_out := s\<rparr>)"

function drain_frames ::
    "'s sink \<Rightarrow> (nat \<Rightarrow> int) \<Rightarrow> string \<Rightarrow> 's frame_state \<Rightarrow> string \<times> 's frame_state" where
  "drain_frames out clock buf st =
     (case extractFrame buf of
        None \<Rightarrow> (buf, st)
      | Some (frame, remaining) \<Rightarrow> drain_frames out clock remaining (take_frame out clock frame st))"
  by pat_completeness auto

termination
  by (relation "measure (\<lambda>(out, clock, buf, st). length buf)") (auto dest: extractFrame_shorter)

declare drain_frames.simps [simp del]

definition buffer_limit :: nat where
  "buffer_limit = 2 * 1024 * 1024"

definition trim_buffer :: "string \<Rightarrow> string" where
  "trim_buffer buf =
     (if length buf > buffer_limit then
        (case last_index_of buf jpegSOI of
           Some idx \<Rightarrow> if idx > 0 then drop idx buf else []
         | None \<Rightarrow> [])
      else buf)"

definition read_piece ::
    "'s sink \<Rightarrow> (nat \<Rightarrow> int) \<Rightarrow> string \<Rightarrow> string \<times> 's frame_state \<Rightarrow> string \<times> 's frame_state" where
  "read_piece out clock chunk = (\<lambda>(buf, st).
     if chunk \<noteq> [] then (let (buf1, st1) = drain_frames out clock (buf @ chunk) st in (trim_buffer buf1, st1))
     else (buf, st))"

fun readFrames ::
    "'s sink \<Rightarrow> (nat \<Rightarrow> int) \<Rightarrow> (string \<times> go_error option) list \<Rightarrow> string \<times> 's frame_state
     \<Rightarrow> go_error option \<times> 's frame_state" where
  "readFrames out clock [] (buf, st) = (Some Canceled, st)"
| "readFrames out clock ((chunk, err) # reads) (buf, st) =
     (let s1 = read_piece out clock chunk (buf, st) in
      case err of
        None \<Rightarrow> readFrames out clock reads s1
      | Some EOF \<Rightarrow> (None, snd s1)
      | Some er \<Rightarrow> (Some (Wrap ''read stdout'' er), snd s1))"

text \<open>What \<open>Run\<close> returns once ffmpeg has started: \<open>cmdErr\<close> is its exit.\<close>

definition run_result :: "bool \<Rightarrow> go_error option \<Rightarrow> go_error option \<Rightarrow> int \<Rightarrow> go_error" where
  "run_result cancelled err cmdErr frameCount =
     (if cancelled then Canceled
      else case err of
             Some er \<Rightarrow> Wrap ''read frames'' er
           | None \<Rightarrow>
               (case cmdErr of
                  Some er \<Rightarrow> Wrap ''ffmpeg exited'' er
                | None \<Rightarrow> Err (''ffmpeg exited cleanly after '' @ itoa frameCount @ '' frames'')))"

text \<open>
  The two ends: a file of the camera's directory, which is a source directory of the archive, and a message.
\<close>

definition source_write :: "path \<Rightarrow> string \<Rightarrow> string \<Rightarrow> files \<Rightarrow> files result" where
  "source_write dir name content fs =
     (case fl_source fs dir of
        None \<Rightarrow> Inl (Err ''no such directory'')
      | Some entries \<Rightarrow>
          if map_of entries name = Some None then Inl (Err ''is a directory'')
          else Inr (fs\<lparr>fl_source := (fl_source fs)(dir := Some (AList.update name (Some content) entries))\<rparr>))"

definition writeFrame :: "env \<Rightarrow> path \<Rightarrow> files conn sink" where
  "writeFrame e outputDir frame timestamp c =
     exec_stmt e (source_write outputDir (itoa timestamp @ ''.jpg'') frame) c"

text \<open>\<open>MkdirAll\<close> of the camera's directory, at the start of \<open>Run\<close>.\<close>

definition make_output_dir :: "env \<Rightarrow> path \<Rightarrow> files conn \<Rightarrow> go_error option \<times> files conn" where
  "make_output_dir e outputDir c =
     (case exec_stmt e (\<lambda>fs. Inr (if fl_source fs outputDir = None
                               then fs\<lparr>fl_source := (fl_source fs)(outputDir := Some [])\<rparr> else fs)) c of
        (Some er, c1) \<Rightarrow> (Some (Wrap ''create output dir'' er), c1)
      | (None, c1) \<Rightarrow> (None, c1))"

text \<open>
  \<open>Run\<close> of \<open>unifi-video-jpg\<close>: \<open>started\<close> is the error of starting ffmpeg, \<open>reads\<close> its output, \<open>cmdErr\<close> its exit.
\<close>

definition Runner_Run ::
    "env \<Rightarrow> path \<Rightarrow> (nat \<Rightarrow> int) \<Rightarrow> go_error option \<Rightarrow> (string \<times> go_error option) list \<Rightarrow> go_error option \<Rightarrow> bool
     \<Rightarrow> files conn \<Rightarrow> go_error \<times> files conn" where
  "Runner_Run e outputDir clock started reads cmdErr cancelled c =
     (case make_output_dir e outputDir c of
        (Some er, c1) \<Rightarrow> (er, c1)
      | (None, c1) \<Rightarrow>
          (case started of
             Some er \<Rightarrow> (Wrap ''start ffmpeg'' er, c1)
           | None \<Rightarrow>
               (let (err, st) = readFrames (writeFrame e outputDir) clock reads
                                  ([], \<lparr>fr_seen = 0, fr_count = 0, fr_out = c1\<rparr>)
                in (run_result cancelled err cmdErr (fr_count st), fr_out st))))"

definition frame_headers :: "string \<Rightarrow> string \<Rightarrow> int \<Rightarrow> (string \<times> string) list" where
  "frame_headers cameraID cameraName timestamp =
     [(''schema_version'', ''1''), (''camera_id'', cameraID), (''camera_name'', cameraName),
      (''timestamp'', itoa timestamp), (''source'', ''unifi-protect-video''), (''content_type'', ''image/jpeg'')]"

text \<open>\<open>PublishFrame\<close> waits for the delivery report; the message is limited to 10 MB by the client library.\<close>

definition PublishFrame ::
    "env \<Rightarrow> header_order \<Rightarrow> string \<Rightarrow> string \<Rightarrow> string \<Rightarrow> (string \<times> string) list \<Rightarrow> kafka conn
     \<Rightarrow> go_error option \<times> kafka conn" where
  "PublishFrame e order topic key data headers c =
     (case exec_stmt e (produce \<lparr>m_topic = topic, m_partition = 0, m_offset = 0, m_key = key,
                                 m_value = data, m_headers = order headers\<rparr>) c of
        (None, c1) \<Rightarrow> (None, c1)
      | (Some er, c1) \<Rightarrow> (Some (Wrap ''delivery failed'' er), c1))"

definition publishFrame ::
    "env \<Rightarrow> header_order \<Rightarrow> string \<Rightarrow> string \<Rightarrow> string \<Rightarrow> kafka conn sink" where
  "publishFrame e order topic cameraID cameraName frame timestamp c =
     PublishFrame e order topic (cameraID @ '':'' @ itoa timestamp) frame (frame_headers cameraID cameraName timestamp) c"

section \<open>All frames of a stream\<close>

text \<open>The reference: the frames of a whole stream, and the bytes that are left.\<close>

function all_frames :: "string \<Rightarrow> string list \<times> string" where
  "all_frames data =
     (case extractFrame data of
        None \<Rightarrow> ([], data)
      | Some (frame, remaining) \<Rightarrow> let (frames, rest) = all_frames remaining in (frame # frames, rest))"
  by pat_completeness auto

termination
  by (relation "measure length") (auto dest: extractFrame_shorter)

declare all_frames.simps [simp del]

lemma all_frames_None [simp]: "extractFrame data = None \<Longrightarrow> all_frames data = ([], data)"
  by (simp add: all_frames.simps)

lemma all_frames_Some:
  "extractFrame data = Some (frame, remaining)
   \<Longrightarrow> all_frames data = (frame # fst (all_frames remaining), snd (all_frames remaining))"
  by (subst all_frames.simps) (simp add: case_prod_beta Let_def)

lemma drain_frames_all:
  "drain_frames out clock buf st = (snd (all_frames buf), fold (take_frame out clock) (fst (all_frames buf)) st)"
proof (induction out clock buf st rule: drain_frames.induct)
  case (1 out clock buf st)
  show ?case
  proof (cases "extractFrame buf")
    case None
    then show ?thesis by (subst drain_frames.simps) simp
  next
    case (Some p)
    obtain frame remaining where p: "p = (frame, remaining)" by fastforce
    with 1 Some show ?thesis by (subst drain_frames.simps) (simp add: all_frames_Some)
  qed
qed

lemma all_frames_append:
  "all_frames (x @ y) = (fst (all_frames x) @ fst (all_frames (snd (all_frames x) @ y)), snd (all_frames (snd (all_frames x) @ y)))"
proof (induction x rule: all_frames.induct)
  case (1 x)
  show ?case
  proof (cases "extractFrame x")
    case None
    then show ?thesis by simp
  next
    case (Some p)
    obtain frame remaining where p: "p = (frame, remaining)" by fastforce
    have "all_frames (remaining @ y) = (fst (all_frames remaining) @ fst (all_frames (snd (all_frames remaining) @ y)),
        snd (all_frames (snd (all_frames remaining) @ y)))"
      using 1[OF Some] p by simp
    with Some p show ?thesis by (simp add: all_frames_Some extractFrame_append[OF Some[unfolded p]])
  qed
qed

text \<open>
  The bytes that wait in the buffer when the pieces \<open>ps\<close> have come and none was discarded.
\<close>

definition waiting_bytes :: "string list \<Rightarrow> string" where
  "waiting_bytes ps = snd (all_frames (concat ps))"

lemma read_pieces:
  assumes "\<forall>k \<le> length ps. length (waiting_bytes (qs @ take k ps)) \<le> buffer_limit"
  shows "fold (read_piece out clock) ps (waiting_bytes qs, fold (take_frame out clock) (fst (all_frames (concat qs))) st)
     = (waiting_bytes (qs @ ps), fold (take_frame out clock) (fst (all_frames (concat (qs @ ps)))) st)"
  using assms
proof (induction ps arbitrary: qs)
  case (Cons p ps)
  have a: "all_frames (concat (qs @ [p])) = (fst (all_frames (concat qs)) @ fst (all_frames (waiting_bytes qs @ p)),
      snd (all_frames (waiting_bytes qs @ p)))"
    using all_frames_append[of "concat qs" p] by (simp add: waiting_bytes_def)
  have small: "length (waiting_bytes (qs @ [p])) \<le> buffer_limit"
    using Cons.prems[rule_format, of 1] by simp
  have "read_piece out clock p (waiting_bytes qs, fold (take_frame out clock) (fst (all_frames (concat qs))) st)
      = (waiting_bytes (qs @ [p]), fold (take_frame out clock) (fst (all_frames (concat (qs @ [p])))) st)"
  proof (cases "p = []")
    case True
    then show ?thesis by (simp add: read_piece_def waiting_bytes_def)
  next
    case False
    have t: "trim_buffer (waiting_bytes (qs @ [p])) = waiting_bytes (qs @ [p])"
      using small by (simp add: trim_buffer_def)
    have w: "waiting_bytes (qs @ [p]) = snd (all_frames (waiting_bytes qs @ p))"
      using a by (simp add: waiting_bytes_def)
    show ?thesis using False t w a by (simp add: read_piece_def drain_frames_all)
  qed
  moreover have "\<forall>k \<le> length ps. length (waiting_bytes ((qs @ [p]) @ take k ps)) \<le> buffer_limit"
    using Cons.prems by (metis Suc_le_mono append_Cons append_Nil append_assoc length_Cons take_Suc_Cons)
  ultimately show ?case using Cons.IH[of "qs @ [p]"] by simp
qed simp

lemma readFrames_fold:
  "readFrames out clock (map (\<lambda>p. (p, None)) ps @ [(p, Some EOF)]) (buf, st)
     = (None, snd (fold (read_piece out clock) (ps @ [p]) (buf, st)))"
proof (induction ps arbitrary: buf st)
  case (Cons x ps)
  obtain b s where "read_piece out clock x (buf, st) = (b, s)" by (metis surj_pair)
  with Cons show ?case by (simp add: Let_def)
qed (simp add: Let_def)

text \<open>
  C20: However the bytes of ffmpeg are cut into pieces, the frames handed over are those of the whole stream,
  in order and once each, as long as what waits in the buffer stays within its two megabytes.
\<close>

theorem frames_independent_of_pieces:
  assumes "\<forall>k \<le> length (ps @ [p]). length (waiting_bytes (take k (ps @ [p]))) \<le> buffer_limit"
  shows "readFrames out clock (map (\<lambda>p. (p, None)) ps @ [(p, Some EOF)]) ([], st)
     = (None, fold (take_frame out clock) (fst (all_frames (concat ps @ p))) st)"
proof -
  have "extractFrame [] = None" by (simp add: extractFrame_def jpegSOI_def)
  then have "waiting_bytes [] = []" "fst (all_frames (concat [])) = []" by (simp_all add: waiting_bytes_def)
  with read_pieces[of "ps @ [p]" "[]" out clock st] assms show ?thesis
    by (simp add: readFrames_fold)
qed

text \<open>The frames of a stream lie in it one after the other, each from a start marker to the next end marker.\<close>

lemma all_frames_segments:
  "\<exists>gaps. length gaps = length (fst (all_frames data))
     \<and> data = concat (map2 (@) gaps (fst (all_frames data))) @ snd (all_frames data)
     \<and> (\<forall>frame \<in> set (fst (all_frames data)). \<exists>body. frame = jpegSOI @ body @ jpegEOI)"
proof (induction data rule: all_frames.induct)
  case (1 data)
  show ?case
  proof (cases "extractFrame data")
    case None
    then show ?thesis by simp
  next
    case (Some p)
    obtain frame remaining where p: "p = (frame, remaining)" by fastforce
    obtain gaps where g: "length gaps = length (fst (all_frames remaining))"
      "remaining = concat (map2 (@) gaps (fst (all_frames remaining))) @ snd (all_frames remaining)"
      "\<forall>frame \<in> set (fst (all_frames remaining)). \<exists>body. frame = jpegSOI @ body @ jpegEOI"
      using 1[OF Some] p by auto
    obtain gap body where b: "data = gap @ frame @ remaining" "frame = jpegSOI @ body @ jpegEOI"
      using extractFrame_Some Some p by blast
    show ?thesis
    proof (intro exI[of _ "gap # gaps"] conjI)
      show "data = concat (map2 (@) (gap # gaps) (fst (all_frames data))) @ snd (all_frames data)"
        using b(1) g(2) Some p by (simp add: all_frames_Some)
    qed (use g b Some p in \<open>auto simp: all_frames_Some\<close>)
  qed
qed

section \<open>A frame that is too long\<close>

text \<open>
  When the buffer outgrows its two megabytes and the only start marker in it is its first byte, the frame
  under way is thrown away whole, start marker included; what follows up to the next start marker is
  lost with it.
\<close>

theorem oversized_frame_is_dropped:
  assumes "buf @ chunk = jpegSOI @ body" and "chunk \<noteq> []" and "length (buf @ chunk) > buffer_limit"
    and "index_of body jpegEOI = None" and "last_index_of (buf @ chunk) jpegSOI = Some 0"
  shows "readFrames out clock ((chunk, None) # reads) (buf, st) = readFrames out clock reads ([], st)"
proof -
  have "index_of (buf @ chunk) jpegSOI = Some 0"
    using assms(1) by (simp add: jpegSOI_def has_prefix_def)
  then have "extractFrame (buf @ chunk) = None"
    using assms(1,4) by (simp add: extractFrame_def)
  with assms(2,3,5) show ?thesis by (simp add: read_piece_def drain_frames_all trim_buffer_def)
qed

section \<open>Files by their second\<close>

text \<open>
  A file that \<open>writeFrame\<close> writes is the frame of its second for the archive that watches the directory.
\<close>

lemma written_frame_second:
  assumes "in_i64 timestamp"
  shows "frame_second (itoa timestamp @ ''.jpg'') = Some timestamp"
  using parse_int_itoa[OF assms] by (simp add: frame_second_def)

section \<open>Concrete runs\<close>

lemma frames_independent_of_pieces_witness:
  "fr_out (snd (readFrames (\<lambda>frame ts s. (None, s @ [frame])) (\<lambda>n. 0)
      (map (\<lambda>p. (p, None)) [''a'' @ [CHR 0xFF], [CHR 0xD8] @ ''b'']  @ [([CHR 0xFF, CHR 0xD9] @ ''c'', Some EOF)])
      ([], \<lparr>fr_seen = 0, fr_count = 0, fr_out = []\<rparr>)))
   = [jpegSOI @ ''b'' @ jpegEOI]"
proof -
  let ?ps = "[''a'' @ [CHR 0xFF], [CHR 0xD8] @ ''b'']" and ?p = "[CHR 0xFF, CHR 0xD9] @ ''c''"
  have small: "length (waiting_bytes l) \<le> length (concat l)" for l
    using all_frames_segments[of "concat l"] unfolding waiting_bytes_def by (metis le_add2 length_append)
  have bound: "length (concat (take k (?ps @ [?p]))) \<le> length (concat (?ps @ [?p]))" for k
    by (metis append_take_drop_id concat_append le_add1 length_append)
  have "length (waiting_bytes (take k (?ps @ [?p]))) \<le> buffer_limit" for k
  proof -
    have "length (waiting_bytes (take k (?ps @ [?p]))) \<le> length (concat (?ps @ [?p]))"
      using small bound order_trans by blast
    also have "\<dots> \<le> buffer_limit" by (simp add: buffer_limit_def)
    finally show ?thesis .
  qed
  then have "\<forall>k \<le> length (?ps @ [?p]). length (waiting_bytes (take k (?ps @ [?p]))) \<le> buffer_limit" by blast
  note r = frames_independent_of_pieces[OF this, of "\<lambda>frame ts s. (None, s @ [frame])" "\<lambda>n. 0"
      "\<lparr>fr_seen = 0, fr_count = 0, fr_out = []\<rparr>"]
  have "all_frames (concat ?ps @ ?p) = ([jpegSOI @ ''b'' @ jpegEOI], ''c'')"
    by (simp add: all_frames.simps extractFrame_def jpegSOI_def jpegEOI_def has_prefix_def)
  then show ?thesis unfolding r by (simp add: take_frame_def)
qed

lemma last_index_replicate: "c \<noteq> CHR 0xFF \<Longrightarrow> last_index_of (jpegSOI @ replicate n c) jpegSOI = Some 0"
proof -
  assume c: "c \<noteq> CHR 0xFF"
  have r: "last_index_of (replicate n c) jpegSOI = None" for n
    by (induction n) (use c in \<open>auto simp: jpegSOI_def has_prefix_def\<close>)
  then show ?thesis by (simp add: jpegSOI_def has_prefix_def)
qed

lemma oversized_frame_is_dropped_witness:
  "readFrames (\<lambda>frame ts s. (None, s @ [frame])) (\<lambda>n. 0)
      [(replicate buffer_limit CHR ''x'', None), (jpegEOI, Some EOF)]
      (jpegSOI, \<lparr>fr_seen = 0, fr_count = 0, fr_out = []\<rparr>)
   = (None, \<lparr>fr_seen = 0, fr_count = 0, fr_out = []\<rparr>)"
proof -
  let ?st = "\<lparr>fr_seen = 0, fr_count = 0, fr_out = []\<rparr> :: string list frame_state"
  let ?out = "\<lambda>frame ts s. (None, s @ [frame])"
  have none: "index_of (replicate n CHR ''x'') jpegEOI = None" for n
    by (induction n) (auto simp: jpegEOI_def has_prefix_def)
  have pos: "replicate buffer_limit CHR ''x'' \<noteq> []" by (simp add: buffer_limit_def)
  have long: "length (jpegSOI @ replicate buffer_limit CHR ''x'') > buffer_limit" by simp
  have last: "last_index_of (jpegSOI @ replicate buffer_limit CHR ''x'') jpegSOI = Some 0"
    by (rule last_index_replicate) simp
  have dropped: "readFrames ?out (\<lambda>n. 0) [(replicate buffer_limit CHR ''x'', None), (jpegEOI, Some EOF)] (jpegSOI, ?st)
      = readFrames ?out (\<lambda>n. 0) [(jpegEOI, Some EOF)] ([], ?st)"
    by (rule oversized_frame_is_dropped[OF refl pos long none last])
  have "extractFrame jpegEOI = None" by (simp add: extractFrame_def jpegSOI_def jpegEOI_def has_prefix_def)
  then show ?thesis
    unfolding dropped by (simp add: read_piece_def drain_frames_all trim_buffer_def Let_def buffer_limit_def)
qed

end
