(* ===== verification/Ha_Routing.thy ===== *)
theory Ha_Routing
  imports Wk_Publish
begin

text \<open>
  \<open>services/homeassistant-kafka/service\<close>: which events of Home Assistant are published, to which topic
  and under which key, and the polling loop that turns snapshots of the states into events.

  The body of a published event is the raw JSON of the event, an uninterpreted string here; \<open>time.Parse\<close>
  is the parameter \<open>parse\<close> (from the layout and the text to Unix seconds) and the clock an argument.  The
  attributes of a state are \<open>None\<close> when the map is nil.
\<close>

section \<open>Data\<close>

record HAState =
  st_EntityID :: string
  st_State :: string
  st_Attributes :: "json_map option"
  st_LastChanged :: string
  st_LastUpdated :: string

record HAEvent =
  ev_EventType :: string
  ev_EntityID :: string
  ev_OldState :: "HAState option"
  ev_NewState :: "HAState option"
  ev_Origin :: string
  ev_TimeFired :: string

text \<open>The part of the service that decides: the explicit filter and the discovered entities.\<close>

record ha_service =
  hs_EntityFilter :: "string list"
  hs_discovered :: "string set"

section \<open>Attributes\<close>

definition string_attr :: "json_map option \<Rightarrow> string \<Rightarrow> string" where
  "string_attr attrs k =
     (case attrs of
        None \<Rightarrow> []
      | Some m \<Rightarrow> (case as_str (map_of m k) of Some s \<Rightarrow> to_lower s | None \<Rightarrow> []))"

definition deviceClass :: "json_map option \<Rightarrow> string" where
  "deviceClass attrs = string_attr attrs ''device_class''"

definition unitOfMeasurement :: "json_map option \<Rightarrow> string" where
  "unitOfMeasurement attrs = string_attr attrs ''unit_of_measurement''"

text \<open>The degree sign is two bytes.\<close>

definition degree_sign :: string where
  "degree_sign = [CHR 0xC2, CHR 0xB0]"

definition isTemperature :: "json_map option \<Rightarrow> bool" where
  "isTemperature attrs =
     (if deviceClass attrs = ''temperature'' then True
      else let un = unitOfMeasurement attrs
           in contains_sub un degree_sign \<or> un = ''f'' \<or> un = ''c'' \<or> un = degree_sign @ ''f''
              \<or> un = degree_sign @ ''c'')"

definition isHumidity :: "json_map option \<Rightarrow> bool" where
  "isHumidity attrs = (if deviceClass attrs = ''humidity'' then True else unitOfMeasurement attrs = ''%'')"

definition isBattery :: "json_map option \<Rightarrow> string \<Rightarrow> bool" where
  "isBattery attrs entityID =
     (if deviceClass attrs = ''battery'' then True else contains_sub (to_lower entityID) ''battery'')"

definition isPresence :: "json_map option \<Rightarrow> string \<Rightarrow> bool" where
  "isPresence attrs entityID =
     (let class = deviceClass attrs in
      if class = ''occupancy'' \<or> class = ''presence'' \<or> class = ''motion'' then True
      else let lowerID = to_lower entityID
           in contains_sub lowerID ''occupancy'' \<or> contains_sub lowerID ''presence'')"

section \<open>Topics and keys\<close>

definition entityDomain :: "string \<Rightarrow> string" where
  "entityDomain entityID =
     (case split_first CHR ''.'' entityID of [dm, _] \<Rightarrow> dm | _ \<Rightarrow> [])"

definition topicForEvent :: "string \<Rightarrow> HAState \<Rightarrow> string" where
  "topicForEvent entityID state =
     (let dm = entityDomain entityID; attributes = st_Attributes state in
      if dm = ''climate'' then ''homeassistant.ecobee.thermostat.climate''
      else if dm = ''weather'' then ''homeassistant.ecobee.weather''
      else if dm = ''sensor'' then
        (if isBattery attributes entityID then ''homeassistant.ecobee.sensor.battery''
         else if isTemperature attributes then ''homeassistant.ecobee.sensor.temperature''
         else if isHumidity attributes then ''homeassistant.ecobee.sensor.humidity''
         else ''homeassistant.ecobee.other'')
      else if dm = ''binary_sensor'' then
        (if isPresence attributes entityID then ''homeassistant.ecobee.sensor.presence''
         else ''homeassistant.ecobee.other'')
      else ''homeassistant.ecobee.other'')"

definition topic_suffix :: "string \<Rightarrow> string option" where
  "topic_suffix = map_of
     [(''homeassistant.ecobee.sensor.temperature'', ''_temperature''),
      (''homeassistant.ecobee.sensor.humidity'', ''_humidity''),
      (''homeassistant.ecobee.sensor.presence'', ''_occupancy''),
      (''homeassistant.ecobee.sensor.battery'', ''_battery'')]"

definition entityKey :: "string \<Rightarrow> string \<Rightarrow> string" where
  "entityKey entityID topic =
     (let name = (case index_of entityID ''.'' of Some i \<Rightarrow> drop (i + 1) entityID | None \<Rightarrow> entityID)
      in case topic_suffix topic of Some suffix \<Rightarrow> trim_suffix name suffix | None \<Rightarrow> name)"

definition eventTimestamp :: "(string \<Rightarrow> string \<Rightarrow> int option) \<Rightarrow> int \<Rightarrow> HAEvent \<Rightarrow> int" where
  "eventTimestamp parse now event =
     (if ev_TimeFired event \<noteq> [] then
        (case parse ''2006-01-02T15:04:05.999999999Z07:00'' (ev_TimeFired event) of
           Some ts \<Rightarrow> ts
         | None \<Rightarrow> now)
      else now)"

definition isEcobeeEntity :: "ha_service \<Rightarrow> string \<Rightarrow> bool" where
  "isEcobeeEntity svc entityID =
     (if hs_EntityFilter svc \<noteq> [] then entityID \<in> set (hs_EntityFilter svc)
      else if hs_discovered svc \<noteq> {} then entityID \<in> hs_discovered svc
      else contains_sub (to_lower entityID) ''ecobee'')"

section \<open>Handling an event\<close>

definition event_headers :: "string \<Rightarrow> int \<Rightarrow> string \<Rightarrow> (string \<times> string) list" where
  "event_headers entityID timestamp eventType =
     [(''schema_version'', ''1''), (''entity_id'', entityID), (''domain'', entityDomain entityID),
      (''timestamp'', itoa timestamp), (''source'', ''homeassistant''), (''event_type'', eventType)]"

text \<open>What \<open>handleEvent\<close> publishes: topic, key and headers; nothing when it returns early.\<close>

definition event_route ::
    "ha_service \<Rightarrow> (string \<Rightarrow> string \<Rightarrow> int option) \<Rightarrow> int \<Rightarrow> HAEvent
     \<Rightarrow> (string \<times> string \<times> (string \<times> string) list) option" where
  "event_route svc parse now event =
     (let entityID = (if ev_EntityID event = [] then
                        (case ev_NewState event of Some st \<Rightarrow> st_EntityID st | None \<Rightarrow> [])
                      else ev_EntityID event)
      in if entityID = [] then None
         else if \<not> isEcobeeEntity svc entityID then None
         else case ev_NewState event of
                None \<Rightarrow> None
              | Some newState \<Rightarrow>
                  let topic = topicForEvent entityID newState in
                  if topic = [] then None
                  else let timestamp = eventTimestamp parse now event
                       in Some (topic, entityKey entityID topic @ '':'' @ itoa timestamp,
                                event_headers entityID timestamp (ev_EventType event)))"

definition handleEvent ::
    "env \<Rightarrow> header_order \<Rightarrow> (string \<Rightarrow> string \<Rightarrow> int option) \<Rightarrow> int \<Rightarrow> ha_service \<Rightarrow> HAEvent \<Rightarrow> string
     \<Rightarrow> kafka conn \<Rightarrow> kafka conn" where
  "handleEvent e order parse now svc event raw c =
     (case event_route svc parse now event of
        None \<Rightarrow> c
      | Some (topic, key, headers) \<Rightarrow> snd (Publish e order topic key raw headers c))"

section \<open>Polling\<close>

definition stateChanged :: "HAState \<Rightarrow> HAState \<Rightarrow> bool" where
  "stateChanged oldState newState =
     (if st_State oldState \<noteq> st_State newState then True
      else if st_LastChanged oldState \<noteq> st_LastChanged newState then True
      else if st_LastUpdated oldState \<noteq> st_LastUpdated newState then True
      else False)"

text \<open>
  The events of one round.  \<open>current\<close> is the map of the round, as a list in the order it is ranged over;
  \<open>fired\<close> formats the clock.
\<close>

definition poll_event :: "string \<Rightarrow> HAState option \<Rightarrow> string \<times> HAState \<Rightarrow> HAEvent" where
  "poll_event fired prevState entry =
     \<lparr>ev_EventType = ''state_changed'', ev_EntityID = fst entry, ev_OldState = prevState,
      ev_NewState = Some (snd entry), ev_Origin = ''polling'', ev_TimeFired = fired\<rparr>"

definition changed_entry ::
    "ha_service \<Rightarrow> (string \<rightharpoonup> HAState) option \<Rightarrow> string \<times> HAState \<Rightarrow> bool" where
  "changed_entry svc previous entry =
     (isEcobeeEntity svc (fst entry)
      \<and> (case previous of
           None \<Rightarrow> True
         | Some m \<Rightarrow> (case m (fst entry) of None \<Rightarrow> True | Some prev \<Rightarrow> stateChanged prev (snd entry))))"

definition emitStateChanges ::
    "ha_service \<Rightarrow> string \<Rightarrow> (string \<rightharpoonup> HAState) option \<Rightarrow> (string \<times> HAState) list \<Rightarrow> HAEvent list" where
  "emitStateChanges svc fired previous current =
     map (\<lambda>entry. poll_event fired (case previous of None \<Rightarrow> None | Some m \<Rightarrow> m (fst entry)) entry)
       (filter (changed_entry svc previous) current)"

text \<open>\<open>current[state.EntityID] = state\<close>: the last state of an entity wins.\<close>

definition snapshot :: "HAState list \<Rightarrow> (string \<times> HAState) list" where
  "snapshot states = fold (\<lambda>state m. AList.update (st_EntityID state) state m) states []"

text \<open>
  \<open>pollLoop\<close>, over what \<open>FetchStates\<close> returns round after round: the events handed to \<open>handleEvent\<close>, round
  by round, and the last snapshot; each round with the text of its clock.
\<close>

fun pollLoop ::
    "ha_service \<Rightarrow> (string \<times> HAState list result) list \<Rightarrow> (string \<rightharpoonup> HAState) option
     \<Rightarrow> HAEvent list list \<times> (string \<rightharpoonup> HAState) option" where
  "pollLoop svc [] previous = ([], previous)"
| "pollLoop svc ((fired, Inl er) # rounds) previous =
     (let (evs, last) = pollLoop svc rounds previous in ([] # evs, last))"
| "pollLoop svc ((fired, Inr states) # rounds) previous =
     (let current = snapshot states;
          (evs, last) = pollLoop svc rounds (Some (map_of current))
      in (emitStateChanges svc fired previous current # evs, last))"

section \<open>What polling publishes\<close>

text \<open>What \<open>stateChanged\<close> compares.\<close>

definition fingerprint :: "HAState \<Rightarrow> string \<times> string \<times> string" where
  "fingerprint s = (st_State s, st_LastChanged s, st_LastUpdated s)"

lemma stateChanged_iff: "stateChanged a b \<longleftrightarrow> fingerprint a \<noteq> fingerprint b"
  by (auto simp: stateChanged_def fingerprint_def)

lemma distinct_snapshot: "distinct (map fst (snapshot states))"
  unfolding snapshot_def
  by (rule fold_preserves[where P = "\<lambda>m. distinct (map fst m)"]) (auto simp: distinct_update)

lemma filter_key_distinct:
  "distinct (map fst m) \<Longrightarrow> filter (\<lambda>entry. fst entry = k) m = (case map_of m k of None \<Rightarrow> [] | Some v \<Rightarrow> [(k, v)])"
  by (induction m) (auto split: option.splits dest: map_of_SomeD simp: filter_empty_conv rev_image_eqI)

text \<open>The states of one entity: those of the events about it, and those of the successful rounds.\<close>

definition entity_states :: "string \<Rightarrow> HAEvent list \<Rightarrow> HAState list" where
  "entity_states k evs = List.map_filter ev_NewState (filter (\<lambda>ev. ev_EntityID ev = k) evs)"

fun round_states :: "string \<Rightarrow> (string \<times> HAState list result) list \<Rightarrow> HAState list" where
  "round_states k [] = []"
| "round_states k ((fired, Inl er) # rounds) = round_states k rounds"
| "round_states k ((fired, Inr states) # rounds) =
     (case map_of (snapshot states) k of None \<Rightarrow> [] | Some v \<Rightarrow> [v]) @ round_states k rounds"

text \<open>The entity is in every snapshot that was fetched.\<close>

definition always_present :: "string \<Rightarrow> (string \<times> HAState list result) list \<Rightarrow> bool" where
  "always_present k rounds =
     list_all (\<lambda>(fired, r). case r of Inl er \<Rightarrow> True | Inr states \<Rightarrow> map_of (snapshot states) k \<noteq> None) rounds"

lemma entity_states_emit:
  assumes "isEcobeeEntity svc k" and "map_of (snapshot states) k = Some v"
  shows "entity_states k (emitStateChanges svc fired previous (snapshot states)) =
    (if (case previous of None \<Rightarrow> True | Some m \<Rightarrow> (case m k of None \<Rightarrow> True | Some p \<Rightarrow> stateChanged p v))
     then [v] else [])"
proof -
  define cur where "cur = snapshot states"
  have d: "distinct (map fst cur)" by (simp add: cur_def distinct_snapshot)
  have "entity_states k (emitStateChanges svc fired previous cur) =
      map snd (filter (changed_entry svc previous) (filter (\<lambda>entry. fst entry = k) cur))"
    unfolding entity_states_def emitStateChanges_def
    by (induction cur) (auto simp: poll_event_def map_filter_simps)
  also have "filter (\<lambda>entry. fst entry = k) cur = [(k, v)]"
    using filter_key_distinct[OF d] assms(2) by (simp add: cur_def)
  finally show ?thesis using assms(1) by (auto simp: cur_def changed_entry_def split: option.splits)
qed

lemma fst_pollLoop:
  "fst (pollLoop svc ((fired, Inl er) # rounds) previous) = [] # fst (pollLoop svc rounds previous)"
  "fst (pollLoop svc ((fired, Inr states) # rounds) previous) =
     emitStateChanges svc fired previous (snapshot states)
       # fst (pollLoop svc rounds (Some (map_of (snapshot states))))"
  by (simp_all add: Let_def split: prod.splits)

lemma pollLoop_entity:
  assumes "isEcobeeEntity svc k" and "always_present k rounds"
  shows "map fingerprint (entity_states k (concat (fst (pollLoop svc rounds previous)))) =
    (case previous of
       None \<Rightarrow> remdups_adj (map fingerprint (round_states k rounds))
     | Some m \<Rightarrow>
         (case m k of
            None \<Rightarrow> remdups_adj (map fingerprint (round_states k rounds))
          | Some p \<Rightarrow> tl (remdups_adj (fingerprint p # map fingerprint (round_states k rounds)))))"
  using assms(2)
proof (induction rounds arbitrary: previous)
  case Nil
  then show ?case by (auto simp: entity_states_def map_filter_simps split: option.splits)
next
  case (Cons r rounds)
  obtain fired res where r: "r = (fired, res)" by (cases r)
  have append: "entity_states k (xs @ ys) = entity_states k xs @ entity_states k ys" for xs ys
    by (simp add: entity_states_def map_filter_def)
  show ?case
  proof (cases res)
    case (Inl er)
    have "always_present k rounds" using Cons.prems by (simp add: always_present_def)
    from Cons.IH[OF this, of previous] show ?thesis by (simp only: r Inl fst_pollLoop concat.simps append_Nil round_states.simps)
  next
    case (Inr states)
    with Cons.prems r obtain v where v: "map_of (snapshot states) k = Some v"
      by (auto simp: always_present_def)
    have ap: "always_present k rounds" using Cons.prems by (simp add: always_present_def)
    have rest: "map fingerprint (entity_states k (concat (fst (pollLoop svc rounds (Some (map_of (snapshot states))))))) =
        tl (remdups_adj (fingerprint v # map fingerprint (round_states k rounds)))"
      using Cons.IH[OF ap, of "Some (map_of (snapshot states))"] v by simp
    have hd: "remdups_adj (x # ys) = x # tl (remdups_adj (x # ys))" for x :: "string \<times> string \<times> string" and ys
      by (metis hd_remdups_adj list.collapse list.sel(1) remdups_adj_Nil_iff list.distinct(1))
    show ?thesis
      unfolding r Inr fst_pollLoop concat.simps append map_append rest
        entity_states_emit[OF assms(1) v, of fired previous]
      using v hd[of "fingerprint v"] by (auto simp: stateChanged_iff split: option.splits)
  qed
qed

text \<open>
  C29: Polling publishes every change once and nothing else.  For an entity the service is interested in
  and that every fetched snapshot holds, the events about it carry exactly the successive states of the
  snapshots with adjacent repetitions (of state and time stamps) removed, whatever rounds fail.
\<close>

theorem polling_publishes_changes:
  assumes "isEcobeeEntity svc k" and "always_present k rounds"
  shows "map fingerprint (entity_states k (concat (fst (pollLoop svc rounds None)))) =
     remdups_adj (map fingerprint (round_states k rounds))"
  using pollLoop_entity[OF assms, of None] by simp

section \<open>Routing\<close>

definition ecobee_topics :: "string list" where
  "ecobee_topics =
     [''homeassistant.ecobee.thermostat.climate'', ''homeassistant.ecobee.weather'',
      ''homeassistant.ecobee.sensor.battery'', ''homeassistant.ecobee.sensor.temperature'',
      ''homeassistant.ecobee.sensor.humidity'', ''homeassistant.ecobee.sensor.presence'',
      ''homeassistant.ecobee.other'']"

lemma topicForEvent_known: "topicForEvent entityID state \<in> set ecobee_topics"
  by (auto simp: topicForEvent_def ecobee_topics_def Let_def)

lemma topicForEvent_nonempty: "topicForEvent entityID state \<noteq> []"
  using topicForEvent_known[of entityID state] by (auto simp: ecobee_topics_def)

text \<open>
  An event is published exactly when it names an entity (itself or through its new state), the entity
  is one of interest and the event has a new state; then it goes to one of the seven topics, its headers
  name the entity and the time, and its key ends with that time.
\<close>

theorem event_route_spec:
  assumes "eid = (if ev_EntityID event = [] then
                    (case ev_NewState event of Some st \<Rightarrow> st_EntityID st | None \<Rightarrow> []) else ev_EntityID event)"
  shows "(event_route svc parse now event \<noteq> None \<longleftrightarrow>
            eid \<noteq> [] \<and> isEcobeeEntity svc eid \<and> ev_NewState event \<noteq> None)
     \<and> (\<forall>topic key headers. event_route svc parse now event = Some (topic, key, headers) \<longrightarrow>
          topic \<in> set ecobee_topics
          \<and> map_of headers ''entity_id'' = Some eid
          \<and> map_of headers ''timestamp'' = Some (itoa (eventTimestamp parse now event))
          \<and> has_suffix key ('':'' @ itoa (eventTimestamp parse now event)))"
proof -
  have suf: "has_suffix (n @ CHR '':'' # t) (CHR '':'' # t)" for n t :: string
    using has_suffix_append[of n "CHR '':'' # t"] by simp
  show ?thesis
    unfolding event_route_def Let_def assms[symmetric]
    using topicForEvent_known topicForEvent_nonempty suf
    by (auto simp: event_headers_def split: option.splits)
qed

lemma index_dot: "CHR ''.'' \<notin> set a \<Longrightarrow> index_of (a @ CHR ''.'' # b) ''.'' = Some (length a)"
  by (induction a) (auto simp: has_prefix_def)

lemma entityDomain_dot: "CHR ''.'' \<notin> set a \<Longrightarrow> entityDomain (a @ CHR ''.'' # b) = a"
  by (simp add: entityDomain_def split_first_append)

lemma entityKey_dot:
  "CHR ''.'' \<notin> set a \<Longrightarrow> entityKey (a @ CHR ''.'' # b) topic =
     (case topic_suffix topic of Some suffix \<Rightarrow> trim_suffix b suffix | None \<Rightarrow> b)"
  by (simp add: entityKey_def index_dot Let_def)

lemma split_first_2: "split_first c s = [a, b] \<Longrightarrow> s = a @ c # b \<and> c \<notin> set a"
  by (induction s arbitrary: a) (auto split: if_splits list.splits)

lemma domain_form:
  assumes "entityDomain k = a" and "a \<noteq> []"
  obtains b where "k = a @ CHR ''.'' # b" "CHR ''.'' \<notin> set a"
  using assms split_first_2[of "CHR ''.''" k] by (auto simp: entityDomain_def split: list.splits)

text \<open>
  The keys of the thermostat and weather topics name one entity and one time: two events of such a
  topic with the same key come from the same entity and carry the same time.
\<close>

theorem climate_keys_identify:
  assumes "event_route svc parse now ev = Some (topic, key, headers)"
    and "event_route svc parse now' ev' = Some (topic, key, headers')"
    and "topic = ''homeassistant.ecobee.thermostat.climate'' \<or> topic = ''homeassistant.ecobee.weather''"
  shows "map_of headers ''entity_id'' = map_of headers' ''entity_id''
     \<and> map_of headers ''timestamp'' = map_of headers' ''timestamp''"
proof -
  define dm where "dm = (if topic = ''homeassistant.ecobee.weather'' then ''weather'' else ''climate'')"
  have route: "\<exists>b. k = b @ CHR '':'' # itoa (eventTimestamp parse t e)
       \<and> map_of hs ''entity_id'' = Some (dm @ CHR ''.'' # b)
       \<and> map_of hs ''timestamp'' = Some (itoa (eventTimestamp parse t e))"
    if r: "event_route svc parse t e = Some (topic, k, hs)" for t e k hs
  proof -
    obtain eid st where e: "topic = topicForEvent eid st"
      "k = entityKey eid topic @ '':'' @ itoa (eventTimestamp parse t e)"
      "hs = event_headers eid (eventTimestamp parse t e) (ev_EventType e)"
      using r by (auto simp: event_route_def Let_def split: if_splits option.splits)
    have "entityDomain eid = dm"
      using e(1) assms(3) by (auto simp: topicForEvent_def Let_def dm_def split: if_splits)
    moreover have "dm \<noteq> []" by (simp add: dm_def)
    ultimately obtain b where b: "eid = dm @ CHR ''.'' # b" "CHR ''.'' \<notin> set dm"
      by (rule domain_form)
    have "topic_suffix topic = None" using assms(3) by (auto simp: topic_suffix_def)
    then have "entityKey eid topic = b" using entityKey_dot[OF b(2), of b topic] b(1) by simp
    with e(2,3) b(1) show ?thesis by (intro exI[of _ b]) (simp add: event_headers_def)
  qed
  obtain b where b: "key = b @ CHR '':'' # itoa (eventTimestamp parse now ev)"
      "map_of headers ''entity_id'' = Some (dm @ CHR ''.'' # b)"
      "map_of headers ''timestamp'' = Some (itoa (eventTimestamp parse now ev))"
    using route[OF assms(1)] by blast
  obtain b' where b': "key = b' @ CHR '':'' # itoa (eventTimestamp parse now' ev')"
      "map_of headers' ''entity_id'' = Some (dm @ CHR ''.'' # b')"
      "map_of headers' ''timestamp'' = Some (itoa (eventTimestamp parse now' ev'))"
    using route[OF assms(2)] by blast
  have "b = b' \<and> itoa (eventTimestamp parse now ev) = itoa (eventTimestamp parse now' ev')"
    by (rule colon_key_inj_last[OF _ itoa_no_colon itoa_no_colon]) (metis b(1) b'(1))
  then show ?thesis by (simp only: b(2,3) b'(2,3))
qed

text \<open>
  On the temperature topic two entities can share their keys: a sensor named like another with the
  suffix the key strips, when both have a temperature unit, gets the same topic and the same key at
  the same second.
\<close>

theorem temperature_keys_collide:
  assumes "ev1 = poll_event fired prev1 (''sensor.'' @ n, st)"
    and "ev2 = poll_event fired prev2 (''sensor.'' @ n @ ''_temperature'', st)"
    and "\<not> has_suffix n ''_temperature''"
    and "deviceClass (st_Attributes st) = ''temperature''"
    and "isEcobeeEntity svc (''sensor.'' @ n)" and "isEcobeeEntity svc (''sensor.'' @ n @ ''_temperature'')"
    and "\<not> contains_sub (''sensor.'' @ to_lower n) ''battery''"
    and "\<not> contains_sub (''sensor.'' @ to_lower n @ ''_temperature'') ''battery''"
  shows "\<exists>key headers1 headers2.
      event_route svc parse now ev1 = Some (''homeassistant.ecobee.sensor.temperature'', key, headers1)
      \<and> event_route svc parse now ev2 = Some (''homeassistant.ecobee.sensor.temperature'', key, headers2)"
proof -
  have low: "to_lower (''sensor.'' @ m) = ''sensor.'' @ to_lower m" for m
    by (simp add: to_lower_def lower_char_def)
  have suf: "to_lower (m @ ''_temperature'') = to_lower m @ ''_temperature''" for m
    by (simp add: to_lower_def lower_char_def)
  have topic: "topicForEvent (''sensor.'' @ m) st = ''homeassistant.ecobee.sensor.temperature''"
    if "\<not> contains_sub (''sensor.'' @ to_lower m) ''battery''" for m
    using that assms(4) entityDomain_dot[of "''sensor''" m] low[of m]
    by (simp add: topicForEvent_def isBattery_def isTemperature_def)
  have key: "entityKey (''sensor.'' @ m) ''homeassistant.ecobee.sensor.temperature'' = trim_suffix m ''_temperature''" for m
    using entityKey_dot[of "''sensor''" m] by (simp add: topic_suffix_def)
  have t: "eventTimestamp parse now ev1 = eventTimestamp parse now ev2"
    by (simp add: assms(1,2) poll_event_def eventTimestamp_def)
  have r: "trim_suffix n ''_temperature'' = n" "trim_suffix (n @ ''_temperature'') ''_temperature'' = n"
    using assms(3) by (simp_all add: trim_suffix_def del: append_Cons)
  show ?thesis
    using assms(5,6) topic[of n] topic[of "n @ ''_temperature''"] assms(7,8) key[of n] key[of "n @ ''_temperature''"] t r suf
    unfolding event_route_def assms(1,2) by (simp add: poll_event_def Let_def)
qed

section \<open>Concrete runs\<close>

definition sample_state :: "string \<Rightarrow> string \<Rightarrow> HAState" where
  "sample_state k v = \<lparr>st_EntityID = k, st_State = v, st_Attributes = Some [(''device_class'', JStr ''Temperature'')],
     st_LastChanged = [], st_LastUpdated = []\<rparr>"

definition no_filter :: ha_service where
  "no_filter = \<lparr>hs_EntityFilter = [], hs_discovered = {''climate.ecobee'', ''sensor.den'', ''sensor.den_temperature''}\<rparr>"

definition sample_event :: HAEvent where
  "sample_event = poll_event ''x'' None (''climate.ecobee'', sample_state ''climate.ecobee'' ''heat'')"

lemma no_filter_entities:
  "isEcobeeEntity no_filter ''climate.ecobee''" "isEcobeeEntity no_filter ''sensor.den''"
  "isEcobeeEntity no_filter ''sensor.den_temperature''"
  by (simp_all add: isEcobeeEntity_def no_filter_def)

lemma polling_publishes_changes_witness:
  "map fingerprint (entity_states ''climate.ecobee'' (concat (fst (pollLoop no_filter
      [(''t0'', Inr [sample_state ''climate.ecobee'' ''heat'']), (''t1'', Inl EOF),
       (''t2'', Inr [sample_state ''climate.ecobee'' ''heat'']),
       (''t3'', Inr [sample_state ''climate.ecobee'' ''cool''])] None))))
   = [(''heat'', [], []), (''cool'', [], [])]"
proof -
  have "always_present ''climate.ecobee''
      [(''t0'', Inr [sample_state ''climate.ecobee'' ''heat'']), (''t1'', Inl EOF),
       (''t2'', Inr [sample_state ''climate.ecobee'' ''heat'']),
       (''t3'', Inr [sample_state ''climate.ecobee'' ''cool''])]"
    by (simp add: always_present_def snapshot_def sample_state_def)
  from polling_publishes_changes[OF no_filter_entities(1) this] show ?thesis
    by (simp add: snapshot_def sample_state_def fingerprint_def)
qed

lemma sample_route:
  "event_route no_filter (\<lambda>l s. Some 60) now sample_event =
     Some (''homeassistant.ecobee.thermostat.climate'', ''ecobee:60'', event_headers ''climate.ecobee'' 60 ''state_changed'')"
  using no_filter_entities(1)
  by (simp add: event_route_def sample_event_def poll_event_def topicForEvent_def entityDomain_def entityKey_def
      topic_suffix_def eventTimestamp_def Let_def itoa_eval has_prefix_def)

lemma event_route_spec_witness:
  "map_of (event_headers ''climate.ecobee'' 60 ''state_changed'') ''entity_id'' = Some ''climate.ecobee''"
  using event_route_spec[of "''climate.ecobee''" sample_event no_filter "\<lambda>l s. Some 60" 0] sample_route[of 0]
  by (simp add: sample_event_def poll_event_def)

lemma climate_keys_identify_witness:
  "map_of (event_headers ''climate.ecobee'' 60 ''state_changed'') ''timestamp'' = Some (itoa 60)"
  using climate_keys_identify[OF sample_route[of 0] sample_route[of 1]]
  by (simp add: event_headers_def)

lemma temperature_keys_collide_witness:
  "\<exists>key headers1 headers2.
      event_route no_filter (\<lambda>l s. None) 7 (poll_event ''x'' None (''sensor.den'', sample_state ''a'' ''b''))
        = Some (''homeassistant.ecobee.sensor.temperature'', key, headers1)
      \<and> event_route no_filter (\<lambda>l s. None) 7 (poll_event ''x'' None (''sensor.den_temperature'', sample_state ''a'' ''b''))
        = Some (''homeassistant.ecobee.sensor.temperature'', key, headers2)"
proof -
  have "\<not> contains_sub (''sensor.'' @ to_lower ''den'') ''battery''"
    "\<not> contains_sub (''sensor.'' @ to_lower ''den'' @ ''_temperature'') ''battery''"
    "\<not> has_suffix ''den'' ''_temperature''"
    "deviceClass (st_Attributes (sample_state ''a'' ''b'')) = ''temperature''"
    by code_simp+
  from temperature_keys_collide[OF refl refl this(3,4) _ _ this(1,2)] no_filter_entities show ?thesis by simp
qed

end
