(* ===== verification/Ha_Client.thy ===== *)
theory Ha_Client
  imports Ha_Routing Ha_Command
begin

text \<open>
  \<open>services/homeassistant-kafka/ha/client.go\<close>: the subscription to the state changes of Home Assistant, the
  discovery of entities, and the fetch of all states.  The handshake is that of the command service
  (the functions are the same text).  What a service handles goes through \<open>handleEvent\<close> of
  \<open>Ha_Routing\<close>; here the events handed over are collected in a list.
\<close>

section \<open>Events as structs\<close>

definition decode_context :: "json_map \<Rightarrow> unit option" where
  "decode_context m =
     (case obj_member m ''context'' of
        None \<Rightarrow> None
      | Some None \<Rightarrow> Some ()
      | Some (Some cx) \<Rightarrow>
          (case (str_member cx ''id'', str_member cx ''parent_id'', str_member cx ''user_id'') of
             (Some _, Some _, Some _) \<Rightarrow> Some () | _ \<Rightarrow> None))"

definition decode_state :: "json_map \<Rightarrow> HAState option" where
  "decode_state m =
     (case (str_member m ''entity_id'', str_member m ''state'', obj_member m ''attributes'',
            str_member m ''last_changed'', str_member m ''last_updated'', decode_context m) of
        (Some i, Some s, Some attrs, Some lc, Some lu, Some _) \<Rightarrow>
          Some \<lparr>st_EntityID = i, st_State = s, st_Attributes = attrs, st_LastChanged = lc, st_LastUpdated = lu\<rparr>
      | _ \<Rightarrow> None)"

definition decode_state_ptr :: "json_map \<Rightarrow> string \<Rightarrow> HAState option option" where
  "decode_state_ptr m k =
     (case obj_member m k of
        None \<Rightarrow> None
      | Some None \<Rightarrow> Some None
      | Some (Some st) \<Rightarrow> (case decode_state st of None \<Rightarrow> None | Some s \<Rightarrow> Some (Some s)))"

definition decode_event :: "json \<Rightarrow> HAEvent option" where
  "decode_event j =
     (case (case j of JObj m \<Rightarrow> Some m | JNull \<Rightarrow> Some [] | _ \<Rightarrow> None) of
        None \<Rightarrow> None
      | Some m \<Rightarrow>
          (case (str_member m ''event_type'', obj_member m ''data'', str_member m ''origin'',
                 str_member m ''time_fired'', decode_context m) of
             (Some t, Some da, Some og, Some tf, Some _) \<Rightarrow>
               let d = (case da of None \<Rightarrow> [] | Some d \<Rightarrow> d) in
               (case (str_member d ''entity_id'', decode_state_ptr d ''old_state'', decode_state_ptr d ''new_state'') of
                  (Some i, Some old, Some new) \<Rightarrow>
                    Some \<lparr>ev_EventType = t, ev_EntityID = i, ev_OldState = old, ev_NewState = new,
                          ev_Origin = og, ev_TimeFired = tf\<rparr>
                | _ \<Rightarrow> None)
           | _ \<Rightarrow> None))"

section \<open>The subscription\<close>

definition decode_ack :: "json_map \<Rightarrow> (int \<times> string \<times> bool \<times> string) option" where
  "decode_ack m =
     (case (int_member m ''id'', str_member m ''type'', bool_member m ''success'', str_member m ''message'') of
        (Some i, Some t, Some s, Some msg) \<Rightarrow> Some (i, t, s, msg) | _ \<Rightarrow> None)"

fun expectSubscribeOK :: "decoder \<Rightarrow> int \<Rightarrow> string result list \<Rightarrow> go_error option \<times> string result list" where
  "expectSubscribeOK um i [] = (Some EOF, [])"
| "expectSubscribeOK um i (Inl er # frames) = (Some er, frames)"
| "expectSubscribeOK um i (Inr payload # frames) =
     (case Option.bind (unmarshal_map um payload) decode_ack of
        None \<Rightarrow> (Some (Err ''invalid JSON''), frames)
      | Some (j, t, success, msg) \<Rightarrow>
          if t \<noteq> ''result'' \<or> j \<noteq> i then expectSubscribeOK um i frames
          else if \<not> success then (Some (Err (''subscribe failed: '' @ msg)), frames)
          else (None, frames))"

definition subscribe_request :: "int \<Rightarrow> json" where
  "subscribe_request i =
     JObj [(''id'', JNum (of_int i)), (''type'', JStr ''subscribe_events''),
           (''event_type'', JStr ''state_changed'')]"

text \<open>The event of one frame: \<open>None\<close> when the loop goes on without calling the handler.\<close>

definition frame_event :: "decoder \<Rightarrow> string \<Rightarrow> (HAEvent \<times> json) option" where
  "frame_event um payload =
     (case unmarshal_map um payload of
        None \<Rightarrow> None
      | Some m \<Rightarrow>
          (case (int_member m ''id'', str_member m ''type'', bool_member m ''success'', str_member m ''message'') of
             (Some _, Some t, Some _, Some _) \<Rightarrow>
               (case json_member m ''event'' of
                  None \<Rightarrow> None
                | Some raw \<Rightarrow>
                    if t \<noteq> ''event'' then None
                    else (case decode_event raw of None \<Rightarrow> None | Some ev \<Rightarrow> Some (ev, raw)))
           | _ \<Rightarrow> None))"

fun stream_events :: "decoder \<Rightarrow> string result list \<Rightarrow> (HAEvent \<times> json) list \<times> go_error" where
  "stream_events um [] = ([], Wrap ''ws read failed'' EOF)"
| "stream_events um (Inl er # frames) = ([], Wrap ''ws read failed'' er)"
| "stream_events um (Inr payload # frames) =
     (let (evs, er) = stream_events um frames
      in (case frame_event um payload of None \<Rightarrow> evs | Some ev \<Rightarrow> ev # evs, er))"

definition connectAndStream ::
    "env \<Rightarrow> decoder \<Rightarrow> string \<Rightarrow> string result list result \<Rightarrow> json list conn
     \<Rightarrow> go_error \<times> (HAEvent \<times> json) list \<times> json list conn" where
  "connectAndStream e um token dialed sent =
     (case dialed of
        Inl er \<Rightarrow> (Wrap ''ws dial failed'' er, [], sent)
      | Inr frames \<Rightarrow>
          (case handshake e um token frames sent of
             (Inl er, sent1) \<Rightarrow> (er, [], sent1)
           | (Inr rest, sent1) \<Rightarrow>
               (case sendJSON e (subscribe_request 1) sent1 of
                  (Some er, sent2) \<Rightarrow> (er, [], sent2)
                | (None, sent2) \<Rightarrow>
                    (case expectSubscribeOK um 1 rest of
                       (Some er, _) \<Rightarrow> (er, [], sent2)
                     | (None, rest1) \<Rightarrow>
                         let (evs, er) = stream_events um rest1 in (er, evs, sent2)))))"

text \<open>
  The outer loop, over what \<open>Dial\<close> returns; the end of the list is the cancellation.  It collects the
  events handled, and the pauses between connections.
\<close>

fun subscribe_loop ::
    "env \<Rightarrow> decoder \<Rightarrow> string \<Rightarrow> int list \<Rightarrow> string result list result list \<Rightarrow> nat \<Rightarrow> json list conn
     \<Rightarrow> (HAEvent \<times> json) list \<times> int list" where
  "subscribe_loop e um token backoff [] attempt sent = ([], [])"
| "subscribe_loop e um token backoff (d # ds) attempt sent =
     (let (er, evs, sent1) = connectAndStream e um token d sent;
          (more, waits) = subscribe_loop e um token backoff ds (attempt + 1) sent1
      in (evs @ more, backoff_wait backoff attempt # waits))"

definition SubscribeStateChanges ::
    "env \<Rightarrow> decoder \<Rightarrow> string \<Rightarrow> int list \<Rightarrow> string result list result list \<Rightarrow> json list conn
     \<Rightarrow> (HAEvent \<times> json) list \<times> int list" where
  "SubscribeStateChanges e um token backoff dials sent = subscribe_loop e um token backoff dials 0 sent"

section \<open>Discovery and states\<close>

definition decode_entry :: "json \<Rightarrow> (string \<times> string) option" where
  "decode_entry j =
     (case (case j of JObj m \<Rightarrow> Some m | JNull \<Rightarrow> Some [] | _ \<Rightarrow> None) of
        None \<Rightarrow> None
      | Some m \<Rightarrow>
          (case (str_member m ''entity_id'', str_member m ''platform'') of
             (Some i, Some pf) \<Rightarrow> Some (i, pf) | _ \<Rightarrow> None))"

definition decode_entries :: "json_map \<Rightarrow> (string \<times> string) list option" where
  "decode_entries m =
     (case json_member m ''result'' of
        None \<Rightarrow> Some []
      | Some JNull \<Rightarrow> Some []
      | Some (JArr js) \<Rightarrow>
          if list_all (\<lambda>j. decode_entry j \<noteq> None) js then Some (List.map_filter decode_entry js) else None
      | _ \<Rightarrow> None)"

text \<open>\<open>strings.EqualFold\<close> on ASCII.\<close>

definition EqualFold :: "string \<Rightarrow> string \<Rightarrow> bool" where
  "EqualFold a b \<longleftrightarrow> to_lower a = to_lower b"

definition registry_request :: json where
  "registry_request = JObj [(''id'', JNum 1), (''type'', JStr ''config/entity_registry/list'')]"

definition DiscoverEntities ::
    "env \<Rightarrow> decoder \<Rightarrow> string \<Rightarrow> string \<Rightarrow> string result list result \<Rightarrow> json list conn
     \<Rightarrow> string list result \<times> json list conn" where
  "DiscoverEntities e um token platform dialed sent =
     (case dialed of
        Inl er \<Rightarrow> (Inl (Wrap ''ws dial failed'' er), sent)
      | Inr frames \<Rightarrow>
          (case handshake e um token frames sent of
             (Inl er, sent1) \<Rightarrow> (Inl (Wrap ''entity discovery auth'' er), sent1)
           | (Inr rest, sent1) \<Rightarrow>
               (case sendJSON e registry_request sent1 of
                  (Some er, sent2) \<Rightarrow> (Inl (Wrap ''entity discovery request'' er), sent2)
                | (None, sent2) \<Rightarrow>
                    (case readJSON um rest of
                       (Inl er, _) \<Rightarrow> (Inl (Wrap ''entity discovery read'' er), sent2)
                     | (Inr m, _) \<Rightarrow>
                         (case (int_member m ''id'', str_member m ''type'', bool_member m ''success'', decode_entries m) of
                            (Some _, Some _, Some success, Some entries) \<Rightarrow>
                              if \<not> success then
                                (Inl (Err ''entity discovery failed: response not successful''), sent2)
                              else (Inr (map fst (filter (\<lambda>(i, pf). EqualFold pf platform) entries)), sent2)
                          | _ \<Rightarrow> (Inl (Wrap ''entity discovery parse'' (Err ''invalid JSON'')), sent2))))))"

text \<open>\<open>first_value\<close> decodes the first value of a body, as \<open>json.NewDecoder\<close> does.\<close>

definition FetchStates :: "decoder \<Rightarrow> http_reply \<Rightarrow> HAState list result" where
  "FetchStates first_value reply =
     (case reply of
        Inl er \<Rightarrow> Inl er
      | Inr (status, body) \<Rightarrow>
          if status \<ge> 400 then Inl (Err (''ha rest error: '' @ itoa status))
          else case body of
                 Inl er \<Rightarrow> Inl er
               | Inr s \<Rightarrow>
                   (case Option.bind (first_value s) (decode_array (\<lambda>j. Option.bind (struct_members j) decode_state)) of
                      None \<Rightarrow> Inl (Err ''invalid JSON'')
                    | Some states \<Rightarrow> Inr states))"

text \<open>\<open>Start\<close>: what the service knows of the entities before it polls or subscribes.\<close>

definition start_filter :: "string list \<Rightarrow> string list result \<Rightarrow> ha_service" where
  "start_filter entityFilter discovered =
     \<lparr>hs_EntityFilter = entityFilter,
      hs_discovered = (if entityFilter = [] then
                         (case discovered of Inl er \<Rightarrow> {} | Inr entities \<Rightarrow> set entities) else {})\<rparr>"

section \<open>What is handed over\<close>

text \<open>The frames up to the first error of the connection.\<close>

fun until_error :: "string result list \<Rightarrow> string list" where
  "until_error (Inr payload # frames) = payload # until_error frames"
| "until_error _ = []"

lemma stream_events_filter: "fst (stream_events um frames) = List.map_filter (frame_event um) (until_error frames)"
  by (induction um frames rule: stream_events.induct) (auto simp: map_filter_simps Let_def split: prod.splits option.splits)

text \<open>
  The events handed over on a connection are those of its frames, in order and once each, after the
  authentication and the acknowledged subscription and before the first error; without these there is
  no event at all.
\<close>

lemma events_after_subscription:
  assumes "connectAndStream e um token dialed sent = (er, evs, sent')"
  shows "evs = [] \<or> (\<exists>frames rest rest1 sent1. dialed = Inr frames
      \<and> handshake e um token frames sent = (Inr rest, sent1)
      \<and> expectSubscribeOK um 1 rest = (None, rest1)
      \<and> evs = List.map_filter (frame_event um) (until_error rest1)
      \<and> subscribe_request 1 \<in> set (db sent'))"
proof (cases "evs = []")
  case False
  obtain frames rest sent1 sent2 rest1 where c: "dialed = Inr frames"
    "handshake e um token frames sent = (Inr rest, sent1)"
    "sendJSON e (subscribe_request 1) sent1 = (None, sent2)" "expectSubscribeOK um 1 rest = (None, rest1)"
    "evs = fst (stream_events um rest1)" "sent' = sent2"
    using assms False by (auto simp: connectAndStream_def Let_def split: sum.splits prod.splits option.splits)
  have "subscribe_request 1 \<in> set (db sent2)"
    using exec_stmt_None[OF c(3)[unfolded sendJSON_def]] by (metis Inr_inject in_set_conv_decomp)
  with c show ?thesis by (simp add: stream_events_filter)
qed simp

text \<open>
  The pause between connections only grows with the number of connections so far: it is never reset
  by a connection that worked, so after as many reconnections as there are steps in the configured
  back-off every later one waits the longest pause.
\<close>

theorem reconnect_pause_never_resets:
  "snd (SubscribeStateChanges e um token backoff dials sent) = map (backoff_wait backoff) [0..<length dials]
   \<and> (length backoff \<le> n \<longrightarrow> backoff_wait backoff n = last backoff)"
proof -
  have "snd (subscribe_loop e um token backoff dials k sent) = map (backoff_wait backoff) [k..<k + length dials]"
    for k
  proof (induction dials arbitrary: k sent)
    case (Cons d ds)
    obtain er evs sent1 where c: "connectAndStream e um token d sent = (er, evs, sent1)" by (rule prod_cases3)
    have "[k..<k + length (d # ds)] = k # [Suc k..<Suc k + length ds]"
      by (subst upt_conv_Cons) simp_all
    moreover have "snd (subscribe_loop e um token backoff (d # ds) k sent)
        = backoff_wait backoff k # snd (subscribe_loop e um token backoff ds (Suc k) sent1)"
      using c by (simp add: Let_def split: prod.splits)
    ultimately show ?case using Cons[of "Suc k" sent1] by (simp only: list.map)
  qed simp
  from this[of 0] show ?thesis by (simp add: SubscribeStateChanges_def backoff_wait_def)
qed

text \<open>
  When the discovery of entities fails or finds none, the service does not ignore all entities but
  takes every one whose id contains \<open>ecobee\<close>; after a discovery that finds some, or with an explicit
  filter, it takes exactly these.
\<close>

theorem entities_of_interest:
  "isEcobeeEntity (start_filter entityFilter discovered) k \<longleftrightarrow>
     (if entityFilter \<noteq> [] then k \<in> set entityFilter
      else case discovered of
             Inr entities \<Rightarrow> if entities \<noteq> [] then k \<in> set entities else contains_sub (to_lower k) ''ecobee''
           | Inl er \<Rightarrow> contains_sub (to_lower k) ''ecobee'')"
  by (auto simp: isEcobeeEntity_def start_filter_def split: sum.splits)

section \<open>Concrete runs\<close>

definition event_decoder :: decoder where
  "event_decoder s =
     (if s = ''ev'' then
        Some (JObj [(''id'', JNum 1), (''type'', JStr ''event''),
                    (''event'', JObj [(''data'', JObj [(''entity_id'', JStr ''x'')])])])
      else frame_decoder s)"

lemma events_after_subscription_witness:
  "map (\<lambda>(ev, raw). ev_EntityID ev) (fst (snd (connectAndStream all_done event_decoder ''t''
      (Inr [Inr ''required'', Inr ''ok'', Inr ''done'', Inr ''pong'', Inr ''ev'', Inl EOF]) \<lparr>db = [], calls = 0\<rparr>))) = [''x'']"
proof -
  define frames where "frames = [Inr ''required'', Inr ''ok'', Inr ''done'', Inr ''pong'', Inr ''ev'', Inl EOF :: string result]"
  obtain er evs sent where r: "connectAndStream all_done event_decoder ''t'' (Inr frames) \<lparr>db = [], calls = 0\<rparr>
      = (er, evs, sent)" by (rule prod_cases3)
  note defs = connectAndStream_def handshake_def expectAuthRequired_def expectAuthOK_def readJSON_def auth_message_def
    sendJSON_def outcome_simps decode_ack_def frame_event_def event_decoder_def frame_simps in_i64_def frames_def
    decode_event_def decode_state_ptr_def decode_context_def Let_def
  have "evs \<noteq> []" using r by (auto simp: defs)
  with events_after_subscription[OF r] obtain rest rest1 sent1 where h:
    "handshake all_done event_decoder ''t'' frames \<lparr>db = [], calls = 0\<rparr> = (Inr rest, sent1)"
    "expectSubscribeOK event_decoder 1 rest = (None, rest1)"
    "evs = List.map_filter (frame_event event_decoder) (until_error rest1)" by auto
  have "rest = [Inr ''done'', Inr ''pong'', Inr ''ev'', Inl EOF]" using h(1) by (auto simp: defs)
  with h(2) have "rest1 = [Inr ''pong'', Inr ''ev'', Inl EOF]" by (auto simp: defs)
  with h(3) have "map (\<lambda>(ev, raw). ev_EntityID ev) evs = [''x'']" by (simp add: defs map_filter_simps)
  with r show ?thesis by (simp add: frames_def)
qed

lemma reconnect_pause_never_resets_witness:
  "backoff_wait [1, 2, 5] 7 = last [1, 2, 5]"
  using reconnect_pause_never_resets[of all_done frame_decoder "''t''" "[1, 2, 5]" "[]" "\<lparr>db = [], calls = 0\<rparr>" 7]
  by simp

end
