(* ===== verification/Uf_Camera.thy ===== *)
theory Uf_Camera
  imports Uf_Video Ha_Client
begin

text \<open>
  \<open>services/unifi-video-jpg\<close> and \<open>services/unifi-video-kafka\<close>, around the stream: the integration API of the
  NVR (\<open>api/client.go\<close>), the life of one camera (\<open>runCamera\<close> of \<open>service/service.go\<close>) with its back-off
  and its hourly polling, the retention of the frames on disk, and the topics of the frames in Kafka.

  A reply of the API is an error, or a status and a body whose reading can fail.  \<open>first_value\<close> decodes the
  first value of a body, as \<open>json.NewDecoder\<close> does, \<open>um\<close> a whole body.  Cancellation is the end of the list of
  turns.
\<close>

section \<open>The API\<close>

definition basePath :: string where
  "basePath = ''/proxy/protect/integration/v1''"

definition api_host :: "string \<Rightarrow> string" where
  "api_host host = trim_right CHR ''/'' host"

definition request_url :: "string \<Rightarrow> string \<Rightarrow> string" where
  "request_url host p = host @ basePath @ p"

record CameraInfo =
  ci_ID :: string
  ci_Name :: string
  ci_State :: string

definition cam_IsConnected :: "CameraInfo \<Rightarrow> bool" where
  "cam_IsConnected c \<longleftrightarrow> ci_State c = ''CONNECTED''"

definition decode_camera :: "json \<Rightarrow> CameraInfo option" where
  "decode_camera j =
     (case struct_members j of
        None \<Rightarrow> None
      | Some m \<Rightarrow>
          (case (str_member m ''id'', str_member m ''name'', str_member m ''state'') of
             (Some i, Some n, Some s) \<Rightarrow> Some \<lparr>ci_ID = i, ci_Name = n, ci_State = s\<rparr>
           | _ \<Rightarrow> None))"

definition camera_map :: "CameraInfo list \<Rightarrow> (string \<times> CameraInfo) list" where
  "camera_map cams = fold (\<lambda>cam. AList.update (ci_ID cam) cam) cams []"

definition body_text :: "string result \<Rightarrow> string" where
  "body_text b = (case b of Inl er \<Rightarrow> [] | Inr s \<Rightarrow> s)"

definition fetch_cameras ::
    "(json \<Rightarrow> CameraInfo option) \<Rightarrow> decoder \<Rightarrow> http_reply \<Rightarrow> (string \<times> CameraInfo) list result" where
  "fetch_cameras decode first_value reply =
     (case reply of
        Inl er \<Rightarrow> Inl (Wrap ''fetch cameras'' er)
      | Inr (status, body) \<Rightarrow>
          if status \<noteq> 200 then Inl (Err (''cameras API returned '' @ itoa status @ '': '' @ body_text body))
          else case body of
                 Inl er \<Rightarrow> Inl (Wrap ''decode cameras'' er)
               | Inr s \<Rightarrow>
                   (case Option.bind (first_value s) (decode_array decode) of
                      None \<Rightarrow> Inl (Wrap ''decode cameras'' (Err ''invalid JSON''))
                    | Some cams \<Rightarrow> Inr (camera_map cams)))"

definition FetchCameras :: "decoder \<Rightarrow> http_reply \<Rightarrow> (string \<times> CameraInfo) list result" where
  "FetchCameras = fetch_cameras decode_camera"

text \<open>
  The three shapes a reply to \<open>rtsps-stream\<close> is tried in: an object of URLs by quality (in the order \<open>order\<close> of
  a Go map), an array of streams, a plain string.
\<close>

definition string_map :: "json \<Rightarrow> (string \<times> string) list option" where
  "string_map j =
     (case struct_members j of
        None \<Rightarrow> None
      | Some m \<Rightarrow>
          map_option (\<lambda>kvs. fold (\<lambda>(k, v). AList.update k v) kvs [])
            (those (map (\<lambda>(k, v). case v of JStr s \<Rightarrow> Some (k, s) | JNull \<Rightarrow> Some (k, []) | _ \<Rightarrow> None) m)))"

definition quality_url :: "header_order \<Rightarrow> json \<Rightarrow> string option" where
  "quality_url order j =
     (case string_map j of
        None \<Rightarrow> None
      | Some qualityMap \<Rightarrow>
          (case map_of qualityMap ''high'' of
             Some url \<Rightarrow> if url \<noteq> [] then Some url else find (\<lambda>u. u \<noteq> []) (map snd (order qualityMap))
           | None \<Rightarrow> find (\<lambda>u. u \<noteq> []) (map snd (order qualityMap))))"

definition stream_url :: "json \<Rightarrow> string option" where
  "stream_url j =
     (case decode_array (\<lambda>s. case struct_members s of
                               None \<Rightarrow> None
                             | Some m \<Rightarrow> (case (str_member m ''quality'', str_member m ''url'') of
                                            (Some q, Some url) \<Rightarrow> Some url | _ \<Rightarrow> None)) j of
        None \<Rightarrow> None
      | Some urls \<Rightarrow> find (\<lambda>u. u \<noteq> []) urls)"

definition plain_url :: "json \<Rightarrow> string option" where
  "plain_url j = (case j of JStr url \<Rightarrow> if url \<noteq> [] then Some url else None | _ \<Rightarrow> None)"

definition CreateRTSPSStream :: "decoder \<Rightarrow> header_order \<Rightarrow> http_reply \<Rightarrow> string result" where
  "CreateRTSPSStream um order reply =
     (case reply of
        Inl er \<Rightarrow> Inl (Wrap ''create rtsps-stream'' er)
      | Inr (status, Inl er) \<Rightarrow> Inl (Wrap ''read rtsps-stream response'' er)
      | Inr (status, Inr body) \<Rightarrow>
          if status \<noteq> 200 then Inl (Err (''rtsps-stream API returned '' @ itoa status @ '': '' @ body))
          else let no_url = Inl (Err (''could not extract RTSPS URL from response: '' @ body)) in
               case um body of
                 None \<Rightarrow> no_url
               | Some j \<Rightarrow>
                   (case quality_url order j of
                      Some url \<Rightarrow> Inr url
                    | None \<Rightarrow>
                        (case stream_url j of
                           Some url \<Rightarrow> Inr url
                         | None \<Rightarrow> (case plain_url j of Some url \<Rightarrow> Inr url | None \<Rightarrow> no_url))))"

section \<open>The life of a camera\<close>

text \<open>The directory its frames go to.\<close>

definition camera_dir :: "path \<Rightarrow> CameraInfo \<Rightarrow> path" where
  "camera_dir jpgOutputDir cam = path_join jpgOutputDir [sanitizeName (ci_Name cam)]"

text \<open>What the camera's goroutine does, for the properties: it waits, asks the API, streams.\<close>

datatype cam_action = PollWait | CheckCameras | RequestURL | StreamFrom string | BackOff int

record camera_state =
  cs_connected :: bool
  cs_backoffIdx :: int

text \<open>
  What one turn of the loop meets: the replies it gets if it asks, and the two readings of the time since the
  stream started.
\<close>

record camera_turn_input =
  ct_cameras :: http_reply
  ct_url :: http_reply
  ct_since1 :: int
  ct_since2 :: int

definition checkCameraConnected :: "decoder \<Rightarrow> http_reply \<Rightarrow> string \<Rightarrow> bool" where
  "checkCameraConnected first_value reply cameraID =
     (case FetchCameras first_value reply of
        Inl er \<Rightarrow> False
      | Inr cameras \<Rightarrow> (case map_of cameras cameraID of None \<Rightarrow> False | Some cam \<Rightarrow> cam_IsConnected cam))"

text \<open>\<open>backoff\<close>: the pause and the next index; an index outside the list panics, \<open>None\<close>.\<close>

definition backoff_step :: "int list \<Rightarrow> int \<Rightarrow> (int \<times> int) option" where
  "backoff_step delays idx =
     (let i = (if idx \<ge> int (length delays) then int (length delays) - 1 else idx)
      in if 0 \<le> i \<and> i < int (length delays) then Some (delays ! nat i, i + 1) else None)"

definition camera_pause ::
    "int list \<Rightarrow> cam_action list \<Rightarrow> camera_state \<Rightarrow> (cam_action list \<times> camera_state) option" where
  "camera_pause delays acts st =
     (case backoff_step delays (cs_backoffIdx st) of
        None \<Rightarrow> None
      | Some (delay, idx) \<Rightarrow> Some (acts @ [BackOff delay], st\<lparr>cs_backoffIdx := idx\<rparr>))"

text \<open>After a failure: at the longest pause the state of the camera is looked up again.\<close>

definition camera_retry ::
    "decoder \<Rightarrow> int list \<Rightarrow> string \<Rightarrow> http_reply \<Rightarrow> bool \<Rightarrow> cam_action list \<Rightarrow> camera_state
     \<Rightarrow> (cam_action list \<times> camera_state) option" where
  "camera_retry first_value delays cameraID cameras quick acts st =
     (if quick \<and> cs_backoffIdx st \<ge> int (length delays) - 1 then
        let connected = checkCameraConnected first_value cameras cameraID;
            st1 = st\<lparr>cs_connected := connected\<rparr>
        in if \<not> connected then Some (acts @ [CheckCameras], st1)
           else camera_pause delays (acts @ [CheckCameras]) st1
      else camera_pause delays acts st)"

definition camera_turn ::
    "decoder \<Rightarrow> decoder \<Rightarrow> header_order \<Rightarrow> int list \<Rightarrow> string \<Rightarrow> camera_turn_input \<Rightarrow> camera_state
     \<Rightarrow> (cam_action list \<times> camera_state) option" where
  "camera_turn first_value um order delays cameraID t st =
     (if \<not> cs_connected st then
        let connected = checkCameraConnected first_value (ct_cameras t) cameraID;
            st1 = st\<lparr>cs_connected := connected\<rparr>
        in Some ([PollWait, CheckCameras], if connected then st1\<lparr>cs_backoffIdx := 0\<rparr> else st1)
      else case CreateRTSPSStream um order (ct_url t) of
             Inl er \<Rightarrow> camera_retry first_value delays cameraID (ct_cameras t) True [RequestURL] st
           | Inr url \<Rightarrow>
               let st1 = (if ct_since1 t > 60000000000 then st\<lparr>cs_backoffIdx := 0\<rparr> else st)
               in camera_retry first_value delays cameraID (ct_cameras t) (ct_since2 t < 60000000000)
                    [RequestURL, StreamFrom url] st1)"

fun run_camera ::
    "decoder \<Rightarrow> decoder \<Rightarrow> header_order \<Rightarrow> int list \<Rightarrow> string \<Rightarrow> camera_turn_input list \<Rightarrow> camera_state
     \<Rightarrow> (cam_action list \<times> camera_state) option" where
  "run_camera first_value um order delays cameraID [] st = Some ([], st)"
| "run_camera first_value um order delays cameraID (t # ts) st =
     (case camera_turn first_value um order delays cameraID t st of
        None \<Rightarrow> None
      | Some (acts, st1) \<Rightarrow>
          (case run_camera first_value um order delays cameraID ts st1 of
             None \<Rightarrow> None
           | Some (acts', st2) \<Rightarrow> Some (acts @ acts', st2)))"

definition camera_start :: "CameraInfo \<Rightarrow> camera_state" where
  "camera_start cam = \<lparr>cs_connected = cam_IsConnected cam, cs_backoffIdx = 0\<rparr>"

text \<open>\<open>Start\<close>: one such goroutine for each camera found.\<close>

definition start_cameras :: "decoder \<Rightarrow> http_reply \<Rightarrow> (CameraInfo \<times> camera_state) list result" where
  "start_cameras first_value reply =
     (case FetchCameras first_value reply of
        Inl er \<Rightarrow> Inl er
      | Inr cameras \<Rightarrow> Inr (map (\<lambda>(i, cam). (cam, camera_start cam)) cameras))"

section \<open>Frames on disk\<close>

definition source_remove :: "path \<Rightarrow> string \<Rightarrow> files \<Rightarrow> files result" where
  "source_remove dir name fs =
     (case fl_source fs dir of
        None \<Rightarrow> Inl (Err ''no such directory'')
      | Some entries \<Rightarrow>
          if map_of entries name = None then Inl (Err ''no such file'')
          else Inr (fs\<lparr>fl_source := (fl_source fs)(dir := Some (AList.delete name entries))\<rparr>))"

text \<open>\<open>int64(retention.Seconds())\<close>.\<close>

definition duration_seconds :: "int \<Rightarrow> int" where
  "duration_seconds d =
     int_of_float (f64 (f64 (of_int (go_div d 1000000000)) + f64 (f64 (of_int (go_mod d 1000000000)) / 1000000000)))"

definition jpg_cutoff :: "int \<Rightarrow> int \<Rightarrow> int" where
  "jpg_cutoff retention now = i64 (unix now - duration_seconds retention)"

definition cleanup_entry :: "env \<Rightarrow> path \<Rightarrow> int \<Rightarrow> string \<times> string option \<Rightarrow> files conn \<Rightarrow> files conn" where
  "cleanup_entry e dir cutoff = (\<lambda>(name, node) c.
     if node = None then c
     else case frame_second name of
            None \<Rightarrow> c
          | Some ts \<Rightarrow> if ts < cutoff then snd (exec_stmt e (source_remove dir name) c) else c)"

definition doCleanup :: "env \<Rightarrow> path \<Rightarrow> int \<Rightarrow> int \<Rightarrow> files conn \<Rightarrow> files conn" where
  "doCleanup e dir retention now c =
     (case query_stmt e (read_source dir) c of
        (Inl er, c1) \<Rightarrow> c1
      | (Inr entries, c1) \<Rightarrow> fold (cleanup_entry e dir (jpg_cutoff retention now)) entries c1)"

text \<open>Once at the start and at every tick; \<open>ticks\<close> are the readings of the clock.\<close>

definition runRetention :: "env \<Rightarrow> path \<Rightarrow> int \<Rightarrow> int list \<Rightarrow> files conn \<Rightarrow> files conn" where
  "runRetention e dir retention ticks c = fold (doCleanup e dir retention) ticks c"

section \<open>Topics of frames\<close>

text \<open>
  The topics of the broker with their configuration.  Creating a topic that exists is the answer \<open>True\<close>; any
  other error code is a refusal.  \<open>AlterConfigs\<close> replaces the configuration.
\<close>

type_synonym topics = "string \<rightharpoonup> (string \<times> string) list"

definition topicPrefix :: string where
  "topicPrefix = ''unifi.protect.video.''"

definition frame_topic :: "string \<Rightarrow> string" where
  "frame_topic cameraName = topicPrefix @ sanitizeName cameraName"

definition topicConfig :: "(string \<times> string) list" where
  "topicConfig = [(''retention.ms'', ''1800000''), (''segment.ms'', ''60000'')]"

definition create_topic :: "string \<Rightarrow> topics \<Rightarrow> (bool \<times> topics) result" where
  "create_topic topic ts =
     (case ts topic of Some config \<Rightarrow> Inr (True, ts) | None \<Rightarrow> Inr (False, ts(topic \<mapsto> topicConfig)))"

definition updateTopicConfig :: "env \<Rightarrow> string \<Rightarrow> topics conn \<Rightarrow> go_error option \<times> topics conn" where
  "updateTopicConfig e topic c =
     (case exec_stmt e (\<lambda>ts. Inr (ts(topic \<mapsto> topicConfig))) c of
        (Some er, c1) \<Rightarrow> (Some (Wrap ''alter config'' er), c1)
      | (None, c1) \<Rightarrow> (None, c1))"

definition EnsureTopic :: "env \<Rightarrow> go_error option \<Rightarrow> string \<Rightarrow> topics conn \<Rightarrow> go_error option \<times> topics conn" where
  "EnsureTopic e admin topic c =
     (case admin of
        Some er \<Rightarrow> (Some (Wrap ''create admin client'' er), c)
      | None \<Rightarrow>
          (case exec_returning e (create_topic topic) c of
             (Inl er, c1) \<Rightarrow> (Some (Wrap (''create topic '' @ topic) er), c1)
           | (Inr True, c1) \<Rightarrow> (None, snd (updateTopicConfig e topic c1))
           | (Inr False, c1) \<Rightarrow> (None, c1)))"

lemma topic_gets_config:
  "EnsureTopic all_done None topic c = (None, c') \<and> db c' topic = Some topicConfig
   \<and> (\<forall>t. t \<noteq> topic \<longrightarrow> db c' t = db c t)" if "c' = snd (EnsureTopic all_done None topic c)"
  using that
  by (cases "db c topic")
    (auto simp: EnsureTopic_def updateTopicConfig_def create_topic_def outcome_simps)

section \<open>The back-off of a camera\<close>

definition pauses :: "cam_action list \<Rightarrow> int list" where
  "pauses acts = List.map_filter (\<lambda>a. case a of BackOff d \<Rightarrow> Some d | _ \<Rightarrow> None) acts"

lemma pauses_simps [simp]:
  "pauses [] = []" "pauses (BackOff d # acts) = d # pauses acts"
  "pauses (PollWait # acts) = pauses acts" "pauses (CheckCameras # acts) = pauses acts"
  "pauses (RequestURL # acts) = pauses acts" "pauses (StreamFrom url # acts) = pauses acts"
  "pauses (acts @ acts') = pauses acts @ pauses acts'"
  by (simp_all add: pauses_def map_filter_simps map_filter_def)

definition idx_ok :: "int list \<Rightarrow> camera_state \<Rightarrow> bool" where
  "idx_ok delays st \<longleftrightarrow> 0 \<le> cs_backoffIdx st \<and> cs_backoffIdx st \<le> int (length delays)"

text \<open>One pause from an index in range.\<close>

lemma backoff_step_at:
  assumes "delays \<noteq> []" "k \<le> length delays"
  shows "backoff_step delays (int k) = Some (backoff_wait delays k, int (min (Suc k) (length delays)))"
proof (cases "k < length delays")
  case True
  then show ?thesis by (simp add: backoff_step_def backoff_wait_def)
next
  case False
  with assms have "k = length delays" by simp
  with assms show ?thesis by (simp add: backoff_step_def backoff_wait_def last_conv_nth nat_diff_distrib Suc_leI)
qed

lemma backoff_wait_in: "delays \<noteq> [] \<Longrightarrow> backoff_wait delays k \<in> set delays"
  by (simp add: backoff_wait_def)

lemma camera_pause_ok:
  assumes "delays \<noteq> []" "idx_ok delays st"
  obtains d st' where "camera_pause delays acts st = Some (acts @ [BackOff d], st')" "d \<in> set delays" "idx_ok delays st'"
    "cs_connected st' = cs_connected st"
proof -
  obtain k where k: "cs_backoffIdx st = int k" "k \<le> length delays"
    using assms(2) by (metis idx_ok_def nonneg_int_cases of_nat_le_iff)
  show thesis
    by (rule that[of "backoff_wait delays k" "st\<lparr>cs_backoffIdx := int (min (Suc k) (length delays))\<rparr>"])
      (use assms(1) k in \<open>simp_all add: camera_pause_def backoff_step_at backoff_wait_in idx_ok_def\<close>)
qed

lemma camera_turn_ok:
  assumes d: "delays \<noteq> []" and i: "idx_ok delays st"
  obtains acts st' where "camera_turn fv um order delays cid t st = Some (acts, st')" "set (pauses acts) \<subseteq> set delays"
    "idx_ok delays st'"
proof -
  have retry: "\<exists>acts' st'. camera_retry fv delays cid cams quick acts s = Some (acts', st')
      \<and> set (pauses acts') \<subseteq> set delays \<and> idx_ok delays st'"
    if ok: "idx_ok delays s" and none: "pauses acts = []" for cams quick acts s
  proof -
    have b: "idx_ok delays (s\<lparr>cs_connected := True\<rparr>)" using ok by (simp add: idx_ok_def)
    obtain d1 s1 where p1: "camera_pause delays (acts @ [CheckCameras]) (s\<lparr>cs_connected := True\<rparr>)
        = Some ((acts @ [CheckCameras]) @ [BackOff d1], s1)" "d1 \<in> set delays" "idx_ok delays s1"
      using camera_pause_ok[OF d b, of "acts @ [CheckCameras]"] by blast
    obtain d2 s2 where p2: "camera_pause delays acts s = Some (acts @ [BackOff d2], s2)" "d2 \<in> set delays" "idx_ok delays s2"
      using camera_pause_ok[OF d ok, of acts] by blast
    show ?thesis
    proof (cases "quick \<and> cs_backoffIdx s \<ge> int (length delays) - 1")
      case True
      show ?thesis
      proof (cases "checkCameraConnected fv cams cid")
        case c: True
        have "camera_retry fv delays cid cams quick acts s = Some ((acts @ [CheckCameras]) @ [BackOff d1], s1)"
          using True c p1(1) by (simp add: camera_retry_def)
        with p1(2,3) none show ?thesis by auto
      next
        case False
        with True ok none show ?thesis by (auto simp: camera_retry_def Let_def idx_ok_def)
      qed
    next
      case False
      then have "camera_retry fv delays cid cams quick acts s = camera_pause delays acts s"
        by (auto simp: camera_retry_def)
      with none p2 show ?thesis by auto
    qed
  qed
  have "idx_ok delays (st\<lparr>cs_backoffIdx := 0\<rparr>)" by (simp add: idx_ok_def)
  then have "\<exists>acts st'. camera_turn fv um order delays cid t st = Some (acts, st') \<and> set (pauses acts) \<subseteq> set delays
      \<and> idx_ok delays st'"
    using i retry[of st "[RequestURL]"] retry[of _ "[RequestURL, StreamFrom _]"]
    by (auto simp: camera_turn_def Let_def idx_ok_def split: sum.splits)
  then show thesis using that by blast
qed

lemma run_camera_ok:
  assumes "delays \<noteq> []" "idx_ok delays st"
  shows "\<exists>acts st'. run_camera fv um order delays cid ts st = Some (acts, st') \<and> set (pauses acts) \<subseteq> set delays
     \<and> idx_ok delays st'"
  using assms(2)
proof (induction ts arbitrary: st)
  case (Cons t ts)
  obtain acts st1 where t: "camera_turn fv um order delays cid t st = Some (acts, st1)" "set (pauses acts) \<subseteq> set delays"
    "idx_ok delays st1"
    by (rule camera_turn_ok[OF assms(1) Cons.prems])
  from Cons.IH[OF t(3)] t show ?case by auto
qed simp

text \<open>A run of failures while the camera is connected: no stream, the index climbs.\<close>

definition failed_turn :: "decoder \<Rightarrow> decoder \<Rightarrow> header_order \<Rightarrow> string \<Rightarrow> camera_turn_input \<Rightarrow> bool" where
  "failed_turn first_value um order cameraID t \<longleftrightarrow>
     (case CreateRTSPSStream um order (ct_url t) of
        Inl er \<Rightarrow> True
      | Inr url \<Rightarrow> ct_since1 t \<le> 60000000000 \<and> ct_since2 t < 60000000000)
     \<and> checkCameraConnected first_value (ct_cameras t) cameraID"

lemma failed_turn_pause:
  assumes "delays \<noteq> []" "failed_turn fv um order cid t" "cs_connected st" "cs_backoffIdx st = int k" "k \<le> length delays"
  obtains acts where "camera_turn fv um order delays cid t st
      = Some (acts, st\<lparr>cs_backoffIdx := int (min (Suc k) (length delays))\<rparr>)"
    "pauses acts = [backoff_wait delays k]"
proof -
  have "st\<lparr>cs_connected := True\<rparr> = st" using assms(3) by simp
  then have "\<exists>acts. camera_turn fv um order delays cid t st
      = Some (acts, st\<lparr>cs_backoffIdx := int (min (Suc k) (length delays))\<rparr>) \<and> pauses acts = [backoff_wait delays k]"
    using assms
    by (cases "CreateRTSPSStream um order (ct_url t)")
      (auto simp: camera_turn_def camera_retry_def camera_pause_def failed_turn_def backoff_step_at Let_def)
  then show thesis using that by blast
qed

lemma backoff_wait_min [simp]: "backoff_wait delays (min k (length delays)) = backoff_wait delays k"
  by (simp add: backoff_wait_def min_def)

lemma failed_turns_pauses:
  assumes "delays \<noteq> []" "\<forall>t \<in> set ts. failed_turn fv um order cid t" "cs_connected st"
    "cs_backoffIdx st = int (min k (length delays))"
  shows "\<exists>acts st'. run_camera fv um order delays cid ts st = Some (acts, st')
     \<and> pauses acts = map (backoff_wait delays) [k..<k + length ts]"
  using assms(2,3,4)
proof (induction ts arbitrary: st k)
  case (Cons t ts)
  have t: "failed_turn fv um order cid t" using Cons.prems(1) by simp
  obtain acts where a: "camera_turn fv um order delays cid t st
      = Some (acts, st\<lparr>cs_backoffIdx := int (min (Suc (min k (length delays))) (length delays))\<rparr>)"
    "pauses acts = [backoff_wait delays k]"
    using failed_turn_pause[OF assms(1) t Cons.prems(2,3) min.cobounded2] by (metis backoff_wait_min)
  have "min (Suc (min k (length delays))) (length delays) = min (Suc k) (length delays)" by simp
  with a(1) have a1: "camera_turn fv um order delays cid t st
      = Some (acts, st\<lparr>cs_backoffIdx := int (min (Suc k) (length delays))\<rparr>)" by simp
  obtain acts' st' where "run_camera fv um order delays cid ts (st\<lparr>cs_backoffIdx := int (min (Suc k) (length delays))\<rparr>)
      = Some (acts', st')" "pauses acts' = map (backoff_wait delays) [Suc k..<Suc k + length ts]"
    using Cons.IH[of "st\<lparr>cs_backoffIdx := int (min (Suc k) (length delays))\<rparr>" "Suc k"] Cons.prems by auto
  with a1 a(2) show ?case by (simp add: upt_conv_Cons del: upt_Suc)
qed simp

text \<open>An offline camera is only polled.\<close>

lemma offline_camera_polls:
  assumes "\<not> cs_connected st" "\<forall>t \<in> set ts. \<not> checkCameraConnected fv (ct_cameras t) cid"
  shows "run_camera fv um order delays cid ts st = Some (concat (replicate (length ts) [PollWait, CheckCameras]), st)"
  using assms
proof (induction ts)
  case (Cons t ts)
  then have "camera_turn fv um order delays cid t st = Some ([PollWait, CheckCameras], st)"
    by (simp add: camera_turn_def)
  with Cons show ?case by simp
qed simp

text \<open>
  C36: With a back-off configured, a camera's goroutine never indexes outside it, waits only the configured
  pauses, and while every attempt fails and the camera is connected, the k-th failure waits the k-th pause,
  then the last one.
\<close>

theorem camera_backs_off:
  assumes "delays \<noteq> []"
  shows "\<exists>acts st'. run_camera fv um order delays cid ts (camera_start cam) = Some (acts, st')
     \<and> set (pauses acts) \<subseteq> set delays \<and> 0 \<le> cs_backoffIdx st' \<and> cs_backoffIdx st' \<le> int (length delays)
     \<and> (cam_IsConnected cam \<and> list_all (failed_turn fv um order cid) ts
          \<longrightarrow> pauses acts = map (backoff_wait delays) [0..<length ts])"
proof -
  have "idx_ok delays (camera_start cam)" by (simp add: idx_ok_def camera_start_def)
  from run_camera_ok[OF assms this] obtain acts st' where r:
    "run_camera fv um order delays cid ts (camera_start cam) = Some (acts, st')" "set (pauses acts) \<subseteq> set delays"
    "idx_ok delays st'" by blast
  moreover have "pauses acts = map (backoff_wait delays) [0..<length ts]"
    if "cam_IsConnected cam \<and> list_all (failed_turn fv um order cid) ts"
    using failed_turns_pauses[OF assms, of ts fv um order cid "camera_start cam" 0] that r(1)
    by (simp add: list_all_iff camera_start_def)
  ultimately show ?thesis by (auto simp: idx_ok_def)
qed

text \<open>Without one, the first failure panics.\<close>

lemma empty_backoff_panics:
  assumes "cs_connected st" "failed_turn fv um order cid t"
  shows "run_camera fv um order [] cid (t # ts) st = None"
proof -
  have "backoff_step [] i = None" for i by (simp add: backoff_step_def)
  then have "camera_turn fv um order [] cid t st = None"
    using assms by (cases "CreateRTSPSStream um order (ct_url t)")
      (auto simp: camera_turn_def camera_retry_def camera_pause_def failed_turn_def Let_def)
  then show ?thesis by simp
qed

section \<open>What retention removes\<close>

definition doomed :: "int \<Rightarrow> (string \<times> string option) list \<Rightarrow> string set" where
  "doomed cutoff entries =
     {name. \<exists>bytes ts. (name, Some bytes) \<in> set entries \<and> frame_second name = Some ts \<and> ts < cutoff}"

definition keep_source :: "path \<Rightarrow> string set \<Rightarrow> (string \<times> string option) list \<Rightarrow> files \<Rightarrow> files" where
  "keep_source dir R entries fs =
     fs\<lparr>fl_source := (fl_source fs)(dir := Some (filter (\<lambda>(n, node). n \<notin> R) entries))\<rparr>"

lemma source_remove_filter:
  assumes "name \<notin> R" "name \<in> fst ` set entries"
  shows "source_remove dir name (keep_source dir R entries fs) = Inr (keep_source dir (insert name R) entries fs)"
proof -
  have "map_of (filter (\<lambda>(n, node). n \<notin> R) entries) name \<noteq> None"
    using assms by (auto simp: map_of_eq_None_iff)
  moreover have "AList.delete name (filter (\<lambda>(n, node). n \<notin> R) entries) = filter (\<lambda>(n, node). n \<notin> insert name R) entries"
    by (auto simp: AList.delete_eq intro!: filter_cong)
  ultimately show ?thesis by (simp add: source_remove_def keep_source_def)
qed

lemma cleanup_fold:
  assumes "set es \<subseteq> set entries" "distinct (map fst es)" "R \<inter> fst ` set es = {}"
    "db c = keep_source dir R entries fs"
  shows "\<exists>R' \<subseteq> doomed cutoff es. db (fold (cleanup_entry e dir cutoff) es c) = keep_source dir (R \<union> R') entries fs
     \<and> (e = all_done \<longrightarrow> R' = doomed cutoff es)"
  using assms
proof (induction es arbitrary: R c)
  case Nil
  then show ?case by (intro exI[of _ "{}"]) (simp add: doomed_def)
next
  case (Cons x es)
  obtain name node where x: "x = (name, node)" by fastforce
  have rest: "set es \<subseteq> set entries" "distinct (map fst es)" using Cons.prems by simp_all
  have mono: "doomed cutoff es \<subseteq> doomed cutoff (x # es)" by (auto simp: doomed_def)
  consider (stay) "cleanup_entry e dir cutoff x c = c" "doomed cutoff (x # es) = doomed cutoff es"
    | (old) "cleanup_entry e dir cutoff x c = snd (exec_stmt e (source_remove dir name) c)"
        "doomed cutoff (x # es) = insert name (doomed cutoff es)"
  proof (cases "node = None \<or> frame_second name = None \<or> \<not> the (frame_second name) < cutoff")
    case True
    then have "cleanup_entry e dir cutoff x c = c" by (auto simp: cleanup_entry_def x split: option.splits)
    moreover have "doomed cutoff (x # es) = doomed cutoff es" using True by (auto simp: doomed_def x)
    ultimately show thesis by (rule stay)
  next
    case False
    then have "cleanup_entry e dir cutoff x c = snd (exec_stmt e (source_remove dir name) c)"
      by (auto simp: cleanup_entry_def x)
    moreover have "doomed cutoff (x # es) = insert name (doomed cutoff es)" using False by (auto simp: doomed_def x)
    ultimately show thesis by (rule old)
  qed
  then show ?case
  proof cases
    case stay
    with Cons.IH[OF rest _ Cons.prems(4)] Cons.prems(3) show ?thesis by auto
  next
    case old
    have name: "name \<notin> R" "name \<in> fst ` set entries" "name \<notin> fst ` set es"
      using Cons.prems(1-3) x by (auto simp: image_iff) force+
    have removed: "source_remove dir name (db c) = Inr (keep_source dir (insert name R) entries fs)"
      using source_remove_filter[OF name(1,2)] Cons.prems(4) by simp
    let ?c1 = "cleanup_entry e dir cutoff x c"
    have gone: "db (snd (exec_stmt all_done (source_remove dir name) c)) = keep_source dir (insert name R) entries fs"
      using removed by (simp add: outcome_simps)
    obtain r c1 where c1: "exec_stmt e (source_remove dir name) c = (r, c1)" by fastforce
    have "db c1 = keep_source dir R entries fs \<or> db c1 = keep_source dir (insert name R) entries fs"
      using c1 by (rule exec_stmt_cases) (use removed Cons.prems(4) in simp_all)
    then have "db ?c1 = keep_source dir R entries fs \<and> e \<noteq> all_done \<or> db ?c1 = keep_source dir (insert name R) entries fs"
      using gone c1 old(1) by (cases "e = all_done") auto
    then show ?thesis
    proof
      assume u: "db ?c1 = keep_source dir R entries fs \<and> e \<noteq> all_done"
      obtain R' where "R' \<subseteq> doomed cutoff es"
        "db (fold (cleanup_entry e dir cutoff) es ?c1) = keep_source dir (R \<union> R') entries fs"
        using Cons.IH[OF rest _ conjunct1[OF u]] Cons.prems(3) by auto
      with u old(2) show ?thesis by (intro exI[of _ R']) auto
    next
      assume ch: "db ?c1 = keep_source dir (insert name R) entries fs"
      have "insert name R \<inter> fst ` set es = {}" using name(3) Cons.prems(3) by auto
      from Cons.IH[OF rest this ch] obtain R' where "R' \<subseteq> doomed cutoff es"
        "db (fold (cleanup_entry e dir cutoff) es ?c1) = keep_source dir (insert name R \<union> R') entries fs"
        "e = all_done \<longrightarrow> R' = doomed cutoff es" by blast
      with old(2) show ?thesis by (intro exI[of _ "insert name R'"]) auto
    qed
  qed
qed

text \<open>
  One pass of the retention, whatever fails: what goes are frames older than the cutoff; when nothing fails
  they all go.
\<close>

lemma retention_pass:
  assumes "fl_source (db c) dir = Some entries" "distinct (map fst entries)"
  shows "\<exists>R \<subseteq> doomed (jpg_cutoff retention now) entries.
     db (doCleanup e dir retention now c) = keep_source dir R entries (db c)
     \<and> (e = all_done \<longrightarrow> R = doomed (jpg_cutoff retention now) entries)"
proof -
  obtain r c1 where q: "query_stmt e (read_source dir) c = (r, c1)" by fastforce
  have db: "db c1 = db c" using query_stmt_db[of e "read_source dir" c] q by simp
  have "(fl_source (db c))(dir := Some entries) = fl_source (db c)" using assms(1) by auto
  then have keep: "db c1 = keep_source dir {} entries (db c)" by (simp add: db keep_source_def)
  show ?thesis
  proof (cases r)
    case (Inl er)
    then have "e \<noteq> all_done" using q assms(1) by (auto simp: outcome_simps read_source_def)
    with Inl keep q show ?thesis by (intro exI[of _ "{}"]) (simp add: doCleanup_def)
  next
    case (Inr es)
    then have "es = entries" using query_stmt_Inr[of e "read_source dir" c es c1] q assms(1) by (simp add: read_source_def)
    with Inr q cleanup_fold[OF subset_refl assms(2) _ keep, of "jpg_cutoff retention now" e] show ?thesis
      by (simp add: doCleanup_def)
  qed
qed

section \<open>Concrete runs\<close>

definition camera_decoder :: decoder where
  "camera_decoder = map_of [(''cams'', JArr [JObj [(''id'', JStr ''c1''), (''name'', JStr ''Cam''), (''state'', JStr ''CONNECTED'')]])]"

lemma camera_backs_off_witness:
  "\<exists>acts st'. run_camera camera_decoder camera_decoder id [1, 5] ''c1''
      (replicate 3 \<lparr>ct_cameras = Inr (200, Inr ''cams''), ct_url = Inl EOF, ct_since1 = 0, ct_since2 = 0\<rparr>)
      (camera_start \<lparr>ci_ID = ''c1'', ci_Name = ''Cam'', ci_State = ''CONNECTED''\<rparr>) = Some (acts, st')
    \<and> pauses acts = [1, 5, 5]"
proof -
  let ?cam = "\<lparr>ci_ID = ''c1'', ci_Name = ''Cam'', ci_State = ''CONNECTED''\<rparr>"
  let ?t = "\<lparr>ct_cameras = Inr (200, Inr ''cams''), ct_url = Inl EOF, ct_since1 = 0, ct_since2 = 0\<rparr>"
  have "checkCameraConnected camera_decoder (Inr (200, Inr ''cams'')) ''c1''" by code_simp
  then have "list_all (failed_turn camera_decoder camera_decoder id ''c1'') (replicate 3 ?t)"
    by (simp add: failed_turn_def CreateRTSPSStream_def numeral_eq_Suc)
  moreover have "map (backoff_wait [1, 5]) [0..<3] = [1, 5, 5]"
    by (simp add: backoff_wait_def numeral_eq_Suc)
  moreover have "cam_IsConnected ?cam" by (simp add: cam_IsConnected_def)
  ultimately show ?thesis
    using camera_backs_off[of "[1, 5]" camera_decoder camera_decoder id "''c1''" "replicate 3 ?t" ?cam] by auto
qed

end
