(* ===== verification/Uv_Service.thy ===== *)
theory Uv_Service
  imports Uf_Camera "HOL-Library.Sublist"
begin

text \<open>
  \<open>services/unifi-video-kafka/service\<close> and its \<open>stream/runner.go\<close>: one goroutine per camera asks for a stream,
  cuts it into frames and publishes them to the topic of the camera.  \<open>runCamera\<close> is given as a function of what
  one camera meets, and as the moves of a goroutine between which other cameras publish to the same broker;
  the moves of one camera alone do what the function does.
\<close>

section \<open>The runner\<close>

text \<open>One run of ffmpeg: the errors of its start, what it writes, its exit, and the clock at each frame.\<close>

record stream_run =
  vr_pipe :: "go_error option"
  vr_started :: "go_error option"
  vr_reads :: "(string \<times> go_error option) list"
  vr_exit :: "go_error option"
  vr_cancelled :: bool
  vr_clock :: "nat \<Rightarrow> int"

definition video_Run ::
    "env \<Rightarrow> header_order \<Rightarrow> string \<Rightarrow> string \<Rightarrow> string \<Rightarrow> stream_run \<Rightarrow> kafka conn \<Rightarrow> go_error \<times> kafka conn" where
  "video_Run e order topic cameraID cameraName r c =
     (case vr_pipe r of
        Some er \<Rightarrow> (Wrap ''create stdout pipe'' er, c)
      | None \<Rightarrow>
          (case vr_started r of
             Some er \<Rightarrow> (Wrap ''start ffmpeg'' er, c)
           | None \<Rightarrow>
               (let (err, st) = readFrames (publishFrame e order topic cameraID cameraName) (vr_clock r) (vr_reads r)
                                  ([], \<lparr>fr_seen = 0, fr_count = 0, fr_out = c\<rparr>)
                in (run_result (vr_cancelled r) err (vr_exit r) (fr_count st), fr_out st))))"

section \<open>The life of a camera\<close>

text \<open>
  One pass of the loop.  The last component is whether the goroutine returns, as it does after a stream
  that ended with the context.  \<open>None\<close> is the panic of an index outside the back-off list.
\<close>

definition video_turn ::
    "env \<Rightarrow> decoder \<Rightarrow> decoder \<Rightarrow> header_order \<Rightarrow> int list \<Rightarrow> CameraInfo \<Rightarrow> camera_turn_input \<times> stream_run
     \<Rightarrow> camera_state \<Rightarrow> kafka conn \<Rightarrow> ((cam_action list \<times> camera_state) \<times> kafka conn \<times> bool) option" where
  "video_turn e first_value um order delays cam = (\<lambda>(t, r) st c.
     if \<not> cs_connected st then
       let connected = checkCameraConnected first_value (ct_cameras t) (ci_ID cam);
           st1 = st\<lparr>cs_connected := connected\<rparr>
       in Some (([PollWait, CheckCameras], if connected then st1\<lparr>cs_backoffIdx := 0\<rparr> else st1), c, False)
     else case CreateRTSPSStream um order (ct_url t) of
            Inl er \<Rightarrow>
              map_option (\<lambda>s. (s, c, False))
                (camera_retry first_value delays (ci_ID cam) (ct_cameras t) True [RequestURL] st)
          | Inr url \<Rightarrow>
              let (er, c1) = video_Run e order (frame_topic (ci_Name cam)) (ci_ID cam) (sanitizeName (ci_Name cam)) r c
              in if vr_cancelled r then Some (([RequestURL, StreamFrom url], st), c1, True)
                 else let st1 = (if ct_since1 t > 60000000000 then st\<lparr>cs_backoffIdx := 0\<rparr> else st)
                      in map_option (\<lambda>s. (s, c1, False))
                           (camera_retry first_value delays (ci_ID cam) (ct_cameras t) (ct_since2 t < 60000000000)
                              [RequestURL, StreamFrom url] st1))"

fun video_loop ::
    "env \<Rightarrow> decoder \<Rightarrow> decoder \<Rightarrow> header_order \<Rightarrow> int list \<Rightarrow> CameraInfo \<Rightarrow> (camera_turn_input \<times> stream_run) list
     \<Rightarrow> camera_state \<Rightarrow> kafka conn \<Rightarrow> ((cam_action list \<times> camera_state) \<times> kafka conn) option" where
  "video_loop e first_value um order delays cam [] st c = Some (([], st), c)"
| "video_loop e first_value um order delays cam (t # ts) st c =
     (case video_turn e first_value um order delays cam t st c of
        None \<Rightarrow> None
      | Some ((acts, st1), c1, True) \<Rightarrow> Some ((acts, st1), c1)
      | Some ((acts, st1), c1, False) \<Rightarrow>
          map_option (\<lambda>((acts', st2), c2). ((acts @ acts', st2), c2))
            (video_loop e first_value um order delays cam ts st1 c1))"

text \<open>An error of \<open>EnsureTopic\<close> is only logged.\<close>

definition video_runCamera ::
    "env \<Rightarrow> env \<Rightarrow> go_error option \<Rightarrow> decoder \<Rightarrow> decoder \<Rightarrow> header_order \<Rightarrow> int list \<Rightarrow> CameraInfo
     \<Rightarrow> (camera_turn_input \<times> stream_run) list \<Rightarrow> topics conn \<times> kafka conn
     \<Rightarrow> (topics conn \<times> kafka conn) option" where
  "video_runCamera ea e admin first_value um order delays cam ts = (\<lambda>(tc, c).
     let (er, tc1) = EnsureTopic ea admin (frame_topic (ci_Name cam)) tc
     in map_option (\<lambda>(s, c1). (tc1, c1)) (video_loop e first_value um order delays cam ts (camera_start cam) c))"

section \<open>The goroutines\<close>

text \<open>
  Where a goroutine is: between two passes, in a stream with the frames still to publish and their
  times, or gone.
\<close>

datatype video_phase =
    Looping camera_state
  | Streaming camera_state camera_turn_input stream_run "(string \<times> int) list"
  | Gone

text \<open>The frames that one run of the runner hands over, each with its time.\<close>

fun frames_read :: "string \<Rightarrow> (string \<times> go_error option) list \<Rightarrow> string list" where
  "frames_read buf [] = []"
| "frames_read buf ((chunk, err) # reads) =
     (let (frames, buf1) = (if chunk \<noteq> [] then map_prod id trim_buffer (all_frames (buf @ chunk)) else ([], buf))
      in frames @ (if err = None then frames_read buf1 reads else []))"

definition stamped_frames :: "stream_run \<Rightarrow> (string \<times> int) list" where
  "stamped_frames r =
     (if vr_pipe r = None \<and> vr_started r = None
      then (let frames = frames_read [] (vr_reads r) in zip frames (map (vr_clock r) [0..<length frames])) else [])"

text \<open>
  A pass without a stream, the beginning of a stream, one frame with the outcome of its publication, and the end
  of the stream.
\<close>

datatype video_event =
    Pass camera_turn_input
  | Begin camera_turn_input stream_run
  | Frame outcome
  | Finish

fun video_move ::
    "decoder \<Rightarrow> decoder \<Rightarrow> header_order \<Rightarrow> int list \<Rightarrow> CameraInfo \<Rightarrow> video_event \<Rightarrow> video_phase \<times> kafka conn
     \<Rightarrow> (video_phase \<times> kafka conn) option" where
  "video_move first_value um order delays cam (Pass t) (Looping st, c) =
     (if cs_connected st \<and> \<not> isl (CreateRTSPSStream um order (ct_url t)) then None
      else map_option (\<lambda>(acts, st1). (Looping st1, c)) (camera_turn first_value um order delays (ci_ID cam) t st))"
| "video_move first_value um order delays cam (Begin t r) (Looping st, c) =
     (if cs_connected st \<and> \<not> isl (CreateRTSPSStream um order (ct_url t))
      then Some (Streaming st t r (stamped_frames r), c) else None)"
| "video_move first_value um order delays cam (Frame out) (Streaming st t r ((frame, ts) # rest), c) =
     Some (Streaming st t r rest,
           snd (publishFrame (\<lambda>_. out) order (frame_topic (ci_Name cam)) (ci_ID cam) (sanitizeName (ci_Name cam))
                  frame ts c))"
| "video_move first_value um order delays cam Finish (Streaming st t r [], c) =
     (if vr_cancelled r then Some (Gone, c)
      else map_option (\<lambda>(acts, st1). (Looping st1, c)) (camera_turn first_value um order delays (ci_ID cam) t st))"
| "video_move first_value um order delays cam ev s = None"

text \<open>The service: the moves of all cameras in the order in which they happen.\<close>

fun video_run ::
    "decoder \<Rightarrow> decoder \<Rightarrow> header_order \<Rightarrow> int list \<Rightarrow> CameraInfo list \<Rightarrow> (nat \<times> video_event) list
     \<Rightarrow> video_phase list \<times> kafka conn \<Rightarrow> (video_phase list \<times> kafka conn) option" where
  "video_run first_value um order delays cams [] s = Some s"
| "video_run first_value um order delays cams ((i, ev) # evs) (phases, c) =
     (if i < length phases then
        case video_move first_value um order delays (cams ! i) ev (phases ! i, c) of
          None \<Rightarrow> None
        | Some (p, c1) \<Rightarrow> video_run first_value um order delays cams evs (phases[i := p], c1)
      else None)"

definition start_video :: "CameraInfo list \<Rightarrow> kafka conn \<Rightarrow> video_phase list \<times> kafka conn" where
  "start_video cams c = (map (\<lambda>cam. Looping (camera_start cam)) cams, c)"

section \<open>A run of the runner as a list of frames\<close>

lemma readFrames_frames_read:
  "snd (readFrames out clock reads (buf, st)) = fold (take_frame out clock) (frames_read buf reads) st"
proof (induction reads arbitrary: buf st)
  case (Cons x reads)
  obtain chunk err where x: "x = (chunk, err)" by fastforce
  show ?case
    by (cases err rule: option.exhaust)
      (auto simp: x read_piece_def drain_frames_all Let_def case_prod_unfold Cons.IH split: go_error.splits)
qed simp

lemma take_frames_stamped:
  "fr_out (fold (take_frame out clock) frames st)
     = fold (\<lambda>(frame, ts) s. snd (out frame ts s))
         (zip frames (map clock [fr_seen st..<fr_seen st + length frames])) (fr_out st)"
proof (induction frames arbitrary: st)
  case (Cons frame frames)
  have t: "fr_seen (take_frame out clock frame st) = Suc (fr_seen st)"
    "fr_out (take_frame out clock frame st) = snd (out frame (clock (fr_seen st)) (fr_out st))"
    by (auto simp: take_frame_def split: prod.splits option.splits)
  show ?case using Cons.IH[of "take_frame out clock frame st"] by (simp add: t upt_conv_Cons del: upt_Suc)
qed simp

lemma video_Run_frames:
  "snd (video_Run e order topic cameraID cameraName r c)
     = fold (\<lambda>(frame, ts). \<lambda>c. snd (publishFrame e order topic cameraID cameraName frame ts c)) (stamped_frames r) c"
proof (cases "vr_pipe r = None \<and> vr_started r = None")
  case True
  let ?st = "\<lparr>fr_seen = 0, fr_count = 0, fr_out = c\<rparr>"
  have "snd (video_Run e order topic cameraID cameraName r c)
      = fr_out (snd (readFrames (publishFrame e order topic cameraID cameraName) (vr_clock r) (vr_reads r) ([], ?st)))"
    using True by (simp add: video_Run_def split: prod.splits)
  then show ?thesis
    using True by (simp add: readFrames_frames_read take_frames_stamped stamped_frames_def Let_def)
next
  case False
  then show ?thesis by (auto simp: video_Run_def stamped_frames_def split: option.splits)
qed

text \<open>When nothing is discarded from the buffer, the frames are those of the whole stream.\<close>

lemma frames_read_whole:
  assumes "\<forall>k \<le> length (ps @ [p]). length (waiting_bytes (take k (ps @ [p]))) \<le> buffer_limit"
  shows "frames_read [] (map (\<lambda>p. (p, None)) ps @ [(p, Some EOF)]) = fst (all_frames (concat ps @ p))"
proof -
  let ?out = "\<lambda>frame ts s. (None, s @ [frame])"
  have collect: "fr_out (fold (take_frame ?out (\<lambda>n. 0)) fs st) = fr_out st @ fs" for fs st
    by (induction fs arbitrary: st) (simp_all add: take_frame_def)
  let ?st = "\<lparr>fr_seen = 0, fr_count = 0, fr_out = []\<rparr> :: string list frame_state"
  have "\<forall>k \<le> length ([] @ ps @ [p]). length (waiting_bytes ([] @ take k (ps @ [p]))) \<le> buffer_limit"
    using assms by simp
  have "extractFrame [] = None" by (simp add: extractFrame_def jpegSOI_def)
  then have "waiting_bytes [] = []" "fst (all_frames (concat [])) = []" by (simp_all add: waiting_bytes_def)
  with read_pieces[of "ps @ [p]" "[]" ?out "\<lambda>n. 0" ?st] assms
  have "readFrames ?out (\<lambda>n. 0) (map (\<lambda>p. (p, None)) ps @ [(p, Some EOF)]) ([], ?st)
      = (None, fold (take_frame ?out (\<lambda>n. 0)) (fst (all_frames (concat ps @ p))) ?st)"
    by (simp add: readFrames_fold)
  then have "fold (take_frame ?out (\<lambda>n. 0)) (frames_read [] (map (\<lambda>p. (p, None)) ps @ [(p, Some EOF)])) ?st
      = fold (take_frame ?out (\<lambda>n. 0)) (fst (all_frames (concat ps @ p))) ?st"
    using readFrames_frames_read[of ?out "\<lambda>n. 0" "map (\<lambda>p. (p, None)) ps @ [(p, Some EOF)]" "[]" ?st] by simp
  from arg_cong[OF this, of fr_out] show ?thesis by (simp add: collect)
qed

section \<open>A camera alone does what its function does\<close>

text \<open>A publication meets one outcome.\<close>

lemma publishFrame_outcome:
  "publishFrame (\<lambda>_. e (calls c)) order topic cameraID cameraName frame ts c
     = publishFrame e order topic cameraID cameraName frame ts c"
  by (simp add: publishFrame_def PublishFrame_def exec_stmt_def next_outcome_def)

lemma video_run_append:
  "video_run fv um order delays cams (evs @ evs') s =
     Option.bind (video_run fv um order delays cams evs s) (video_run fv um order delays cams evs')"
  by (induction evs arbitrary: s) (auto simp: case_prod_unfold split: option.splits prod.splits)

lemma video_run_one:
  assumes "i < length phases" and "video_move fv um order delays (cams ! i) ev (p, c) = Some (p', c')"
  shows "video_run fv um order delays cams [(i, ev)] (phases[i := p], c) = Some (phases[i := p'], c')"
  using assms by simp

text \<open>The frames of a stream, published one after the other.\<close>

lemma frames_run:
  assumes "i < length phases"
  shows "\<exists>evs. video_run fv um order delays cams (map (Pair i) evs) (phases[i := Streaming st t r frames], c)
     = Some (phases[i := Streaming st t r []],
             fold (\<lambda>(frame, ts). \<lambda>c. snd (publishFrame e order (frame_topic (ci_Name (cams ! i))) (ci_ID (cams ! i))
                                   (sanitizeName (ci_Name (cams ! i))) frame ts c)) frames c)"
proof (induction frames arbitrary: c)
  case Nil
  show ?case by (rule exI[of _ "[]"]) simp
next
  case (Cons x frames)
  obtain frame ts where x: "x = (frame, ts)" by fastforce
  let ?c1 = "snd (publishFrame e order (frame_topic (ci_Name (cams ! i))) (ci_ID (cams ! i))
               (sanitizeName (ci_Name (cams ! i))) frame ts c)"
  have "video_run fv um order delays cams [(i, Frame (e (calls c)))] (phases[i := Streaming st t r (x # frames)], c)
      = Some (phases[i := Streaming st t r frames], ?c1)"
    by (rule video_run_one[OF assms]) (simp add: x publishFrame_outcome)
  moreover obtain evs where "video_run fv um order delays cams (map (Pair i) evs) (phases[i := Streaming st t r frames], ?c1)
      = Some (phases[i := Streaming st t r []],
             fold (\<lambda>(frame, ts). \<lambda>c. snd (publishFrame e order (frame_topic (ci_Name (cams ! i))) (ci_ID (cams ! i))
                                   (sanitizeName (ci_Name (cams ! i))) frame ts c)) frames ?c1)"
    using Cons.IH by blast
  ultimately show ?case
    using video_run_append[of fv um order delays cams "[(i, Frame (e (calls c)))]" "map (Pair i) evs"]
    by (intro exI[of _ "Frame (e (calls c)) # evs"]) (simp add: x del: video_run.simps)
qed

text \<open>A pass of the function is a run of moves.\<close>

lemma camera_turn_connected:
  assumes "cs_connected st"
  shows "camera_turn fv um order delays cid t st =
    (case CreateRTSPSStream um order (ct_url t) of
       Inl er \<Rightarrow> camera_retry fv delays cid (ct_cameras t) True [RequestURL] st
     | Inr url \<Rightarrow> camera_retry fv delays cid (ct_cameras t) (ct_since2 t < 60000000000) [RequestURL, StreamFrom url]
                   (if ct_since1 t > 60000000000 then st\<lparr>cs_backoffIdx := 0\<rparr> else st))"
  using assms by (simp add: camera_turn_def Let_def split: sum.splits)

lemma undisturbed_turn:
  assumes "i < length phases"
    and "video_turn e fv um order delays (cams ! i) (t, r) st c = Some ((acts, st1), c1, gone)"
  shows "\<exists>evs. video_run fv um order delays cams (map (Pair i) evs) (phases[i := Looping st], c)
     = Some (phases[i := if gone then Gone else Looping st1], c1)"
proof (cases "cs_connected st \<and> \<not> isl (CreateRTSPSStream um order (ct_url t))")
  case False
  then have "video_turn e fv um order delays (cams ! i) (t, r) st c
      = map_option (\<lambda>s. (s, c, False)) (camera_turn fv um order delays (ci_ID (cams ! i)) t st)"
    by (cases "cs_connected st")
      (auto simp: video_turn_def camera_turn_connected camera_turn_def Let_def split: sum.splits)
  with assms(2) have "video_move fv um order delays (cams ! i) (Pass t) (Looping st, c) = Some (Looping st1, c1)"
    "\<not> gone" using False by auto
  with video_run_one[OF assms(1) this(1)] show ?thesis by (intro exI[of _ "[Pass t]"]) simp
next
  case True
  then obtain url where url: "CreateRTSPSStream um order (ct_url t) = Inr url" by (metis sum.collapse(2))
  let ?frames = "fold (\<lambda>(frame, ts). \<lambda>c. snd (publishFrame e order (frame_topic (ci_Name (cams ! i))) (ci_ID (cams ! i))
      (sanitizeName (ci_Name (cams ! i))) frame ts c)) (stamped_frames r) c"
  have c1: "c1 = ?frames" and fin: "video_move fv um order delays (cams ! i) Finish (Streaming st t r [], c1)
      = Some (if gone then Gone else Looping st1, c1)"
    using assms(2) True url video_Run_frames[of e order "frame_topic (ci_Name (cams ! i))" "ci_ID (cams ! i)"
        "sanitizeName (ci_Name (cams ! i))" r c]
    by (auto simp: video_turn_def camera_turn_connected Let_def split: prod.splits if_splits)
  have "video_run fv um order delays cams [(i, Begin t r)] (phases[i := Looping st], c)
      = Some (phases[i := Streaming st t r (stamped_frames r)], c)"
    using True by (intro video_run_one[OF assms(1)]) simp
  moreover obtain evs where "video_run fv um order delays cams (map (Pair i) evs)
      (phases[i := Streaming st t r (stamped_frames r)], c) = Some (phases[i := Streaming st t r []], c1)"
    using frames_run[OF assms(1)] c1 by blast
  moreover note video_run_one[OF assms(1) fin]
  ultimately show ?thesis
    using video_run_append[of fv um order delays cams "[(i, Begin t r)]" "map (Pair i) evs @ [(i, Finish)]"]
      video_run_append[of fv um order delays cams "map (Pair i) evs" "[(i, Finish)]"]
    by (intro exI[of _ "Begin t r # evs @ [Finish]"]) (simp del: video_run.simps)
qed

text \<open>
  A camera that no other disturbs: whatever its passes meet and whatever publications fail, there is a
  sequence of moves of its goroutine that leaves the broker as \<open>runCamera\<close> does.
\<close>

lemma undisturbed_camera_is_sequential:
  assumes "i < length cams" and "video_loop e fv um order delays (cams ! i) ts (camera_start (cams ! i)) c = Some (r, c1)"
  shows "\<exists>evs p. video_run fv um order delays cams (map (Pair i) evs) (start_video cams c)
     = Some ((fst (start_video cams c))[i := p], c1)"
proof -
  have "\<exists>evs p. video_run fv um order delays cams (map (Pair i) evs) (phases[i := Looping st], c) = Some (phases[i := p], c1)"
    if i: "i < length phases" and loop: "video_loop e fv um order delays (cams ! i) ts st c = Some (r, c1)"
    for phases st
    using loop
  proof (induction ts arbitrary: st c r)
    case Nil
    then show ?case by (intro exI[of _ "[]"] exI[of _ "Looping st"]) simp
  next
    case (Cons t ts)
    obtain tt run where t: "t = (tt, run)" by fastforce
    obtain acts st1 c2 gone where turn: "video_turn e fv um order delays (cams ! i) t st c = Some ((acts, st1), c2, gone)"
      using Cons.prems by (cases "video_turn e fv um order delays (cams ! i) t st c") auto
    obtain evs where evs: "video_run fv um order delays cams (map (Pair i) evs) (phases[i := Looping st], c)
        = Some (phases[i := if gone then Gone else Looping st1], c2)"
      using undisturbed_turn[OF i, of e fv um order delays cams tt run] turn t by blast
    show ?case
    proof (cases gone)
      case True
      with Cons.prems turn evs show ?thesis by auto
    next
      case False
      with Cons.prems turn obtain r' where
        "video_loop e fv um order delays (cams ! i) ts st1 c2 = Some (r', c1)" by auto
      from Cons.IH[OF this] obtain evs' p where "video_run fv um order delays cams (map (Pair i) evs')
          (phases[i := Looping st1], c2) = Some (phases[i := p], c1)" by blast
      with evs False show ?thesis
        using video_run_append[of fv um order delays cams "map (Pair i) evs" "map (Pair i) evs'"]
        by (intro exI[of _ "evs @ evs'"] exI[of _ p]) simp
    qed
  qed
  note this[of "map (\<lambda>cam. Looping (camera_start cam)) cams" "camera_start (cams ! i)"]
  moreover have "(map (\<lambda>cam. Looping (camera_start cam)) cams)[i := Looping (camera_start (cams ! i))]
      = map (\<lambda>cam. Looping (camera_start cam)) cams"
    using assms(1) by (simp add: list_update_same_conv)
  ultimately show ?thesis using assms by (simp add: start_video_def)
qed

section \<open>The topic of a camera\<close>

definition frame_message :: "header_order \<Rightarrow> CameraInfo \<Rightarrow> string \<times> int \<Rightarrow> message" where
  "frame_message order cam = (\<lambda>(frame, ts).
     \<lparr>m_topic = frame_topic (ci_Name cam), m_partition = 0, m_offset = 0, m_key = ci_ID cam @ '':'' @ itoa ts,
      m_value = frame, m_headers = order (frame_headers (ci_ID cam) (sanitizeName (ci_Name cam)) ts)\<rparr>)"

definition on_topic :: "string \<Rightarrow> kafka \<Rightarrow> kafka" where
  "on_topic topic k = filter (\<lambda>m. m_topic m = topic) k"

text \<open>The frames that the streams of one camera have cut from what ffmpeg wrote.\<close>

fun begun :: "video_event \<Rightarrow> (string \<times> int) list" where
  "begun (Begin t r) = stamped_frames r"
| "begun ev = []"

definition frames_of :: "nat \<Rightarrow> (nat \<times> video_event) list \<Rightarrow> (string \<times> int) list" where
  "frames_of i evs = concat (map (\<lambda>(j, ev). if j = i then begun ev else []) evs)"

fun pending_frames :: "video_phase \<Rightarrow> (string \<times> int) list" where
  "pending_frames (Streaming st t r frames) = frames"
| "pending_frames p = []"

fun refused_frame :: "video_event \<Rightarrow> bool" where
  "refused_frame (Frame (Refused er)) = True"
| "refused_frame ev = False"

lemma publishFrame_db:
  "db (snd (publishFrame (\<lambda>_. out) order (frame_topic (ci_Name cam)) (ci_ID cam) (sanitizeName (ci_Name cam)) frame ts c))
     = (if refused_frame (Frame out) then db c else db c @ [frame_message order cam (frame, ts)])"
  by (cases out) (simp_all add: publishFrame_def PublishFrame_def exec_stmt_def next_outcome_def produce_def frame_message_def)

lemma video_move_frames:
  assumes "video_move fv um order delays cam ev (p, c) = Some (p', c')"
  obtains new taken where "db c' = db c @ map (frame_message order cam) new" "pending_frames p @ begun ev = taken @ pending_frames p'"
    "subseq new taken" "refused_frame ev \<or> new = taken"
proof (cases "\<exists>out st t r frame ts rest. ev = Frame out \<and> p = Streaming st t r ((frame, ts) # rest)")
  case True
  then obtain out st t r frame ts rest where ev: "ev = Frame out" "p = Streaming st t r ((frame, ts) # rest)" by blast
  with assms have "db c' = (if refused_frame (Frame out) then db c else db c @ [frame_message order cam (frame, ts)])"
    "pending_frames p = (frame, ts) # pending_frames p'"
    using publishFrame_db[of out order cam frame ts c] by auto
  with ev show ?thesis
    by (cases "refused_frame (Frame out)") (auto intro: that[of "[]" "[(frame, ts)]"] that[of "[(frame, ts)]" "[(frame, ts)]"])
next
  case False
  with assms have "db c' = db c \<and> pending_frames p @ begun ev = pending_frames p'"
    by (cases rule: video_move.elims) (auto split: if_splits dest!: map_option_eq_Some[THEN iffD1, OF sym])
  then show ?thesis by (intro that[of "[]" "[]"]) simp_all
qed

lemma frame_message_topic [simp]:
  "on_topic topic (k @ k') = on_topic topic k @ on_topic topic k'"
  "on_topic topic (map (frame_message order cam) fs)
     = (if frame_topic (ci_Name cam) = topic then map (frame_message order cam) fs else [])"
  by (auto simp: on_topic_def frame_message_def filter_map comp_def case_prod_unfold)

lemma video_run_topic:
  assumes "video_run fv um order delays cams evs (phases, c) = Some (phases', c')"
    and "i < length phases" and "length phases = length cams"
    and "\<And>j. j < length cams \<Longrightarrow> j \<noteq> i \<Longrightarrow> frame_topic (ci_Name (cams ! j)) \<noteq> frame_topic (ci_Name (cams ! i))"
  shows "\<exists>new taken. on_topic (frame_topic (ci_Name (cams ! i))) (db c')
        = on_topic (frame_topic (ci_Name (cams ! i))) (db c) @ map (frame_message order (cams ! i)) new
     \<and> pending_frames (phases ! i) @ frames_of i evs = taken @ pending_frames (phases' ! i)
     \<and> subseq new taken \<and> ((\<exists>ev. (i, ev) \<in> set evs \<and> refused_frame ev) \<or> new = taken)"
  using assms(1-3)
proof (induction evs arbitrary: phases c)
  case Nil
  then show ?case by (intro exI[of _ "[]"]) (simp add: frames_of_def)
next
  case (Cons e evs)
  obtain j ev where e: "e = (j, ev)" by fastforce
  obtain p c1 where j: "j < length phases" and move: "video_move fv um order delays (cams ! j) ev (phases ! j, c) = Some (p, c1)"
    and run: "video_run fv um order delays cams evs (phases[j := p], c1) = Some (phases', c')"
    using Cons.prems(1) e by (auto split: if_splits option.splits)
  obtain new taken where m: "db c1 = db c @ map (frame_message order (cams ! j)) new"
    "pending_frames (phases ! j) @ begun ev = taken @ pending_frames p" "subseq new taken" "refused_frame ev \<or> new = taken"
    using move by (rule video_move_frames)
  have "i < length (phases[j := p])" "length (phases[j := p]) = length cams" using Cons.prems by simp_all
  from Cons.IH[OF run this] obtain new' taken' where ih:
    "on_topic (frame_topic (ci_Name (cams ! i))) (db c')
       = on_topic (frame_topic (ci_Name (cams ! i))) (db c1) @ map (frame_message order (cams ! i)) new'"
    "pending_frames (phases[j := p] ! i) @ frames_of i evs = taken' @ pending_frames (phases' ! i)"
    "subseq new' taken'" "(\<exists>ev. (i, ev) \<in> set evs \<and> refused_frame ev) \<or> new' = taken'" by blast
  show ?case
  proof (cases "j = i")
    case True
    have f: "frames_of i (e # evs) = begun ev @ frames_of i evs" using True by (simp add: e frames_of_def)
    have "pending_frames (phases ! i) @ frames_of i (e # evs) = (taken @ pending_frames p) @ frames_of i evs"
      unfolding f append_assoc[symmetric] using m(2) True by simp
    also have "\<dots> = (taken @ taken') @ pending_frames (phases' ! i)"
      using ih(2) True j by simp
    finally have "pending_frames (phases ! i) @ frames_of i (e # evs) = (taken @ taken') @ pending_frames (phases' ! i)" .
    moreover have "subseq (new @ new') (taken @ taken')" using ih(3) m(3) by (rule list_emb_append_mono[rotated])
    ultimately show ?thesis
      using ih m True by (intro exI[of _ "new @ new'"] exI[of _ "taken @ taken'"]) (auto simp: e)
  next
    case False
    then have "on_topic (frame_topic (ci_Name (cams ! i))) (db c1) = on_topic (frame_topic (ci_Name (cams ! i))) (db c)"
      using m(1) assms(4)[of j] j Cons.prems(3) by simp
    then show ?thesis
      using ih False by (intro exI[of _ new'] exI[of _ taken']) (auto simp: e frames_of_def)
  qed
qed

text \<open>
  C14: The topic of a camera holds the frames of that camera.  However the goroutines interleave and whatever
  fails, as long as no other camera has the same topic: what is added to the topic are frames that the streams
  of the camera have cut, in their order and each at most once, under the id of the camera and the time of the frame.
  When no publication of the camera was refused and it is not in a stream, it is all of them.
\<close>

theorem camera_topic_holds_frames:
  assumes "video_run fv um order delays cams evs (start_video cams c) = Some (phases, c')" and "i < length cams"
    and "\<And>j. j < length cams \<Longrightarrow> j \<noteq> i \<Longrightarrow> frame_topic (ci_Name (cams ! j)) \<noteq> frame_topic (ci_Name (cams ! i))"
  shows "\<exists>fs. on_topic (frame_topic (ci_Name (cams ! i))) (db c')
        = on_topic (frame_topic (ci_Name (cams ! i))) (db c) @ map (frame_message order (cams ! i)) fs
     \<and> subseq fs (frames_of i evs)
     \<and> ((\<forall>ev. (i, ev) \<in> set evs \<longrightarrow> \<not> refused_frame ev) \<and> pending_frames (phases ! i) = [] \<longrightarrow> fs = frames_of i evs)"
proof -
  obtain new taken where "on_topic (frame_topic (ci_Name (cams ! i))) (db c')
        = on_topic (frame_topic (ci_Name (cams ! i))) (db c) @ map (frame_message order (cams ! i)) new"
    "frames_of i evs = taken @ pending_frames (phases ! i)" "subseq new taken"
    "(\<exists>ev. (i, ev) \<in> set evs \<and> refused_frame ev) \<or> new = taken"
    using video_run_topic[OF assms(1)[unfolded start_video_def] _ _ assms(3)] assms(2) by auto
  then show ?thesis by (intro exI[of _ new]) (auto intro: list_emb_append2)
qed

section \<open>A concrete run\<close>

definition demo_cams :: "CameraInfo list" where
  "demo_cams = [\<lparr>ci_ID = ''c1'', ci_Name = ''Front Door'', ci_State = ''CONNECTED''\<rparr>,
                \<lparr>ci_ID = ''c2'', ci_Name = ''Yard'', ci_State = ''CONNECTED''\<rparr>]"

definition demo_turn :: camera_turn_input where
  "demo_turn = \<lparr>ct_cameras = Inl EOF, ct_url = Inr (200, Inr ''u''), ct_since1 = 0, ct_since2 = 0\<rparr>"

definition demo_stream :: "string \<Rightarrow> stream_run" where
  "demo_stream x = \<lparr>vr_pipe = None, vr_started = None, vr_reads = [(jpegSOI @ x @ jpegEOI, Some EOF)], vr_exit = None,
                    vr_cancelled = False, vr_clock = (\<lambda>n. 7)\<rparr>"

definition demo_events :: "(nat \<times> video_event) list" where
  "demo_events = [(0, Begin demo_turn (demo_stream ''a'')), (1, Begin demo_turn (demo_stream ''b'')), (1, Frame Done),
                  (0, Frame (Lost EOF))]"

lemma demo_stamped: "stamped_frames (demo_stream [x]) = [(jpegSOI @ [x] @ jpegEOI, 7)]" if "x \<noteq> CHR 0xFF"
  using that
  by (simp add: stamped_frames_def demo_stream_def all_frames.simps extractFrame_def jpegSOI_def jpegEOI_def
      has_prefix_def Let_def trim_buffer_def buffer_limit_def)

lemma demo_url: "\<not> isl (CreateRTSPSStream (\<lambda>body. Some (JStr ''rtsps'')) order (ct_url demo_turn))"
  by (simp add: CreateRTSPSStream_def demo_turn_def quality_url_def string_map_def stream_url_def plain_url_def
      struct_members_def decode_array_def Let_def)

lemma demo_topics:
  "frame_topic (ci_Name (demo_cams ! 0)) = ''unifi.protect.video.front_door''"
  "frame_topic (ci_Name (demo_cams ! Suc 0)) = ''unifi.protect.video.yard''"
  by code_simp+

lemma camera_topic_holds_frames_witness:
  "\<exists>phases c'. video_run (\<lambda>body. None) (\<lambda>body. Some (JStr ''rtsps'')) rev [5] demo_cams demo_events
      (start_video demo_cams \<lparr>db = [], calls = 0\<rparr>) = Some (phases, c')
     \<and> map m_value (on_topic ''unifi.protect.video.front_door'' (db c')) = [jpegSOI @ ''a'' @ jpegEOI]"
proof -
  have start: "start_video demo_cams c = ([Looping (camera_start (demo_cams ! 0)), Looping (camera_start (demo_cams ! Suc 0))], c)"
    "cs_connected (camera_start (demo_cams ! 0))" "cs_connected (camera_start (demo_cams ! Suc 0))" for c :: "kafka conn"
    by (simp_all add: start_video_def demo_cams_def camera_start_def cam_IsConnected_def)
  obtain phases c' where run: "video_run (\<lambda>body. None) (\<lambda>body. Some (JStr ''rtsps'')) rev [5] demo_cams demo_events
      (start_video demo_cams \<lparr>db = [], calls = 0\<rparr>) = Some (phases, c')" and idle: "pending_frames (phases ! 0) = []"
    using demo_url[of rev] by (simp add: demo_events_def start demo_stamped)
  have other: "frame_topic (ci_Name (demo_cams ! j)) \<noteq> frame_topic (ci_Name (demo_cams ! 0))"
    if "j < length demo_cams" "j \<noteq> 0" for j
    using that demo_topics by (cases j) (auto simp: demo_cams_def)
  have "0 < length demo_cams" by (simp add: demo_cams_def)
  from camera_topic_holds_frames[OF run this other] idle obtain fs where
    "on_topic (frame_topic (ci_Name (demo_cams ! 0))) (db c') = map (frame_message rev (demo_cams ! 0)) fs"
    "(\<forall>ev. (0, ev) \<in> set demo_events \<longrightarrow> \<not> refused_frame ev) \<longrightarrow> fs = frames_of 0 demo_events"
    by (auto simp: on_topic_def)
  moreover have "frames_of 0 demo_events = [(jpegSOI @ ''a'' @ jpegEOI, 7)]"
    by (simp add: frames_of_def demo_events_def demo_stamped)
  ultimately show ?thesis
    using run by (intro exI[of _ phases] exI[of _ c']) (auto simp: demo_topics demo_events_def frame_message_def)
qed

end
