(* ===== verification/Wk_RateLimit.thy ===== *)
theory Wk_RateLimit
  imports Wk_Time
begin

text \<open>
  \<open>services/weatherlink-kafka/service/ratelimit.go\<close>: a token bucket with an hourly budget and a
  back-off, shared by the workers of the backfill.

  Times are nanoseconds of the monotonic clock, durations nanoseconds; the zero time is \<open>None\<close>.
  \<open>Wait\<close> is a loop of turns, each under the mutex and followed by a sleep: \<open>wait_turn\<close> is one turn,
  with the clock it reads first (\<open>now\<close>) and the one \<open>time.Until\<close> reads (\<open>later\<close>).  The bucket is
  filled in float64 arithmetic, rounding included.
\<close>

section \<open>State and operations\<close>

record RateLimiter =
  rl_tokensPerSecond :: int
  rl_burstSize :: int
  rl_hourlyLimit :: int
  rl_tokens :: rat
  rl_lastRefill :: int
  rl_hourlyRequests :: int
  rl_hourStart :: int
  rl_consecutiveErrors :: int
  rl_blockedUntil :: "int option"

abbreviation second :: int where "second \<equiv> 1000000000"
abbreviation hour :: int where "hour \<equiv> 3600000000000"

definition NewRateLimiter :: "int \<Rightarrow> int \<Rightarrow> int \<Rightarrow> RateLimiter" where
  "NewRateLimiter tokensPerSecond hourlyLimit now =
     (let tps = (if tokensPerSecond \<le> 0 then 8 else tokensPerSecond);
          hl = (if hourlyLimit \<le> 0 then 1000 else hourlyLimit);
          burstSize = i64 (tps * 2)
      in \<lparr>rl_tokensPerSecond = tps, rl_burstSize = burstSize, rl_hourlyLimit = hl,
          rl_tokens = f64 (of_int burstSize), rl_lastRefill = now, rl_hourlyRequests = 0,
          rl_hourStart = now, rl_consecutiveErrors = 0, rl_blockedUntil = None\<rparr>)"

definition minFloat64 :: "rat \<Rightarrow> rat \<Rightarrow> rat" where
  "minFloat64 a b = (if a < b then a else b)"

definition min_int :: "int \<Rightarrow> int \<Rightarrow> int" where
  "min_int a b = (if a < b then a else b)"

text \<open>\<open>Duration.Seconds\<close>: whole seconds and the rest are converted apart.\<close>

definition Seconds :: "int \<Rightarrow> rat" where
  "Seconds d = f64 (f64 (of_int (go_div d second)) + f64 (of_int (go_mod d second) / of_int second))"

definition hourly_threshold :: "int \<Rightarrow> int" where
  "hourly_threshold limit = int_of_float (f64 (f64 (of_int limit) * f64 (9 / 10)))"

datatype wait_turn = Granted | SleepFor int

definition refill_turn :: "int \<Rightarrow> RateLimiter \<Rightarrow> wait_turn \<times> RateLimiter" where
  "refill_turn now r =
     (let elapsed = now - rl_lastRefill r;
          tokensToAdd = f64 (f64 (of_int (rl_tokensPerSecond r)) * Seconds elapsed);
          tokens = minFloat64 (f64 (rl_tokens r + tokensToAdd)) (f64 (of_int (rl_burstSize r)))
      in if tokens \<ge> 1 then (Granted, r\<lparr>rl_tokens := f64 (tokens - 1), rl_lastRefill := now\<rparr>)
         else (SleepFor (int_of_float (f64 (of_int second / f64 (of_int (rl_tokensPerSecond r))))),
               r\<lparr>rl_tokens := tokens, rl_lastRefill := now\<rparr>))"

text \<open>The turn after the check of the back-off.\<close>

definition reset_hour :: "int \<Rightarrow> RateLimiter \<Rightarrow> RateLimiter" where
  "reset_hour now r =
     (if now - rl_hourStart r \<ge> hour then r\<lparr>rl_hourlyRequests := 0, rl_hourStart := now\<rparr> else r)"

definition open_turn :: "int \<Rightarrow> int \<Rightarrow> RateLimiter \<Rightarrow> wait_turn \<times> RateLimiter" where
  "open_turn now later r =
     (let r1 = reset_hour now r
      in if rl_hourlyRequests r1 \<ge> hourly_threshold (rl_hourlyLimit r1)
         then (SleepFor (rl_hourStart r1 + hour - later), r1)
         else refill_turn now r1)"

definition blocked_at :: "int \<Rightarrow> RateLimiter \<Rightarrow> bool" where
  "blocked_at now r = (case rl_blockedUntil r of Some t \<Rightarrow> now < t | None \<Rightarrow> False)"

definition wait_turn :: "int \<Rightarrow> int \<Rightarrow> RateLimiter \<Rightarrow> wait_turn \<times> RateLimiter" where
  "wait_turn now later r =
     (if blocked_at now r then (SleepFor (the (rl_blockedUntil r) - later), r)
      else open_turn now later r)"

definition sleepWithContext :: "bool \<Rightarrow> int \<Rightarrow> go_error option" where
  "sleepWithContext canceled d = (if d \<le> 0 then None else if canceled then Some Canceled else None)"

text \<open>
  The loop, over the clock readings of its turns and whether the context was cancelled in the sleep
  that follows.  \<open>None\<close>: the readings ran out, the call is still waiting.
\<close>

fun Wait :: "(int \<times> int \<times> bool) list \<Rightarrow> RateLimiter \<Rightarrow> go_error option option \<times> RateLimiter" where
  "Wait [] r = (None, r)"
| "Wait ((now, later, canceled) # turns) r =
     (case wait_turn now later r of
        (Granted, r1) \<Rightarrow> (Some None, r1)
      | (SleepFor d, r1) \<Rightarrow>
          (case sleepWithContext canceled d of
             Some er \<Rightarrow> (Some (Some er), r1)
           | None \<Rightarrow> Wait turns r1))"

definition RecordRequest :: "RateLimiter \<Rightarrow> RateLimiter" where
  "RecordRequest r = r\<lparr>rl_hourlyRequests := i64 (rl_hourlyRequests r + 1), rl_consecutiveErrors := 0\<rparr>"

definition later_block :: "int \<Rightarrow> int option \<Rightarrow> int option" where
  "later_block t b = (case b of None \<Rightarrow> Some t | Some u \<Rightarrow> if t > u then Some t else Some u)"

definition RecordError :: "int \<Rightarrow> int \<Rightarrow> RateLimiter \<Rightarrow> int \<times> RateLimiter" where
  "RecordError statusCode now r =
     (let n = i64 (rl_consecutiveErrors r + 1); r1 = r\<lparr>rl_consecutiveErrors := n\<rparr>
      in if statusCode = 429 then
           let backoff = second * 2 ^ nat (min_int (n - 1) 3)
           in (backoff, r1\<lparr>rl_blockedUntil := later_block (now + backoff) (rl_blockedUntil r)\<rparr>)
         else (second * min_int n 5, r1))"

definition GetStats :: "RateLimiter \<Rightarrow> int \<times> rat" where
  "GetStats r = (rl_hourlyRequests r, rl_tokens r)"

lemma wait_turn_cases:
  assumes "wait_turn now later r = (out, r')"
  obtains (blocked) d where "blocked_at now r" "r' = r" "out = SleepFor d"
    | (over) d where "\<not> blocked_at now r" "r' = reset_hour now r" "out = SleepFor d"
        "hourly_threshold (rl_hourlyLimit r') \<le> rl_hourlyRequests r'"
    | (refill) "\<not> blocked_at now r" "refill_turn now (reset_hour now r) = (out, r')"
        "rl_hourlyRequests (reset_hour now r) < hourly_threshold (rl_hourlyLimit r)"
proof (cases "blocked_at now r")
  case True
  with assms show thesis by (intro blocked) (auto simp: wait_turn_def)
next
  case False
  have lim: "rl_hourlyLimit (reset_hour now r) = rl_hourlyLimit r" by (simp add: reset_hour_def)
  from False assms have o: "open_turn now later r = (out, r')" by (simp add: wait_turn_def)
  show thesis
  proof (cases "hourly_threshold (rl_hourlyLimit r) \<le> rl_hourlyRequests (reset_hour now r)")
    case True
    with o False over lim show thesis by (auto simp: open_turn_def Let_def)
  next
    case h: False
    with o False refill lim show thesis by (auto simp: open_turn_def Let_def)
  qed
qed

section \<open>The bucket\<close>

text \<open>One turn of float64 arithmetic on the bucket, its rounding error bounded.\<close>

lemma roundoff_val: "roundoff = 1 / 9007199254740992"
  by (simp add: pow2_def)

lemma f64_bounds:
  assumes "x = 0 \<or> 1 / 1000000001 \<le> x"
  shows "f64 x \<le> x * (1 + roundoff)" and "x * (1 - roundoff) \<le> f64 x"
proof -
  have "f64 x \<le> x * (1 + roundoff) \<and> x * (1 - roundoff) \<le> f64 x"
  proof (cases "x = 0")
    case False
    then have x: "1 / 1000000001 \<le> x" using assms by simp
    have "pow2 (- 1022) \<le> pow2 (- 30)" by (rule pow2_mono) simp
    also have "pow2 (- 30) = 1 / 2 ^ 30" by (simp add: pow2_def)
    finally have "pow2 (- 1022) \<le> \<bar>x\<bar>" using x by simp
    from f64_relative_error[OF this] show ?thesis using x by (simp add: abs_if algebra_simps split: if_splits)
  qed simp
  then show "f64 x \<le> x * (1 + roundoff)" and "x * (1 - roundoff) \<le> f64 x" by blast+
qed

lemma f64_near:
  assumes "0 \<le> x"
  shows "f64 x \<le> x + max x 1 * roundoff" and "x - max x 1 * roundoff \<le> f64 x"
proof -
  have "\<bar>f64 x - x\<bar> \<le> max x 1 * roundoff"
  proof (cases "x = 0")
    case False
    have "pow2 (- 1022) \<le> pow2 0" by (rule pow2_mono) simp
    then have m: "max \<bar>x\<bar> (pow2 (- 1022)) \<le> max x 1" using assms by (auto simp: max_def)
    have "\<bar>f64 x - x\<bar> \<le> ulp x / 2" by (rule f64_error_ulp)
    also have "\<dots> \<le> max \<bar>x\<bar> (pow2 (- 1022)) * pow2 (- 52) / 2" using ulp_le[OF False] by simp
    also have "\<dots> \<le> max x 1 * pow2 (- 52) / 2"
      using mult_right_mono[OF m, of "pow2 (- 52)"] by simp
    also have "\<dots> = max x 1 * roundoff" using pow2_Suc[of "- 53"] by simp
    finally show ?thesis .
  qed (simp add: roundoff_val)
  then show "f64 x \<le> x + max x 1 * roundoff" and "x - max x 1 * roundoff \<le> f64 x" by linarith+
qed

definition seconds_of :: "int \<Rightarrow> rat" where
  "seconds_of d = of_int d / of_int second"

lemma Seconds_bounds:
  assumes "0 \<le> d" and "d \<le> max_i64"
  shows "Seconds d \<le> seconds_of d * (1 + roundoff)\<^sup>2" and "seconds_of d * (1 - roundoff)\<^sup>2 \<le> Seconds d"
    and "d \<noteq> 0 \<Longrightarrow> 1 / 1000000001 \<le> Seconds d" and "Seconds 0 = 0"
proof -
  define s where "s = rat_of_int (d div second)"
  define n where "n = rat_of_int (d mod second) / of_int second"
  have sn: "seconds_of d = s + n"
  proof -
    have "rat_of_int d = of_int (second * (d div second) + d mod second)" by simp
    also have "\<dots> = of_int second * s + of_int (d mod second)" unfolding s_def by (simp only: of_int_add of_int_mult)
    finally show ?thesis by (simp add: seconds_of_def n_def add_divide_distrib)
  qed
  have s0: "s = 0 \<or> 1 \<le> s" using assms(1) 
  proof -
    have "0 \<le> d div second" using assms(1) by (simp add: pos_imp_zdiv_nonneg_iff)
    then have "d div second = 0 \<or> 1 \<le> d div second" by linarith
    then show ?thesis unfolding s_def by auto
  qed
  have n0: "n = 0 \<or> 1 / 1000000000 \<le> n"
  proof -
    have "0 \<le> d mod second" by simp
    then have "d mod second = 0 \<or> 1 \<le> d mod second" by linarith
    then show ?thesis unfolding n_def by (auto simp: divide_right_mono)
  qed
  have "\<bar>d div second\<bar> \<le> 2 ^ 53" using assms by auto
  then have fs: "f64 (of_int (d div second)) = s" unfolding s_def by (rule f64_of_int)
  define m where "m = f64 n"
  have S: "Seconds d = f64 (s + m)"
    using assms(1) by (simp add: Seconds_def fs m_def n_def go_div_nonneg go_mod_nonneg)
  have m: "m \<le> n * (1 + roundoff)" "n * (1 - roundoff) \<le> m" "0 \<le> m"
    using f64_bounds[of n] n0 f64_nonneg[of n] by (auto simp: m_def)
  have sm: "s + m \<le> (s + n) * (1 + roundoff)" "(s + n) * (1 - roundoff) \<le> s + m"
    using m s0 by (auto simp: roundoff_val algebra_simps)
  have y: "s + m = 0 \<or> 1 / 1000000001 * (1 + 1 / 10000000000) \<le> s + m"
    using m s0 n0 by (auto simp: roundoff_val m_def)
  note f = f64_bounds[of "s + m"]
  have y': "s + m = 0 \<or> 1 / 1000000001 \<le> s + m" using y by auto
  have "Seconds d \<le> (s + m) * (1 + roundoff)" using f(1)[OF y'] by (simp add: S)
  also have "\<dots> \<le> (s + n) * (1 + roundoff) * (1 + roundoff)"
    using sm(1) by (intro mult_right_mono) (simp_all add: roundoff_val)
  finally show "Seconds d \<le> seconds_of d * (1 + roundoff)\<^sup>2" by (simp add: sn power2_eq_square mult.assoc)
  have "(s + n) * (1 - roundoff) * (1 - roundoff) \<le> (s + m) * (1 - roundoff)"
    using sm(2) by (intro mult_right_mono) (simp_all add: roundoff_val)
  also have "\<dots> \<le> Seconds d" using f(2)[OF y'] by (simp add: S)
  finally show "seconds_of d * (1 - roundoff)\<^sup>2 \<le> Seconds d" by (simp add: sn power2_eq_square mult.assoc)
  show "1 / 1000000001 \<le> Seconds d" if "d \<noteq> 0"
  proof -
    have "s + n \<noteq> 0" using that sn by (simp add: seconds_of_def)
    then have "s + m \<noteq> 0" using s0 n0 m by (auto simp: roundoff_val)
    with y f(2)[OF y'] show ?thesis by (auto simp: S roundoff_val)
  qed
  show "Seconds 0 = 0" by (simp add: Seconds_def)
qed

definition limiter_wf :: "RateLimiter \<Rightarrow> bool" where
  "limiter_wf r \<longleftrightarrow> 1 \<le> rl_tokensPerSecond r \<and> rl_tokensPerSecond r \<le> 2 ^ 40
     \<and> rl_burstSize r = 2 * rl_tokensPerSecond r
     \<and> 0 \<le> rl_tokens r \<and> rl_tokens r \<le> of_int (rl_burstSize r)"

text \<open>What the clock is worth in tokens, and the rounding error of one turn.\<close>

definition worth :: "RateLimiter \<Rightarrow> int \<Rightarrow> rat" where
  "worth r d = of_int (rl_tokensPerSecond r) * seconds_of d"

definition turn_error :: "RateLimiter \<Rightarrow> rat" where
  "turn_error r = of_int (rl_burstSize r) * (4 * roundoff)"

lemma added_bounds:
  assumes "limiter_wf r" and "0 \<le> d" and "d \<le> max_i64"
  defines "a \<equiv> f64 (f64 (of_int (rl_tokensPerSecond r)) * Seconds d)"
  shows "a \<le> worth r d * (1 + 4 * roundoff)" and "worth r d * (1 - 4 * roundoff) \<le> a" and "0 \<le> a"
proof -
  define k where "k = rat_of_int (rl_tokensPerSecond r)"
  have k1: "1 \<le> k" using assms(1) by (simp add: limiter_wf_def k_def)
  have fk: "f64 (of_int (rl_tokensPerSecond r)) = k"
    unfolding k_def using assms(1) by (intro f64_of_int) (simp add: limiter_wf_def)
  note S = Seconds_bounds[OF assms(2,3)]
  define t where "t = seconds_of d"
  have t0: "0 \<le> t" using assms(2) by (simp add: t_def seconds_of_def)
  define S' where "S' = Seconds d"
  have S1: "S' \<le> t * (1 + roundoff)\<^sup>2" and S2: "t * (1 - roundoff)\<^sup>2 \<le> S'"
    using S by (simp_all add: S'_def t_def)
  have S0: "0 \<le> S'" using S2 t0 by (meson mult_nonneg_nonneg order_trans zero_le_power2)
  have small: "k * S' = 0 \<or> 1 / 1000000001 \<le> k * S'"
  proof (cases "d = 0")
    case True
    with S(4) show ?thesis by (simp add: S'_def)
  next
    case False
    with S(3) have "1 / 1000000001 \<le> S'" by (simp add: S'_def)
    moreover have "S' \<le> k * S'" using k1 S0 by (simp add: mult_le_cancel_right1)
    ultimately show ?thesis by linarith
  qed
  have aa: "a = f64 (k * S')" by (simp add: a_def fk S'_def)
  have cube: "(1 + roundoff)\<^sup>2 * (1 + roundoff) \<le> 1 + 4 * roundoff"
    "1 - 4 * roundoff \<le> (1 - roundoff)\<^sup>2 * (1 - roundoff)"
    by (simp_all add: roundoff_val power2_eq_square)
  have kt: "0 \<le> k * t" using k1 t0 by simp
  have "a \<le> k * S' * (1 + roundoff)" using f64_bounds(1)[OF small] by (simp add: aa)
  also have "\<dots> \<le> k * (t * (1 + roundoff)\<^sup>2) * (1 + roundoff)"
    using S1 k1 by (intro mult_right_mono mult_left_mono) (simp_all add: roundoff_val)
  also have "\<dots> = k * t * ((1 + roundoff)\<^sup>2 * (1 + roundoff))" by (simp only: mult.assoc)
  also have "\<dots> \<le> k * t * (1 + 4 * roundoff)" by (rule mult_left_mono[OF cube(1) kt])
  finally show "a \<le> worth r d * (1 + 4 * roundoff)" by (simp add: worth_def k_def t_def)
  have "k * t * (1 - 4 * roundoff) \<le> k * t * ((1 - roundoff)\<^sup>2 * (1 - roundoff))"
    by (rule mult_left_mono[OF cube(2) kt])
  also have "\<dots> = k * (t * (1 - roundoff)\<^sup>2) * (1 - roundoff)" by (simp only: mult.assoc)
  also have "\<dots> \<le> k * S' * (1 - roundoff)"
    using S2 k1 by (intro mult_right_mono mult_left_mono) (simp_all add: roundoff_val)
  also have "\<dots> \<le> a" using f64_bounds(2)[OF small] by (simp add: aa)
  finally show "worth r d * (1 - 4 * roundoff) \<le> a" by (simp add: worth_def k_def t_def)
  show "0 \<le> a" unfolding aa using k1 S0 by (intro f64_nonneg) simp
qed

lemma refill_turn_bounds:
  assumes wf: "limiter_wf r" and "0 \<le> now - rl_lastRefill r" and "now - rl_lastRefill r \<le> max_i64"
    and r: "refill_turn now r = (out, r')"
  shows "limiter_wf r'"
    and "rl_tokens r' + (if out = Granted then 1 else 0)
           \<le> rl_tokens r + worth r (now - rl_lastRefill r) * (1 + 4 * roundoff) + turn_error r"
proof -
  define d where "d = now - rl_lastRefill r"
  define a where "a = f64 (f64 (of_int (rl_tokensPerSecond r)) * Seconds d)"
  define b where "b = rat_of_int (rl_burstSize r)"
  define t where "t = minFloat64 (f64 (rl_tokens r + a)) b"
  note ab = added_bounds[OF wf assms(2,3), folded d_def, folded a_def]
  have b2: "2 \<le> b" using wf by (simp add: b_def limiter_wf_def)
  have fb: "f64 (of_int (rl_burstSize r)) = b"
    unfolding b_def using wf by (intro f64_of_int) (simp add: limiter_wf_def)
  have tok: "0 \<le> rl_tokens r" "rl_tokens r \<le> b" using wf by (simp_all add: limiter_wf_def b_def)
  have t0: "0 \<le> t" and tb: "t \<le> b"
    using f64_nonneg[of "rl_tokens r + a"] tok ab(3) b2 by (auto simp: t_def minFloat64_def)
  have t1: "t \<le> rl_tokens r + a + b * roundoff"
  proof (cases "rl_tokens r + a \<le> b")
    case True
    then have "max (rl_tokens r + a) 1 * roundoff \<le> b * roundoff"
      using b2 by (intro mult_right_mono) (auto simp: roundoff_val)
    then have "f64 (rl_tokens r + a) \<le> rl_tokens r + a + b * roundoff"
      using f64_near(1)[of "rl_tokens r + a"] tok ab(3) by linarith
    then show ?thesis by (auto simp: t_def minFloat64_def)
  next
    case False
    with tb b2 show ?thesis by (simp add: roundoff_val)
  qed
  have eq: "refill_turn now r =
      (if t \<ge> 1 then (Granted, r\<lparr>rl_tokens := f64 (t - 1), rl_lastRefill := now\<rparr>)
       else (SleepFor (int_of_float (f64 (of_int second / f64 (of_int (rl_tokensPerSecond r))))),
             r\<lparr>rl_tokens := t, rl_lastRefill := now\<rparr>))"
    by (simp add: refill_turn_def Let_def fb d_def[symmetric] a_def[symmetric] t_def[symmetric])
  define c where "c = b * roundoff"
  have c0: "0 \<le> c" "c \<le> 1"
    using wf by (simp_all add: c_def b_def roundoff_val limiter_wf_def)
  have err: "turn_error r = 4 * c" by (simp add: turn_error_def b_def c_def)
  have gain: "t \<le> rl_tokens r + worth r d * (1 + 4 * roundoff) + c"
    using t1 ab(1) by (simp add: c_def)
  have fin: "limiter_wf r' \<and> rl_tokens r' + (if out = Granted then 1 else 0)
      \<le> rl_tokens r + worth r d * (1 + 4 * roundoff) + turn_error r"
  proof (cases "1 \<le> t")
    case True
    have "max (t - 1) 1 * roundoff \<le> b * roundoff"
      using tb b2 by (intro mult_right_mono) (auto simp: roundoff_val)
    then have n: "f64 (t - 1) \<le> t - 1 + c" "0 \<le> f64 (t - 1)"
      using f64_near(1)[of "t - 1"] f64_nonneg[of "t - 1"] True unfolding c_def by linarith+
    then have "f64 (t - 1) \<le> b" using tb c0 by linarith
    moreover have "f64 (t - 1) + 1 \<le> rl_tokens r + worth r d * (1 + 4 * roundoff) + turn_error r"
      using n gain c0 unfolding err by linarith
    moreover have "out = Granted" "r' = r\<lparr>rl_tokens := f64 (t - 1), rl_lastRefill := now\<rparr>"
      using eq r True by simp_all
    ultimately show ?thesis using wf n(2) by (simp add: limiter_wf_def b_def)
  next
    case False
    have "t \<le> rl_tokens r + worth r d * (1 + 4 * roundoff) + turn_error r"
      using gain c0 unfolding err by linarith
    moreover have "out \<noteq> Granted" "r' = r\<lparr>rl_tokens := t, rl_lastRefill := now\<rparr>"
      using eq r False by auto
    ultimately show ?thesis using wf t0 tb by (simp add: limiter_wf_def b_def)
  qed
  then show "limiter_wf r'"
    and "rl_tokens r' + (if out = Granted then 1 else 0)
           \<le> rl_tokens r + worth r (now - rl_lastRefill r) * (1 + 4 * roundoff) + turn_error r"
    by (simp_all add: d_def)
qed

section \<open>Runs\<close>

text \<open>
  What the workers do with the limiter, in the order in which they get the mutex; the second component
  counts the turns that were granted.
\<close>

datatype limiter_op = Turn int int | Request | Error int int

fun limiter_step :: "limiter_op \<Rightarrow> RateLimiter \<times> nat \<Rightarrow> RateLimiter \<times> nat" where
  "limiter_step (Turn now later) (r, granted) =
     (case wait_turn now later r of
        (Granted, r1) \<Rightarrow> (r1, Suc granted)
      | (SleepFor d, r1) \<Rightarrow> (r1, granted))"
| "limiter_step Request (r, granted) = (RecordRequest r, granted)"
| "limiter_step (Error statusCode now) (r, granted) = (snd (RecordError statusCode now r), granted)"

text \<open>The clock readings do not go back, and stay within a \<open>Duration\<close> of the start.\<close>

fun clock_run :: "int \<Rightarrow> int \<Rightarrow> limiter_op list \<Rightarrow> bool" where
  "clock_run start t [] \<longleftrightarrow> True"
| "clock_run start t (Turn now later # ops) \<longleftrightarrow> t \<le> now \<and> now - start \<le> max_i64 \<and> clock_run start now ops"
| "clock_run start t (Request # ops) \<longleftrightarrow> clock_run start t ops"
| "clock_run start t (Error statusCode now # ops) \<longleftrightarrow> t \<le> now \<and> now - start \<le> max_i64 \<and> clock_run start now ops"

lemma reset_hour_simps [simp]:
  "rl_tokens (reset_hour now r) = rl_tokens r" "rl_lastRefill (reset_hour now r) = rl_lastRefill r"
  "rl_tokensPerSecond (reset_hour now r) = rl_tokensPerSecond r"
  "rl_burstSize (reset_hour now r) = rl_burstSize r" "rl_hourlyLimit (reset_hour now r) = rl_hourlyLimit r"
  "rl_blockedUntil (reset_hour now r) = rl_blockedUntil r"
  by (simp_all add: reset_hour_def)

lemma refill_turn_frame:
  assumes "refill_turn now r = (out, r')"
  shows "rl_lastRefill r' = now" and "rl_tokensPerSecond r' = rl_tokensPerSecond r"
    and "rl_burstSize r' = rl_burstSize r" and "rl_hourlyLimit r' = rl_hourlyLimit r"
    and "rl_blockedUntil r' = rl_blockedUntil r" and "rl_hourlyRequests r' = rl_hourlyRequests r"
  using assms by (auto simp: refill_turn_def Let_def split: if_splits)

text \<open>
  The account kept along a run: what was granted and what is left in the bucket is at most a full
  bucket, what the clock brought, and the rounding of the turns so far.
\<close>

definition account :: "int \<Rightarrow> RateLimiter \<Rightarrow> nat \<Rightarrow> RateLimiter \<times> nat \<Rightarrow> bool" where
  "account t0 r0 turns s \<longleftrightarrow>
     (let (r, granted) = s in
      limiter_wf r \<and> rl_tokensPerSecond r = rl_tokensPerSecond r0 \<and> rl_burstSize r = rl_burstSize r0
      \<and> t0 \<le> rl_lastRefill r
      \<and> of_nat granted + rl_tokens r
          \<le> of_int (rl_burstSize r0) + worth r0 (rl_lastRefill r - t0) * (1 + 4 * roundoff)
            + of_nat turns * turn_error r0)"

lemma turn_error_nonneg: "limiter_wf r \<Longrightarrow> 0 \<le> turn_error r"
  by (simp add: turn_error_def limiter_wf_def)

lemma worth_add: "worth r (a + b) = worth r a + worth r b"
  by (simp add: worth_def seconds_of_def add_divide_distrib distrib_left)

lemma account_frame:
  assumes "account t0 r0 turns (r, granted)" and "limiter_wf r0"
    and "rl_tokens r' = rl_tokens r" "rl_lastRefill r' = rl_lastRefill r"
      "rl_tokensPerSecond r' = rl_tokensPerSecond r" "rl_burstSize r' = rl_burstSize r"
  shows "account t0 r0 (Suc turns) (r', granted)"
  using assms turn_error_nonneg[OF assms(2)] by (auto simp: account_def limiter_wf_def algebra_simps)

lemma account_turn:
  assumes acc: "account t0 r0 turns (r, granted)" and wf: "limiter_wf r0"
    and now: "rl_lastRefill r \<le> now" "now - t0 \<le> max_i64"
  shows "account t0 r0 (Suc turns) (limiter_step (Turn now later) (r, granted))"
proof -
  obtain out r' where w: "wait_turn now later r = (out, r')" by (metis surj_pair)
  from w show ?thesis
  proof (cases rule: wait_turn_cases)
    case (blocked d)
    with w acc wf show ?thesis by (auto intro: account_frame)
  next
    case (over d)
    with w acc wf show ?thesis by (auto intro: account_frame)
  next
    case refill
    define q where "q = reset_hour now r"
    have a: "limiter_wf r" "rl_tokensPerSecond r = rl_tokensPerSecond r0" "rl_burstSize r = rl_burstSize r0"
      "t0 \<le> rl_lastRefill r" "of_nat granted + rl_tokens r
          \<le> of_int (rl_burstSize r0) + worth r0 (rl_lastRefill r - t0) * (1 + 4 * roundoff)
            + of_nat turns * turn_error r0"
      using acc by (simp_all add: account_def)
    have wfq: "limiter_wf q" using a(1) by (simp add: q_def limiter_wf_def)
    have e: "0 \<le> now - rl_lastRefill q" "now - rl_lastRefill q \<le> max_i64" using now a(4) by (simp_all add: q_def)
    have st: "refill_turn now q = (out, r')" using refill(2) by (simp add: q_def)
    note b = refill_turn_bounds[OF wfq e st]
    note fr = refill_turn_frame[OF st]
    have "worth q (now - rl_lastRefill q) = worth r0 (now - rl_lastRefill r)" "turn_error q = turn_error r0"
      using a by (simp_all add: q_def worth_def turn_error_def)
    then have step: "rl_tokens r' + (if out = Granted then 1 else 0)
        \<le> rl_tokens r + worth r0 (now - rl_lastRefill r) * (1 + 4 * roundoff) + turn_error r0"
      using b(2) by (simp add: q_def)
    have "worth r0 (now - t0) = worth r0 (rl_lastRefill r - t0) + worth r0 (now - rl_lastRefill r)"
      using worth_add[of r0 "rl_lastRefill r - t0" "now - rl_lastRefill r"] by simp
    then have "worth r0 (now - t0) * (1 + 4 * roundoff) =
        worth r0 (rl_lastRefill r - t0) * (1 + 4 * roundoff) + worth r0 (now - rl_lastRefill r) * (1 + 4 * roundoff)"
      by (simp only: distrib_right)
    moreover have "of_nat (Suc turns) * turn_error r0 = of_nat turns * turn_error r0 + turn_error r0"
      by (simp add: distrib_right)
    ultimately have "of_nat granted + (rl_tokens r' + (if out = Granted then 1 else 0))
        \<le> of_int (rl_burstSize r0) + worth r0 (now - t0) * (1 + 4 * roundoff) + of_nat (Suc turns) * turn_error r0"
      using a(5) step by linarith
    with b(1) fr a w now st show ?thesis
      by (cases out) (auto simp: account_def q_def add.commute add.left_commute)
  qed
qed

lemma account_run:
  assumes "account t0 r0 turns s" and "limiter_wf r0"
    and "clock_run t0 t ops" and "rl_lastRefill (fst s) \<le> t"
  shows "account t0 r0 (turns + length ops) (fold limiter_step ops s)"
  using assms(1,3,4)
proof (induction ops arbitrary: s t turns)
  case (Cons op ops)
  obtain r granted where s: "s = (r, granted)" by (cases s)
  note wf0 = assms(2)
  show ?case
  proof (cases op)
    case (Turn now later)
    have acc: "account t0 r0 (Suc turns) (limiter_step op s)"
      using account_turn[OF Cons.prems(1)[unfolded s] wf0] Cons.prems(2,3) s Turn by simp
    have "rl_lastRefill (fst (limiter_step op s)) \<le> now"
    proof -
      obtain out r' where w: "wait_turn now later r = (out, r')" by (metis surj_pair)
      from w have "rl_lastRefill r' \<le> now"
        by (cases rule: wait_turn_cases) (use Cons.prems s Turn refill_turn_frame in auto)
      with w s Turn show ?thesis by (cases out) auto
    qed
    from Cons.IH[OF acc _ this] Cons.prems(2) Turn show ?thesis by simp
  next
    case Request
    have "account t0 r0 (Suc turns) (limiter_step op s)"
      using account_frame[OF Cons.prems(1)[unfolded s] wf0] s Request by (simp add: RecordRequest_def)
    with Cons.IH[of "Suc turns" "limiter_step op s" t] Cons.prems(2,3) s Request show ?thesis
      by (simp add: RecordRequest_def)
  next
    case (Error statusCode now)
    have "account t0 r0 (Suc turns) (limiter_step op s)"
      using account_frame[OF Cons.prems(1)[unfolded s] wf0] s Error by (simp add: RecordError_def Let_def)
    with Cons.IH[of "Suc turns" "limiter_step op s" now] Cons.prems(2,3) s Error show ?thesis
      by (simp add: RecordError_def Let_def)
  qed
qed simp

lemma NewRateLimiter_wf:
  assumes "1 \<le> tps" and "tps \<le> 2 ^ 40"
  shows "limiter_wf (NewRateLimiter tps limit t0)"
    and "rl_tokensPerSecond (NewRateLimiter tps limit t0) = tps"
    and "rl_burstSize (NewRateLimiter tps limit t0) = 2 * tps"
    and "rl_tokens (NewRateLimiter tps limit t0) = 2 * of_int tps"
    and "rl_lastRefill (NewRateLimiter tps limit t0) = t0"
proof -
  have b: "i64 (tps * 2) = 2 * tps" using assms by (simp add: i64_id in_i64_def)
  have "\<bar>2 * tps\<bar> \<le> 2 ^ 53" using assms by simp
  then have "f64 (of_int (2 * tps)) = of_int (2 * tps)" by (rule f64_of_int)
  with b assms show "limiter_wf (NewRateLimiter tps limit t0)"
    and "rl_tokensPerSecond (NewRateLimiter tps limit t0) = tps"
    and "rl_burstSize (NewRateLimiter tps limit t0) = 2 * tps"
    and "rl_tokens (NewRateLimiter tps limit t0) = 2 * of_int tps"
    and "rl_lastRefill (NewRateLimiter tps limit t0) = t0"
    by (simp_all add: NewRateLimiter_def limiter_wf_def Let_def)
qed

text \<open>
  C26: The rate is limited.  Whatever the workers do, from a new limiter of \<open>tps\<close> requests a second and
  with a clock that does not go back: the bucket always holds between zero and two seconds' worth of
  tokens, and no more calls of \<open>Wait\<close> have been granted than a full bucket and the time since the start
  allow, up to the rounding of the float64 arithmetic (below \<open>2 ^ -50\<close> of the time and of the bucket
  for each operation).
\<close>

theorem token_bucket_bounds_rate:
  assumes "1 \<le> tps" and "tps \<le> 2 ^ 40" and "clock_run t0 t0 ops"
    and "fold limiter_step ops (NewRateLimiter tps limit t0, 0) = (r, granted)"
  shows "0 \<le> rl_tokens r \<and> rl_tokens r \<le> 2 * of_int tps
     \<and> rat_of_nat granted \<le> 2 * of_int tps
         + of_int tps * (of_int (rl_lastRefill r - t0) / 1000000000) * (1 + 1 / 2 ^ 51)
         + of_nat (length ops) * (2 * of_int tps / 2 ^ 51)"
proof -
  define r0 where "r0 = NewRateLimiter tps limit t0"
  note n = NewRateLimiter_wf[OF assms(1,2), of limit t0, folded r0_def]
  have "account t0 r0 0 (r0, 0)" using n by (simp add: account_def worth_def seconds_of_def)
  from account_run[OF this n(1) assms(3)] n(5) assms(4)
  have a: "account t0 r0 (length ops) (r, granted)" by (simp add: r0_def)
  have e: "1 + 4 * roundoff = 1 + 1 / 2 ^ 51" "turn_error r0 = 2 * of_int tps / 2 ^ 51"
    using n(3) by (simp_all add: roundoff_val turn_error_def)
  from a have *: "0 \<le> rl_tokens r" "rl_tokens r \<le> of_int (rl_burstSize r0)"
    "of_nat granted + rl_tokens r \<le> of_int (rl_burstSize r0)
        + worth r0 (rl_lastRefill r - t0) * (1 + 4 * roundoff) + of_nat (length ops) * turn_error r0"
    by (simp_all add: account_def limiter_wf_def)
  have "of_nat granted \<le> of_int (rl_burstSize r0)
        + worth r0 (rl_lastRefill r - t0) * (1 + 4 * roundoff) + of_nat (length ops) * turn_error r0"
    using *(1,3) by linarith
  then show ?thesis
    using *(1,2) n(2,3) unfolding e worth_def seconds_of_def by simp
qed

text \<open>
  C27: The back-off holds for every worker.  After a 429 the back-off is one second for the first error in
  a row, doubled for each further one up to eight seconds, and until it has passed no call of \<open>Wait\<close> is
  granted, whatever the other workers report meanwhile.
\<close>

theorem backoff_respected:
  assumes "RecordError 429 now r = (backoff, r')"
    and "0 \<le> rl_consecutiveErrors r" and "rl_consecutiveErrors r < max_i64"
    and "\<And>t later. Turn t later \<in> set ops \<Longrightarrow> t < now + backoff"
  shows "backoff = second * 2 ^ nat (min (rl_consecutiveErrors r) 3)
     \<and> snd (fold limiter_step ops (r', granted)) = granted"
proof
  have "i64 (rl_consecutiveErrors r + 1) = rl_consecutiveErrors r + 1"
    using assms(2,3) by (simp add: i64_id in_i64_def)
  with assms(1) show "backoff = second * 2 ^ nat (min (rl_consecutiveErrors r) 3)"
    by (auto simp: RecordError_def Let_def min_int_def)
  define P where "P r = (\<exists>t. rl_blockedUntil r = Some t \<and> now + backoff \<le> t)" for r :: RateLimiter
  have "P r'"
    using assms(1) by (cases "rl_blockedUntil r") (auto simp: P_def RecordError_def Let_def later_block_def)
  moreover have "P (fst (limiter_step op (q, g))) \<and> snd (limiter_step op (q, g)) = g"
    if "P q" "op \<in> set ops" for op q g
  proof (cases op)
    case (Turn t later)
    with assms(4) that have "t < now + backoff" by blast
    with that(1) have "blocked_at t q" by (auto simp: P_def blocked_at_def)
    with that(1) Turn show ?thesis by (simp add: wait_turn_def)
  next
    case (Error c t)
    with that(1) show ?thesis by (auto simp: P_def RecordError_def Let_def later_block_def)
  qed (use that in \<open>simp add: P_def RecordRequest_def\<close>)
  ultimately show "snd (fold limiter_step ops (r', granted)) = granted"
  proof (induction ops arbitrary: r' granted)
    case (Cons op ops)
    from Cons.prems(2)[of r' op granted] Cons.prems(1)
    have st: "P (fst (limiter_step op (r', granted)))" "snd (limiter_step op (r', granted)) = granted" by simp_all
    have "snd (fold limiter_step ops (fst (limiter_step op (r', granted)), granted)) = granted"
      by (rule Cons.IH[OF st(1)]) (use Cons.prems(2) in auto)
    with st(2) show ?case by (metis fold_simps(2) prod.collapse)
  qed simp
qed

section \<open>The hourly budget and progress\<close>

lemma hourly_threshold_bounds:
  assumes "1 \<le> limit" and "limit \<le> 2 ^ 40"
  shows "10 * hourly_threshold limit \<le> 9 * limit" and "9 * limit - 10 \<le> 10 * hourly_threshold limit"
proof -
  define l where "l = rat_of_int limit"
  have l: "1 \<le> l" "l \<le> 2 ^ 40" using assms by (simp_all add: l_def)
  have fl: "f64 (of_int limit) = l" unfolding l_def using assms by (intro f64_of_int) simp
  define h where "h = f64 (9 / 10)"
  have h: "h \<le> 9 / 10 * (1 + roundoff)" "9 / 10 * (1 - roundoff) \<le> h"
    using f64_bounds[of "9 / 10"] by (simp_all add: h_def)
  define p where "p = l * h"
  have lh: "p \<le> l * (9 / 10 * (1 + roundoff))" "l * (9 / 10 * (1 - roundoff)) \<le> p"
    unfolding p_def using h l by (intro mult_left_mono; simp)+
  have "1 * (9 / 10 * (1 - roundoff)) \<le> l * (9 / 10 * (1 - roundoff))"
    using l(1) by (rule mult_right_mono) (simp add: roundoff_val)
  then have "9 / 10 * (1 - roundoff) \<le> p" using lh(2) by linarith
  then have "1 / 1000000001 \<le> p" by (simp add: roundoff_val)
  then have f: "f64 p \<le> p * (1 + roundoff)" "p * (1 - roundoff) \<le> f64 p"
    using f64_bounds[of p] by simp_all
  have near: "f64 p < l * (9 / 10) + 1 / 20" "l * (9 / 10) - 1 / 20 < f64 p"
    using f lh l by (simp_all add: roundoff_val)
  define z where "z = \<lfloor>f64 p\<rfloor>"
  have z: "of_int z \<le> f64 p" "f64 p < of_int z + 1" unfolding z_def by linarith+
  have "0 \<le> f64 p" using near l by linarith
  then have t: "truncate_rat (f64 p) = z" by (simp add: truncate_rat_def z_def)
  have "20 * z < 18 * limit + 1" "18 * limit - 1 < 20 * (z + 1)"
  proof -
    have "rat_of_int (20 * z) < of_int (18 * limit + 1)" using z near by (simp add: l_def)
    then show "20 * z < 18 * limit + 1" by (simp only: of_int_less_iff)
    have "rat_of_int (18 * limit - 1) < of_int (20 * (z + 1))" using z near by (simp add: l_def)
    then show "18 * limit - 1 < 20 * (z + 1)" by (simp only: of_int_less_iff)
  qed
  moreover have "hourly_threshold limit = z"
  proof -
    have "in_i64 z" using assms \<open>20 * z < 18 * limit + 1\<close> \<open>18 * limit - 1 < 20 * (z + 1)\<close>
      by (simp add: in_i64_def)
    then show ?thesis by (simp add: hourly_threshold_def fl h_def[symmetric] p_def[symmetric] int_of_float_def t)
  qed
  ultimately show "10 * hourly_threshold limit \<le> 9 * limit" and "9 * limit - 10 \<le> 10 * hourly_threshold limit"
    by - presburger+
qed

text \<open>
  \<open>Wait\<close> does not starve.  In a turn that comes two token periods or more after the last refill, when
  no back-off is pending and the hour has budget left (a new hour always has, for a limit of two or
  more), the caller gets its token.
\<close>

theorem wait_gets_token:
  assumes "limiter_wf r" and "\<not> blocked_at now r"
    and "2 * second \<le> rl_tokensPerSecond r * (now - rl_lastRefill r)" and "now - rl_lastRefill r \<le> max_i64"
    and "0 \<le> rl_hourlyRequests r"
    and "rl_hourlyRequests r < hourly_threshold (rl_hourlyLimit r)
         \<or> (rl_hourStart r + hour \<le> now \<and> 2 \<le> rl_hourlyLimit r \<and> rl_hourlyLimit r \<le> 2 ^ 40)"
  shows "\<exists>r'. Wait ((now, later, canceled) # turns) r = (Some None, r')"
proof -
  define q where "q = reset_hour now r"
  define d where "d = now - rl_lastRefill q"
  have wf: "limiter_wf q" using assms(1) by (simp add: q_def limiter_wf_def)
  have k: "1 \<le> rl_tokensPerSecond r" using assms(1) by (simp add: limiter_wf_def)
  have d0: "0 \<le> d" "d \<le> max_i64"
  proof -
    have "0 < rl_tokensPerSecond r * d" using assms(3) by (simp add: d_def q_def)
    with k show "0 \<le> d" by (simp add: zero_less_mult_iff)
  qed (use assms(4) in \<open>simp add: d_def q_def\<close>)
  have "hourly_threshold (rl_hourlyLimit q) > rl_hourlyRequests q"
  proof (cases "hour \<le> now - rl_hourStart r")
    case True
    with assms(5,6) hourly_threshold_bounds(2)[of "rl_hourlyLimit r"] show ?thesis
      by (auto simp: q_def reset_hour_def)
  next
    case False
    with assms(6) show ?thesis by (simp add: q_def reset_hour_def)
  qed
  then have o: "wait_turn now later r = refill_turn now q"
    using assms(2) by (simp add: wait_turn_def open_turn_def q_def[symmetric] Let_def)
  define a where "a = f64 (f64 (of_int (rl_tokensPerSecond q)) * Seconds d)"
  have "rat_of_int (2 * second) \<le> of_int (rl_tokensPerSecond q * d)"
    using assms(3) unfolding of_int_le_iff by (simp add: d_def q_def)
  then have "2 \<le> worth q d" by (simp add: worth_def seconds_of_def)
  then have "2 * (1 - 4 * roundoff) \<le> a"
    using added_bounds(2)[OF wf d0] mult_right_mono[of 2 "worth q d" "1 - 4 * roundoff"]
    by (simp add: a_def roundoff_val)
  then have a1: "3 / 2 \<le> a" by (simp add: roundoff_val)
  have tok: "0 \<le> rl_tokens q" using wf by (simp add: limiter_wf_def)
  have "(rl_tokens q + a) * (1 - roundoff) \<le> f64 (rl_tokens q + a)"
    by (rule f64_bounds(2)) (use a1 tok in linarith)
  moreover have "3 / 2 * (1 - roundoff) \<le> (rl_tokens q + a) * (1 - roundoff)"
    using a1 tok by (intro mult_right_mono) (simp_all add: roundoff_val)
  ultimately have "1 \<le> f64 (rl_tokens q + a)" by (simp add: roundoff_val)
  moreover have "1 \<le> f64 (of_int (rl_burstSize q))"
    using f64_of_int[of "rl_burstSize q"] wf by (simp add: limiter_wf_def)
  ultimately have "fst (refill_turn now q) = Granted"
    by (auto simp: refill_turn_def Let_def minFloat64_def d_def[symmetric] a_def[symmetric])
  then obtain r' where "refill_turn now q = (Granted, r')" by (metis prod.collapse)
  with o show ?thesis by simp
qed

section \<open>Concrete runs\<close>

lemma token_bucket_bounds_rate_witness:
  "let (r, granted) = fold limiter_step [Turn 5 6, Request, Error 429 7, Turn 8 9] (NewRateLimiter 8 1000 0, 0)
   in 0 \<le> rl_tokens r \<and> rl_tokens r \<le> 16"
proof -
  obtain r granted where run:
    "fold limiter_step [Turn 5 6, Request, Error 429 7, Turn 8 9] (NewRateLimiter 8 1000 0, 0) = (r, granted)"
    by (metis surj_pair)
  have "clock_run 0 0 [Turn 5 6, Request, Error 429 7, Turn 8 9]" by simp
  from token_bucket_bounds_rate[OF _ _ this run] show ?thesis unfolding run by simp
qed

lemma backoff_respected_witness:
  "snd (fold limiter_step [Turn 5 6, Request, Turn 1999999999 9]
          (snd (RecordError 429 0 ((NewRateLimiter 8 1000 0)\<lparr>rl_consecutiveErrors := 1\<rparr>)), 4)) = 4"
proof -
  define r where "r = (NewRateLimiter 8 1000 0)\<lparr>rl_consecutiveErrors := 1\<rparr>"
  have c: "rl_consecutiveErrors r = 1" by (simp add: r_def)
  have e: "RecordError 429 0 r = (2000000000, snd (RecordError 429 0 r))"
    by (simp add: RecordError_def c Let_def i64_id in_i64_def min_int_def)
  have "2000000000 = second * 2 ^ nat (min (rl_consecutiveErrors r) 3)
     \<and> snd (fold limiter_step [Turn 5 6, Request, Turn 1999999999 9] (snd (RecordError 429 0 r), 4)) = 4"
    by (rule backoff_respected[OF e]) (auto simp: c)
  then show ?thesis by (simp add: r_def)
qed

lemma wait_gets_token_witness:
  "\<exists>r'. Wait [(1000000000, 1000000000, False)] (NewRateLimiter 8 1000 0) = (Some None, r')"
proof -
  note n = NewRateLimiter_wf[of 8 1000 0]
  have "hourly_threshold 1000 > 0" using hourly_threshold_bounds(2)[of 1000] by simp
  then show ?thesis
    by (intro wait_gets_token) (use n in \<open>simp_all add: blocked_at_def NewRateLimiter_def Let_def\<close>)
qed

end
