(* ===== verification/Wk_Backfill.thy ===== *)
theory Wk_Backfill
  imports Wk_Publish Wk_RateLimit
begin

text \<open>
  The parallel backfill of \<open>weatherlink-kafka\<close> (\<open>service/backfill.go\<close>): windows of a day in a channel,
  workers that take a window, wait for the rate limiter, fetch with retries and publish, and a collector
  of the results.

  The workers share the limiter, the set of known keys and the producer.  A run is a list of steps, each
  of one worker: \<open>worker_turn\<close> is what a worker does between two points at which others can run.  The
  check of a key and the publish that follows are two steps, as the code takes and releases the lock in
  between.  What comes from outside (the response of the API, the clock, the cancellation) is the event
  of the step.
\<close>

section \<open>Fetching with retries\<close>

datatype attempt_outcome = Got "Sensor list" | RetryIn int | GiveUp go_error

text \<open>
  One round of \<open>fetchHistoricDataWithRetry\<close>: what is done with the response of attempt number \<open>attempt\<close>.
  The text of the error decides whether it counts as a rate limit.
\<close>

definition after_attempt :: "int \<Rightarrow> int \<Rightarrow> Sensor list result \<Rightarrow> RateLimiter \<Rightarrow> attempt_outcome \<times> RateLimiter" where
  "after_attempt attempt now response r =
     (case response of
        Inr data \<Rightarrow> (Got data, r)
      | Inl er \<Rightarrow>
          if contains_sub (error_text er) ''429'' then
            (let (backoff, r1) = RecordError 429 now r in (RetryIn backoff, r1))
          else if attempt < 3 then (RetryIn (second * attempt), r)
          else (GiveUp (Wrap ''failed after 3 attempts'' er), r))"

text \<open>
  The whole function, over the answers to its attempts: the response, the clock, and whether the context
  is cancelled during the pause.
\<close>

fun retry_loop :: "(int \<Rightarrow> Sensor list result \<times> int \<times> bool) \<Rightarrow> int \<Rightarrow> nat \<Rightarrow> RateLimiter
                   \<Rightarrow> Sensor list result \<times> RateLimiter" where
  "retry_loop answers attempt 0 r = (Inl (Err ''failed after 3 attempts''), r)"
| "retry_loop answers attempt (Suc n) r =
     (let (response, now, canceled) = answers attempt in
      case after_attempt attempt now response r of
        (Got data, r1) \<Rightarrow> (Inr data, r1)
      | (GiveUp er, r1) \<Rightarrow> (Inl er, r1)
      | (RetryIn backoff, r1) \<Rightarrow>
          if canceled then (Inl Canceled, r1) else retry_loop answers (attempt + 1) n r1)"

definition fetchHistoricDataWithRetry ::
    "(int \<Rightarrow> Sensor list result \<times> int \<times> bool) \<Rightarrow> RateLimiter \<Rightarrow> Sensor list result \<times> RateLimiter" where
  "fetchHistoricDataWithRetry answers r = retry_loop answers 1 3 r"

section \<open>Workers\<close>

text \<open>The data points a response asks to publish, with their topics, in the order of the two loops.\<close>

type_synonym job = "string \<times> Sensor \<times> string"

definition jobs_of :: "(int \<rightharpoonup> SensorMetadata) \<Rightarrow> Sensor list \<Rightarrow> job list" where
  "jobs_of sensorMap sensors =
     concat (map (\<lambda>sensor.
       case sensorMap (sn_LSID sensor) of
         None \<Rightarrow> []
       | Some metadata \<Rightarrow>
           map (\<lambda>dp. (GetTopicForCategory (sm_Category metadata), sensor, dp)) (sn_Data sensor)) sensors)"

datatype phase =
    Idle
  | Waiting "int \<times> int"
  | Fetching "int \<times> int" int
  | Pausing "int \<times> int" int
  | Publishing "int \<times> int" "job list" "int \<times> int"
  | Checked "int \<times> int" job int "job list" "int \<times> int"
  | Exited

datatype window_result = WindowDone int int | WindowFailed go_error

record backfill =
  bk_queue :: "(int \<times> int) list"
  bk_limiter :: RateLimiter
  bk_results :: "((int \<times> int) \<times> window_result) list"
  bk_svc :: wk_service
  bk_conn :: "kafka conn"

datatype worker_event =
    Proceed
  | SeesCancel
  | Clock int int bool
  | Answer "Sensor list result" int
  | PauseOver bool

definition finish_window :: "int \<times> int \<Rightarrow> window_result \<Rightarrow> backfill \<Rightarrow> phase \<times> backfill" where
  "finish_window w res s = (Idle, s\<lparr>bk_results := bk_results s @ [(w, res)]\<rparr>)"

text \<open>
  The windows are tagged onto the results here (the field \<open>windowNum\<close> of the code is never set).  An
  event that does not fit the phase is not a step: \<open>None\<close>.
\<close>

definition idle_turn :: "worker_event \<Rightarrow> backfill \<Rightarrow> (phase \<times> backfill) option" where
  "idle_turn ev s =
     (case (ev, bk_queue s) of
        (Proceed, []) \<Rightarrow> Some (Exited, s)
      | (Proceed, w # ws) \<Rightarrow> Some (Waiting w, s\<lparr>bk_queue := ws\<rparr>)
      | (SeesCancel, w # ws) \<Rightarrow> Some (Exited, s\<lparr>bk_queue := ws\<rparr>)
      | _ \<Rightarrow> None)"

definition waiting_turn :: "worker_event \<Rightarrow> int \<times> int \<Rightarrow> backfill \<Rightarrow> (phase \<times> backfill) option" where
  "waiting_turn ev w s =
     (case ev of
        Clock now later canceled \<Rightarrow>
          (case wait_turn now later (bk_limiter s) of
             (Granted, r1) \<Rightarrow> Some (Fetching w 1, s\<lparr>bk_limiter := r1\<rparr>)
           | (SleepFor d, r1) \<Rightarrow>
               (case sleepWithContext canceled d of
                  Some er \<Rightarrow> Some (finish_window w (WindowFailed er) (s\<lparr>bk_limiter := r1\<rparr>))
                | None \<Rightarrow> Some (Waiting w, s\<lparr>bk_limiter := r1\<rparr>)))
      | _ \<Rightarrow> None)"

definition fetching_turn ::
    "worker_event \<Rightarrow> int \<times> int \<Rightarrow> int \<Rightarrow> backfill \<Rightarrow> (phase \<times> backfill) option" where
  "fetching_turn ev w attempt s =
     (case ev of
        Answer response now \<Rightarrow>
          (case after_attempt attempt now response (bk_limiter s) of
             (Got sensors, r1) \<Rightarrow>
               Some (Publishing w (jobs_of (wk_sensorMap (bk_svc s)) sensors) (0, 0),
                     s\<lparr>bk_limiter := RecordRequest r1\<rparr>)
           | (GiveUp er, r1) \<Rightarrow> Some (finish_window w (WindowFailed er) (s\<lparr>bk_limiter := r1\<rparr>))
           | (RetryIn backoff, r1) \<Rightarrow> Some (Pausing w attempt, s\<lparr>bk_limiter := r1\<rparr>))
      | _ \<Rightarrow> None)"

definition pausing_turn ::
    "worker_event \<Rightarrow> int \<times> int \<Rightarrow> int \<Rightarrow> backfill \<Rightarrow> (phase \<times> backfill) option" where
  "pausing_turn ev w attempt s =
     (case ev of
        PauseOver canceled \<Rightarrow>
          if canceled then Some (finish_window w (WindowFailed Canceled) s)
          else if attempt < 3 then Some (Fetching w (attempt + 1), s)
          else Some (finish_window w (WindowFailed (Err ''failed after 3 attempts'')) s)
      | _ \<Rightarrow> None)"

fun publishing_turn ::
    "decoder \<Rightarrow> int \<times> int \<Rightarrow> job list \<Rightarrow> int \<times> int \<Rightarrow> backfill \<Rightarrow> phase \<times> backfill" where
  "publishing_turn um w [] (published, skipped) s = finish_window w (WindowDone published skipped) s"
| "publishing_turn um w ((topic, sensor, dp) # jobs) (published, skipped) s =
     (case unmarshal_map um dp of
        None \<Rightarrow> (Publishing w jobs (published, skipped), s)
      | Some dataMap \<Rightarrow>
          let timestamp = data_timestamp dataMap in
          if record_key (sn_LSID sensor) timestamp \<in> wk_recordKeys (bk_svc s)
          then (Publishing w jobs (published, i64 (skipped + 1)), s)
          else (Checked w (topic, sensor, dp) timestamp jobs (published, skipped), s))"

definition checked_turn ::
    "env \<Rightarrow> header_order \<Rightarrow> int \<times> int \<Rightarrow> job \<Rightarrow> int \<Rightarrow> job list \<Rightarrow> int \<times> int \<Rightarrow> backfill
     \<Rightarrow> phase \<times> backfill" where
  "checked_turn e order w job timestamp jobs counts s =
     (let (topic, sensor, dp) = job; (published, skipped) = counts;
          key = record_key (sn_LSID sensor) timestamp
      in case PublishAsync e order topic key dp (record_headers sensor timestamp) (bk_conn s) of
           (Some _, c1) \<Rightarrow> (Publishing w jobs (published, skipped), s\<lparr>bk_conn := c1\<rparr>)
         | (None, c1) \<Rightarrow>
             (Publishing w jobs (i64 (published + 1), skipped),
              s\<lparr>bk_conn := c1,
                bk_svc := (bk_svc s)\<lparr>wk_recordKeys := insert key (wk_recordKeys (bk_svc s))\<rparr>\<rparr>))"

fun worker_turn ::
    "env \<Rightarrow> decoder \<Rightarrow> header_order \<Rightarrow> worker_event \<Rightarrow> phase \<Rightarrow> backfill \<Rightarrow> (phase \<times> backfill) option" where
  "worker_turn e um order ev Idle s = idle_turn ev s"
| "worker_turn e um order ev (Waiting w) s = waiting_turn ev w s"
| "worker_turn e um order ev (Fetching w attempt) s = fetching_turn ev w attempt s"
| "worker_turn e um order ev (Pausing w attempt) s = pausing_turn ev w attempt s"
| "worker_turn e um order ev (Publishing w jobs counts) s =
     (if ev = Proceed then Some (publishing_turn um w jobs counts s) else None)"
| "worker_turn e um order ev (Checked w job timestamp jobs counts) s =
     (if ev = Proceed then Some (checked_turn e order w job timestamp jobs counts s) else None)"
| "worker_turn e um order ev Exited s = None"

definition backfill_step ::
    "env \<Rightarrow> decoder \<Rightarrow> header_order \<Rightarrow> nat \<times> worker_event \<Rightarrow> phase list \<times> backfill
     \<Rightarrow> (phase list \<times> backfill) option" where
  "backfill_step e um order step s =
     (let (i, ev) = step; (workers, b) = s in
      if i < length workers then
        map_option (\<lambda>(p, b1). (workers[i := p], b1)) (worker_turn e um order ev (workers ! i) b)
      else None)"

fun backfill_run ::
    "env \<Rightarrow> decoder \<Rightarrow> header_order \<Rightarrow> (nat \<times> worker_event) list \<Rightarrow> phase list \<times> backfill
     \<Rightarrow> (phase list \<times> backfill) option" where
  "backfill_run e um order [] s = Some s"
| "backfill_run e um order (step # steps) s =
     (case backfill_step e um order step s of
        None \<Rightarrow> None
      | Some s1 \<Rightarrow> backfill_run e um order steps s1)"

section \<open>\<open>StartBackfill\<close>\<close>

definition start_workers :: "int \<Rightarrow> (int \<times> int) list \<Rightarrow> phase list" where
  "start_workers parallelWorkers timeWindows =
     replicate (nat (if int (length timeWindows) < parallelWorkers then int (length timeWindows)
                     else parallelWorkers)) Idle"

definition start_backfill ::
    "int \<Rightarrow> (int \<times> int) list \<Rightarrow> RateLimiter \<Rightarrow> wk_service \<Rightarrow> kafka conn \<Rightarrow> phase list \<times> backfill" where
  "start_backfill parallelWorkers timeWindows limiter svc c =
     (start_workers parallelWorkers timeWindows,
      \<lparr>bk_queue = timeWindows, bk_limiter = limiter, bk_results = [], bk_svc = svc, bk_conn = c\<rparr>)"

text \<open>The collector: it stops at the first cancelled result and counts the other errors.\<close>

fun collect_results :: "window_result list \<Rightarrow> int \<times> int \<times> int \<Rightarrow> go_error option \<times> int \<times> int \<times> int" where
  "collect_results [] (sent, skipped, errors) = (None, sent, skipped, errors)"
| "collect_results (WindowFailed er # rs) (sent, skipped, errors) =
     (if er = Canceled then (Some Canceled, sent, skipped, errors)
      else collect_results rs (sent, skipped, i64 (errors + 1)))"
| "collect_results (WindowDone p k # rs) (sent, skipped, errors) =
     collect_results rs (i64 (sent + p), i64 (skipped + k), errors)"

section \<open>The moves of a worker\<close>

lemma worker_turn_cases:
  assumes "worker_turn e um order ev p s = Some (p', s')"
  obtains
    (exit) "p = Idle" "bk_queue s = []" "p' = Exited" "s' = s"
  | (take) w ws where "p = Idle" "bk_queue s = w # ws" "p' = Waiting w" "s' = s\<lparr>bk_queue := ws\<rparr>"
  | (cancel) w ws where "ev = SeesCancel" "p = Idle" "bk_queue s = w # ws" "p' = Exited" "s' = s\<lparr>bk_queue := ws\<rparr>"
  | (granted) w now later r1 where "p = Waiting w" "wait_turn now later (bk_limiter s) = (Granted, r1)"
      "p' = Fetching w 1" "s' = s\<lparr>bk_limiter := r1\<rparr>"
  | (asleep) w now later d r1 where "p = Waiting w" "wait_turn now later (bk_limiter s) = (SleepFor d, r1)"
      "p' = Waiting w" "s' = s\<lparr>bk_limiter := r1\<rparr>"
  | (wait_canceled) w now later d r1 er where "p = Waiting w"
      "wait_turn now later (bk_limiter s) = (SleepFor d, r1)"
      "p' = Idle"
      "s' = s\<lparr>bk_limiter := r1, bk_results := bk_results s @ [(w, WindowFailed er)]\<rparr>"
  | (got) w attempt sensors where "p = Fetching w attempt"
      "p' = Publishing w (jobs_of (wk_sensorMap (bk_svc s)) sensors) (0, 0)"
      "s' = s\<lparr>bk_limiter := RecordRequest (bk_limiter s)\<rparr>"
      "\<exists>now. ev = Answer (Inr sensors) now"
  | (gave_up) w attempt er where "p = Fetching w attempt"
      "p' = Idle" "s' = s\<lparr>bk_results := bk_results s @ [(w, WindowFailed er)]\<rparr>"
  | (retry) w attempt r1 where "p = Fetching w attempt" "p' = Pausing w attempt" "s' = s\<lparr>bk_limiter := r1\<rparr>"
      "r1 = bk_limiter s \<or> (\<exists>now. r1 = snd (RecordError 429 now (bk_limiter s)))"
  | (resume) w attempt where "p = Pausing w attempt" "attempt < 3" "p' = Fetching w (attempt + 1)" "s' = s"
  | (pause_ended) w attempt er where "p = Pausing w attempt"
      "p' = Idle" "s' = s\<lparr>bk_results := bk_results s @ [(w, WindowFailed er)]\<rparr>"
  | (published) w n k where "p = Publishing w [] (n, k)"
      "p' = Idle" "s' = s\<lparr>bk_results := bk_results s @ [(w, WindowDone n k)]\<rparr>"
  | (skipped) w j jobs c c' where "p = Publishing w (j # jobs) c" "p' = Publishing w jobs c'" "s' = s"
  | (checked) w topic sensor dp jobs c m where "p = Publishing w ((topic, sensor, dp) # jobs) c"
      "unmarshal_map um dp = Some m"
      "record_key (sn_LSID sensor) (data_timestamp m) \<notin> wk_recordKeys (bk_svc s)"
      "p' = Checked w (topic, sensor, dp) (data_timestamp m) jobs c" "s' = s"
  | (refused) w topic sensor dp ts jobs c c1 er where "p = Checked w (topic, sensor, dp) ts jobs c"
      "PublishAsync e order topic (record_key (sn_LSID sensor) ts) dp (record_headers sensor ts) (bk_conn s) = (Some er, c1)"
      "p' = Publishing w jobs c" "s' = s\<lparr>bk_conn := c1\<rparr>"
  | (sent) w topic sensor dp ts jobs c c' c1 where "p = Checked w (topic, sensor, dp) ts jobs c"
      "PublishAsync e order topic (record_key (sn_LSID sensor) ts) dp (record_headers sensor ts) (bk_conn s) = (None, c1)"
      "p' = Publishing w jobs c'"
      "s' = s\<lparr>bk_conn := c1, bk_svc := (bk_svc s)\<lparr>wk_recordKeys :=
              insert (record_key (sn_LSID sensor) ts) (wk_recordKeys (bk_svc s))\<rparr>\<rparr>"
  using assms
proof (cases p)
  case Idle
  then have t: "idle_turn ev s = Some (p', s')" using assms by simp
  show thesis
  proof (cases "bk_queue s")
    case Nil
    with t Idle show thesis by (intro exit) (cases ev; simp add: idle_turn_def)+
  next
    case (Cons w ws)
    then have "ev = Proceed \<and> p' = Waiting w \<or> ev = SeesCancel \<and> p' = Exited"
      "s' = s\<lparr>bk_queue := ws\<rparr>"
      using t by (cases ev; simp add: idle_turn_def)+
    with Idle Cons show thesis using take[of w ws] cancel[of w ws] by blast
  qed
next
  case (Waiting w)
  then obtain now later canceled where t: "ev = Clock now later canceled"
    using assms by (cases ev) (auto simp: waiting_turn_def)
  obtain out r1 where wt: "wait_turn now later (bk_limiter s) = (out, r1)" by (metis surj_pair)
  show thesis
  proof (cases out)
    case Granted
    with assms t wt Waiting show thesis by (intro granted[of w now later r1]) (auto simp: waiting_turn_def)
  next
    case (SleepFor d)
    show thesis
    proof (cases "sleepWithContext canceled d")
      case None
      with assms t wt Waiting SleepFor show thesis
        by (intro asleep[of w now later d r1]) (auto simp: waiting_turn_def)
    next
      case (Some er)
      with assms t wt Waiting SleepFor show thesis
        by (intro wait_canceled[of w now later d r1 er]) (auto simp: waiting_turn_def finish_window_def)
    qed
  qed
next
  case (Fetching w attempt)
  then obtain response now where t: "ev = Answer response now"
    using assms by (cases ev) (auto simp: fetching_turn_def)
  show thesis
  proof (cases response)
    case (Inr sensors)
    with assms t Fetching show thesis
      by (intro got[of w attempt sensors]) (auto simp: fetching_turn_def after_attempt_def)
  next
    case (Inl er)
    obtain b r1 where rec: "RecordError 429 now (bk_limiter s) = (b, r1)" by (metis surj_pair)
    then have r1: "\<exists>now. r1 = snd (RecordError 429 now (bk_limiter s))" by (metis snd_conv)
    consider (limit) "contains_sub (error_text er) ''429''"
      | (again) "\<not> contains_sub (error_text er) ''429''" "attempt < 3"
      | (last) "\<not> contains_sub (error_text er) ''429''" "\<not> attempt < 3" by blast
    then show thesis
    proof cases
      case limit
      with assms t Inl Fetching rec have "p' = Pausing w attempt" "s' = s\<lparr>bk_limiter := r1\<rparr>"
        by (auto simp: fetching_turn_def after_attempt_def)
      with Fetching r1 show thesis by (intro retry[of w attempt r1]) simp_all
    next
      case again
      with assms t Inl Fetching show thesis
        by (intro retry[of w attempt "bk_limiter s"]) (auto simp: fetching_turn_def after_attempt_def)
    next
      case last
      with assms t Inl Fetching show thesis
        by (intro gave_up[of w attempt "Wrap ''failed after 3 attempts'' er"])
          (auto simp: fetching_turn_def after_attempt_def finish_window_def)
    qed
  qed
next
  case (Pausing w attempt)
  then obtain canceled where t: "ev = PauseOver canceled"
    using assms by (cases ev) (auto simp: pausing_turn_def)
  show thesis
  proof (cases "canceled \<or> \<not> attempt < 3")
    case True
    with assms t Pausing show thesis
      by (intro pause_ended[of w attempt "if canceled then Canceled else Err ''failed after 3 attempts''"])
        (auto simp: pausing_turn_def finish_window_def split: if_splits)
  next
    case False
    with assms t Pausing show thesis by (intro resume[of w attempt]) (auto simp: pausing_turn_def)
  qed
next
  case (Publishing w jobs counts)
  obtain n k where c: "counts = (n, k)" by (cases counts)
  have t: "publishing_turn um w jobs (n, k) s = (p', s')"
    using assms Publishing c by (auto split: if_splits)
  show thesis
  proof (cases jobs)
    case Nil
    with t Publishing c show thesis by (intro published[of w n k]) (auto simp: finish_window_def)
  next
    case (Cons job rest)
    obtain topic sensor dp where j: "job = (topic, sensor, dp)" by (rule prod_cases3)
    show thesis
    proof (cases "unmarshal_map um dp")
      case None
      with t Publishing c Cons j show thesis by (intro skipped[of w job rest "(n, k)" "(n, k)"]) auto
    next
      case (Some m)
      show thesis
      proof (cases "record_key (sn_LSID sensor) (data_timestamp m) \<in> wk_recordKeys (bk_svc s)")
        case True
        with t Publishing c Cons j Some show thesis
          by (intro skipped[of w job rest "(n, k)" "(n, i64 (k + 1))"]) (auto simp: Let_def)
      next
        case False
        with t Publishing c Cons j Some show thesis
          by (intro checked[of w topic sensor dp rest "(n, k)" m]) (auto simp: Let_def)
      qed
    qed
  qed
next
  case (Checked w job ts jobs counts)
  obtain n k where c: "counts = (n, k)" by (cases counts)
  obtain topic sensor dp where j: "job = (topic, sensor, dp)" by (rule prod_cases3)
  obtain r c1 where pb: "PublishAsync e order topic (record_key (sn_LSID sensor) ts) dp
      (record_headers sensor ts) (bk_conn s) = (r, c1)" by (metis surj_pair)
  have t: "checked_turn e order w job ts jobs (n, k) s = (p', s')"
    using assms Checked c by (auto split: if_splits)
  show thesis
  proof (cases r)
    case None
    with t pb Checked c j show thesis
      by (intro sent[of w topic sensor dp ts jobs "(n, k)" c1 "(i64 (n + 1), k)"])
        (auto simp: checked_turn_def Let_def)
  next
    case (Some er)
    with t pb Checked c j show thesis
      by (intro refused[of w topic sensor dp ts jobs "(n, k)" er c1]) (auto simp: checked_turn_def Let_def)
  qed
next
  case Exited
  with assms show thesis by simp
qed

section \<open>Runs\<close>

lemma backfill_run_inv:
  assumes "backfill_run e um order steps s = Some s'" and "I s"
    and "\<And>i ev workers b p b'. (i, ev) \<in> set steps \<Longrightarrow> i < length workers \<Longrightarrow> I (workers, b) \<Longrightarrow>
           worker_turn e um order ev (workers ! i) b = Some (p, b') \<Longrightarrow> I (workers[i := p], b')"
  shows "I s'"
  using assms
proof (induction steps arbitrary: s)
  case (Cons step steps)
  obtain i ev workers b where sw: "step = (i, ev)" "s = (workers, b)" by (metis surj_pair)
  from Cons.prems(1) obtain s1 where s1: "backfill_step e um order step s = Some s1"
    and rest: "backfill_run e um order steps s1 = Some s'" by (auto split: option.splits)
  from s1 sw obtain p b' where st: "i < length workers" "worker_turn e um order ev (workers ! i) b = Some (p, b')"
    "s1 = (workers[i := p], b')" by (auto simp: backfill_step_def split: if_splits)
  have I1: "I s1" using Cons.prems(3)[of i ev workers b p b'] Cons.prems(2) sw st by simp
  show ?case by (rule Cons.IH[OF rest I1]) (use Cons.prems(3) in \<open>metis list.set_intros(2)\<close>)
qed simp

subsection \<open>The hourly budget\<close>

text \<open>A worker that was let through and has not reported a success yet.\<close>

fun holds_grant :: "phase \<Rightarrow> bool" where
  "holds_grant (Fetching w attempt) \<longleftrightarrow> True"
| "holds_grant (Pausing w attempt) \<longleftrightarrow> True"
| "holds_grant _ \<longleftrightarrow> False"

definition in_flight :: "phase list \<Rightarrow> int" where
  "in_flight workers = (\<Sum>p\<leftarrow>workers. of_bool (holds_grant p))"

lemma in_flight_update:
  "i < length workers \<Longrightarrow>
     in_flight (workers[i := p]) = in_flight workers - of_bool (holds_grant (workers ! i)) + of_bool (holds_grant p)"
proof (induction workers arbitrary: i)
  case (Cons q workers)
  then show ?case by (cases i) (auto simp: in_flight_def)
qed simp

lemma in_flight_bounds: "0 \<le> in_flight workers" "in_flight workers \<le> int (length workers)"
  by (induction workers) (auto simp: in_flight_def)

lemma in_flight_room:
  assumes "i < length workers" and "\<not> holds_grant (workers ! i)"
  shows "in_flight workers < int (length workers)"
  using in_flight_update[OF assms(1), of "Fetching undefined undefined"] assms(2)
    in_flight_bounds(2)[of "workers[i := Fetching undefined undefined]"] by simp

definition budget_inv :: "int \<Rightarrow> nat \<Rightarrow> phase list \<times> backfill \<Rightarrow> bool" where
  "budget_inv limit n s \<longleftrightarrow>
     length (fst s) = n \<and> rl_hourlyLimit (bk_limiter (snd s)) = limit
     \<and> 0 \<le> rl_hourlyRequests (bk_limiter (snd s))
     \<and> rl_hourlyRequests (bk_limiter (snd s)) + in_flight (fst s) \<le> hourly_threshold limit - 1 + int n"

lemma wait_turn_budget:
  assumes "wait_turn now later r = (out, r')" and "1 \<le> hourly_threshold (rl_hourlyLimit r)"
    and "0 \<le> rl_hourlyRequests r"
  shows "rl_hourlyLimit r' = rl_hourlyLimit r" and "0 \<le> rl_hourlyRequests r'"
    and "rl_hourlyRequests r' \<le> rl_hourlyRequests r"
    and "out = Granted \<Longrightarrow> rl_hourlyRequests r' < hourly_threshold (rl_hourlyLimit r)"
  using assms(1)
  by (cases rule: wait_turn_cases;
      use assms(2,3) refill_turn_frame in \<open>fastforce simp: reset_hour_def\<close>)+

lemma budget_step:
  assumes "i < length workers" and inv: "budget_inv limit n (workers, b)"
    and t: "worker_turn e um order ev (workers ! i) b = Some (p, b')"
    and thr: "1 \<le> hourly_threshold limit" "hourly_threshold limit + int n \<le> max_i64"
  shows "budget_inv limit n (workers[i := p], b')"
proof -
  note upd = in_flight_update[OF assms(1)]
  from t show ?thesis
  proof (cases rule: worker_turn_cases)
    case (granted w now later r1)
    have "in_flight workers < int (length workers)"
      by (rule in_flight_room[OF assms(1)]) (simp add: granted)
    with granted inv wait_turn_budget[OF granted(2)] thr show ?thesis by (auto simp: budget_inv_def upd)
  next
    case (asleep w now later d r1)
    with inv wait_turn_budget[OF asleep(2)] thr show ?thesis by (fastforce simp: budget_inv_def upd)
  next
    case (wait_canceled w now later d r1 er)
    with inv wait_turn_budget[OF wait_canceled(2)] thr show ?thesis by (fastforce simp: budget_inv_def upd)
  next
    case (got w attempt sensors)
    have "in_i64 (rl_hourlyRequests (bk_limiter b) + 1)"
      using inv thr in_flight_bounds[of workers] got(1) upd[of Idle] in_flight_bounds[of "workers[i := Idle]"]
      by (auto simp: budget_inv_def in_i64_def)
    with got inv show ?thesis by (auto simp: budget_inv_def upd RecordRequest_def i64_id)
  next
    case (retry w attempt r1)
    with inv show ?thesis by (auto simp: budget_inv_def upd RecordError_def Let_def)
  qed (use inv in \<open>auto simp: budget_inv_def upd\<close>)
qed

text \<open>
  C21: The hourly budget holds for all workers together.  Whatever the interleaving, the responses and the
  clock, the successes counted in the current hour and the requests still under way are at most nine
  tenths of the hourly limit (less one) plus the number of workers.
\<close>

theorem hourly_budget:
  assumes "backfill_run e um order steps
             (start_backfill parallelWorkers timeWindows (NewRateLimiter tps limit t0) svc c) = Some (workers, b)"
    and "2 \<le> limit" and "limit \<le> 2 ^ 40" and "parallelWorkers \<le> 2 ^ 40" and "0 \<le> parallelWorkers"
  shows "10 * (rl_hourlyRequests (bk_limiter b) + in_flight workers) \<le> 9 * limit - 10 + 10 * parallelWorkers"
proof -
  define n where "n = length (start_workers parallelWorkers timeWindows)"
  have n: "int n \<le> parallelWorkers" using assms(5) by (simp add: n_def start_workers_def)
  have thr: "1 \<le> hourly_threshold limit" "10 * hourly_threshold limit \<le> 9 * limit"
    using hourly_threshold_bounds[of limit] assms(2,3) by auto
  have max: "hourly_threshold limit + int n \<le> max_i64" using thr n assms(3,4) by simp
  have idle: "in_flight (replicate m Idle) = 0" for m by (induction m) (auto simp: in_flight_def)
  have "budget_inv limit n
      (start_backfill parallelWorkers timeWindows (NewRateLimiter tps limit t0) svc c)"
    using assms(2) thr by (simp add: budget_inv_def start_backfill_def n_def start_workers_def idle
        NewRateLimiter_def Let_def)
  from backfill_run_inv[where I = "budget_inv limit n", OF assms(1) this] budget_step[OF _ _ _ thr(1) max]
  have "budget_inv limit n (workers, b)" by blast
  with n thr show ?thesis by (simp add: budget_inv_def)
qed

subsection \<open>Every window\<close>

fun held_window :: "phase \<Rightarrow> (int \<times> int) list" where
  "held_window Idle = []"
| "held_window Exited = []"
| "held_window (Waiting w) = [w]"
| "held_window (Fetching w attempt) = [w]"
| "held_window (Pausing w attempt) = [w]"
| "held_window (Publishing w jobs counts) = [w]"
| "held_window (Checked w job ts jobs counts) = [w]"

definition held_windows :: "phase list \<Rightarrow> (int \<times> int) multiset" where
  "held_windows workers = mset (concat (map held_window workers))"

lemma held_windows_update:
  "i < length workers \<Longrightarrow>
     held_windows (workers[i := p]) + mset (held_window (workers ! i)) = held_windows workers + mset (held_window p)"
proof (induction workers arbitrary: i)
  case (Cons q workers)
  then show ?case by (cases i) (auto simp: held_windows_def)
qed simp

text \<open>Without a cancellation: nothing is lost, and a worker only leaves when the channel is empty.\<close>

definition windows_inv :: "(int \<times> int) list \<Rightarrow> phase list \<times> backfill \<Rightarrow> bool" where
  "windows_inv ws s \<longleftrightarrow>
     mset (bk_queue (snd s)) + held_windows (fst s) + mset (map fst (bk_results (snd s))) = mset ws
     \<and> (Exited \<in> set (fst s) \<longrightarrow> bk_queue (snd s) = [])"

lemma windows_step:
  assumes "i < length workers" and inv: "windows_inv ws (workers, b)" and "ev \<noteq> SeesCancel"
    and t: "worker_turn e um order ev (workers ! i) b = Some (p, b')"
  shows "windows_inv ws (workers[i := p], b')"
proof -
  note upd = held_windows_update[OF assms(1), of p]
  have ex: "Exited \<in> set (workers[i := p]) \<Longrightarrow> p = Exited \<or> Exited \<in> set workers"
    using set_update_subset_insert[of workers i p] by auto
  have fin: "windows_inv ws (workers[i := Idle], b1)"
    if "held_window (workers ! i) = [w]" "bk_queue b1 = bk_queue b"
      "bk_results b1 = bk_results b @ [(w, res)]" for b1 w res
  proof -
    have "held_windows workers = add_mset w (held_windows (workers[i := Idle]))"
      using held_windows_update[OF assms(1), of Idle] that(1) by simp
    moreover have "Exited \<in> set (workers[i := Idle]) \<Longrightarrow> Exited \<in> set workers"
      using set_update_subset_insert[of workers i Idle] by auto
    ultimately show ?thesis using inv that by (auto simp: windows_inv_def)
  qed
  from t show ?thesis
  proof (cases rule: worker_turn_cases)
    case (take w qs)
    from upd take have "held_windows (workers[i := p]) = add_mset w (held_windows workers)" by simp
    with take inv ex show ?thesis by (auto simp: windows_inv_def)
  next
    case (cancel w qs)
    with assms(3) show ?thesis by simp
  next
    case wait_canceled
    then show ?thesis by (simp add: fin)
  next
    case gave_up
    then show ?thesis by (simp add: fin)
  next
    case pause_ended
    then show ?thesis by (simp add: fin)
  next
    case published
    then show ?thesis by (simp add: fin)
  qed (use inv upd ex in \<open>auto simp: windows_inv_def\<close>)
qed

text \<open>
  C28: Every window is answered for.  In a run that is not cancelled, when all the workers have left (and
  there was at least one), every window has exactly one result, in whatever order the workers took
  them.
\<close>

theorem every_window_has_result:
  assumes "backfill_run e um order steps (start_backfill parallelWorkers timeWindows limiter svc c) = Some (workers, b)"
    and "\<And>i. (i, SeesCancel) \<notin> set steps"
    and "set workers \<subseteq> {Exited}" and "1 \<le> parallelWorkers"
  shows "mset (map fst (bk_results b)) = mset timeWindows"
proof -
  have h0: "held_windows (replicate m Idle) = {#}" for m by (induction m) (auto simp: held_windows_def)
  have "windows_inv timeWindows (start_backfill parallelWorkers timeWindows limiter svc c)"
    by (auto simp: windows_inv_def start_backfill_def start_workers_def h0)
  then have inv: "windows_inv timeWindows (workers, b)"
  proof (rule backfill_run_inv[where I = "windows_inv timeWindows", OF assms(1)])
    fix i ev ws b p b'
    assume "(i, ev) \<in> set steps" and prems: "i < length ws" "windows_inv timeWindows (ws, b)"
      and t: "worker_turn e um order ev (ws ! i) b = Some (p, b')"
    then have "ev \<noteq> SeesCancel" using assms(2) by blast
    with prems t show "windows_inv timeWindows (ws[i := p], b')" by (intro windows_step)
  qed
  have len: "length (fst s') = length (fst s)" if "backfill_run e um order steps s = Some s'" for s s'
    using that by (induction steps arbitrary: s)
      (auto simp: backfill_step_def Let_def split: option.splits if_splits prod.splits)
  have hw: "held_windows workers = {#}" using assms(3) by (induction workers) (auto simp: held_windows_def)
  show ?thesis
  proof (cases "workers = []")
    case True
    with len[OF assms(1)] assms(4) have "timeWindows = []"
      by (auto simp: start_backfill_def start_workers_def split: if_splits)
    with inv show ?thesis by (auto simp: windows_inv_def)
  next
    case False
    with assms(3) have "Exited \<in> set workers" by (cases workers) auto
    with inv hw show ?thesis by (auto simp: windows_inv_def)
  qed
qed

subsection \<open>What is published\<close>

definition job_ok :: "job \<Rightarrow> bool" where
  "job_ok job \<longleftrightarrow> go_ints (fst (snd job))"

fun phase_ok :: "bool \<Rightarrow> wk_service \<Rightarrow> phase \<Rightarrow> bool" where
  "phase_ok exact svc (Publishing w jobs counts) \<longleftrightarrow> list_all job_ok jobs"
| "phase_ok exact svc (Checked w (topic, sensor, dp) ts jobs counts) \<longleftrightarrow>
     go_ints sensor \<and> in_i64 ts \<and> list_all job_ok jobs
     \<and> (exact \<longrightarrow> record_key (sn_LSID sensor) ts \<notin> wk_recordKeys svc)"
| "phase_ok exact svc _ \<longleftrightarrow> True"

definition publish_inv :: "kafka \<Rightarrow> bool \<Rightarrow> phase list \<times> backfill \<Rightarrow> bool" where
  "publish_inv old exact s \<longleftrightarrow>
     wk_inv old exact (bk_svc (snd s), bk_conn (snd s))
     \<and> (\<forall>p \<in> set (fst s). phase_ok exact (bk_svc (snd s)) p)
     \<and> (exact \<longrightarrow> length (fst s) \<le> 1)"

lemma jobs_of_ok:
  assumes "list_all go_ints sensors"
  shows "list_all job_ok (jobs_of sensorMap sensors)"
  using assms by (auto simp: jobs_of_def job_ok_def list_all_iff split: option.splits)

lemma record_key_of_headers_at:
  assumes "permutes_headers order" and "go_ints sensor" and "in_i64 ts"
  shows "key_of_headers \<lparr>m_topic = topic, m_partition = 0, m_offset = 0, m_key = record_key (sn_LSID sensor) ts,
           m_value = body, m_headers = order (record_headers sensor ts)\<rparr>"
  using assms read_record_headers[of order sensor ts]
  by (simp add: key_of_headers_def permutes_headers_def go_ints_def)

lemma phase_ok_insert: "\<not> exact \<Longrightarrow> phase_ok exact svc p \<Longrightarrow> phase_ok exact svc' p"
  by (cases "(exact, svc, p)" rule: phase_ok.cases) auto

lemma publish_step:
  assumes i: "i < length workers" and inv: "publish_inv old exact (workers, b)"
    and t: "worker_turn e um order ev (workers ! i) b = Some (p, b')"
    and "permutes_headers order"
    and ints: "\<And>sensors now. ev = Answer (Inr sensors) now \<Longrightarrow> list_all go_ints sensors"
  shows "publish_inv old exact (workers[i := p], b')"
proof -
  have wk: "wk_inv old exact (bk_svc b, bk_conn b)" and ok: "\<forall>q \<in> set workers. phase_ok exact (bk_svc b) q"
    and one: "exact \<longrightarrow> length workers \<le> 1"
    using inv by (simp_all add: publish_inv_def)
  have pi: "phase_ok exact (bk_svc b) (workers ! i)" using ok i by simp
  have same: "publish_inv old exact (workers[i := q], b1)"
    if "bk_svc b1 = bk_svc b" "bk_conn b1 = bk_conn b" "phase_ok exact (bk_svc b) q" for q b1
    using that wk ok one set_update_subset_insert[of workers i q] by (auto simp: publish_inv_def)
  from t show ?thesis
  proof (cases rule: worker_turn_cases)
    case (got w attempt sensors)
    with ints have "list_all go_ints sensors" by blast
    with got show ?thesis by (auto intro!: same jobs_of_ok)
  next
    case (skipped w j jobs c c')
    with pi show ?thesis by (auto intro!: same)
  next
    case (checked w topic sensor dp jobs c m)
    with pi show ?thesis by (auto intro!: same simp: job_ok_def)
  next
    case (refused w topic sensor dp ts jobs c c1 er)
    then have key: "key_of_headers \<lparr>m_topic = topic, m_partition = 0, m_offset = 0,
        m_key = record_key (sn_LSID sensor) ts, m_value = dp, m_headers = order (record_headers sensor ts)\<rparr>"
      and new: "exact \<longrightarrow> record_key (sn_LSID sensor) ts \<notin> wk_recordKeys (bk_svc b)"
      and jobs: "list_all job_ok jobs"
      using pi assms(4) by (auto intro: record_key_of_headers_at)
    have "wk_inv old exact (bk_svc b, c1)"
      using wk_inv_async(1)[OF wk refused(2)] key new by blast
    with refused jobs ok one set_update_subset_insert[of workers i p] show ?thesis
      by (auto simp: publish_inv_def)
  next
    case (sent w topic sensor dp ts jobs c c' c1)
    then have key: "key_of_headers \<lparr>m_topic = topic, m_partition = 0, m_offset = 0,
        m_key = record_key (sn_LSID sensor) ts, m_value = dp, m_headers = order (record_headers sensor ts)\<rparr>"
      and new: "exact \<longrightarrow> record_key (sn_LSID sensor) ts \<notin> wk_recordKeys (bk_svc b)"
      and jobs: "list_all job_ok jobs"
      using pi assms(4) by (auto intro: record_key_of_headers_at)
    have wk': "wk_inv old exact (bk_svc b', bk_conn b')"
      using wk_inv_async(2)[OF wk sent(2)] key new sent(4) by simp
    have "phase_ok exact (bk_svc b') q" if "q \<in> set (workers[i := p])" for q
    proof (cases exact)
      case True
      with one i have "workers = [workers ! i]" by (cases workers) auto
      with that i have "q = p" by (metis length_list_update length_Suc_conv list.size(3,4) list_update_code(2)
            less_one nth_Cons_0 set_ConsD empty_iff list.set(1) One_nat_def add_0 plus_1_eq_Suc)
      with sent(3) jobs show ?thesis by simp
    next
      case False
      from that set_update_subset_insert[of workers i p] consider "q = p" | "q \<in> set workers" by auto
      then show ?thesis
      proof cases
        case 1
        with sent(3) jobs show ?thesis by simp
      next
        case 2
        with ok have "phase_ok exact (bk_svc b) q" by blast
        then show ?thesis by (rule phase_ok_insert[OF False])
      qed
    qed
    with wk' one show ?thesis by (simp add: publish_inv_def)
  qed (auto intro!: same)
qed

text \<open>The responses of a run hold Go integers.\<close>

definition answers_ok :: "(nat \<times> worker_event) list \<Rightarrow> bool" where
  "answers_ok steps \<longleftrightarrow> (\<forall>i sensors now. (i, Answer (Inr sensors) now) \<in> set steps \<longrightarrow> list_all go_ints sensors)"

lemma backfill_publish_inv:
  assumes "backfill_run e um order steps (start_backfill k timeWindows limiter svc c) = Some (workers, b)"
    and "wk_inv old exact (svc, c)" and "exact \<longrightarrow> k \<le> 1"
    and "permutes_headers order" and "answers_ok steps"
  shows "publish_inv old exact (workers, b)"
proof (rule backfill_run_inv[where I = "publish_inv old exact", OF assms(1)])
  show "publish_inv old exact (start_backfill k timeWindows limiter svc c)"
    using assms(2,3) by (auto simp: publish_inv_def start_backfill_def start_workers_def)
next
  fix i ev ws b p b'
  assume "(i, ev) \<in> set steps" "i < length ws" "publish_inv old exact (ws, b)"
    "worker_turn e um order ev (ws ! i) b = Some (p, b')"
  with assms(3-5) show "publish_inv old exact (ws[i := p], b')"
    by (intro publish_step) (auto simp: answers_ok_def)
qed

text \<open>
  With one worker the backfill publishes a reading once: from a Kafka whose data keys are distinct
  and known, they stay distinct and known, whatever the responses, the refusals and the lost deliveries.
\<close>

theorem single_worker_publishes_once:
  assumes "backfill_run e um order steps (start_backfill 1 timeWindows limiter svc c) = Some (workers, b)"
    and "distinct (data_keys (db c))" and "set (data_keys (db c)) \<subseteq> wk_recordKeys svc"
    and "permutes_headers order" and "answers_ok steps"
  shows "distinct (data_keys (db (bk_conn b))) \<and> set (data_keys (db (bk_conn b))) \<subseteq> wk_recordKeys (bk_svc b)"
proof -
  have "wk_inv (db c) True (svc, c)" using assms(2,3) by (simp add: wk_inv_def)
  from backfill_publish_inv[OF assms(1) this _ assms(4,5)]
  show ?thesis by (simp add: publish_inv_def wk_inv_def)
qed

section \<open>One worker alone\<close>

text \<open>The steps a worker needs, undisturbed, to publish the jobs it holds: their effect is that of a fold.\<close>

definition job_turn ::
    "env \<Rightarrow> decoder \<Rightarrow> header_order \<Rightarrow> job \<Rightarrow> (int \<times> int) \<times> wk_service \<times> kafka conn
     \<Rightarrow> (int \<times> int) \<times> wk_service \<times> kafka conn" where
  "job_turn e um order job s = (let (topic, sensor, dp) = job in historic_point e um order topic sensor dp s)"

lemma job_turn_eq: "job_turn e um order (topic, sensor, dp) = historic_point e um order topic sensor dp"
  by (rule ext) (simp add: job_turn_def)

lemma processHistoricDataAsync_jobs:
  "processHistoricDataAsync e um order sensors (svc, c) =
     fold (job_turn e um order) (jobs_of (wk_sensorMap svc) sensors) ((0, 0), svc, c)"
proof -
  have keep: "wk_sensorMap (fst (snd (historic_point e um order topic sensor dp s))) = wk_sensorMap (fst (snd s))"
    for topic sensor dp s
    by (auto simp: historic_point_def Let_def split: prod.splits option.splits)
  have keeps: "wk_sensorMap (fst (snd (fold (job_turn e um order) js s))) = wk_sensorMap (fst (snd s))" for js s
    by (induction js arbitrary: s) (auto simp: job_turn_def keep split: prod.splits)
  have one: "historic_sensor e um order sensor s = fold (job_turn e um order) (jobs_of M [sensor]) s"
    if "wk_sensorMap (fst (snd s)) = M" for sensor s M
    using that by (auto simp: historic_sensor_def jobs_of_def fold_map comp_def job_turn_eq split: option.splits)
  have "fold (historic_sensor e um order) sensors s = fold (job_turn e um order) (jobs_of M sensors) s"
    if "wk_sensorMap (fst (snd s)) = M" for s M
    using that
  proof (induction sensors arbitrary: s)
    case (Cons sensor sensors)
    have "jobs_of M (sensor # sensors) = jobs_of M [sensor] @ jobs_of M sensors" by (simp add: jobs_of_def)
    with Cons one keeps show ?case by simp
  qed (simp add: jobs_of_def)
  from this[of "((0, 0), svc, c)"] show ?thesis by (simp add: processHistoricDataAsync_def)
qed

lemma backfill_run_append:
  "backfill_run e um order (xs @ ys) s =
     (case backfill_run e um order xs s of None \<Rightarrow> None | Some s1 \<Rightarrow> backfill_run e um order ys s1)"
  by (induction xs arbitrary: s) (auto split: option.splits)

lemma one_job:
  assumes "i < length workers" and "workers ! i = Publishing w (job # jobs) counts"
  shows "\<exists>n. backfill_run e um order (replicate n (i, Proceed)) (workers, b) =
           (let (counts', svc', c') = job_turn e um order job (counts, bk_svc b, bk_conn b)
            in Some (workers[i := Publishing w jobs counts'], b\<lparr>bk_svc := svc', bk_conn := c'\<rparr>))"
proof -
  obtain topic sensor dp where j: "job = (topic, sensor, dp)" by (rule prod_cases3)
  obtain k m where c: "counts = (k, m)" by (cases counts)
  note defs = j c backfill_step_def job_turn_def historic_point_def Let_def
  show ?thesis
  proof (cases "unmarshal_map um dp")
    case None
    with assms show ?thesis by (intro exI[of _ 1]) (simp add: defs)
  next
    case (Some dm)
    show ?thesis
    proof (cases "record_key (sn_LSID sensor) (data_timestamp dm) \<in> wk_recordKeys (bk_svc b)")
      case True
      with assms Some show ?thesis by (intro exI[of _ 1]) (simp add: defs)
    next
      case False
      obtain r c1 where pb: "PublishAsync e order topic (record_key (sn_LSID sensor) (data_timestamp dm)) dp
          (record_headers sensor (data_timestamp dm)) (bk_conn b) = (r, c1)" by (metis surj_pair)
      from assms Some False pb show ?thesis
        by (intro exI[of _ "Suc (Suc 0)"]) (cases r; simp add: defs checked_turn_def)
    qed
  qed
qed

text \<open>
  A worker that is not disturbed publishes what \<open>processHistoricDataAsync\<close> publishes: after enough
  steps of its own it reports the counts of the sequential function, and leaves the same keys and the
  same Kafka.
\<close>

theorem undisturbed_worker_is_sequential:
  assumes "i < length workers" and "workers ! i = Publishing w (jobs_of (wk_sensorMap (bk_svc b)) sensors) (0, 0)"
    and "processHistoricDataAsync e um order sensors (bk_svc b, bk_conn b) = ((published, skipped), svc', c')"
  shows "\<exists>n. backfill_run e um order (replicate n (i, Proceed)) (workers, b) =
           Some (workers[i := Idle], b\<lparr>bk_svc := svc', bk_conn := c',
                   bk_results := bk_results b @ [(w, WindowDone published skipped)]\<rparr>)"
proof -
  have gen: "\<exists>n. backfill_run e um order (replicate n (i, Proceed)) (ws, b1) =
      Some (ws[i := Idle], b1\<lparr>bk_svc := svc', bk_conn := c',
              bk_results := bk_results b1 @ [(w, WindowDone published skipped)]\<rparr>)"
    if "i < length ws" "ws ! i = Publishing w jobs counts"
      "fold (job_turn e um order) jobs (counts, bk_svc b1, bk_conn b1) = ((published, skipped), svc', c')"
    for ws b1 jobs counts
    using that
  proof (induction jobs arbitrary: ws b1 counts)
    case Nil
    then show ?case
      by (intro exI[of _ 1]) (simp add: backfill_step_def finish_window_def)
  next
    case (Cons job jobs)
    obtain counts1 svc1 c1 where j: "job_turn e um order job (counts, bk_svc b1, bk_conn b1) = (counts1, svc1, c1)"
      by (rule prod_cases3)
    obtain n where n: "backfill_run e um order (replicate n (i, Proceed)) (ws, b1) =
        Some (ws[i := Publishing w jobs counts1], b1\<lparr>bk_svc := svc1, bk_conn := c1\<rparr>)"
      using one_job[OF Cons.prems(1,2), of e um order b1] j by auto
    have "i < length (ws[i := Publishing w jobs counts1])"
      "ws[i := Publishing w jobs counts1] ! i = Publishing w jobs counts1"
      "fold (job_turn e um order) jobs (counts1, bk_svc (b1\<lparr>bk_svc := svc1, bk_conn := c1\<rparr>),
          bk_conn (b1\<lparr>bk_svc := svc1, bk_conn := c1\<rparr>)) = ((published, skipped), svc', c')"
      using Cons.prems j by simp_all
    from Cons.IH[OF this] obtain m where m: "backfill_run e um order (replicate m (i, Proceed))
        (ws[i := Publishing w jobs counts1], b1\<lparr>bk_svc := svc1, bk_conn := c1\<rparr>) =
        Some (ws[i := Idle], b1\<lparr>bk_svc := svc', bk_conn := c',
              bk_results := bk_results b1 @ [(w, WindowDone published skipped)]\<rparr>)" by auto
    show ?case
      by (rule exI[of _ "n + m"]) (simp add: replicate_add backfill_run_append n m)
  qed
  show ?thesis
    by (rule gen[OF assms(1,2)]) (use assms(3) in \<open>simp add: processHistoricDataAsync_jobs\<close>)
qed

section \<open>Concrete runs\<close>

text \<open>Two workers and a data point on the boundary of their windows.\<close>

definition boundary_sensor :: Sensor where
  "boundary_sensor = sample_sensor\<lparr>sn_Data := [''a'']\<rparr>"

definition free_limiter :: RateLimiter where
  "free_limiter = NewRateLimiter 8 1000 0"

definition boundary_steps :: "(nat \<times> worker_event) list" where
  "boundary_steps =
     [(0, Proceed), (1, Proceed), (0, Clock 0 0 False), (1, Clock 0 0 False),
      (0, Answer (Inr [boundary_sensor]) 0), (1, Answer (Inr [boundary_sensor]) 0),
      (0, Proceed), (1, Proceed), (0, Proceed), (1, Proceed),
      (0, Proceed), (1, Proceed), (0, Proceed), (1, Proceed)]"

definition boundary_end :: "(phase list \<times> backfill) option" where
  "boundary_end = backfill_run all_done point_decoder rev boundary_steps
     (start_backfill 2 [(0, 100), (100, 200)] free_limiter sample_service \<lparr>db = [], calls = 0\<rparr>)"

lemma grant_token:
  assumes "n \<in> {15, 16}"
  shows "wait_turn 0 0 (free_limiter\<lparr>rl_tokens := n\<rparr>) = (Granted, free_limiter\<lparr>rl_tokens := n - 1\<rparr>)"
proof -
  have i: "f64 16 = 16" "f64 8 = 8" "f64 15 = 15" "f64 14 = 14"
    using f64_of_int[of 16] f64_of_int[of 8] f64_of_int[of 15] f64_of_int[of 14] by simp_all
  have l: "free_limiter = \<lparr>rl_tokensPerSecond = 8, rl_burstSize = 16, rl_hourlyLimit = 1000, rl_tokens = 16,
      rl_lastRefill = 0, rl_hourlyRequests = 0, rl_hourStart = 0, rl_consecutiveErrors = 0, rl_blockedUntil = None\<rparr>"
    by (simp add: free_limiter_def NewRateLimiter_def Let_def i64_id in_i64_def i)
  have "0 < hourly_threshold 1000" using hourly_threshold_bounds(2)[of 1000] by simp
  then show ?thesis
    using assms by (auto simp: l wait_turn_def blocked_at_def open_turn_def reset_hour_def refill_turn_def Let_def
        Seconds_def minFloat64_def i)
qed

lemma grants:
  "wait_turn 0 0 free_limiter = (Granted, free_limiter\<lparr>rl_tokens := 15\<rparr>)"
  "wait_turn 0 0 (free_limiter\<lparr>rl_tokens := 15\<rparr>) = (Granted, free_limiter\<lparr>rl_tokens := 14\<rparr>)"
proof -
  have "free_limiter\<lparr>rl_tokens := 16\<rparr> = free_limiter"
    using f64_of_int[of 16] by (simp add: free_limiter_def NewRateLimiter_def Let_def i64_id in_i64_def)
  then show "wait_turn 0 0 free_limiter = (Granted, free_limiter\<lparr>rl_tokens := 15\<rparr>)"
    using grant_token[of 16] by simp
  show "wait_turn 0 0 (free_limiter\<lparr>rl_tokens := 15\<rparr>) = (Granted, free_limiter\<lparr>rl_tokens := 14\<rparr>)"
    using grant_token[of 15] by simp
qed

lemmas run_defs = start_backfill_def start_workers_def backfill_step_def idle_turn_def waiting_turn_def
  fetching_turn_def after_attempt_def jobs_of_def boundary_sensor_def sample_sensor_def sample_service_def
  point_decoder_def unmarshal_map_def sample_timestamps sample_keys checked_turn_def finish_window_def
  outcome_simps data_keys_def GetTopicForCategory_def is_data_topic_def

text \<open>
  Two workers can publish a reading twice: with a data point that both of two adjacent windows
  return, and both checks before the first publish, the same key is in Kafka twice, although every call
  succeeded.
\<close>

theorem parallel_workers_can_duplicate:
  "(case boundary_end of
      None \<Rightarrow> False
    | Some (workers, b) \<Rightarrow>
        workers = [Exited, Exited] \<and> data_keys (db (bk_conn b)) = [''7:100'', ''7:100''])"
  using grants by (simp add: boundary_end_def boundary_steps_def run_defs Let_def numeral_2_eq_2)

lemma hourly_budget_witness:
  "10 * (rl_hourlyRequests free_limiter + in_flight [Fetching (0, 100) 1, Idle]) \<le> 9 * 1000 - 10 + 10 * 2"
proof -
  define b where "b = snd (start_backfill 2 [(0, 100), (100, 200)] (NewRateLimiter 8 1000 0) sample_service
                             \<lparr>db = [], calls = 0\<rparr>)"
  have "backfill_run all_done point_decoder rev [(0, Proceed), (0, Clock 0 0 False)]
      (start_backfill 2 [(0, 100), (100, 200)] (NewRateLimiter 8 1000 0) sample_service \<lparr>db = [], calls = 0\<rparr>)
      = Some ([Fetching (0, 100) 1, Idle],
              b\<lparr>bk_queue := [(100, 200)], bk_limiter := free_limiter\<lparr>rl_tokens := 15\<rparr>\<rparr>)"
    using grants(1) unfolding free_limiter_def
    by (simp add: start_backfill_def start_workers_def backfill_step_def idle_turn_def waiting_turn_def b_def
        numeral_2_eq_2)
  from hourly_budget[OF this] show ?thesis by simp
qed

lemma every_window_has_result_witness:
  "mset (map fst [((0::int, 100::int), WindowFailed Canceled)]) = mset [(0, 100)]"
proof -
  define r where "r = free_limiter\<lparr>rl_blockedUntil := Some 100\<rparr>"
  have w: "wait_turn 0 0 r = (SleepFor 100, r)" by (simp add: wait_turn_def blocked_at_def r_def)
  have "backfill_run all_done point_decoder rev [(0, Proceed), (0, Clock 0 0 True), (0, Proceed)]
      (start_backfill 3 [(0, 100)] r sample_service \<lparr>db = [], calls = 0\<rparr>)
      = Some ([Exited], \<lparr>bk_queue = [], bk_limiter = r, bk_results = [((0, 100), WindowFailed Canceled)],
                         bk_svc = sample_service, bk_conn = \<lparr>db = [], calls = 0\<rparr>\<rparr>)"
    by (simp add: start_backfill_def start_workers_def backfill_step_def idle_turn_def waiting_turn_def w
        sleepWithContext_def finish_window_def)
  from every_window_has_result[OF this] show ?thesis by simp
qed

lemma undisturbed_worker_is_sequential_witness:
  "\<exists>n. map_option (\<lambda>s. data_keys (db (bk_conn (snd s))))
      (backfill_run all_done point_decoder rev (replicate n (0, Proceed))
         ([Publishing (0, 100) (jobs_of (wk_sensorMap sample_service) [boundary_sensor]) (0, 0)],
          \<lparr>bk_queue = [], bk_limiter = free_limiter, bk_results = [], bk_svc = sample_service,
           bk_conn = \<lparr>db = [], calls = 0\<rparr>\<rparr>)) = Some [''7:100'']"
proof -
  define b where "b = \<lparr>bk_queue = [], bk_limiter = free_limiter, bk_results = [], bk_svc = sample_service,
      bk_conn = \<lparr>db = [], calls = 0\<rparr>\<rparr>"
  obtain n k svc c where r: "processHistoricDataAsync all_done point_decoder rev [boundary_sensor]
      (bk_svc b, bk_conn b) = ((n, k), svc, c)" by (metis surj_pair)
  then have "data_keys (db c) = [''7:100'']"
    by (auto simp: b_def processHistoricDataAsync_def historic_sensor_def historic_point_def boundary_sensor_def
        sample_sensor_def sample_service_def point_decoder_def unmarshal_map_def Let_def sample_timestamps
        sample_keys outcome_simps data_keys_def GetTopicForCategory_def is_data_topic_def)
  moreover have "0 < length [Publishing (0, 100) (jobs_of (wk_sensorMap (bk_svc b)) [boundary_sensor]) (0, 0)]"
    "[Publishing (0, 100) (jobs_of (wk_sensorMap (bk_svc b)) [boundary_sensor]) (0, 0)] ! 0 =
       Publishing (0, 100) (jobs_of (wk_sensorMap (bk_svc b)) [boundary_sensor]) (0, 0)" by simp_all
  from undisturbed_worker_is_sequential[OF this r]
  obtain m where "backfill_run all_done point_decoder rev (replicate m (0, Proceed))
      ([Publishing (0, 100) (jobs_of (wk_sensorMap (bk_svc b)) [boundary_sensor]) (0, 0)], b) =
      Some ([Idle], b\<lparr>bk_svc := svc, bk_conn := c, bk_results := bk_results b @ [((0, 100), WindowDone n k)]\<rparr>)"
    by auto
  ultimately show ?thesis unfolding b_def by (intro exI[of _ m]) simp
qed

definition lone_steps :: "(nat \<times> worker_event) list" where
  "lone_steps = [(0, Proceed), (0, Clock 0 0 False), (0, Answer (Inr [boundary_sensor]) 0),
                 (0, Proceed), (0, Proceed), (0, Proceed)]"

lemma single_worker_publishes_once_witness:
  "case backfill_run all_done point_decoder rev lone_steps
      (start_backfill 1 [(0, 100)] free_limiter sample_service \<lparr>db = [], calls = 0\<rparr>) of
     None \<Rightarrow> False
   | Some (workers, b) \<Rightarrow> data_keys (db (bk_conn b)) = [''7:100''] \<and> distinct (data_keys (db (bk_conn b)))"
proof -
  define s0 where "s0 = start_backfill 1 [(0, 100)] free_limiter sample_service \<lparr>db = [], calls = 0\<rparr>"
  have "map_option (\<lambda>s. data_keys (db (bk_conn (snd s)))) (backfill_run all_done point_decoder rev lone_steps s0)
          = Some [''7:100'']"
    using grants(1) by (simp add: s0_def lone_steps_def run_defs Let_def)
  then obtain workers b where run: "backfill_run all_done point_decoder rev lone_steps s0 = Some (workers, b)"
    and keys: "data_keys (db (bk_conn b)) = [''7:100'']" by auto
  have "answers_ok lone_steps"
    using sample_ints by (auto simp: answers_ok_def lone_steps_def boundary_sensor_def go_ints_def)
  then have "distinct (data_keys (db (bk_conn b)))"
    using single_worker_publishes_once[OF run[unfolded s0_def]] rev_permutes by (simp add: data_keys_def)
  with run keys show ?thesis by (simp add: s0_def)
qed

end
