(* ===== verification/Wk_Service.thy ===== *)
theory Wk_Service
  imports Wk_Backfill
begin

text \<open>
  The run of \<open>weatherlink-kafka\<close> (\<open>service/service.go\<close>): the start, with its scans and first fetches, the
  backfill, and then two loops that run beside each other, one for metadata and one for conditions.

  A step of a loop is what it does between two points at which the other can run: to take the reply of the
  API, to take up a sensor, to publish one record.  The key sets of the two loops are different ones; the
  conditions loop reads the sensor map that the metadata loop writes.
\<close>

section \<open>The start\<close>

definition New :: "string \<Rightarrow> wk_service" where
  "New stationID =
     \<lparr>wk_stationID = stationID, wk_sensorMap = Map.empty, wk_sensorTypes = {}, wk_recordKeys = {},
      wk_metadataKeys = {}\<rparr>"

definition fetchAllCurrentConditions ::
    "env \<Rightarrow> decoder \<Rightarrow> (string \<Rightarrow> nat \<Rightarrow> string list) \<Rightarrow> header_order \<Rightarrow> wk_client \<Rightarrow> exchange
     \<Rightarrow> wk_service \<times> kafka conn \<Rightarrow> wk_service \<times> kafka conn" where
  "fetchAllCurrentConditions e um raw order client exchange s =
     snd (fetchCurrentConditions e um order (FetchCurrentConditions um raw exchange client) s)"

definition update_metadata ::
    "env \<Rightarrow> decoder \<Rightarrow> (json \<Rightarrow> string) \<Rightarrow> header_order \<Rightarrow> wk_client \<Rightarrow> exchange \<Rightarrow> int
     \<Rightarrow> wk_service \<times> kafka conn \<Rightarrow> wk_service \<times> kafka conn" where
  "update_metadata e um encode order client exchange now s =
     fetchAllMetadata e encode order now (FetchSensorMetadata um exchange client)
       (FetchSensorCatalog um exchange client) (FetchStationInfo um exchange client) s"

text \<open>The backfill, when it is enabled: the steps its workers take from the windows.\<close>

definition backfill_phase ::
    "env \<Rightarrow> decoder \<Rightarrow> header_order \<Rightarrow> (int \<times> (int \<times> int) list \<times> RateLimiter) option
     \<Rightarrow> (nat \<times> worker_event) list \<Rightarrow> wk_service \<times> kafka conn \<Rightarrow> (wk_service \<times> kafka conn) option" where
  "backfill_phase e um order config steps s =
     (case config of
        None \<Rightarrow> Some s
      | Some (parallelWorkers, timeWindows, limiter) \<Rightarrow>
          map_option (\<lambda>(workers, b). (bk_svc b, bk_conn b))
            (backfill_run e um order steps (start_backfill parallelWorkers timeWindows limiter (fst s) (snd s))))"

section \<open>The loops\<close>

datatype metadata_work =
    FetchSensors
  | PutSensor int SensorMetadata
  | FetchCatalog
  | PutEntry int CatalogEntry
  | FetchStation

record poller =
  po_sensors :: "Sensor list"                          \<comment> \<open>sensors of the response still to take up\<close>
  po_points :: "job list"                              \<comment> \<open>data points of the sensor taken up\<close>
  po_seen :: "string set"
  po_work :: "metadata_work list"
  po_svc :: wk_service
  po_conn :: "kafka conn"

definition start_loops :: "wk_service \<times> kafka conn \<Rightarrow> poller" where
  "start_loops s =
     \<lparr>po_sensors = [], po_points = [], po_seen = {}, po_work = [], po_svc = fst s, po_conn = snd s\<rparr>"

definition take_response :: "CurrentConditionsResponse result \<Rightarrow> poller \<Rightarrow> poller" where
  "take_response response p =
     (case response of Inl er \<Rightarrow> p | Inr r \<Rightarrow> p\<lparr>po_sensors := cc_Sensors r, po_seen := {}\<rparr>)"

definition sensor_jobs :: "wk_service \<Rightarrow> Sensor \<Rightarrow> job list" where
  "sensor_jobs svc sensor =
     (case wk_sensorMap svc (sn_LSID sensor) of
        None \<Rightarrow> []
      | Some metadata \<Rightarrow> map (\<lambda>dp. (GetTopicForCategory (sm_Category metadata), sensor, dp)) (sn_Data sensor))"

definition put_point :: "env \<Rightarrow> decoder \<Rightarrow> header_order \<Rightarrow> job \<Rightarrow> poller \<Rightarrow> poller" where
  "put_point e um order job p =
     (let (topic, sensor, dp) = job;
          (seen, svc, c) = conditions_point e um order topic sensor dp (po_seen p, po_svc p, po_conn p)
      in p\<lparr>po_seen := seen, po_svc := svc, po_conn := c\<rparr>)"

definition put_shared :: "wk_service \<times> kafka conn \<Rightarrow> poller \<Rightarrow> poller" where
  "put_shared s p = p\<lparr>po_svc := fst s, po_conn := snd s\<rparr>"

fun do_work ::
    "env \<Rightarrow> decoder \<Rightarrow> (json \<Rightarrow> string) \<Rightarrow> header_order \<Rightarrow> wk_client \<Rightarrow> exchange \<Rightarrow> int \<Rightarrow> metadata_work
     \<Rightarrow> wk_service \<times> kafka conn \<Rightarrow> metadata_work list \<times> wk_service \<times> kafka conn" where
  "do_work e um encode order client exchange now FetchSensors s =
     (case FetchSensorMetadata um exchange client of
        Inl er \<Rightarrow> ([], s)
      | Inr r \<Rightarrow> (map (PutSensor (StartOfWeekUnix now)) (sr_Sensors r), s))"
| "do_work e um encode order client exchange now (PutSensor weekStart sensor) s =
     ([], sensor_entry e encode order weekStart sensor s)"
| "do_work e um encode order client exchange now FetchCatalog s =
     (case FetchSensorCatalog um exchange client of
        Inl er \<Rightarrow> ([], s)
      | Inr r \<Rightarrow> (map (PutEntry (sc_GeneratedAt r))
                   (filter (\<lambda>en. ce_SensorType en \<in> wk_sensorTypes (fst s)) (sc_SensorCatalog r)), s))"
| "do_work e um encode order client exchange now (PutEntry generatedAt entry) s =
     ([], catalog_entry e encode order generatedAt entry s)"
| "do_work e um encode order client exchange now FetchStation s =
     ([], snd (fetchStationMetadata e encode order now (FetchStationInfo um exchange client) s))"

inductive poller_step ::
    "env \<Rightarrow> decoder \<Rightarrow> (string \<Rightarrow> nat \<Rightarrow> string list) \<Rightarrow> (json \<Rightarrow> string) \<Rightarrow> header_order \<Rightarrow> wk_client
     \<Rightarrow> poller \<Rightarrow> poller \<Rightarrow> bool"
  for e um raw encode order client where
  conditions_tick:
    "po_sensors p = [] \<Longrightarrow> po_points p = [] \<Longrightarrow>
     poller_step e um raw encode order client p (take_response (FetchCurrentConditions um raw exchange client) p)"
| conditions_sensor:
    "po_points p = [] \<Longrightarrow> po_sensors p = sensor # rest \<Longrightarrow>
     poller_step e um raw encode order client p
       (p\<lparr>po_sensors := rest, po_points := sensor_jobs (po_svc p) sensor\<rparr>)"
| conditions_point:
    "po_points p = job # rest \<Longrightarrow>
     poller_step e um raw encode order client p (put_point e um order job (p\<lparr>po_points := rest\<rparr>))"
| metadata_tick:
    "po_work p = [] \<Longrightarrow>
     poller_step e um raw encode order client p (p\<lparr>po_work := [FetchSensors, FetchCatalog, FetchStation]\<rparr>)"
| metadata_work:
    "po_work p = w # rest \<Longrightarrow>
     do_work e um encode order client exchange now w (po_svc p, po_conn p) = (new, s) \<Longrightarrow>
     poller_step e um raw encode order client p (put_shared s (p\<lparr>po_work := new @ rest\<rparr>))"

section \<open>A loop that is not disturbed does what its function does\<close>

fun all_work ::
    "env \<Rightarrow> decoder \<Rightarrow> (json \<Rightarrow> string) \<Rightarrow> header_order \<Rightarrow> wk_client \<Rightarrow> exchange \<Rightarrow> int
     \<Rightarrow> metadata_work list \<Rightarrow> wk_service \<times> kafka conn \<Rightarrow> wk_service \<times> kafka conn" where
  "all_work e um encode order client exchange now [] s = s"
| "all_work e um encode order client exchange now (w # ws) s =
     (let (new, s1) = do_work e um encode order client exchange now w s
      in all_work e um encode order client exchange now ws
           (fold (\<lambda>v t. snd (do_work e um encode order client exchange now v t)) new s1))"

lemma all_work_update_metadata:
  "all_work e um encode order client exchange now [FetchSensors, FetchCatalog, FetchStation] s =
     update_metadata e um encode order client exchange now s"
  by (simp add: update_metadata_def fetchAllMetadata_def fetchSensorMetadata_def fetchCatalogMetadata_def
      Let_def fold_map comp_def split: sum.splits)

text \<open>One unit of work whose handling leaves nothing more to do.\<close>

lemma small_work:
  assumes "do_work e um encode order client exchange now w (po_svc p, po_conn p) = ([], s)"
  shows "poller_step e um raw encode order client (p\<lparr>po_work := w # rest\<rparr>) (put_shared s (p\<lparr>po_work := rest\<rparr>))"
  using poller_step.metadata_work[where p = "p\<lparr>po_work := w # rest\<rparr>" and w = w and rest = rest and new = "[]"]
    assms by simp

lemma put_shared_simps [simp]:
  "po_svc (put_shared s p) = fst s" "po_conn (put_shared s p) = snd s" "po_work (put_shared s p) = po_work p"
  "po_sensors (put_shared s p) = po_sensors p" "po_points (put_shared s p) = po_points p"
  "po_seen (put_shared s p) = po_seen p"
  "put_shared s' (put_shared s p) = put_shared s' p"
  "put_shared s (p\<lparr>po_work := ws\<rparr>) = (put_shared s p)\<lparr>po_work := ws\<rparr>"
  by (simp_all add: put_shared_def)

lemma small_works:
  assumes "\<And>w s. w \<in> set ws \<Longrightarrow> fst (do_work e um encode order client exchange now w s) = []"
  shows "(poller_step e um raw encode order client)\<^sup>*\<^sup>* (p\<lparr>po_work := ws @ rest\<rparr>)
     (put_shared (fold (\<lambda>v t. snd (do_work e um encode order client exchange now v t)) ws (po_svc p, po_conn p))
        (p\<lparr>po_work := rest\<rparr>))"
  using assms
proof (induction ws arbitrary: p)
  case Nil
  then show ?case by (simp add: put_shared_def)
next
  case (Cons w ws)
  let ?s = "snd (do_work e um encode order client exchange now w (po_svc p, po_conn p))"
  have "do_work e um encode order client exchange now w (po_svc p, po_conn p) = ([], ?s)"
    using Cons.prems[of w "(po_svc p, po_conn p)"] by (metis list.set_intros(1) prod.collapse)
  from small_work[OF this, where raw = raw and rest = "ws @ rest"] Cons.IH[of "put_shared ?s p"] Cons.prems
  show ?case by (auto intro: converse_rtranclp_into_rtranclp)
qed

lemma big_work:
  assumes "\<And>v t. v \<in> set (fst (do_work e um encode order client exchange now w (po_svc p, po_conn p))) \<Longrightarrow>
             fst (do_work e um encode order client exchange now v t) = []"
  shows "(poller_step e um raw encode order client)\<^sup>*\<^sup>* (p\<lparr>po_work := w # rest\<rparr>)
     (put_shared (all_work e um encode order client exchange now [w] (po_svc p, po_conn p)) (p\<lparr>po_work := rest\<rparr>))"
proof -
  obtain new s where w: "do_work e um encode order client exchange now w (po_svc p, po_conn p) = (new, s)"
    by (metis surj_pair)
  have "poller_step e um raw encode order client (p\<lparr>po_work := w # rest\<rparr>)
      (put_shared s (p\<lparr>po_work := new @ rest\<rparr>))"
    using poller_step.metadata_work[where p = "p\<lparr>po_work := w # rest\<rparr>" and w = w and rest = rest and new = new] w
    by simp
  with small_works[where ws = new and p = "put_shared s p" and rest = rest and exchange = exchange and now = now] assms w
  show ?thesis by (auto intro: converse_rtranclp_into_rtranclp)
qed

lemma work_leaves_none:
  assumes "v \<in> set (fst (do_work e um encode order client exchange now w s))"
  shows "fst (do_work e um encode order client exchange now v t) = []"
  using assms by (cases w) (auto split: sum.splits)

lemma all_work_run:
  "(poller_step e um raw encode order client)\<^sup>*\<^sup>* (p\<lparr>po_work := ws\<rparr>)
     (put_shared (all_work e um encode order client exchange now ws (po_svc p, po_conn p)) (p\<lparr>po_work := []\<rparr>))"
proof (induction ws arbitrary: p)
  case Nil
  then show ?case by (simp add: put_shared_def)
next
  case (Cons w ws)
  let ?s = "all_work e um encode order client exchange now [w] (po_svc p, po_conn p)"
  have "(poller_step e um raw encode order client)\<^sup>*\<^sup>* (p\<lparr>po_work := w # ws\<rparr>) (put_shared ?s (p\<lparr>po_work := ws\<rparr>))"
    by (rule big_work) (rule work_leaves_none)
  also have "(poller_step e um raw encode order client)\<^sup>*\<^sup>* (put_shared ?s (p\<lparr>po_work := ws\<rparr>))
      (put_shared (all_work e um encode order client exchange now ws ?s) (p\<lparr>po_work := []\<rparr>))"
    using Cons.IH[of "put_shared ?s p"] by simp
  finally show ?case by (simp add: case_prod_unfold Let_def)
qed

lemma undisturbed_metadata_tick:
  assumes "po_work p = []"
  shows "(poller_step e um raw encode order client)\<^sup>*\<^sup>* p
     (put_shared (update_metadata e um encode order client exchange now (po_svc p, po_conn p)) p)"
proof -
  let ?p = "p\<lparr>po_work := [FetchSensors, FetchCatalog, FetchStation]\<rparr>"
  have "p\<lparr>po_work := []\<rparr> = p" using assms by simp
  then have "(poller_step e um raw encode order client)\<^sup>*\<^sup>* ?p
     (put_shared (update_metadata e um encode order client exchange now (po_svc p, po_conn p)) p)"
    using all_work_run[where p = p and ws = "[FetchSensors, FetchCatalog, FetchStation]" and exchange = exchange
        and now = now, unfolded all_work_update_metadata] by metis
  moreover have "poller_step e um raw encode order client p ?p"
    using assms by (rule poller_step.metadata_tick)
  ultimately show ?thesis by (rule converse_rtranclp_into_rtranclp[rotated])
qed

definition set_triple :: "string set \<times> wk_service \<times> kafka conn \<Rightarrow> poller \<Rightarrow> poller" where
  "set_triple t p = p\<lparr>po_seen := fst t, po_svc := fst (snd t), po_conn := snd (snd t)\<rparr>"

definition triple :: "poller \<Rightarrow> string set \<times> wk_service \<times> kafka conn" where
  "triple p = (po_seen p, po_svc p, po_conn p)"

lemma set_triple_simps [simp]:
  "triple (set_triple t p) = t" "set_triple (triple p) p = p" "set_triple t' (set_triple t p) = set_triple t' p"
  "po_sensors (set_triple t p) = po_sensors p" "po_points (set_triple t p) = po_points p"
  "po_svc (set_triple t p) = fst (snd t)" "po_work (set_triple t p) = po_work p"
  "set_triple t (p\<lparr>po_points := js\<rparr>) = (set_triple t p)\<lparr>po_points := js\<rparr>"
  "set_triple t (p\<lparr>po_sensors := ss\<rparr>) = (set_triple t p)\<lparr>po_sensors := ss\<rparr>"
  "triple (p\<lparr>po_points := js\<rparr>) = triple p" "triple (p\<lparr>po_sensors := ss\<rparr>) = triple p"
  "triple (p\<lparr>po_seen := seen\<rparr>) = (seen, po_svc p, po_conn p)"
  "fst (snd (triple p)) = po_svc p" "snd (snd (triple p)) = po_conn p"
  by (simp_all add: set_triple_def triple_def)

definition point_turn :: "env \<Rightarrow> decoder \<Rightarrow> header_order \<Rightarrow> job \<Rightarrow> string set \<times> wk_service \<times> kafka conn
                          \<Rightarrow> string set \<times> wk_service \<times> kafka conn" where
  "point_turn e um order job = (let (topic, sensor, dp) = job in conditions_point e um order topic sensor dp)"

lemma put_point_triple: "put_point e um order job p = set_triple (point_turn e um order job (triple p)) p"
  by (simp add: put_point_def point_turn_def set_triple_def triple_def split: prod.splits)

lemma conditions_sensor_jobs:
  "conditions_sensor e um order sensor s =
     fold (point_turn e um order) (sensor_jobs (fst (snd s)) sensor) s"
  by (simp add: conditions_sensor_def sensor_jobs_def fold_map comp_def point_turn_def split: option.splits)

lemma points_run:
  "(poller_step e um raw encode order client)\<^sup>*\<^sup>* (p\<lparr>po_points := jobs\<rparr>)
     ((set_triple (fold (point_turn e um order) jobs (triple p)) p)\<lparr>po_points := []\<rparr>)"
proof (induction jobs arbitrary: p)
  case Nil
  show ?case by simp
next
  case (Cons job jobs)
  have "poller_step e um raw encode order client (p\<lparr>po_points := job # jobs\<rparr>)
      (put_point e um order job (p\<lparr>po_points := jobs\<rparr>))"
    using poller_step.conditions_point[where p = "p\<lparr>po_points := job # jobs\<rparr>" and job = job and rest = jobs] by simp
  with Cons.IH[of "set_triple (point_turn e um order job (triple p)) p"] show ?case
    by (auto simp: put_point_triple intro: converse_rtranclp_into_rtranclp)
qed

lemma sensors_run:
  "(poller_step e um raw encode order client)\<^sup>*\<^sup>* (p\<lparr>po_points := [], po_sensors := ss\<rparr>)
     ((set_triple (fold (conditions_sensor e um order) ss (triple p)) p)\<lparr>po_points := [], po_sensors := []\<rparr>)"
proof (induction ss arbitrary: p)
  case Nil
  show ?case by simp
next
  case (Cons sensor ss)
  let ?q = "p\<lparr>po_points := [], po_sensors := ss\<rparr>"
  let ?t = "conditions_sensor e um order sensor (triple p)"
  have "poller_step e um raw encode order client (p\<lparr>po_points := [], po_sensors := sensor # ss\<rparr>)
      (?q\<lparr>po_points := sensor_jobs (po_svc p) sensor\<rparr>)"
    using poller_step.conditions_sensor[where p = "p\<lparr>po_points := [], po_sensors := sensor # ss\<rparr>"
        and sensor = sensor and rest = ss] by simp
  moreover have "(poller_step e um raw encode order client)\<^sup>*\<^sup>* (?q\<lparr>po_points := sensor_jobs (po_svc p) sensor\<rparr>)
      ((set_triple ?t p)\<lparr>po_points := [], po_sensors := ss\<rparr>)"
  proof -
    have "(set_triple (fold (point_turn e um order) (sensor_jobs (po_svc p) sensor) (triple ?q)) ?q)\<lparr>po_points := []\<rparr>
        = (set_triple ?t p)\<lparr>po_points := [], po_sensors := ss\<rparr>"
      by (rule poller.equality) (simp_all add: conditions_sensor_jobs set_triple_def)
    with points_run[where p = ?q and jobs = "sensor_jobs (po_svc p) sensor"] show ?thesis by metis
  qed
  moreover note Cons.IH[of "set_triple ?t p"]
  ultimately show ?case by (auto intro: converse_rtranclp_into_rtranclp rtranclp_trans)
qed

lemma undisturbed_conditions_tick:
  assumes "po_sensors p = []" and "po_points p = []"
  shows "\<exists>seen. (poller_step e um raw encode order client)\<^sup>*\<^sup>* p
     (put_shared (fetchAllCurrentConditions e um raw order client exchange (po_svc p, po_conn p))
        (p\<lparr>po_seen := seen\<rparr>))"
proof (cases "FetchCurrentConditions um raw exchange client")
  case (Inl er)
  then have "put_shared (fetchAllCurrentConditions e um raw order client exchange (po_svc p, po_conn p))
      (p\<lparr>po_seen := po_seen p\<rparr>) = p"
    by (simp add: fetchAllCurrentConditions_def fetchCurrentConditions_def put_shared_def)
  then show ?thesis by (intro exI[of _ "po_seen p"]) simp
next
  case (Inr r)
  let ?t = "fold (conditions_sensor e um order) (cc_Sensors r) ({}, po_svc p, po_conn p)"
  have "poller_step e um raw encode order client p (take_response (Inr r) p)"
    using poller_step.conditions_tick[OF assms] Inr by metis
  moreover have "take_response (Inr r) p = (p\<lparr>po_seen := {}\<rparr>)\<lparr>po_points := [], po_sensors := cc_Sensors r\<rparr>"
    using assms by (simp add: take_response_def)
  ultimately have "(poller_step e um raw encode order client)\<^sup>*\<^sup>* p
      ((set_triple ?t (p\<lparr>po_seen := {}\<rparr>))\<lparr>po_points := [], po_sensors := []\<rparr>)"
    using sensors_run[where p = "p\<lparr>po_seen := {}\<rparr>" and ss = "cc_Sensors r"]
    by (auto simp: triple_def intro: converse_rtranclp_into_rtranclp)
  moreover have "(set_triple ?t (p\<lparr>po_seen := {}\<rparr>))\<lparr>po_points := [], po_sensors := []\<rparr>
      = put_shared (snd ?t) (p\<lparr>po_seen := fst ?t\<rparr>)"
    using assms by (simp add: set_triple_def put_shared_def)
  ultimately show ?thesis
    by (intro exI[of _ "fst ?t"]) (simp add: fetchAllCurrentConditions_def fetchCurrentConditions_def Inr)
qed

section \<open>Keys stay unique\<close>

definition metadata_keys :: "kafka \<Rightarrow> string list" where
  "metadata_keys k = map m_key (filter (\<lambda>m. m_topic m \<in> set metadata_topics_scanned) k)"

text \<open>Every record in Kafka has a known key, and no two records of a kind share one.\<close>

definition keys_unique :: "wk_service \<times> kafka conn \<Rightarrow> bool" where
  "keys_unique s \<longleftrightarrow>
     set (data_keys (db (snd s))) \<subseteq> wk_recordKeys (fst s) \<and> distinct (data_keys (db (snd s)))
     \<and> set (metadata_keys (db (snd s))) \<subseteq> wk_metadataKeys (fst s) \<and> distinct (metadata_keys (db (snd s)))"

lemma metadata_keys_snoc [simp]:
  "metadata_keys (k @ [m]) = metadata_keys k @ (if m_topic m \<in> set metadata_topics_scanned then [m_key m] else [])"
  "data_keys (k @ [m]) = data_keys k @ (if is_data_topic (m_topic m) then [m_key m] else [])"
  by (simp_all add: metadata_keys_def data_keys_def)

lemma data_topic_not_metadata [simp]:
  "GetTopicForCategory cat \<notin> set metadata_topics_scanned"
  by (auto simp: metadata_topics_scanned_def GetTopicForCategory_def Let_def)

lemma scanned_not_data [simp]:
  "topic \<in> set metadata_topics_scanned \<Longrightarrow> \<not> is_data_topic topic"
  using metadata_topics by (auto simp: metadata_topics_scanned_def)

lemma point_keys_unique:
  assumes "keys_unique (snd s)" and "no_lost e"
  shows "keys_unique (snd (conditions_point e um order (GetTopicForCategory cat) sensor dp s))"
  using assms
  by (auto simp: conditions_point_def Let_def keys_unique_def topic_is_data_topic
      split: option.splits prod.splits elim!: Publish_cases)

lemma historic_point_keys_unique:
  assumes "keys_unique (snd s)"
  shows "keys_unique (snd (historic_point e um order (GetTopicForCategory cat) sensor dp s))"
  using assms
  by (auto simp: historic_point_def Let_def keys_unique_def topic_is_data_topic
      split: option.splits prod.splits elim!: PublishAsync_cases)

lemma publish_metadata_keys_unique:
  assumes "keys_unique s" and "no_lost e" and "topic \<in> set metadata_topics_scanned"
  shows "keys_unique (snd (publish_metadata e order topic key body headers s))"
  using assms
  by (auto simp: publish_metadata_def keys_unique_def split: option.splits prod.splits elim!: Publish_cases)

text \<open>The workers of the backfill hold jobs for data topics only, so they leave the metadata alone.\<close>

fun phase_jobs :: "phase \<Rightarrow> job list" where
  "phase_jobs (Publishing w jobs counts) = jobs"
| "phase_jobs (Checked w job ts jobs counts) = job # jobs"
| "phase_jobs _ = []"

definition metadata_apart :: "string list \<Rightarrow> string set \<Rightarrow> phase list \<times> backfill \<Rightarrow> bool" where
  "metadata_apart keys known s \<longleftrightarrow>
     metadata_keys (db (bk_conn (snd s))) = keys \<and> wk_metadataKeys (bk_svc (snd s)) = known
     \<and> (\<forall>p \<in> set (fst s). \<forall>j \<in> set (phase_jobs p). fst j \<notin> set metadata_topics_scanned)"

lemma jobs_of_topics:
  "(topic, sensor, dp) \<in> set (jobs_of sensorMap sensors) \<Longrightarrow> topic \<notin> set metadata_topics_scanned"
  by (auto simp: jobs_of_def split: option.splits)

lemma metadata_apart_step:
  assumes i: "i < length workers" and inv: "metadata_apart keys known (workers, b)"
    and t: "worker_turn e um order ev (workers ! i) b = Some (p, b')"
  shows "metadata_apart keys known (workers[i := p], b')"
proof -
  have ok: "\<forall>j \<in> set (phase_jobs (workers ! i)). fst j \<notin> set metadata_topics_scanned"
    using inv i by (auto simp: metadata_apart_def)
  have same: "metadata_apart keys known (workers[i := q], b1)"
    if "metadata_keys (db (bk_conn b1)) = metadata_keys (db (bk_conn b))"
      "wk_metadataKeys (bk_svc b1) = wk_metadataKeys (bk_svc b)"
      "\<forall>j \<in> set (phase_jobs q). fst j \<notin> set metadata_topics_scanned" for q b1
    using that inv set_update_subset_insert[of workers i q] by (fastforce simp: metadata_apart_def)
  from t show ?thesis
  proof (cases rule: worker_turn_cases)
    case (got w attempt sensors)
    then show ?thesis by (auto intro!: same dest: jobs_of_topics)
  next
    case (refused w topic sensor dp ts jobs c c1 er)
    then show ?thesis using ok by (auto intro!: same elim!: PublishAsync_cases)
  next
    case (sent w topic sensor dp ts jobs c c' c1)
    then show ?thesis using ok by (auto intro!: same elim!: PublishAsync_cases)
  qed (use ok in \<open>auto intro!: same\<close>)
qed

lemma backfill_phase_keys_unique:
  assumes "backfill_phase e um order config steps s = Some s'" and "keys_unique s"
    and "\<And>k ws l. config = Some (k, ws, l) \<Longrightarrow> k \<le> 1"
    and "permutes_headers order" and "answers_ok steps"
  shows "keys_unique s'"
proof (cases config)
  case None
  with assms(1,2) show ?thesis by (simp add: backfill_phase_def)
next
  case (Some cf)
  obtain k tw l where cf: "cf = (k, tw, l)" by (rule prod_cases3)
  obtain svc c where s: "s = (svc, c)" by (cases s)
  from assms(1) Some cf s obtain ws b where run: "backfill_run e um order steps (start_backfill k tw l svc c) = Some (ws, b)"
    and s': "s' = (bk_svc b, bk_conn b)" by (auto simp: backfill_phase_def)
  have k: "k \<le> 1" using assms(3) Some cf by blast
  have "wk_inv (db c) True (svc, c)" using assms(2) s by (simp add: wk_inv_def keys_unique_def)
  from backfill_publish_inv[OF run this _ assms(4,5)] k
  have "set (data_keys (db (bk_conn b))) \<subseteq> wk_recordKeys (bk_svc b)" "distinct (data_keys (db (bk_conn b)))"
    by (simp_all add: publish_inv_def wk_inv_def)
  moreover have "metadata_apart (metadata_keys (db c)) (wk_metadataKeys svc) (ws, b)"
  proof (rule backfill_run_inv[where I = "metadata_apart (metadata_keys (db c)) (wk_metadataKeys svc)", OF run])
    show "metadata_apart (metadata_keys (db c)) (wk_metadataKeys svc) (start_backfill k tw l svc c)"
      by (auto simp: metadata_apart_def start_backfill_def start_workers_def)
  qed (rule metadata_apart_step)
  ultimately show ?thesis using assms(2) s s' by (simp add: keys_unique_def metadata_apart_def)
qed

lemma sensor_entry_keys_unique:
  assumes "keys_unique s" and "no_lost e"
  shows "keys_unique (sensor_entry e encode order w sensor s)"
  using assms unfolding sensor_entry_def
  by (auto simp: Let_def split: prod.splits intro!: publish_metadata_keys_unique)
    (auto simp: keys_unique_def metadata_topics_scanned_def)

lemma catalog_entry_keys_unique:
  assumes "keys_unique s" and "no_lost e"
  shows "keys_unique (catalog_entry e encode order g en s)"
  using assms by (auto simp: catalog_entry_def metadata_topics_scanned_def split: prod.splits bool.splits
      intro!: publish_metadata_keys_unique)

lemma station_keys_unique:
  assumes "keys_unique s" and "no_lost e"
  shows "keys_unique (snd (fetchStationMetadata e encode order now response s))"
  using assms by (auto simp: fetchStationMetadata_def metadata_topics_scanned_def split: sum.splits
      intro!: publish_metadata_keys_unique)

lemma do_work_keys_unique:
  assumes "keys_unique s" and "no_lost e"
  shows "keys_unique (snd (do_work e um encode order client exchange now w s))"
  using assms
  by (cases w) (auto simp: sensor_entry_keys_unique catalog_entry_keys_unique station_keys_unique split: sum.splits)

definition poller_ok :: "poller \<Rightarrow> bool" where
  "poller_ok p \<longleftrightarrow>
     keys_unique (po_svc p, po_conn p) \<and> (\<forall>j \<in> set (po_points p). \<exists>cat. fst j = GetTopicForCategory cat)"

lemma put_point_ok:
  assumes "keys_unique (po_svc p, po_conn p)" and "no_lost e" and "fst job = GetTopicForCategory cat"
  shows "keys_unique (po_svc (put_point e um order job p), po_conn (put_point e um order job p))"
proof -
  obtain sensor dp where job: "job = (GetTopicForCategory cat, sensor, dp)"
    using assms(3) by (metis prod.collapse)
  obtain seen svc c where "conditions_point e um order (GetTopicForCategory cat) sensor dp
      (po_seen p, po_svc p, po_conn p) = (seen, svc, c)" by (rule prod_cases3)
  with point_keys_unique[of "(po_seen p, po_svc p, po_conn p)" e um order cat sensor dp] assms
  show ?thesis by (simp add: put_point_def job)
qed

lemma poller_step_ok:
  assumes "poller_step e um raw encode order client p p'" and "poller_ok p" and "no_lost e"
  shows "poller_ok p'"
  using assms(1)
proof cases
  case (conditions_tick exchange)
  with assms(2) show ?thesis by (auto simp: poller_ok_def take_response_def split: sum.splits)
next
  case (conditions_sensor sensor rest)
  with assms(2) show ?thesis by (auto simp: poller_ok_def sensor_jobs_def split: option.splits)
next
  case (conditions_point job rest)
  then obtain cat where "fst job = GetTopicForCategory cat" using assms(2) by (auto simp: poller_ok_def)
  moreover have "po_points p' = rest" using conditions_point(1) by (simp add: put_point_triple)
  ultimately show ?thesis
    using conditions_point assms(2,3) put_point_ok[of "p\<lparr>po_points := rest\<rparr>" e job cat]
    by (auto simp: poller_ok_def)
next
  case metadata_tick
  with assms(2) show ?thesis by (simp add: poller_ok_def)
next
  case (metadata_work w rest exchange now new s)
  with assms(2,3) do_work_keys_unique[of "(po_svc p, po_conn p)" e um encode order client exchange now w]
  show ?thesis by (simp add: poller_ok_def)
qed

lemma poller_run_ok:
  assumes "(poller_step e um raw encode order client)\<^sup>*\<^sup>* p p'" and "poller_ok p" and "no_lost e"
  shows "poller_ok p'"
  using assms by (induction rule: rtranclp_induct) (auto intro: poller_step_ok)

text \<open>A tick of a loop, run alone, is a run of steps, so the first fetches keep the keys unique as well.\<close>

lemma start_loops_ok: "poller_ok (start_loops s) \<longleftrightarrow> keys_unique s"
  by (simp add: poller_ok_def start_loops_def)

lemma first_fetches_keys_unique:
  assumes "keys_unique s" and "no_lost e"
  shows "keys_unique (fetchAllCurrentConditions e um raw order client exchange
           (update_metadata e um encode order client exchange now s))"
proof -
  have m: "keys_unique (update_metadata e um encode order client exchange now t)" if "keys_unique t" for t
  proof -
    have "po_work (start_loops t) = []" by (simp add: start_loops_def)
    from poller_run_ok[OF undisturbed_metadata_tick[OF this, where exchange = exchange and encode = encode
          and now = now and raw = "\<lambda>body i. []"] _ assms(2)] that
    show ?thesis by (auto simp: start_loops_ok poller_ok_def start_loops_def)
  qed
  have c: "keys_unique (fetchAllCurrentConditions e um raw order client exchange t)" if "keys_unique t" for t
  proof -
    have "po_sensors (start_loops t) = []" "po_points (start_loops t) = []" by (simp_all add: start_loops_def)
    from undisturbed_conditions_tick[OF this, of e um raw encode order client exchange] obtain seen
      where run: "(poller_step e um raw encode order client)\<^sup>*\<^sup>* (start_loops t)
        (put_shared (fetchAllCurrentConditions e um raw order client exchange t) ((start_loops t)\<lparr>po_seen := seen\<rparr>))"
      by (auto simp: start_loops_def)
    have "poller_ok (start_loops t)" using that by (simp add: start_loops_ok)
    from poller_run_ok[OF run this assms(2)] show ?thesis by (simp add: poller_ok_def)
  qed
  show ?thesis by (intro c m assms(1))
qed

section \<open>Restarts\<close>

text \<open>\<open>Start\<close> up to the loops.  The errors of the scans are only logged.\<close>

definition service_start ::
    "env \<Rightarrow> decoder \<Rightarrow> (string \<Rightarrow> nat \<Rightarrow> string list) \<Rightarrow> (json \<Rightarrow> string) \<Rightarrow> header_order \<Rightarrow> wk_client
     \<Rightarrow> (int \<times> (int \<times> int) list \<times> RateLimiter) option \<Rightarrow> (nat \<times> worker_event) list
     \<Rightarrow> go_error option \<times> go_error option \<Rightarrow> (string \<Rightarrow> (int \<times> (int \<times> int) result) list option)
     \<Rightarrow> scan_event list \<times> scan_event list \<Rightarrow> exchange \<Rightarrow> int \<Rightarrow> kafka conn \<Rightarrow> poller option" where
  "service_start e um raw encode order client config steps setup partitions evs exchange now c =
     (let svc = start_scans setup partitions evs (New (wc_stationID client));
          s1 = update_metadata e um encode order client exchange now (svc, c);
          s2 = fetchAllCurrentConditions e um raw order client exchange s1
      in map_option start_loops (backfill_phase e um order config steps s2))"

text \<open>
  A scan that reads everything: it ends without an error and without a time-out, and what it reads begins
  with the messages of its topics, in any order.
\<close>

definition scan_complete ::
    "(string \<Rightarrow> (int \<times> (int \<times> int) result) list option) \<Rightarrow> string list \<Rightarrow> scan_event list \<Rightarrow> kafka \<Rightarrow> bool" where
  "scan_complete partitions topics evs k \<longleftrightarrow>
     fst (scanExistingKeys None partitions topics evs {}) = None
     \<and> list_all (\<lambda>ev. case ev of ScanTimeout _ \<Rightarrow> False | _ \<Rightarrow> True) evs \<and> int (length evs) \<le> max_i64
     \<and> (let old = map m_key (filter (\<lambda>m. m_topic m \<in> set topics) k) in
          snd (query_offsets partitions topics) = int (length old) \<and> [] \<notin> set old
          \<and> length old \<le> length (keys_read evs) \<and> mset (take (length old) (keys_read evs)) = mset old)"

lemma scan_complete_knows:
  assumes "scan_complete partitions topics evs k"
  shows "set (map m_key (filter (\<lambda>m. m_topic m \<in> set topics) k)) \<subseteq> snd (scanExistingKeys None partitions topics evs {})"
proof -
  define old where "old = map m_key (filter (\<lambda>m. m_topic m \<in> set topics) k)"
  obtain r known where scan: "scanExistingKeys None partitions topics evs {} = (r, known)" by (metis surj_pair)
  let ?keys = "take (length old) (keys_read evs)"
  have eq: "set ?keys = set old" using assms by (metis mset_eq_setD old_def scan_complete_def)
  have "r = None" "ScanTimeout position \<notin> set evs" "int (length evs) \<le> max_i64"
    "snd (query_offsets partitions topics) = int (length ?keys)" "[] \<notin> set ?keys" for position
    using assms eq scan unfolding scan_complete_def Let_def old_def[symmetric] list_all_iff by auto
  from scan_makes_keys_known[OF scan[unfolded this(1)] this(2-4) _ this(5), of "drop (length old) (keys_read evs)"]
  show ?thesis unfolding old_def[symmetric] eq[symmetric] scan by simp
qed

lemma record_topics_are_data: "topic \<in> set record_topics \<Longrightarrow> is_data_topic topic"
  by (auto simp: record_topics_def is_data_topic_def)


section \<open>Concrete runs\<close>

text \<open>
  An API with one sensor, whose conditions hold two data points, and a broker that holds the first of them.
\<close>

definition api_fields :: json_map where
  "api_fields = [(''lsid'', JNum 7), (''sensor_type'', JNum 45), (''category'', JStr ''ISS'')]"

definition api_metadata :: SensorMetadata where
  "api_metadata =
     \<lparr>sm_LSID = 7, sm_SensorType = 45, sm_Category = ''ISS'', sm_Manufacturer = [], sm_ProductName = [],
      sm_ProductNumber = [], sm_RainCollectorType = 0, sm_Active = False, sm_TxID = None, sm_PortNumber = 0,
      sm_ParentDeviceType = [], sm_ParentDeviceName = [], sm_ParentDeviceID = 0, sm_ParentDeviceIDHex = [],
      sm_StationID = 0, sm_StationIDUUID = [], sm_StationName = [], sm_Latitude = 0, sm_Longitude = 0,
      sm_Elevation = 0\<rparr>"

definition api_decoder :: decoder where
  "api_decoder s =
     (if s = ''S'' then Some (JObj [(''sensors'', JArr [JObj api_fields])])
      else if s = ''C'' then Some (JObj [(''sensors'', JArr [JObj (api_fields @ [(''data'', JArr [JNull, JNull])])])])
      else if s = ''M'' then Some (metadata_json api_metadata)
      else if s = ''a'' then Some (JObj [(''ts'', JNum 100)])
      else if s = ''b'' then Some (JObj [(''ts'', JNum 400), (''temp'', JNum 5)])
      else None)"

definition api_raw :: "string \<Rightarrow> nat \<Rightarrow> string list" where
  "api_raw body i = [''a'', ''b'']"

definition api_client :: wk_client where
  "api_client = \<lparr>wc_apiKey = ''k'', wc_apiSecret = ''s'', wc_stationID = ''3''\<rparr>"

definition api_exchange :: exchange where
  "api_exchange rq =
     (if rq_url rq = apiBase @ ''sensors?api-key=k'' then Inr (200, ''S'', None)
      else if rq_url rq = apiBase @ ''current/3?api-key=k'' then Inr (200, ''C'', None)
      else Inr (500, ''x'', None))"

definition api_sensor :: Sensor where
  "api_sensor = \<lparr>sn_LSID = 7, sn_SensorType = 45, sn_DataStructureType = 0, sn_Data = [''a'', ''b'']\<rparr>"

lemma lower_names:
  "list_all (\<lambda>n. to_lower n = n)
     [''sensors'', ''lsid'', ''sensor_type'', ''category'', ''data'', ''manufacturer'',
      ''product_name'', ''product_number'', ''rain_collector_type'', ''active'', ''tx_id'',
      ''port_number'', ''parent_device_type'', ''parent_device_name'', ''parent_device_id'',
      ''parent_device_id_hex'', ''station_id'', ''station_id_uuid'', ''station_name'', ''latitude'',
      ''longitude'', ''elevation'', ''generated_at'', ''data_structure_type'']"
  by code_simp

lemmas lower_name_simps = lower_names[simplified]

lemma api_member:
  "json_member api_fields k = (let n = to_lower k in
     if n = ''category'' then Some (JStr ''ISS'') else if n = ''sensor_type'' then Some (JNum 45)
     else if n = ''lsid'' then Some (JNum 7) else None)"
  by (simp add: json_member_def api_fields_def lower_name_simps Let_def)

lemma api_metadata_decoded: "decode_metadata api_fields = Some api_metadata"
  by (simp add: decode_metadata_def int_member_def str_member_def bool_member_def float_member_def
      int_ptr_member_def api_member lower_name_simps in_i64_def api_metadata_def)

lemma api_sensors:
  "FetchSensorMetadata api_decoder api_exchange api_client = Inr \<lparr>sr_Sensors = [api_metadata], sr_GeneratedAt = 0\<rparr>"
  by (simp add: FetchSensorMetadata_def fetch_decoded_def makeRequest_def api_exchange_def api_client_def
      decode_sensors_def decode_body_def api_decoder_def struct_members_def array_member_def decode_array_def
      decode_elem_def api_metadata_decoded json_member_def lower_name_simps int_member_def)

lemma api_sensor_decoded:
  "decode_sensor [''a'', ''b''] (JObj (api_fields @ [(''data'', JArr [JNull, JNull])])) = Some api_sensor"
  by (simp add: decode_sensor_def decode_elem_def struct_members_def int_member_def json_member_def api_fields_def
      lower_name_simps data_member_def in_i64_def api_sensor_def)

lemma api_current:
  "FetchCurrentConditions api_decoder api_raw api_exchange api_client =
     Inr \<lparr>cc_StationID = 0, cc_StationIDUUID = [], cc_Sensors = [api_sensor], cc_GeneratedAt = 0\<rparr>"
  by (simp add: FetchCurrentConditions_def fetch_decoded_def makeRequest_def api_exchange_def api_client_def
      decode_current_def decode_body_def api_decoder_def struct_members_def array_member_def decode_array_def
      sensors_member_def api_raw_def api_sensor_decoded json_member_def lower_name_simps int_member_def
      str_member_def)

lemma api_others:
  "\<exists>er. FetchSensorCatalog api_decoder api_exchange api_client = Inl er"
  "\<exists>er. FetchStationInfo api_decoder api_exchange api_client = Inl er"
  by (simp_all add: FetchSensorCatalog_def FetchStationInfo_def fetch_decoded_def makeRequest_def api_exchange_def
      api_client_def)

definition old_kafka :: kafka where
  "old_kafka = [\<lparr>m_topic = ''weather.iss'', m_partition = 0, m_offset = 0, m_key = ''7:100'', m_value = ''a'',
                 m_headers = []\<rparr>]"

definition old_partitions :: "string \<Rightarrow> (int \<times> (int \<times> int) result) list option" where
  "old_partitions = [''weather.iss'' \<mapsto> [(0, Inr (0, 1))]]"

definition after_scans :: wk_service where
  "after_scans = (New ''3'')\<lparr>wk_recordKeys := {''7:100''}\<rparr>"

lemma old_scans:
  "start_scans (None, None) old_partitions ([ScanMessage ''7:100''], []) (New (wc_stationID api_client)) = after_scans"
  "scan_complete old_partitions record_topics [ScanMessage ''7:100''] old_kafka"
  "scan_complete old_partitions metadata_topics_scanned [] old_kafka"
  by (simp_all add: start_scans_def scanExistingKeys_def query_offsets_def query_partition_def old_partitions_def
      record_topics_def metadata_topics_scanned_def New_def api_client_def after_scans_def scan_complete_def
      old_kafka_def i64_def)

lemma old_metadata:
  "update_metadata all_done api_decoder (\<lambda>j. []) rev api_client api_exchange 0 (after_scans, \<lparr>db = old_kafka, calls = 0\<rparr>)
     = (after_scans\<lparr>wk_sensorMap := [7 \<mapsto> api_metadata], wk_sensorTypes := {45}, wk_metadataKeys := {''7:-259200''}\<rparr>,
        \<lparr>db = old_kafka @ [\<lparr>m_topic = ''weather.metadata.sensors'', m_partition = 0, m_offset = 0,
                           m_key = ''7:-259200'', m_value = [], m_headers = [(''schema_version'', ''1'')]\<rparr>],
         calls = 1\<rparr>)"
proof -
  have "metadata_key (itoa 7) (StartOfWeekUnix 0) = ''7:-259200''"
    by (simp add: metadata_key_def StartOfWeekUnix_def itoa_eval)
  moreover obtain er1 er2 where "FetchSensorCatalog api_decoder api_exchange api_client = Inl er1"
    "FetchStationInfo api_decoder api_exchange api_client = Inl er2" using api_others by blast
  ultimately show ?thesis
    by (simp add: update_metadata_def fetchAllMetadata_def fetchSensorMetadata_def fetchCatalogMetadata_def
        fetchStationMetadata_def api_sensors sensor_entry_def publish_metadata_def Publish_def produce_def
        outcome_simps api_metadata_def after_scans_def New_def)
qed

lemma old_start:
  "\<exists>p. service_start all_done api_decoder api_raw (\<lambda>j. []) rev api_client None [] (None, None) old_partitions
         ([ScanMessage ''7:100''], []) api_exchange 0 \<lparr>db = old_kafka, calls = 0\<rparr> = Some p
     \<and> data_keys (db (po_conn p)) = [''7:100'', ''7:400'']"
proof -
  have k: "record_key 7 100 = ''7:100''" "record_key 7 400 = ''7:400''"
    "data_timestamp [(''ts'', JNum 100)] = 100" "data_timestamp [(''ts'', JNum 400), (''temp'', JNum 5)] = 400"
    using sample_keys sample_timestamps by (simp_all add: data_timestamp_def)
  show ?thesis
    unfolding service_start_def Let_def old_scans old_metadata backfill_phase_def option.case option.map
    by (simp add: fetchAllCurrentConditions_def api_current fetchCurrentConditions_def conditions_sensor_def
        api_sensor_def after_scans_def New_def conditions_point_def api_decoder_def unmarshal_map_def k
        api_metadata_def start_loops_def Publish_def produce_def outcome_simps data_keys_def old_kafka_def
        is_data_topic_def GetTopicForCategory_def Let_def)
qed


end
