(* ===== verification/Wx_Pipeline.thy ===== *)
theory Wx_Pipeline
  imports Wk_Service
begin

text \<open>
  The weather services together: from a reply of the WeatherLink API through \<open>weatherlink-kafka\<close> and Kafka
  and \<open>weatherlink-sql\<close> to a row in the database.  The two services share message keys, headers and the JSON
  of the bodies; here what one writes meets what the other reads.
\<close>

section \<open>What a round of fetches publishes\<close>

definition reading_key :: "decoder \<Rightarrow> job \<Rightarrow> string option" where
  "reading_key um job =
     (let (topic, sensor, dp) = job in
      map_option (\<lambda>m. record_key (sn_LSID sensor) (data_timestamp m)) (unmarshal_map um dp))"

definition reading_message :: "header_order \<Rightarrow> job \<Rightarrow> int \<Rightarrow> message" where
  "reading_message order job ts =
     (let (topic, sensor, dp) = job in
      \<lparr>m_topic = topic, m_partition = 0, m_offset = 0, m_key = record_key (sn_LSID sensor) ts, m_value = dp,
       m_headers = order (record_headers sensor ts)\<rparr>)"

lemma point_turn_keeps:
  "wk_sensorMap (fst (snd (point_turn e um order job s))) = wk_sensorMap (fst (snd s))"
  "set (db (snd (snd s))) \<subseteq> set (db (snd (snd (point_turn e um order job s))))"
proof -
  obtain topic sensor dp where job: "job = (topic, sensor, dp)" by (rule prod_cases3)
  obtain seen svc c where s: "s = (seen, svc, c)" by (rule prod_cases3)
  show "wk_sensorMap (fst (snd (point_turn e um order job s))) = wk_sensorMap (fst (snd s))"
    by (auto simp: point_turn_def job s conditions_point_def Let_def split: option.splits prod.splits)
  show "set (db (snd (snd s))) \<subseteq> set (db (snd (snd (point_turn e um order job s))))"
    by (auto simp: point_turn_def job s conditions_point_def Let_def split: option.splits prod.splits
        elim!: Publish_cases)
qed

lemma point_turns_keep:
  "wk_sensorMap (fst (snd (fold (point_turn e um order) jobs s))) = wk_sensorMap (fst (snd s))"
  "set (db (snd (snd s))) \<subseteq> set (db (snd (snd (fold (point_turn e um order) jobs s))))"
proof -
  show "wk_sensorMap (fst (snd (fold (point_turn e um order) jobs s))) = wk_sensorMap (fst (snd s))"
    by (rule fold_preserves[where P = "\<lambda>t. wk_sensorMap (fst (snd t)) = wk_sensorMap (fst (snd s))"])
      (simp_all add: point_turn_keeps(1))
  show "set (db (snd (snd s))) \<subseteq> set (db (snd (snd (fold (point_turn e um order) jobs s))))"
    by (rule fold_preserves[where P = "\<lambda>t. set (db (snd (snd s))) \<subseteq> set (db (snd (snd t)))"])
      (use point_turn_keeps(2) in blast)+
qed

definition known_keys :: "string set \<times> wk_service \<times> kafka conn \<Rightarrow> string set" where
  "known_keys s = fst s \<union> wk_recordKeys (fst (snd s))"

lemma point_turn_other_key:
  assumes "reading_key um job \<noteq> Some k" and "k \<notin> known_keys s"
  shows "k \<notin> known_keys (point_turn e um order job s)"
proof -
  obtain topic sensor dp where job: "job = (topic, sensor, dp)" by (rule prod_cases3)
  obtain seen svc c where s: "s = (seen, svc, c)" by (rule prod_cases3)
  from assms show ?thesis
    by (auto simp: known_keys_def reading_key_def point_turn_def job s conditions_point_def Let_def
        split: option.splits prod.splits)
qed

lemma point_turns_other_key:
  assumes "\<And>j. j \<in> set jobs \<Longrightarrow> reading_key um j \<noteq> Some k" and "k \<notin> known_keys s"
  shows "k \<notin> known_keys (fold (point_turn e um order) jobs s)"
  using assms by (intro fold_preserves[where P = "\<lambda>s. k \<notin> known_keys s"] point_turn_other_key)

lemma point_turn_publishes:
  assumes "unmarshal_map um dp = Some m" and "record_key (sn_LSID sensor) (data_timestamp m) \<notin> known_keys s"
  shows "reading_message order (topic, sensor, dp) (data_timestamp m)
           \<in> set (db (snd (snd (point_turn all_done um order (topic, sensor, dp) s))))"
proof -
  obtain seen svc c where s: "s = (seen, svc, c)" by (rule prod_cases3)
  from assms show ?thesis
    by (auto simp: known_keys_def point_turn_def s conditions_point_def Let_def reading_message_def
        Publish_def produce_def outcome_simps)
qed

lemma point_turns_publish:
  assumes "job \<in> set jobs" and "job = (topic, sensor, dp)" and "unmarshal_map um dp = Some m"
    and "\<And>j. j \<in> set jobs \<Longrightarrow> reading_key um j = reading_key um job \<Longrightarrow> j = job"
    and "record_key (sn_LSID sensor) (data_timestamp m) \<notin> known_keys s"
  shows "reading_message order job (data_timestamp m) \<in> set (db (snd (snd (fold (point_turn all_done um order) jobs s))))"
proof -
  obtain pre post where split: "jobs = pre @ job # post" "job \<notin> set pre"
    using split_list_first[OF assms(1)] by blast
  let ?k = "record_key (sn_LSID sensor) (data_timestamp m)"
  let ?s = "fold (point_turn all_done um order) pre s"
  have key: "reading_key um job = Some ?k" using assms(2,3) by (simp add: reading_key_def)
  then have "reading_key um j \<noteq> Some ?k" if "j \<in> set pre" for j
    using assms(4)[of j] that split by auto
  then have "?k \<notin> known_keys ?s" using assms(5) by (rule point_turns_other_key)
  from point_turn_publishes[OF assms(3) this, of order topic]
  show ?thesis using point_turns_keep(2)[of "point_turn all_done um order job ?s" all_done um order post]
    by (auto simp: split assms(2))
qed

lemma conditions_jobs:
  "fold (conditions_sensor e um order) sensors s =
     fold (point_turn e um order) (jobs_of (wk_sensorMap (fst (snd s))) sensors) s"
proof (induction sensors arbitrary: s)
  case Nil
  show ?case by (simp add: jobs_of_def)
next
  case (Cons sensor sensors)
  let ?s = "fold (point_turn e um order) (sensor_jobs (fst (snd s)) sensor) s"
  have "wk_sensorMap (fst (snd ?s)) = wk_sensorMap (fst (snd s))" by (rule point_turns_keep(1))
  then show ?case
    using Cons.IH[of ?s] by (simp add: conditions_sensor_jobs jobs_of_def sensor_jobs_def)
qed

lemma conditions_published:
  assumes "FetchCurrentConditions um raw exchange client = Inr r"
    and "(topic, sensor, dp) \<in> set (jobs_of (wk_sensorMap svc) (cc_Sensors r))" and "unmarshal_map um dp = Some m"
    and "\<And>j. j \<in> set (jobs_of (wk_sensorMap svc) (cc_Sensors r)) \<Longrightarrow>
           reading_key um j = reading_key um (topic, sensor, dp) \<Longrightarrow> j = (topic, sensor, dp)"
    and "record_key (sn_LSID sensor) (data_timestamp m) \<notin> wk_recordKeys svc"
  shows "reading_message order (topic, sensor, dp) (data_timestamp m)
           \<in> set (db (snd (fetchAllCurrentConditions all_done um raw order client exchange (svc, c))))"
    and "set (db c) \<subseteq> set (db (snd (fetchAllCurrentConditions all_done um raw order client exchange (svc, c))))"
proof -
  let ?s = "({}, svc, c)"
  have run: "snd (fetchAllCurrentConditions all_done um raw order client exchange (svc, c)) =
      snd (snd (fold (point_turn all_done um order) (jobs_of (wk_sensorMap svc) (cc_Sensors r)) ?s))"
    using assms(1) conditions_jobs[of all_done um order "cc_Sensors r" ?s]
    by (simp add: fetchAllCurrentConditions_def fetchCurrentConditions_def)
  have "record_key (sn_LSID sensor) (data_timestamp m) \<notin> known_keys ?s" using assms(5) by (simp add: known_keys_def)
  from point_turns_publish[OF assms(2) refl assms(3,4) this] run
  show "reading_message order (topic, sensor, dp) (data_timestamp m)
           \<in> set (db (snd (fetchAllCurrentConditions all_done um raw order client exchange (svc, c))))" by simp
  show "set (db c) \<subseteq> set (db (snd (fetchAllCurrentConditions all_done um raw order client exchange (svc, c))))"
    using run point_turns_keep(2)[of ?s] by simp
qed

section \<open>What a metadata update publishes\<close>

definition metadata_message :: "(json \<Rightarrow> string) \<Rightarrow> header_order \<Rightarrow> int \<Rightarrow> SensorMetadata \<Rightarrow> message" where
  "metadata_message encode order weekStart sensor =
     \<lparr>m_topic = ''weather.metadata.sensors'', m_partition = 0, m_offset = 0,
      m_key = metadata_key (itoa (sm_LSID sensor)) weekStart, m_value = encode (metadata_json sensor),
      m_headers = order [(''schema_version'', ''1'')]\<rparr>"

lemma publish_metadata_keeps:
  "wk_sensorMap (fst (snd (publish_metadata e order topic key body headers s))) = wk_sensorMap (fst s)"
  "wk_recordKeys (fst (snd (publish_metadata e order topic key body headers s))) = wk_recordKeys (fst s)"
  "set (db (snd s)) \<subseteq> set (db (snd (snd (publish_metadata e order topic key body headers s))))"
  by (cases s; auto simp: publish_metadata_def split: option.splits prod.splits elim!: Publish_cases)+

lemma sensor_entry_keeps:
  "wk_sensorMap (fst (sensor_entry e encode order w sensor s)) = (wk_sensorMap (fst s))(sm_LSID sensor \<mapsto> sensor)"
  "wk_recordKeys (fst (sensor_entry e encode order w sensor s)) = wk_recordKeys (fst s)"
  "set (db (snd s)) \<subseteq> set (db (snd (sensor_entry e encode order w sensor s)))"
proof -
  obtain svc c where s: "s = (svc, c)" by (cases s)
  note keeps = publish_metadata_keeps[where s = "(svc\<lparr>wk_sensorMap := (wk_sensorMap svc)(sm_LSID sensor \<mapsto> sensor),
      wk_sensorTypes := insert (sm_SensorType sensor) (wk_sensorTypes svc)\<rparr>, c)"]
  show "wk_sensorMap (fst (sensor_entry e encode order w sensor s)) = (wk_sensorMap (fst s))(sm_LSID sensor \<mapsto> sensor)"
    "wk_recordKeys (fst (sensor_entry e encode order w sensor s)) = wk_recordKeys (fst s)"
    using keeps(1,2) by (simp_all add: s sensor_entry_def Let_def)
  show "set (db (snd s)) \<subseteq> set (db (snd (sensor_entry e encode order w sensor s)))"
    using keeps(3) by (simp add: s sensor_entry_def Let_def)
qed

lemma sensor_entry_publishes:
  assumes "metadata_key (itoa (sm_LSID sensor)) w \<notin> wk_metadataKeys (fst s)"
  shows "metadata_message encode order w sensor \<in> set (db (snd (sensor_entry all_done encode order w sensor s)))"
  using assms
  by (cases s) (auto simp: sensor_entry_def metadata_message_def publish_metadata_def Publish_def produce_def
      outcome_simps Let_def)

lemma sensor_entry_other_key:
  assumes "k \<noteq> metadata_key (itoa (sm_LSID sensor)) w" and "k \<notin> wk_metadataKeys (fst s)"
  shows "k \<notin> wk_metadataKeys (fst (sensor_entry e encode order w sensor s))"
  using assms
  by (cases s) (auto simp: sensor_entry_def publish_metadata_def Let_def split: option.splits prod.splits)

lemma metadata_key_inj:
  assumes "metadata_key (itoa i) n = metadata_key (itoa j) n"
  shows "i = j"
  using assms itoa_inj by (simp add: metadata_key_def)

lemma sensor_entries_keep:
  "wk_recordKeys (fst (fold (sensor_entry e encode order w) sensors s)) = wk_recordKeys (fst s)"
  "set (db (snd s)) \<subseteq> set (db (snd (fold (sensor_entry e encode order w) sensors s)))"
  "lsid \<notin> sm_LSID ` set sensors \<Longrightarrow>
     wk_sensorMap (fst (fold (sensor_entry e encode order w) sensors s)) lsid = wk_sensorMap (fst s) lsid"
proof -
  show "wk_recordKeys (fst (fold (sensor_entry e encode order w) sensors s)) = wk_recordKeys (fst s)"
    by (rule fold_preserves[where P = "\<lambda>t. wk_recordKeys (fst t) = wk_recordKeys (fst s)"])
      (simp_all add: sensor_entry_keeps(2))
  show "set (db (snd s)) \<subseteq> set (db (snd (fold (sensor_entry e encode order w) sensors s)))"
    by (rule fold_preserves[where P = "\<lambda>t. set (db (snd s)) \<subseteq> set (db (snd t))"])
      (use sensor_entry_keeps(3) in blast)+
  show "wk_sensorMap (fst (fold (sensor_entry e encode order w) sensors s)) lsid = wk_sensorMap (fst s) lsid"
    if "lsid \<notin> sm_LSID ` set sensors"
    by (rule fold_preserves[where P = "\<lambda>t. wk_sensorMap (fst t) lsid = wk_sensorMap (fst s) lsid"])
      (use that in \<open>auto simp: sensor_entry_keeps(1)\<close>)
qed

lemma sensors_published:
  assumes "sm \<in> set sensors" and "distinct (map sm_LSID sensors)"
    and "metadata_key (itoa (sm_LSID sm)) w \<notin> wk_metadataKeys (fst s)"
  shows "metadata_message encode order w sm \<in> set (db (snd (fold (sensor_entry all_done encode order w) sensors s)))"
    and "wk_sensorMap (fst (fold (sensor_entry all_done encode order w) sensors s)) (sm_LSID sm) = Some sm"
proof -
  obtain pre post where split: "sensors = pre @ sm # post" using assms(1) by (meson split_list)
  let ?s = "fold (sensor_entry all_done encode order w) pre s"
  let ?t = "sensor_entry all_done encode order w sm ?s"
  have "metadata_key (itoa (sm_LSID sm)) w \<notin> wk_metadataKeys (fst ?s)"
  proof (rule fold_preserves[where P = "\<lambda>t. metadata_key (itoa (sm_LSID sm)) w \<notin> wk_metadataKeys (fst t)"])
    fix x and t :: "wk_service \<times> kafka conn"
    assume "x \<in> set pre" and "metadata_key (itoa (sm_LSID sm)) w \<notin> wk_metadataKeys (fst t)"
    moreover have "sm_LSID x \<noteq> sm_LSID sm"
    proof -
      have "sm_LSID x \<in> sm_LSID ` set pre" using \<open>x \<in> set pre\<close> by (rule imageI)
      moreover have "sm_LSID sm \<notin> sm_LSID ` set pre" using assms(2) split by simp
      ultimately show ?thesis by metis
    qed
    ultimately show "metadata_key (itoa (sm_LSID sm)) w
        \<notin> wk_metadataKeys (fst (sensor_entry all_done encode order w x t))"
      by (intro sensor_entry_other_key) (auto dest: metadata_key_inj)
  qed (rule assms(3))
  from sensor_entry_publishes[OF this] sensor_entries_keep(2)[of ?t all_done encode order w post]
  show "metadata_message encode order w sm \<in> set (db (snd (fold (sensor_entry all_done encode order w) sensors s)))"
    by (auto simp: split)
  have "sm_LSID sm \<notin> sm_LSID ` set post" using assms(2) split by auto
  from sensor_entries_keep(3)[OF this, of all_done encode order w ?t]
  show "wk_sensorMap (fst (fold (sensor_entry all_done encode order w) sensors s)) (sm_LSID sm) = Some sm"
    by (simp add: split sensor_entry_keeps(1))
qed

lemma catalog_entry_keeps:
  "wk_sensorMap (fst (catalog_entry e encode order g en s)) = wk_sensorMap (fst s)
   \<and> wk_recordKeys (fst (catalog_entry e encode order g en s)) = wk_recordKeys (fst s)
   \<and> set (db (snd s)) \<subseteq> set (db (snd (catalog_entry e encode order g en s)))"
  using publish_metadata_keeps by (simp add: catalog_entry_def split: prod.splits bool.splits)

lemma rest_of_update_keeps:
  fixes encode e order now catalog station s
  defines "s' \<equiv> snd (fetchStationMetadata e encode order now station
                     (snd (fetchCatalogMetadata e encode order catalog s)))"
  shows "wk_sensorMap (fst s') = wk_sensorMap (fst s) \<and> wk_recordKeys (fst s') = wk_recordKeys (fst s)
    \<and> set (db (snd s)) \<subseteq> set (db (snd s'))"
proof -
  define kept where "kept t \<longleftrightarrow> wk_sensorMap (fst t) = wk_sensorMap (fst s)
    \<and> wk_recordKeys (fst t) = wk_recordKeys (fst s) \<and> set (db (snd s)) \<subseteq> set (db (snd t))"
    for t :: "wk_service \<times> kafka conn"
  have s: "kept s" by (simp add: kept_def)
  have one: "kept (catalog_entry e encode order g en t)" if "kept t" for g en t
    using that catalog_entry_keeps[of e encode order g en t] unfolding kept_def by auto
  have c: "kept (snd (fetchCatalogMetadata e encode order catalog s))"
    by (cases catalog) (simp_all add: fetchCatalogMetadata_def s one fold_preserves[where P = kept])
  have st: "kept (snd (publish_metadata e order topic key body headers t))" if "kept t" for topic key body headers t
    using that publish_metadata_keeps[where s = t] unfolding kept_def by fastforce
  have "kept (snd (fetchStationMetadata e encode order now station t))" if "kept t" for t
    by (cases station) (simp_all add: fetchStationMetadata_def that st)
  with c show ?thesis unfolding s'_def kept_def by blast
qed

lemma update_published:
  assumes "FetchSensorMetadata um exchange client = Inr r"
    and "sm \<in> set (sr_Sensors r)" and "distinct (map sm_LSID (sr_Sensors r))"
    and "metadata_key (itoa (sm_LSID sm)) (StartOfWeekUnix now) \<notin> wk_metadataKeys svc"
    and "update_metadata all_done um encode order client exchange now (svc, c) = (svc', c')"
  shows "metadata_message encode order (StartOfWeekUnix now) sm \<in> set (db c')"
    and "wk_sensorMap svc' (sm_LSID sm) = Some sm" and "wk_recordKeys svc' = wk_recordKeys svc"
proof -
  let ?s = "fold (sensor_entry all_done encode order (StartOfWeekUnix now)) (sr_Sensors r) (svc, c)"
  have run: "(svc', c') = snd (fetchStationMetadata all_done encode order now (FetchStationInfo um exchange client)
      (snd (fetchCatalogMetadata all_done encode order (FetchSensorCatalog um exchange client) ?s)))"
    using assms(1,5) by (simp add: update_metadata_def fetchAllMetadata_def fetchSensorMetadata_def)
  have unknown: "metadata_key (itoa (sm_LSID sm)) (StartOfWeekUnix now) \<notin> wk_metadataKeys (fst (svc, c))"
    using assms(4) by simp
  note first = sensors_published[OF assms(2,3) unknown, of encode order]
  note rest = rest_of_update_keeps[of all_done encode order now "FetchStationInfo um exchange client"
      "FetchSensorCatalog um exchange client" ?s, unfolded run[symmetric]]
  show "metadata_message encode order (StartOfWeekUnix now) sm \<in> set (db c')" using first(1) rest by auto
  show "wk_sensorMap svc' (sm_LSID sm) = Some sm" using first(2) rest by simp
  show "wk_recordKeys svc' = wk_recordKeys svc" using rest sensor_entries_keep(1) by (metis fst_conv)
qed

section \<open>What the materializer does with it\<close>

lemma upsert_device_keeps:
  assumes "upsert_device row D = Inr D'"
  shows "records_numeric D' = records_numeric D" and "tag_ids D \<subseteq> tag_ids D'"
  using assms by (auto simp: upsert_device_def tag_ids_def split: if_splits)

lemma set_devices_tags: "GetTag (fold (\<lambda>d. SetDevice (dv_LSID d) d) ds ca) = GetTag ca"
  by (induction ds arbitrary: ca) (auto simp: SetDevice_def GetTag_def fun_eq_iff)

lemma sensor_metadata_consumed:
  assumes "db_wf (db c)" and "coherent ca (db c)" and "in_i64 (sm_LSID sm)"
    and "unmarshal_map um (m_value msg) = Some (metadata_fields sm)"
    and "MetadataProcessor_ProcessMessage all_done um msg ca c = (er, ca', c')"
  shows "er = None" and "\<exists>d. GetDevice ca' (sm_LSID sm) = Some d \<and> (dv_ID d, sm_LSID sm) \<in> device_idents (db c')"
    and "coherent ca' (db c')" and "GetTag ca' = GetTag ca" and "db_wf (db c')"
    and "records_numeric (db c') = records_numeric (db c)"
proof -
  have lsid: "map_of (metadata_fields sm) ''lsid'' = Some (JNum (of_int (sm_LSID sm)))" by (simp add: json_int_def)
  have i: "int_of_float (of_int (sm_LSID sm)) = sm_LSID sm" using assms(3) by (rule int_of_float_of_int)
  have st: "as_arr (map_of (metadata_fields sm) ''stations'') = None" by simp
  from metadata_makes_device_known[OF assms(1,4) st lsid assms(5)]
  show er: "er = None" and "\<exists>d. GetDevice ca' (sm_LSID sm) = Some d \<and> (dv_ID d, sm_LSID sm) \<in> device_idents (db c')"
    unfolding i by auto
  show "coherent ca' (db c')" using MetadataProcessor_coherent[OF assms(2), of all_done um msg] assms(5) by simp
  have "repo_steps (db c) (db c')" using MetadataProcessor_repo[of c all_done um msg ca] assms(5) by simp
  then show "db_wf (db c')" using assms(1) by (rule wf.statements)
  define row where "row = upsert_row (metadata_fields sm) (of_int (sm_LSID sm))"
  have run: "MetadataProcessor_ProcessMessage all_done um msg ca c =
      (case exec_stmt all_done (upsert_device row) c of
         (Some er, c1) \<Rightarrow> (Some (Wrap ''failed to upsert device'' er), ca,
            snd (OrphanRepository_Save all_done um msg (int_of_float (of_int (sm_LSID sm))) 0 []
                   (''failed to upsert device: '' @ error_text er) c1))
       | (None, c1) \<Rightarrow> LoadDevices all_done ca c1)"
    using assms(4) by (simp add: MetadataProcessor_ProcessMessage_def DeviceRepository_Upsert_def json_int_def row_def)
  with assms(5) er obtain c1 where c1: "exec_stmt all_done (upsert_device row) c = (None, c1)"
    and ld: "LoadDevices all_done ca c1 = (None, ca', c')"
    by (auto split: prod.splits option.splits)
  have "db c' = db c1" "GetTag ca' = GetTag ca"
    using ld set_devices_tags by (auto simp: LoadDevices_def DeviceRepository_LoadAll_def outcome_simps)
  then show "GetTag ca' = GetTag ca" "records_numeric (db c') = records_numeric (db c)"
    using upsert_device_keeps(1)[OF exec_stmt_None[OF c1]] by simp_all
qed

section \<open>From the API to the database\<close>

text \<open>The publisher: no other data point of the reply has the key, so the record with the key is that of the data point.\<close>

lemma round_publishes:
  assumes "FetchSensorMetadata um exchange client = Inr sensors"
    and "sm \<in> set (sr_Sensors sensors)" and "distinct (map sm_LSID (sr_Sensors sensors))"
    and "FetchCurrentConditions um raw exchange client = Inr conditions"
    and "sensor \<in> set (cc_Sensors conditions)" and "sn_LSID sensor = sm_LSID sm"
    and "dp \<in> set (sn_Data sensor)" and "unmarshal_map um dp = Some data" and "ts = data_timestamp data"
    and alone: "\<And>s' dp' m'. s' \<in> set (cc_Sensors conditions) \<Longrightarrow> dp' \<in> set (sn_Data s') \<Longrightarrow>
           unmarshal_map um dp' = Some m' \<Longrightarrow>
           record_key (sn_LSID s') (data_timestamp m') = record_key (sm_LSID sm) ts \<Longrightarrow> s' = sensor \<and> dp' = dp"
    and "metadata_key (itoa (sm_LSID sm)) (StartOfWeekUnix now) \<notin> wk_metadataKeys svc"
    and "record_key (sm_LSID sm) ts \<notin> wk_recordKeys svc"
    and "fetchAllCurrentConditions all_done um raw order client exchange
           (update_metadata all_done um encode order client exchange now (svc, c0)) = (svc', ck)"
  shows "metadata_message encode order (StartOfWeekUnix now) sm \<in> set (db ck)"
    and "reading_message order (GetTopicForCategory (sm_Category sm), sensor, dp) ts \<in> set (db ck)"
proof -
  obtain svc1 k1 where u: "update_metadata all_done um encode order client exchange now (svc, c0) = (svc1, k1)"
    by (metis surj_pair)
  note up = update_published[OF assms(1-3,11) u]
  define job where "job = (GetTopicForCategory (sm_Category sm), sensor, dp)"
  have "job \<in> set (jobs_of (wk_sensorMap svc1) (cc_Sensors conditions))"
    using assms(5-7) up(2) by (force simp: jobs_of_def job_def)
  moreover have "j = job" if "j \<in> set (jobs_of (wk_sensorMap svc1) (cc_Sensors conditions))"
    "reading_key um j = reading_key um job" for j
  proof -
    obtain t' s' dp' where j: "j = (t', s', dp')" by (rule prod_cases3)
    with that(1) have in': "s' \<in> set (cc_Sensors conditions)" "dp' \<in> set (sn_Data s')"
      and t': "\<exists>md. Some md = wk_sensorMap svc1 (sn_LSID s') \<and> t' = GetTopicForCategory (sm_Category md)"
      by (auto simp: jobs_of_def split: option.splits)
    from that(2) obtain m' where "unmarshal_map um dp' = Some m'"
      "record_key (sn_LSID s') (data_timestamp m') = record_key (sm_LSID sm) ts"
      using assms(6,8,9) by (auto simp: reading_key_def j job_def)
    from alone[OF in' this] t' up(2) assms(6) show "j = job" by (auto simp: j job_def)
  qed
  ultimately show "metadata_message encode order (StartOfWeekUnix now) sm \<in> set (db ck)"
    "reading_message order (GetTopicForCategory (sm_Category sm), sensor, dp) ts \<in> set (db ck)"
    using conditions_published[OF assms(4) _ assms(8), where svc = svc1 and c = k1 and sensor = sensor and order = order
        and topic = "GetTopicForCategory (sm_Category sm)"] assms(6,9,12,13) up(1,3)
    unfolding u by (auto simp: job_def)
qed

text \<open>The materializer: the metadata makes the device known, the headers name it and the time.\<close>

lemma materializer_stores:
  assumes "go_ints sensor" and "sn_LSID sensor = sm_LSID sm" and "sm_LSID sm \<noteq> 0"
    and "unmarshal_map um dp = Some data" and "ts = data_timestamp data"
    and "permutes_headers order" and "um (encode (metadata_json sm)) = Some (metadata_json sm)"
    and "db_wf D" and "coherent ca D" and "\<And>i. records_numeric D (i, ts) = None"
    and "\<And>d t. GetTag ca d n = Some t \<Longrightarrow> tg_DataType t = ''numeric''"
    and "distinct (map fst data)" and "(n, JNum x) \<in> set data" and "n \<noteq> ''ts''"
    and 1: "MetadataProcessor_ProcessMessage all_done um (metadata_message encode order w sm) ca \<lparr>db = D, calls = 0\<rparr>
             = (er1, ca1, c1)"
    and 2: "processMessage all_done um (reading_message order (topic, sensor, dp) ts) ca1 (NewBatchWriter batchSize) c1
             = (er2, ca2, bw2, c2)"
    and 3: "FlushAll all_done bw2 c2 = (er3, bw3, c3)"
  shows "er1 = None \<and> er3 = None
     \<and> (\<exists>dev i. (dev, sm_LSID sm) \<in> device_idents (db c3) \<and> (i, dev, n) \<in> tag_idents (db c3)
               \<and> records_numeric (db c3) (i, ts) = Some x)"
proof -
  let ?rm = "reading_message order (topic, sensor, dp) ts"
  have body: "unmarshal_map um (m_value (metadata_message encode order w sm)) = Some (metadata_fields sm)"
    using assms(7) by (simp add: metadata_message_def unmarshal_map_def metadata_json_def)
  have lsid: "in_i64 (sm_LSID sm)" using assms(1,2) by (simp add: go_ints_def)
  have D: "db_wf (db \<lparr>db = D, calls = 0\<rparr>)" "coherent ca (db \<lparr>db = D, calls = 0\<rparr>)" using assms(8,9) by simp_all
  note met = sensor_metadata_consumed[OF D lsid body 1]
  obtain dev where dev: "GetDevice ca1 (sm_LSID sm) = Some dev" "(dv_ID dev, sm_LSID sm) \<in> device_idents (db c1)"
    using met(2) by blast
  have hv: "hv_lsid (read_headers (m_headers ?rm)) = sm_LSID sm" "hv_timestamp (read_headers (m_headers ?rm)) = ts"
    "unmarshal_map um (m_value ?rm) = Some data"
    using read_record_headers[of order sensor ts] assms(1,2,4-6)
    by (simp_all add: reading_message_def permutes_headers_def go_ints_def)
  have "dv_ID dev \<in> device_ids (db c1)" using dev(2) by (force simp: device_idents_def device_ids_def)
  moreover have "cache_coherent ca1 (db c1)" using met(3) by (simp add: coherent_def)
  moreover have "flushable (NewBatchWriter batchSize) (db c1)" by (simp add: flushable_defs NewBatchWriter_def)
  moreover have "tg_DataType t = ''numeric''" if "GetTag ca1 (dv_ID dev) n = Some t" for t
    using that assms(11) met(4) by simp
  moreover have "records_numeric (settled (NewBatchWriter batchSize) (db c1)) (i, ts) = None" for i
    using met(6) assms(10) by (simp add: settled_def NewBatchWriter_def insert_new_def)
  ultimately have "er3 = None" "\<exists>i. (i, dv_ID dev, n) \<in> tag_idents (db c3) \<and> records_numeric (db c3) (i, ts) = Some x"
    using numeric_reading_reaches_table[OF refl, of ?rm ca1 dev c1 um data n x "NewBatchWriter batchSize"] hv dev(1)
      assms(3,12-14) met(5) 2 3 by auto
  moreover have "repo_steps (db c1) (db c3)"
    using processMessage_repo[of c1 all_done um ?rm ca1 "NewBatchWriter batchSize"] FlushAll_repo[of c2 all_done bw2] 2 3
    by (auto intro: rtranclp_trans)
  then have "(dv_ID dev, sm_LSID sm) \<in> device_idents (db c3)"
    using dev(2) dev_row.statements[of "db c1" "db c3" "device_idents (db c1)"] by blast
  ultimately show ?thesis using met(1) by blast
qed

text \<open>
  C1: A reading in a reply of the WeatherLink API reaches its table.  Take a sensor of the \<open>sensors\<close> reply and a
  data point of it in the \<open>current\<close> reply whose key no other data point of the reply has.  When nothing
  fails and both keys are new, then after one metadata update and one conditions update Kafka holds a metadata record
  and a data record with this effect: a materializer that handles the one, then the other, and flushes,
  has for every numeric field of the data point a tag of the device of that sensor and, at the time of the data
  point, the value of the field in \<open>records_numeric\<close>.  The start is any coherent cache and well-formed database
  without rows of that time, where the field is not known with another type.
\<close>

theorem reading_reaches_database:
  assumes "FetchSensorMetadata um exchange client = Inr sensors"
    and "sm \<in> set (sr_Sensors sensors)" and "distinct (map sm_LSID (sr_Sensors sensors))"
    and "FetchCurrentConditions um raw exchange client = Inr conditions"
    and "sensor \<in> set (cc_Sensors conditions)" and "sn_LSID sensor = sm_LSID sm" and "sm_LSID sm \<noteq> 0"
    and "dp \<in> set (sn_Data sensor)" and "unmarshal_map um dp = Some data" and "ts = data_timestamp data"
    and "\<And>s' dp' m'. s' \<in> set (cc_Sensors conditions) \<Longrightarrow> dp' \<in> set (sn_Data s') \<Longrightarrow>
           unmarshal_map um dp' = Some m' \<Longrightarrow>
           record_key (sn_LSID s') (data_timestamp m') = record_key (sm_LSID sm) ts \<Longrightarrow> s' = sensor \<and> dp' = dp"
    and "metadata_key (itoa (sm_LSID sm)) (StartOfWeekUnix now) \<notin> wk_metadataKeys svc"
    and "record_key (sm_LSID sm) ts \<notin> wk_recordKeys svc"
    and "permutes_headers order" and "um (encode (metadata_json sm)) = Some (metadata_json sm)"
    and "fetchAllCurrentConditions all_done um raw order client exchange
           (update_metadata all_done um encode order client exchange now (svc, c0)) = (svc', ck)"
    and "db_wf D" and "coherent ca D" and "\<And>i. records_numeric D (i, ts) = None"
    and "\<And>d t. GetTag ca d n = Some t \<Longrightarrow> tg_DataType t = ''numeric''"
    and "distinct (map fst data)" and "(n, JNum x) \<in> set data" and "n \<noteq> ''ts''"
  shows "\<exists>mm rm. mm \<in> set (db ck) \<and> m_topic mm = ''weather.metadata.sensors''
     \<and> rm \<in> set (db ck) \<and> is_data_topic (m_topic rm)
     \<and> (let (er1, ca1, c1) = MetadataProcessor_ProcessMessage all_done um mm ca \<lparr>db = D, calls = 0\<rparr>;
            (er2, ca2, bw2, c2) = processMessage all_done um rm ca1 (NewBatchWriter batchSize) c1;
            (er3, bw3, c3) = FlushAll all_done bw2 c2
        in er1 = None \<and> er3 = None
           \<and> (\<exists>dev i. (dev, sm_LSID sm) \<in> device_idents (db c3) \<and> (i, dev, n) \<in> tag_idents (db c3)
                     \<and> records_numeric (db c3) (i, ts) = Some x))"
proof -
  define mm where "mm = metadata_message encode order (StartOfWeekUnix now) sm"
  define rm where "rm = reading_message order (GetTopicForCategory (sm_Category sm), sensor, dp) ts"
  have g: "go_ints sensor" using fetched_conditions_ints[OF assms(4)] assms(5) by (auto simp: list_all_iff)
  obtain er1 ca1 c1 where 1: "MetadataProcessor_ProcessMessage all_done um mm ca \<lparr>db = D, calls = 0\<rparr> = (er1, ca1, c1)"
    by (rule prod_cases3)
  obtain er2 ca2 bw2 c2 where 2: "processMessage all_done um rm ca1 (NewBatchWriter batchSize) c1 = (er2, ca2, bw2, c2)"
    by (metis surj_pair)
  obtain er3 bw3 c3 where 3: "FlushAll all_done bw2 c2 = (er3, bw3, c3)" by (rule prod_cases3)
  have "er1 = None \<and> er3 = None
     \<and> (\<exists>dev i. (dev, sm_LSID sm) \<in> device_idents (db c3) \<and> (i, dev, n) \<in> tag_idents (db c3)
               \<and> records_numeric (db c3) (i, ts) = Some x)"
    by (rule materializer_stores[OF _ _ _ _ _ _ _ _ _ _ _ _ _ _ 1[unfolded mm_def] 2[unfolded rm_def] 3])
      (erule assms | rule g assms)+
  moreover have "m_topic mm = ''weather.metadata.sensors''" "is_data_topic (m_topic rm)"
    by (simp_all add: mm_def metadata_message_def rm_def reading_message_def topic_is_data_topic)
  moreover have "mm \<in> set (db ck)" "rm \<in> set (db ck)"
    using round_publishes[OF assms(1-6,8-13,16)] by (simp_all add: mm_def rm_def)
  ultimately show ?thesis
    by (intro exI[of _ mm] exI[of _ rm]) (simp add: 1 2 3)
qed

section \<open>A concrete run\<close>

lemma reading_reaches_database_witness:
  "\<exists>svc ck mm rm. fetchAllCurrentConditions all_done api_decoder api_raw rev api_client api_exchange
      (update_metadata all_done api_decoder (\<lambda>j. ''M'') rev api_client api_exchange 0 (New ''3'', \<lparr>db = [], calls = 0\<rparr>))
      = (svc, ck)
     \<and> mm \<in> set (db ck) \<and> m_topic mm = ''weather.metadata.sensors''
     \<and> rm \<in> set (db ck) \<and> is_data_topic (m_topic rm)
     \<and> (let (er1, ca1, c1) = MetadataProcessor_ProcessMessage all_done api_decoder mm NewCache
                              \<lparr>db = empty_database, calls = 0\<rparr>;
            (er2, ca2, bw2, c2) = processMessage all_done api_decoder rm ca1 (NewBatchWriter 10) c1;
            (er3, bw3, c3) = FlushAll all_done bw2 c2
        in er1 = None \<and> er3 = None
           \<and> (\<exists>dev i. (dev, 7) \<in> device_idents (db c3) \<and> (i, dev, ''temp'') \<in> tag_idents (db c3)
                     \<and> records_numeric (db c3) (i, 400) = Some 5))"
proof -
  let ?ms = "\<lparr>sr_Sensors = [api_metadata], sr_GeneratedAt = 0\<rparr>"
  let ?cs = "\<lparr>cc_StationID = 0, cc_StationIDUUID = [], cc_Sensors = [api_sensor], cc_GeneratedAt = 0\<rparr>"
  let ?data = "[(''ts'', JNum 400), (''temp'', JNum 5)]"
  obtain svc' ck where run: "fetchAllCurrentConditions all_done api_decoder api_raw rev api_client api_exchange
      (update_metadata all_done api_decoder (\<lambda>j. ''M'') rev api_client api_exchange 0 (New ''3'', \<lparr>db = [], calls = 0\<rparr>))
      = (svc', ck)" by (metis surj_pair)
  have id: "sm_LSID api_metadata = 7" "sn_LSID api_sensor = 7" "sn_Data api_sensor = [''a'', ''b'']"
    by (simp_all add: api_metadata_def api_sensor_def)
  have um: "unmarshal_map api_decoder ''a'' = Some [(''ts'', JNum 100)]" "unmarshal_map api_decoder ''b'' = Some ?data"
    by (simp_all add: unmarshal_map_def api_decoder_def)
  have ts: "data_timestamp ?data = 400" "data_timestamp [(''ts'', JNum 100)] = 100"
    using sample_timestamps by (simp_all add: data_timestamp_def)
  have codec: "api_decoder ''M'' = Some (metadata_json api_metadata)" by (simp add: api_decoder_def)
  have alone: "s' = api_sensor \<and> dp' = ''b''"
    if "s' \<in> set (cc_Sensors ?cs)" "dp' \<in> set (sn_Data s')" "unmarshal_map api_decoder dp' = Some m'"
      "record_key (sn_LSID s') (data_timestamp m') = record_key (sm_LSID api_metadata) 400" for s' dp' m'
    using that by (auto simp: id um ts sample_keys)
  have none: "GetTag NewCache d n = None" for d n by (simp add: NewCache_def GetTag_def)
  have "\<exists>mm rm. mm \<in> set (db ck) \<and> m_topic mm = ''weather.metadata.sensors''
     \<and> rm \<in> set (db ck) \<and> is_data_topic (m_topic rm)
     \<and> (let (er1, ca1, c1) = MetadataProcessor_ProcessMessage all_done api_decoder mm NewCache
                              \<lparr>db = empty_database, calls = 0\<rparr>;
            (er2, ca2, bw2, c2) = processMessage all_done api_decoder rm ca1 (NewBatchWriter 10) c1;
            (er3, bw3, c3) = FlushAll all_done bw2 c2
        in er1 = None \<and> er3 = None
           \<and> (\<exists>dev i. (dev, sm_LSID api_metadata) \<in> device_idents (db c3) \<and> (i, dev, ''temp'') \<in> tag_idents (db c3)
                     \<and> records_numeric (db c3) (i, 400) = Some 5))"
    by (rule reading_reaches_database[where encode = "\<lambda>j. ''M''" and sensor = api_sensor and now = 0 and data = ?data,
        OF api_sensors _ _ api_current _ _ _ _ um(2) _ _ _ _ rev_permutes codec run db_wf_empty coherent_NewCache])
      (erule (3) alone | simp add: id ts none New_def empty_database_def)+
  with run show ?thesis unfolding id by blast
qed

end
