(* ===== verification/Wx_Catalog.thy ===== *)
theory Wx_Catalog
  imports Wx_Pipeline
begin

text \<open>
  The way of a unit: from the sensor catalog of the WeatherLink API through \<open>weatherlink-kafka\<close> (\<open>metadata.go\<close>)
  and Kafka into the catalog of \<open>weatherlink-sql\<close> (\<open>catalog.go\<close>), and from there to the tag that a reading
  creates (\<open>data.go\<close>).  What the one service publishes for an entry is the form the other reads.
\<close>

section \<open>Folds\<close>

text \<open>An element that establishes \<open>Q\<close>, among others that keep what it needs and what it has done.\<close>

lemma fold_establishes:
  assumes "x \<in> set xs" and "P s"
    and "\<And>y t. y \<in> set xs \<Longrightarrow> y \<noteq> x \<Longrightarrow> P t \<Longrightarrow> P (f y t)"
    and "\<And>t. P t \<Longrightarrow> Q (f x t)"
    and "\<And>y t. y \<in> set xs \<Longrightarrow> Q t \<Longrightarrow> Q (f y t)"
  shows "Q (fold f xs s)"
proof -
  obtain pre post where split: "xs = pre @ x # post" "x \<notin> set pre"
    using split_list_first[OF assms(1)] by blast
  have "P (fold f pre s)"
    by (rule fold_preserves[where P = P]) (use assms(2,3) split in auto)
  from assms(4)[OF this] have "Q (f x (fold f pre s))" .
  then have "Q (fold f post (f x (fold f pre s)))"
    by (intro fold_preserves[where P = Q]) (use assms(5) split in auto)
  then show ?thesis by (simp add: split(1))
qed

section \<open>What is published\<close>

definition catalog_message :: "(json \<Rightarrow> string) \<Rightarrow> header_order \<Rightarrow> int \<Rightarrow> CatalogEntry \<Rightarrow> int \<Rightarrow> message" where
  "catalog_message encode order generatedAt entry maxType =
     \<lparr>m_topic = ''weather.metadata.catalog'', m_partition = 0, m_offset = 0,
      m_key = metadata_key (itoa (ce_SensorType entry)) maxType, m_value = encode (entry_json entry),
      m_headers = order [(''schema_version'', ''1''), (''generated_at'', itoa generatedAt)]\<rparr>"

lemma metadata_key_eq:
  "metadata_key (itoa i) m = metadata_key (itoa j) n \<longleftrightarrow> i = j \<and> m = n"
  using colon_key_inj[of "itoa i" "itoa m" "itoa j" "itoa n"] itoa_inj by (auto simp: metadata_key_def)

lemma catalog_entry_publishes:
  assumes "maxDataStructureType entry = (maxType, True)"
    and "metadata_key (itoa (ce_SensorType entry)) maxType \<notin> wk_metadataKeys (fst s)"
  shows "catalog_message encode order g entry maxType \<in> set (db (snd (catalog_entry all_done encode order g entry s)))"
  using assms
  by (cases s) (auto simp: catalog_entry_def catalog_message_def publish_metadata_def Publish_def produce_def outcome_simps)

lemma catalog_entry_other_key:
  assumes "\<And>m. k \<noteq> metadata_key (itoa (ce_SensorType entry)) m" and "k \<notin> wk_metadataKeys (fst s)"
  shows "k \<notin> wk_metadataKeys (fst (catalog_entry e encode order g entry s))"
  using assms
  by (cases s) (auto simp: catalog_entry_def publish_metadata_def split: prod.splits bool.splits option.splits)

lemma entries_published:
  assumes "entry \<in> set entries" and "distinct (map ce_SensorType entries)"
    and "maxDataStructureType entry = (maxType, True)"
    and "metadata_key (itoa (ce_SensorType entry)) maxType \<notin> wk_metadataKeys (fst s)"
  shows "catalog_message encode order g entry maxType \<in> set (db (snd (fold (catalog_entry all_done encode order g) entries s)))"
proof (rule fold_establishes[where P = "\<lambda>t. metadata_key (itoa (ce_SensorType entry)) maxType \<notin> wk_metadataKeys (fst t)"
      and Q = "\<lambda>t. catalog_message encode order g entry maxType \<in> set (db (snd t))"])
  fix y and t :: "wk_service \<times> kafka conn"
  assume y: "y \<in> set entries" "y \<noteq> entry"
  then have "ce_SensorType y \<noteq> ce_SensorType entry"
    using assms(1,2) by (metis distinct_map inj_onD)
  then show "metadata_key (itoa (ce_SensorType entry)) maxType \<notin> wk_metadataKeys (fst t) \<Longrightarrow>
      metadata_key (itoa (ce_SensorType entry)) maxType \<notin> wk_metadataKeys (fst (catalog_entry all_done encode order g y t))"
    by (intro catalog_entry_other_key) (auto simp: metadata_key_eq)
next
  fix y and t :: "wk_service \<times> kafka conn"
  show "catalog_message encode order g entry maxType \<in> set (db (snd t)) \<Longrightarrow>
      catalog_message encode order g entry maxType \<in> set (db (snd (catalog_entry all_done encode order g y t)))"
    using catalog_entry_keeps by blast
qed (use assms catalog_entry_publishes in auto)

text \<open>The sensors come first: they say which types are known, and take keys of the week.\<close>

lemma sensor_entries_types:
  assumes "sm \<in> set sensors"
  shows "sm_SensorType sm \<in> wk_sensorTypes (fst (fold (sensor_entry e encode order w) sensors s))"
proof (rule fold_establishes[where P = "\<lambda>t. True" and Q = "\<lambda>t. sm_SensorType sm \<in> wk_sensorTypes (fst t)", OF assms])
  have types: "wk_sensorTypes (fst (snd (publish_metadata e order topic key body headers t))) = wk_sensorTypes (fst t)"
    for topic key body headers t
    by (cases t) (auto simp: publish_metadata_def split: option.splits prod.splits)
  have all: "wk_sensorTypes (fst (sensor_entry e encode order w y t)) = insert (sm_SensorType y) (wk_sensorTypes (fst t))" for y t
    by (cases t) (simp add: sensor_entry_def types Let_def)
  show "sm_SensorType sm \<in> wk_sensorTypes (fst (sensor_entry e encode order w sm t))" for t by (simp add: all)
  show "sm_SensorType sm \<in> wk_sensorTypes (fst t) \<Longrightarrow> sm_SensorType sm \<in> wk_sensorTypes (fst (sensor_entry e encode order w y t))"
    for y t by (simp add: all)
qed simp_all

lemma sensor_entries_other_key:
  assumes "n \<noteq> w" and "metadata_key (itoa i) n \<notin> wk_metadataKeys (fst s)"
  shows "metadata_key (itoa i) n \<notin> wk_metadataKeys (fst (fold (sensor_entry e encode order w) sensors s))"
proof (rule fold_preserves[where P = "\<lambda>t. metadata_key (itoa i) n \<notin> wk_metadataKeys (fst t)"])
  have "metadata_key (itoa i) n \<noteq> metadata_key (itoa j) w" for j using assms(1) by (simp add: metadata_key_eq)
  then show "metadata_key (itoa i) n \<notin> wk_metadataKeys (fst t) \<Longrightarrow>
      metadata_key (itoa i) n \<notin> wk_metadataKeys (fst (sensor_entry e encode order w y t))" for y t
    by (rule sensor_entry_other_key)
qed (rule assms(2))

lemma fetchStation_keeps: "set (db (snd t)) \<subseteq> set (db (snd (snd (fetchStationMetadata e encode order now response t))))"
  using publish_metadata_keeps(3) by (cases response) (simp_all add: fetchStationMetadata_def)

lemma update_publishes_catalog:
  assumes "FetchSensorMetadata um exchange client = Inr sensors" and "sm \<in> set (sr_Sensors sensors)"
    and "FetchSensorCatalog um exchange client = Inr catalog" and "entry \<in> set (sc_SensorCatalog catalog)"
    and "distinct (map ce_SensorType (sc_SensorCatalog catalog))" and "ce_SensorType entry = sm_SensorType sm"
    and "maxDataStructureType entry = (maxType, True)" and "maxType \<noteq> StartOfWeekUnix now"
    and "metadata_key (itoa (ce_SensorType entry)) maxType \<notin> wk_metadataKeys svc"
    and "update_metadata all_done um encode order client exchange now (svc, c) = (svc', c')"
  shows "catalog_message encode order (sc_GeneratedAt catalog) entry maxType \<in> set (db c')"
proof -
  let ?s = "fold (sensor_entry all_done encode order (StartOfWeekUnix now)) (sr_Sensors sensors) (svc, c)"
  let ?known = "filter (\<lambda>en. ce_SensorType en \<in> wk_sensorTypes (fst ?s)) (sc_SensorCatalog catalog)"
  let ?t = "fold (catalog_entry all_done encode order (sc_GeneratedAt catalog)) ?known ?s"
  have run: "(svc', c') = snd (fetchStationMetadata all_done encode order now (FetchStationInfo um exchange client) ?t)"
    using assms(1,3,10) by (simp add: update_metadata_def fetchAllMetadata_def fetchSensorMetadata_def fetchCatalogMetadata_def Let_def)
  have "entry \<in> set ?known" using sensor_entries_types[OF assms(2)] assms(4,6) by simp
  moreover have "distinct (map ce_SensorType ?known)" using assms(5) by (simp add: distinct_map_filter)
  moreover have "metadata_key (itoa (ce_SensorType entry)) maxType \<notin> wk_metadataKeys (fst ?s)"
    by (rule sensor_entries_other_key[OF assms(8)]) (simp add: assms(9))
  ultimately have "catalog_message encode order (sc_GeneratedAt catalog) entry maxType \<in> set (db (snd ?t))"
    using assms(7) by (intro entries_published)
  moreover have "set (db (snd ?t)) \<subseteq> set (db c')"
    using fetchStation_keeps[of ?t all_done encode order now "FetchStationInfo um exchange client"]
    unfolding run[symmetric] by simp
  ultimately show ?thesis by blast
qed

section \<open>What the catalog processor makes of it\<close>

text \<open>What is known of a field: the cache has its units and description, the table a row of it.\<close>

definition field_known ::
    "int \<Rightarrow> string \<Rightarrow> string \<Rightarrow> string \<Rightarrow> string \<Rightarrow> string \<Rightarrow> Cache \<times> database conn \<Rightarrow> bool" where
  "field_known st dt n ft un desc s \<longleftrightarrow>
     (\<exists>fm. catalog_at (fst s) (itoa st) dt n = Some fm \<and> fm_FieldType fm = ft \<and> fm_Units fm = un \<and> fm_Description fm = desc)
     \<and> \<lparr>c_sensor_type = st, c_data_structure_type = dt, c_field_name = n, c_field_type = ft, c_units = un,
        c_description = desc\<rparr> \<in> set (sensor_catalog (db (snd s)))"

lemma upserted_row: "upsert_catalog row D = Inr D' \<Longrightarrow> row \<in> set (sensor_catalog D')"
  by (force simp: upsert_catalog_def split: if_splits)

lemma upsert_keeps_row:
  assumes "upsert_catalog row D = Inr D'" and "r \<in> set (sensor_catalog D)" and "catalog_key r \<noteq> catalog_key row"
  shows "r \<in> set (sensor_catalog D')"
  using assms by (force simp: upsert_catalog_def split: if_splits)

lemma catalog_field_done:
  "\<exists>D'. upsert_catalog \<lparr>c_sensor_type = st, c_data_structure_type = dt, c_field_name = n,
            c_field_type = str_or_empty m ''type'', c_units = str_or_empty m ''units'', c_description = desc\<rparr> (db c) = Inr D'
     \<and> catalog_field all_done st dt desc (n, JObj m) (ca, c) =
       (SetCatalogMetadata st dt n \<lparr>fm_FieldName = n, fm_FieldType = str_or_empty m ''type'',
          fm_Units = str_or_empty m ''units'', fm_Description = desc, fm_DataStructureType = dt, fm_SensorType = st,
          fm_RawMetadata = m\<rparr> ca, c\<lparr>db := D', calls := Suc (calls c)\<rparr>)"
  by (simp add: catalog_field_def CatalogRepository_Upsert_def exec_stmt_done upsert_catalog_def Let_def)

lemma catalog_field_learns:
  "field_known st dt n (fd_Type fd) (fd_Units fd) desc (catalog_field all_done st dt desc (n, field_json fd) s)"
proof -
  obtain ca c where s: "s = (ca, c)" by (cases s)
  from catalog_field_done[of st dt n "[(''type'', JStr (fd_Type fd)), (''units'', JStr (fd_Units fd))]" desc c ca]
  show ?thesis
    by (auto simp: s field_known_def field_json_def catalog_at_SetCatalogMetadata str_or_empty_def dest: upserted_row)
qed

lemma catalog_field_keeps:
  assumes "field_known st dt n ft un desc s" and "(dt', n') \<noteq> (dt, n)"
  shows "field_known st dt n ft un desc (catalog_field all_done st dt' desc' (n', field_json fd) s)"
proof -
  obtain ca c where s: "s = (ca, c)" by (cases s)
  from catalog_field_done[of st dt' n' "[(''type'', JStr (fd_Type fd)), (''units'', JStr (fd_Units fd))]" desc' c ca]
  show ?thesis using assms
    by (auto simp: s field_known_def field_json_def catalog_at_SetCatalogMetadata catalog_key_def elim!: upsert_keeps_row)
qed

lemma structure_members [simp]:
  "as_obj (Some (structure_json d)) =
     Some [(''data_structure_type'', JStr (ds_DataStructureType d)), (''description'', JStr (ds_Description d)),
           (''data_structure'', fields_json (ds_DataStructure d))]"
  by (simp add: structure_json_def)

lemma catalog_structure_fields:
  "catalog_structure e st (structure_json d) s =
     fold (catalog_field e st (ds_DataStructureType d) (ds_Description d))
       (map (\<lambda>(n, f). (n, field_json f)) (sort_key fst (elems (ds_DataStructure d)))) s"
  by (cases "ds_DataStructure d") (simp_all add: catalog_structure_def fields_json_def str_or_empty_def elems_def)

lemma catalog_structure_learns:
  assumes "(n, fd) \<in> set (elems (ds_DataStructure d))" and "distinct (map fst (elems (ds_DataStructure d)))"
  shows "field_known st (ds_DataStructureType d) n (fd_Type fd) (fd_Units fd) (ds_Description d)
           (catalog_structure all_done st (structure_json d) s)"
  unfolding catalog_structure_fields fold_map
proof (rule fold_establishes[where x = "(n, fd)" and P = "\<lambda>t. True"])
  fix y t
  assume y: "y \<in> set (sort_key fst (elems (ds_DataStructure d)))"
    and k: "field_known st (ds_DataStructureType d) n (fd_Type fd) (fd_Units fd) (ds_Description d) t"
  obtain n' fd' where p: "y = (n', fd')" by (cases y)
  show "field_known st (ds_DataStructureType d) n (fd_Type fd) (fd_Units fd) (ds_Description d)
      ((catalog_field all_done st (ds_DataStructureType d) (ds_Description d) \<circ> (\<lambda>(n, f). (n, field_json f))) y t)"
  proof (cases "n' = n")
    case True
    with y p assms have "fd' = fd" by (metis eq_key_imp_eq_value set_sort)
    with True catalog_field_learns show ?thesis by (simp add: p)
  next
    case False
    with catalog_field_keeps[OF k] show ?thesis by (simp add: p)
  qed
qed (use assms catalog_field_learns in simp_all)

lemma catalog_structure_keeps:
  assumes "field_known st dt n ft un desc s" and "ds_DataStructureType d \<noteq> dt"
  shows "field_known st dt n ft un desc (catalog_structure all_done st (structure_json d) s)"
  unfolding catalog_structure_fields
  by (rule fold_preserves[where P = "field_known st dt n ft un desc"])
    (use assms in \<open>auto intro!: catalog_field_keeps\<close>)

lemma processor_learns:
  assumes "in_i64 (ce_SensorType entry)" and "ce_DataStructures entry = Some dss"
    and "d \<in> set dss" and "distinct (map ds_DataStructureType dss)"
    and "(n, fd) \<in> set (elems (ds_DataStructure d))" and "distinct (map fst (elems (ds_DataStructure d)))"
    and "unmarshal_map um (m_value msg) = Some (entry_fields entry)"
    and "CatalogProcessor_ProcessMessage all_done um msg s = (er, s')"
  shows "er = None"
    and "field_known (ce_SensorType entry) (ds_DataStructureType d) n (fd_Type fd) (fd_Units fd) (ds_Description d) s'"
proof -
  let ?st = "ce_SensorType entry"
  have run: "(er, s') = (None, fold (catalog_structure all_done ?st) (map structure_json dss) s)"
    using assms(1,2,7,8)
    by (simp add: CatalogProcessor_ProcessMessage_def processSensorType_def json_int_def slice_json_def int_of_float_of_int)
  then show "er = None" by simp
  have "field_known ?st (ds_DataStructureType d) n (fd_Type fd) (fd_Units fd) (ds_Description d)
      (fold (catalog_structure all_done ?st \<circ> structure_json) dss s)"
  proof (rule fold_establishes[OF assms(3), where P = "\<lambda>t. True"])
    fix y t
    assume y: "y \<in> set dss"
      and k: "field_known ?st (ds_DataStructureType d) n (fd_Type fd) (fd_Units fd) (ds_Description d) t"
    show "field_known ?st (ds_DataStructureType d) n (fd_Type fd) (fd_Units fd) (ds_Description d)
        ((catalog_structure all_done ?st \<circ> structure_json) y t)"
    proof (cases "y = d")
      case True
      with catalog_structure_learns[OF assms(5,6)] show ?thesis by simp
    next
      case False
      with y assms(3,4) have "ds_DataStructureType y \<noteq> ds_DataStructureType d" by (metis distinct_map inj_onD)
      with catalog_structure_keeps[OF k] show ?thesis by simp
    qed
  qed (use catalog_structure_learns[OF assms(5,6)] in simp_all)
  with run show "field_known ?st (ds_DataStructureType d) n (fd_Type fd) (fd_Units fd) (ds_Description d) s'"
    by (simp add: fold_map)
qed

section \<open>The tag of a reading\<close>

lemma upserted_tag:
  assumes "upsert_tag dev n ty (Some un) (Some desc) meta D = Inr (i, D')"
  shows "\<exists>r \<in> set (tags D'). t_device_id r = dev \<and> t_tag_name r = n \<and> t_unit r = Some un \<and> t_description r = Some desc"
proof (cases "find (\<lambda>r. t_device_id r = dev \<and> t_tag_name r = n) (tags D)")
  case None
  with assms show ?thesis by (auto simp: upsert_tag_def split: if_splits)
next
  case (Some old)
  then have "old \<in> set (tags D)" "t_device_id old = dev" "t_tag_name old = n" by (auto simp: find_Some_iff)
  moreover define f where "f r = (if t_device_id r = dev \<and> t_tag_name r = n
    then r\<lparr>t_data_type := ty, t_unit := Some un, t_description := Some desc, t_metadata := coalesce meta (t_metadata r)\<rparr>
    else r)" for r :: tag_row
  have "tags D' = map f (tags D)" using assms Some by (auto simp: upsert_tag_def coalesce_def f_def)
  ultimately show ?thesis by (intro bexI[of _ "f old"]) (simp_all add: f_def)
qed

lemma new_tag_has_unit:
  assumes k: "field_known (hv_sensorType hv) (itoa (hv_dataStructureType hv)) n ft un desc (ca, c0)"
    and "0 < hv_sensorType hv" and "0 < hv_dataStructureType hv"
    and none: "GetTag ca dev n = None" and dev: "dev \<in> device_ids (db c)"
    and r: "resolve_tag all_done um msg hv dev n v ca c = (t, ca2, c2)"
  shows "\<exists>tag. t = Some tag \<and> tg_Unit tag = Some un \<and> tg_Description tag = Some desc
     \<and> (\<exists>row \<in> set (tags (db c2)). t_device_id row = dev \<and> t_tag_name row = n \<and> t_unit row = Some un
                                \<and> t_description row = Some desc)"
proof -
  from k obtain fm where "GetCatalogMetadata ca (hv_sensorType hv) (hv_dataStructureType hv) n = Some fm"
    and fm: "fm_Units fm = un" "fm_Description fm = desc" by (auto simp: field_known_def GetCatalogMetadata_def)
  then have en: "field_enrichment ca hv n = (Some un, Some desc, tag_metadata fm)"
    using assms(2,3) by (simp add: field_enrichment_def)
  have "\<not> dev \<notin> d_id ` set (devices (db c))" using dev by (simp add: device_ids_def)
  then obtain i D' where up: "upsert_tag dev n (determineDataType v) (Some un) (Some desc)
      (if tag_metadata fm = [] then None else Some (JObj (tag_metadata fm))) (db c) = Inr (i, D')"
    unfolding upsert_tag_def by (cases "find (\<lambda>r. t_device_id r = dev \<and> t_tag_name r = n) (tags (db c))") auto
  have "\<exists>c'. TagRepository_Create all_done dev n (determineDataType v) (Some un) (Some desc) (tag_metadata fm) c
      = (Inr i, c') \<and> db c' = D'"
    using up by (simp add: TagRepository_Create_def TagRepository_CreateOrUpdate_def exec_returning_def
        next_outcome_def all_done_def Let_def)
  then obtain c' where c': "TagRepository_Create all_done dev n (determineDataType v) (Some un) (Some desc) (tag_metadata fm) c
      = (Inr i, c')" "db c' = D'" by blast
  from r none c'(1) en have "t = Some \<lparr>tg_ID = i, tg_DeviceID = dev, tg_TagName = n, tg_DataType = determineDataType v,
      tg_Unit = Some un, tg_Description = Some desc\<rparr>" "c2 = c'"
    by (simp_all add: resolve_tag_def Let_def)
  with upserted_tag[OF up] c'(2) show ?thesis by simp
qed

lemma array_member_elem:
  assumes "array_member f m k = Some xs" and "x \<in> set xs"
  shows "\<exists>j. f j = Some x"
  using assms
  by (auto simp: array_member_def decode_array_def split: option.splits json.splits dest!: those_map_Some(2))

lemma fetched_entries:
  assumes "FetchSensorCatalog um exchange client = Inr r" and "entry \<in> set (sc_SensorCatalog r)"
  shows "in_i64 (ce_SensorType entry)"
    and "d \<in> set (elems (ce_DataStructures entry)) \<Longrightarrow> distinct (map fst (elems (ds_DataStructure d)))"
proof -
  obtain body where "decode_catalog um body = Some r"
    using fetch_decoded_Inr[OF assms(1)[unfolded FetchSensorCatalog_def]] by blast
  then obtain ms where "array_member (decode_elem decode_entry_fields) ms ''sensor_types'' = Some (sc_SensorCatalog r)"
    by (auto simp: decode_catalog_def decode_body_def bind_eq_Some_conv)
  from array_member_elem[OF this assms(2)] obtain m where m: "decode_entry_fields m = Some entry"
    by (auto simp: decode_elem_def bind_eq_Some_conv)
  show "in_i64 (ce_SensorType entry)"
    using m by (auto simp: decode_entry_fields_def bind_eq_Some_conv dest: int_member_range)
  show "distinct (map fst (elems (ds_DataStructure d)))" if "d \<in> set (elems (ce_DataStructures entry))"
    by (rule fields_of_entry[OF m that])
qed

text \<open>
  C13: The units of the sensor catalog reach the tags.  Take an entry of the \<open>sensor-catalog\<close> reply whose
  type a sensor of the \<open>sensors\<close> reply has, and a field of one of its data structures.  When nothing fails and the
  key of the entry is new, a metadata update publishes a record with this effect: a materializer that handles it has
  a row of the field with its type, units and description in \<open>sensor_catalog\<close>, and every tag created after that
  for the field in a reading whose headers name the sensor type and the data structure has these units and this
  description, in the cache and in the table of tags.
\<close>

theorem catalog_units_reach_tags:
  assumes "FetchSensorMetadata um exchange client = Inr sensors" and "sm \<in> set (sr_Sensors sensors)"
    and "FetchSensorCatalog um exchange client = Inr catalog" and "entry \<in> set (sc_SensorCatalog catalog)"
    and "distinct (map ce_SensorType (sc_SensorCatalog catalog))" and "ce_SensorType entry = sm_SensorType sm"
    and "maxDataStructureType entry = (maxType, True)" and "maxType \<noteq> StartOfWeekUnix now"
    and "metadata_key (itoa (ce_SensorType entry)) maxType \<notin> wk_metadataKeys svc"
    and "update_metadata all_done um encode order client exchange now (svc, c0) = (svc', ck)"
    and "um (encode (entry_json entry)) = Some (entry_json entry)"
    and "ce_DataStructures entry = Some dss" and "d \<in> set dss" and "distinct (map ds_DataStructureType dss)"
    and "ds_DataStructureType d = itoa dst" and "(n, fd) \<in> set (elems (ds_DataStructure d))"
    and "0 < ce_SensorType entry" and "0 < dst"
  shows "\<exists>mm \<in> set (db ck). m_topic mm = ''weather.metadata.catalog''
     \<and> (let (er, ca1, c1) = CatalogProcessor_ProcessMessage all_done um mm (ca, c) in
        er = None
        \<and> \<lparr>c_sensor_type = ce_SensorType entry, c_data_structure_type = itoa dst, c_field_name = n,
            c_field_type = fd_Type fd, c_units = fd_Units fd, c_description = ds_Description d\<rparr> \<in> set (sensor_catalog (db c1))
        \<and> (\<forall>hv dev msg v c2. hv_sensorType hv = ce_SensorType entry \<and> hv_dataStructureType hv = dst
              \<and> GetTag ca1 dev n = None \<and> dev \<in> device_ids (db c2) \<longrightarrow>
            (let (tag, ca3, c3) = resolve_tag all_done um msg hv dev n v ca1 c2 in
             (\<exists>t. tag = Some t \<and> tg_Unit t = Some (fd_Units fd) \<and> tg_Description t = Some (ds_Description d))
             \<and> (\<exists>row \<in> set (tags (db c3)). t_device_id row = dev \<and> t_tag_name row = n
                    \<and> t_unit row = Some (fd_Units fd) \<and> t_description row = Some (ds_Description d)))))"
proof -
  let ?mm = "catalog_message encode order (sc_GeneratedAt catalog) entry maxType"
  have pub: "?mm \<in> set (db ck)" by (rule update_publishes_catalog[OF assms(1-10)])
  obtain er ca1 c1 where run: "CatalogProcessor_ProcessMessage all_done um ?mm (ca, c) = (er, ca1, c1)" by (rule prod_cases3)
  have body: "unmarshal_map um (m_value ?mm) = Some (entry_fields entry)"
    using assms(11) by (simp add: catalog_message_def unmarshal_map_def entry_json_def)
  have names: "distinct (map fst (elems (ds_DataStructure d)))"
    using fetched_entries(2)[OF assms(3,4)] assms(12,13) by (simp add: elems_def)
  note learnt = processor_learns[OF fetched_entries(1)[OF assms(3,4)] assms(12-14,16) names body run]
  have tag: "(\<exists>t. tag = Some t \<and> tg_Unit t = Some (fd_Units fd) \<and> tg_Description t = Some (ds_Description d))
      \<and> (\<exists>row \<in> set (tags (db c3)). t_device_id row = dev \<and> t_tag_name row = n
            \<and> t_unit row = Some (fd_Units fd) \<and> t_description row = Some (ds_Description d))"
    if "hv_sensorType hv = ce_SensorType entry" "hv_dataStructureType hv = dst" "GetTag ca1 dev n = None"
      "dev \<in> device_ids (db c2)" "resolve_tag all_done um msg hv dev n v ca1 c2 = (tag, ca3, c3)"
    for hv dev msg v c2 tag ca3 c3
    using new_tag_has_unit[of hv n "fd_Type fd" "fd_Units fd" "ds_Description d" ca1 c1, OF _ _ _ that(3-5)]
      learnt(2) assms(15,17,18) that(1,2) by auto
  show ?thesis
  proof (intro bexI[OF _ pub] conjI)
    show "m_topic ?mm = ''weather.metadata.catalog''" by (simp add: catalog_message_def)
    have "\<lparr>c_sensor_type = ce_SensorType entry, c_data_structure_type = itoa dst, c_field_name = n,
            c_field_type = fd_Type fd, c_units = fd_Units fd, c_description = ds_Description d\<rparr> \<in> set (sensor_catalog (db c1))"
      using learnt(2) assms(15) by (simp add: field_known_def)
    with learnt(1) tag show "let (er, ca1, c1) = CatalogProcessor_ProcessMessage all_done um ?mm (ca, c) in
        er = None
        \<and> \<lparr>c_sensor_type = ce_SensorType entry, c_data_structure_type = itoa dst, c_field_name = n,
            c_field_type = fd_Type fd, c_units = fd_Units fd, c_description = ds_Description d\<rparr> \<in> set (sensor_catalog (db c1))
        \<and> (\<forall>hv dev msg v c2. hv_sensorType hv = ce_SensorType entry \<and> hv_dataStructureType hv = dst
              \<and> GetTag ca1 dev n = None \<and> dev \<in> device_ids (db c2) \<longrightarrow>
            (let (tag, ca3, c3) = resolve_tag all_done um msg hv dev n v ca1 c2 in
             (\<exists>t. tag = Some t \<and> tg_Unit t = Some (fd_Units fd) \<and> tg_Description t = Some (ds_Description d))
             \<and> (\<exists>row \<in> set (tags (db c3)). t_device_id row = dev \<and> t_tag_name row = n
                    \<and> t_unit row = Some (fd_Units fd) \<and> t_description row = Some (ds_Description d))))"
      unfolding run Let_def prod.case by (auto split: prod.splits)
  qed
qed

section \<open>A concrete run\<close>

definition temp_field :: FieldDefinition where
  "temp_field = \<lparr>fd_Type = ''float'', fd_Units = ''F''\<rparr>"

definition iss_structure :: DataStructure where
  "iss_structure = \<lparr>ds_DataStructureType = ''10'', ds_Description = ''ISS'', ds_DataStructure = Some [(''temp'', temp_field)]\<rparr>"

definition iss_entry :: CatalogEntry where
  "iss_entry = \<lparr>ce_SensorType = 45, ce_Manufacturer = [], ce_ProductName = [], ce_ProductNumber = [], ce_Category = ''ISS'',
     ce_DataStructures = Some [iss_structure]\<rparr>"

definition catalog_decoder :: decoder where
  "catalog_decoder s =
     (if s = ''K'' then Some (JObj [(''sensor_types'', JArr [entry_json iss_entry])])
      else if s = ''E'' then Some (entry_json iss_entry) else api_decoder s)"

definition catalog_exchange :: exchange where
  "catalog_exchange rq =
     (if rq_url rq = apiBase @ ''sensor-catalog?api-key=k'' then Inr (200, ''K'', None) else api_exchange rq)"

lemma catalog_names:
  "list_all (\<lambda>n. to_lower n = n)
     [''sensor_types'', ''data_structures'', ''description'', ''data_structure'', ''type'', ''units'', ''temp'']"
  by code_simp

lemmas catalog_name_simps = catalog_names[simplified] lower_name_simps

lemma iss_decoded: "decode_entry_fields (entry_fields iss_entry) = Some iss_entry"
  by (simp add: decode_entry_fields_def entry_fields_def iss_entry_def iss_structure_def temp_field_def json_int_def
      int_member_def str_member_def slice_member_def json_member_def catalog_name_simps in_i64_def slice_json_def
      decode_array_def decode_elem_def structure_json_def struct_members_def decode_structure_def decode_fields_def
      obj_member_def fields_json_def field_json_def decode_field_def)

lemma catalog_fetched:
  "FetchSensorCatalog catalog_decoder catalog_exchange api_client = Inr \<lparr>sc_SensorCatalog = [iss_entry], sc_GeneratedAt = 0\<rparr>"
  by (simp add: FetchSensorCatalog_def fetch_decoded_def makeRequest_def catalog_exchange_def api_client_def
      decode_catalog_def decode_body_def catalog_decoder_def struct_members_def array_member_def decode_array_def
      decode_elem_def json_member_def catalog_name_simps int_member_def entry_json_def iss_decoded)

lemma catalog_sensors:
  "FetchSensorMetadata catalog_decoder catalog_exchange api_client = Inr \<lparr>sr_Sensors = [api_metadata], sr_GeneratedAt = 0\<rparr>"
proof -
  have "catalog_decoder ''S'' = api_decoder ''S''" by (simp add: catalog_decoder_def)
  then show ?thesis
    using api_sensors
    by (simp add: FetchSensorMetadata_def fetch_decoded_def makeRequest_def catalog_exchange_def api_exchange_def
        api_client_def apiBase_def decode_sensors_def decode_body_def split: option.splits)
qed

lemma iss_max: "maxDataStructureType iss_entry = (10, True)"
  by (simp add: maxDataStructureType_def iss_entry_def iss_structure_def elems_def parse_int_def is_digit_def
      digits_value_def digit_val_def in_i64_def)

lemma catalog_units_reach_tags_witness:
  "\<exists>svc ck mm. update_metadata all_done catalog_decoder (\<lambda>j. ''E'') rev api_client catalog_exchange 0 (New ''3'', \<lparr>db = [], calls = 0\<rparr>)
      = (svc, ck)
     \<and> mm \<in> set (db ck) \<and> m_topic mm = ''weather.metadata.catalog''
     \<and> \<lparr>c_sensor_type = 45, c_data_structure_type = ''10'', c_field_name = ''temp'', c_field_type = ''float'',
         c_units = ''F'', c_description = ''ISS''\<rparr>
       \<in> set (sensor_catalog (db (snd (snd (CatalogProcessor_ProcessMessage all_done catalog_decoder mm
                                             (NewCache, \<lparr>db = empty_database, calls = 0\<rparr>))))))"
proof -
  obtain svc ck where run: "update_metadata all_done catalog_decoder (\<lambda>j. ''E'') rev api_client catalog_exchange 0
      (New ''3'', \<lparr>db = [], calls = 0\<rparr>) = (svc, ck)" by (metis surj_pair)
  have codec: "catalog_decoder ((\<lambda>j. ''E'') (entry_json iss_entry)) = Some (entry_json iss_entry)"
    by (simp add: catalog_decoder_def)
  have f: "sm_SensorType api_metadata = 45" "ce_SensorType iss_entry = 45" "ce_DataStructures iss_entry = Some [iss_structure]"
    "ds_DataStructureType iss_structure = itoa 10" "ds_DataStructureType iss_structure = ''10''"
    "ds_Description iss_structure = ''ISS''" "elems (ds_DataStructure iss_structure) = [(''temp'', temp_field)]"
    "fd_Type temp_field = ''float''" "fd_Units temp_field = ''F''"
    by (simp_all add: api_metadata_def iss_entry_def iss_structure_def temp_field_def elems_def itoa_eval)
  have week: "10 \<noteq> StartOfWeekUnix 0" by (simp add: StartOfWeekUnix_def)
  obtain mm where mm: "mm \<in> set (db ck)" "m_topic mm = ''weather.metadata.catalog''"
    and row: "\<lparr>c_sensor_type = ce_SensorType iss_entry, c_data_structure_type = itoa 10, c_field_name = ''temp'',
         c_field_type = fd_Type temp_field, c_units = fd_Units temp_field, c_description = ds_Description iss_structure\<rparr>
       \<in> set (sensor_catalog (db (snd (snd (CatalogProcessor_ProcessMessage all_done catalog_decoder mm
                                             (NewCache, \<lparr>db = empty_database, calls = 0\<rparr>))))))"
    using catalog_units_reach_tags[OF catalog_sensors _ catalog_fetched _ _ _ iss_max week _ run codec f(3), of api_metadata
        iss_structure 10 "''temp''" temp_field NewCache "\<lparr>db = empty_database, calls = 0\<rparr>"]
    by (auto simp: f New_def case_prod_beta Let_def)
  show ?thesis using run mm row unfolding f(1,2,6,8,9) f(4)[symmetric] f(5) by blast
qed

end
