(* ===== verification/Ha_Service.thy ===== *)
theory Ha_Service
  imports Ha_Client "HOL-Library.Sublist"
begin

text \<open>
  \<open>services/homeassistant-kafka/service/service.go\<close>, \<open>Start\<close>: discovery, then polling or the subscription, whose
  events go through \<open>handleEvent\<close> into Kafka.  The lemmas follow the events from the frames of the WebSocket
  to the messages of the topics.
\<close>

section \<open>The service\<close>

record hk_config =
  hkc_Token :: string
  hkc_Backoff :: "int list"
  hkc_PollEnabled :: bool
  hkc_EntityFilter :: "string list"

text \<open>
  What the outside brings in a run: the connection of the discovery, the later ones, the rounds of the polling
  loop.  \<open>compact\<close> is the text of a raw message as \<open>json.Marshal\<close> writes it, \<open>marshal\<close> that of an event; \<open>clock k\<close>
  is the time at which the event number \<open>k\<close> is handled.
\<close>

record hk_input =
  hki_discovery :: "string result list result"
  hki_dials :: "string result list result list"
  hki_rounds :: "(string \<times> HAState list result) list"

record hk_texts =
  hkt_unmarshal :: decoder
  hkt_compact :: "json \<Rightarrow> string"
  hkt_marshal :: "HAEvent \<Rightarrow> string"
  hkt_parse :: "string \<Rightarrow> string \<Rightarrow> int option"
  hkt_order :: header_order
  hkt_clock :: "nat \<Rightarrow> int"

text \<open>
  Events handled one after the other, from the event number \<open>k\<close> on: the handler of the loop that reads the
  frames, and of the polling loop.
\<close>

fun handle_events :: "env \<Rightarrow> hk_texts \<Rightarrow> ha_service \<Rightarrow> nat \<Rightarrow> (HAEvent \<times> string) list \<Rightarrow> kafka conn \<Rightarrow> kafka conn" where
  "handle_events e tx svc k [] c = c"
| "handle_events e tx svc k ((event, raw) # evs) c =
     handle_events e tx svc (Suc k) evs
       (handleEvent e (hkt_order tx) (hkt_parse tx) (hkt_clock tx k) svc event raw c)"

text \<open>The service after the discovery, and the WebSocket writes of it; an explicit filter skips it.\<close>

definition hk_discover ::
    "env \<Rightarrow> hk_texts \<Rightarrow> hk_config \<Rightarrow> hk_input \<Rightarrow> json list conn \<Rightarrow> ha_service \<times> json list conn" where
  "hk_discover e tx cfg inp sent =
     (if hkc_EntityFilter cfg = [] then
        (let (discovered, sent1) =
               DiscoverEntities e (hkt_unmarshal tx) (hkc_Token cfg) ''ecobee'' (hki_discovery inp) sent
         in (start_filter [] discovered, sent1))
      else (start_filter (hkc_EntityFilter cfg) (Inr []), sent))"

text \<open>The events given to \<open>handleEvent\<close>, with the texts given with them.\<close>

definition hk_handed ::
    "env \<Rightarrow> hk_texts \<Rightarrow> hk_config \<Rightarrow> hk_input \<Rightarrow> ha_service \<Rightarrow> json list conn \<Rightarrow> (HAEvent \<times> string) list" where
  "hk_handed e tx cfg inp svc sent =
     (if hkc_PollEnabled cfg then
        map (\<lambda>event. (event, hkt_marshal tx event)) (concat (fst (pollLoop svc (hki_rounds inp) None)))
      else map (\<lambda>(event, raw). (event, hkt_compact tx raw))
             (fst (SubscribeStateChanges e (hkt_unmarshal tx) (hkc_Token cfg) (hkc_Backoff cfg) (hki_dials inp) sent)))"

text \<open>\<open>Start\<close> until the cancellation; \<open>ews\<close> are the outcomes of the WebSocket writes, \<open>e\<close> those of Kafka.\<close>

definition hk_Start ::
    "env \<Rightarrow> env \<Rightarrow> hk_texts \<Rightarrow> hk_config \<Rightarrow> hk_input \<Rightarrow> json list conn \<Rightarrow> kafka conn \<Rightarrow> ha_service \<times> kafka conn" where
  "hk_Start ews e tx cfg inp sent c =
     (let (svc, sent1) = hk_discover ews tx cfg inp sent
      in (svc, handle_events e tx svc 0 (hk_handed ews tx cfg inp svc sent1) c))"

section \<open>What a connection brings\<close>

text \<open>
  A reading of the protocol without the functions of the client: a connection that asks for a token and
  accepts it, then acknowledges the subscription (frames that are not the answer may come before), brings the
  frames after that up to its first error.
\<close>

definition frame_says :: "decoder \<Rightarrow> string \<Rightarrow> string result \<Rightarrow> bool" where
  "frame_says um t f =
     (case f of
        Inl er \<Rightarrow> False
      | Inr p \<Rightarrow> (case Option.bind (unmarshal_map um p) auth_message of None \<Rightarrow> False | Some (t', msg) \<Rightarrow> t' = t))"

definition frame_ack :: "decoder \<Rightarrow> string result \<Rightarrow> (int \<times> string \<times> bool \<times> string) option" where
  "frame_ack um f = (case f of Inl er \<Rightarrow> None | Inr p \<Rightarrow> Option.bind (unmarshal_map um p) decode_ack)"

definition not_the_answer :: "decoder \<Rightarrow> string result \<Rightarrow> bool" where
  "not_the_answer um f = (case frame_ack um f of None \<Rightarrow> False | Some (i, t, ok, msg) \<Rightarrow> t \<noteq> ''result'' \<or> i \<noteq> 1)"

definition accepted :: "decoder \<Rightarrow> string result \<Rightarrow> bool" where
  "accepted um f = (case frame_ack um f of None \<Rightarrow> False | Some (i, t, ok, msg) \<Rightarrow> t = ''result'' \<and> i = 1 \<and> ok)"

definition live_frames :: "decoder \<Rightarrow> string result list result \<Rightarrow> string list" where
  "live_frames um dialed =
     (case dialed of
        Inr (hello # greeting # frames) \<Rightarrow>
          if frame_says um ''auth_required'' hello \<and> frame_says um ''auth_ok'' greeting then
            (case dropWhile (not_the_answer um) frames of
               answer # rest \<Rightarrow> if accepted um answer then until_error rest else []
             | [] \<Rightarrow> [])
          else []
      | _ \<Rightarrow> [])"

text \<open>The message an event becomes, with the time it is handled.\<close>

definition routed_message :: "hk_texts \<Rightarrow> ha_service \<Rightarrow> nat \<times> HAEvent \<times> string \<Rightarrow> message option" where
  "routed_message tx svc = (\<lambda>(k, event, raw).
     map_option (\<lambda>(topic, key, headers).
        \<lparr>m_topic = topic, m_partition = 0, m_offset = 0, m_key = key, m_value = raw, m_headers = hkt_order tx headers\<rparr>)
      (event_route svc (hkt_parse tx) (hkt_clock tx k) event))"

lemma answer_simps [simp]:
  "not_the_answer um (Inl er) = False" "accepted um (Inl er) = False"
  "not_the_answer um (Inr p) =
     (case Option.bind (unmarshal_map um p) decode_ack of None \<Rightarrow> False | Some (i, t, ok, msg) \<Rightarrow> t \<noteq> ''result'' \<or> i \<noteq> 1)"
  "accepted um (Inr p) =
     (case Option.bind (unmarshal_map um p) decode_ack of None \<Rightarrow> False | Some (i, t, ok, msg) \<Rightarrow> t = ''result'' \<and> i = 1 \<and> ok)"
  by (simp_all add: not_the_answer_def accepted_def frame_ack_def)

lemma expectSubscribeOK_live:
  "(case expectSubscribeOK um 1 frames of (None, rest) \<Rightarrow> until_error rest | (Some er, rest) \<Rightarrow> []) =
   (case dropWhile (not_the_answer um) frames of
      answer # rest \<Rightarrow> if accepted um answer then until_error rest else [] | [] \<Rightarrow> [])"
proof (induction frames)
  case (Cons f frames)
  show ?case
  proof (cases f)
    case (Inr p)
    show ?thesis
    proof (cases "Option.bind (unmarshal_map um p) decode_ack")
      case (Some ack)
      with Inr Cons show ?thesis by (cases ack) simp
    qed (simp add: Inr)
  qed simp
qed simp

lemma expectAuth_says:
  "expectAuthRequired um frames = (None, rest) \<longleftrightarrow> (\<exists>hello. frames = hello # rest \<and> frame_says um ''auth_required'' hello)"
  "expectAuthOK um frames = (None, rest) \<longleftrightarrow> (\<exists>greeting. frames = greeting # rest \<and> frame_says um ''auth_ok'' greeting)"
  by (cases frames; force simp: expectAuthRequired_def expectAuthOK_def readJSON_def frame_says_def
      split: sum.splits option.splits)+

lemma handshake_live:
  assumes "handshake e um token frames sent = (r, sent1)"
  shows "(\<exists>er. r = Inl er) \<or> (\<exists>hello greeting rest. frames = hello # greeting # rest \<and> r = Inr rest
           \<and> frame_says um ''auth_required'' hello \<and> frame_says um ''auth_ok'' greeting)"
    and "e = all_done \<Longrightarrow> frames = hello # greeting # rest \<Longrightarrow> frame_says um ''auth_required'' hello \<Longrightarrow>
           frame_says um ''auth_ok'' greeting \<Longrightarrow> r = Inr rest"
proof -
  show "(\<exists>er. r = Inl er) \<or> (\<exists>hello greeting rest. frames = hello # greeting # rest \<and> r = Inr rest
           \<and> frame_says um ''auth_required'' hello \<and> frame_says um ''auth_ok'' greeting)"
    using assms by (auto simp: handshake_def expectAuth_says split: option.splits prod.splits)
  assume e: "e = all_done" and f: "frames = hello # greeting # rest"
    and says: "frame_says um ''auth_required'' hello" "frame_says um ''auth_ok'' greeting"
  have "expectAuthRequired um frames = (None, greeting # rest)" "expectAuthOK um (greeting # rest) = (None, rest)"
    using f says by (simp_all add: expectAuth_says)
  with assms e show "r = Inr rest" by (auto simp: handshake_def sendJSON_def outcome_simps)
qed

lemma connectAndStream_live:
  assumes "connectAndStream e um token d sent = (er, evs, sent')"
  shows "evs = [] \<or> evs = List.map_filter (frame_event um) (live_frames um d)"
    and "e = all_done \<Longrightarrow> evs = List.map_filter (frame_event um) (live_frames um d)"
proof -
  note sub = expectSubscribeOK_live[of um]
  show "evs = [] \<or> evs = List.map_filter (frame_event um) (live_frames um d)"
  proof (cases "evs = []")
    case False
    then obtain frames rest rest1 sent1 where c: "d = Inr frames" "handshake e um token frames sent = (Inr rest, sent1)"
      "expectSubscribeOK um 1 rest = (None, rest1)" "evs = List.map_filter (frame_event um) (until_error rest1)"
      using events_after_subscription[OF assms] by blast
    from handshake_live(1)[OF c(2)] sub[of rest] c show ?thesis by (auto simp: live_frames_def)
  qed simp
  show "evs = List.map_filter (frame_event um) (live_frames um d)" if e: "e = all_done"
  proof (cases d)
    case (Inl er')
    with assms show ?thesis by (simp add: connectAndStream_def live_frames_def map_filter_simps)
  next
    case (Inr frames)
    obtain r sent1 where h: "handshake e um token frames sent = (r, sent1)" by (rule prod.exhaust)
    show ?thesis
    proof (cases r)
      case (Inl er')
      with handshake_live(2)[OF h e] have "live_frames um d = []"
        using Inr by (auto simp: live_frames_def \<open>d = Inr frames\<close> split: list.splits)
      with assms h Inl \<open>d = Inr frames\<close> show ?thesis by (simp add: connectAndStream_def map_filter_simps)
    next
      case rest: (Inr rest)
      from handshake_live(1)[OF h] rest obtain hello greeting where f: "frames = hello # greeting # rest"
        "frame_says um ''auth_required'' hello" "frame_says um ''auth_ok'' greeting" by auto
      obtain ack rest1 where x: "expectSubscribeOK um 1 rest = (ack, rest1)" by (rule prod.exhaust)
      have "evs = List.map_filter (frame_event um) (case ack of None \<Rightarrow> until_error rest1 | Some er \<Rightarrow> [])"
        using assms h x rest e \<open>d = Inr frames\<close> stream_events_filter[of um rest1]
        by (auto simp: connectAndStream_def sendJSON_def outcome_simps Let_def map_filter_simps
            split: option.splits prod.splits)
      also have "(case ack of None \<Rightarrow> until_error rest1 | Some er \<Rightarrow> []) = live_frames um d"
        using sub[of rest] x f \<open>d = Inr frames\<close> by (simp add: live_frames_def split: option.splits)
      finally show ?thesis .
    qed
  qed
qed

lemma subscribe_loop_live:
  "subseq (fst (subscribe_loop e um token backoff dials k sent))
     (concat (map (\<lambda>d. List.map_filter (frame_event um) (live_frames um d)) dials))
   \<and> (e = all_done \<longrightarrow> fst (subscribe_loop e um token backoff dials k sent) =
     concat (map (\<lambda>d. List.map_filter (frame_event um) (live_frames um d)) dials))"
proof (induction dials arbitrary: k sent)
  case (Cons d ds)
  obtain er evs sent1 where c: "connectAndStream e um token d sent = (er, evs, sent1)" by (rule prod_cases3)
  have f: "fst (subscribe_loop e um token backoff (d # ds) k sent) =
      evs @ fst (subscribe_loop e um token backoff ds (Suc k) sent1)"
    using c by (simp add: Let_def split: prod.splits)
  have "subseq evs (List.map_filter (frame_event um) (live_frames um d))"
    using connectAndStream_live(1)[OF c] by auto
  then show ?case
    using Cons[of "Suc k" sent1] connectAndStream_live(2)[OF c]
    unfolding f list.map concat.simps by (auto intro: list_emb_append_mono)
qed simp

section \<open>What reaches Kafka\<close>

lemma handleEvent_adds:
  assumes "handleEvent e (hkt_order tx) (hkt_parse tx) (hkt_clock tx k) svc event raw c = c'"
  obtains kept where "db c' = db c @ kept"
    "subseq kept (List.map_filter (routed_message tx svc) [(k, event, raw)])"
    "e = all_done \<Longrightarrow> kept = List.map_filter (routed_message tx svc) [(k, event, raw)]"
proof (cases "event_route svc (hkt_parse tx) (hkt_clock tx k) event")
  case None
  with assms that[of "[]"] show thesis by (simp add: handleEvent_def routed_message_def map_filter_simps)
next
  case (Some route)
  obtain topic key headers where r: "route = (topic, key, headers)" by (rule prod_cases3)
  define m where "m = \<lparr>m_topic = topic, m_partition = 0, m_offset = 0, m_key = key, m_value = raw,
    m_headers = hkt_order tx headers\<rparr>"
  have m: "List.map_filter (routed_message tx svc) [(k, event, raw)] = [m]"
    using Some r by (simp add: routed_message_def map_filter_simps m_def)
  obtain er c1 where p: "Publish e (hkt_order tx) topic key raw headers c = (er, c1)" by (rule prod.exhaust)
  have c': "c' = c1" using assms Some r p by (simp add: handleEvent_def)
  from p show thesis
  proof (cases rule: Publish_cases)
    case (no er')
    have "e \<noteq> all_done" using p no by (auto simp: Publish_def outcome_simps produce_def)
    with no c' m show thesis by (intro that[of "[]"]) auto
  next
    case yes
    with c' m show thesis by (intro that[of "[m]"]) (auto simp: m_def)
  qed
qed

text \<open>The events with their numbers.\<close>

definition numbered :: "nat \<Rightarrow> (HAEvent \<times> string) list \<Rightarrow> (nat \<times> HAEvent \<times> string) list" where
  "numbered k evs = zip [k..<k + length evs] evs"

lemma numbered_simps [simp]:
  "numbered k [] = []" "numbered k (ev # evs) = (k, ev) # numbered (Suc k) evs"
  by (simp_all add: numbered_def upt_conv_Cons del: upt_Suc)

lemma handle_events_adds:
  "\<exists>kept. db (handle_events e tx svc k evs c) = db c @ kept
     \<and> subseq kept (List.map_filter (routed_message tx svc) (numbered k evs))
     \<and> (e = all_done \<longrightarrow> kept = List.map_filter (routed_message tx svc) (numbered k evs))"
proof (induction evs arbitrary: k c)
  case (Cons ev evs)
  obtain event raw where ev: "ev = (event, raw)" by (rule prod.exhaust)
  let ?c = "handleEvent e (hkt_order tx) (hkt_parse tx) (hkt_clock tx k) svc event raw c"
  obtain kept1 where k1: "db ?c = db c @ kept1"
    "subseq kept1 (List.map_filter (routed_message tx svc) [(k, event, raw)])"
    "e = all_done \<Longrightarrow> kept1 = List.map_filter (routed_message tx svc) [(k, event, raw)]"
    by (rule handleEvent_adds[of e tx k svc event raw c, OF refl]) blast
  from Cons[of "Suc k" ?c] obtain kept2 where k2:
    "db (handle_events e tx svc (Suc k) evs ?c) = db ?c @ kept2"
    "subseq kept2 (List.map_filter (routed_message tx svc) (numbered (Suc k) evs))"
    "e = all_done \<longrightarrow> kept2 = List.map_filter (routed_message tx svc) (numbered (Suc k) evs)" by blast
  have split: "List.map_filter (routed_message tx svc) (numbered k (ev # evs)) =
      List.map_filter (routed_message tx svc) [(k, event, raw)]
      @ List.map_filter (routed_message tx svc) (numbered (Suc k) evs)"
    by (simp add: ev map_filter_def)
  show ?case
    unfolding split using k1 k2 by (intro exI[of _ "kept1 @ kept2"]) (simp add: ev list_emb_append_mono)
qed (simp add: map_filter_simps)

lemma routed_message_spec:
  assumes "routed_message tx svc (k, event, raw) = Some m" and "permutes_headers (hkt_order tx)"
  shows "m_value m = raw \<and> m_topic m \<in> set ecobee_topics
     \<and> (\<exists>eid. (''entity_id'', eid) \<in> set (m_headers m) \<and> isEcobeeEntity svc eid)"
proof -
  obtain topic key headers where r: "event_route svc (hkt_parse tx) (hkt_clock tx k) event = Some (topic, key, headers)"
    "m = \<lparr>m_topic = topic, m_partition = 0, m_offset = 0, m_key = key, m_value = raw, m_headers = hkt_order tx headers\<rparr>"
    using assms(1) by (auto simp: routed_message_def)
  have "set (hkt_order tx headers) = set headers"
    using assms(2) by (metis permutes_headers_def set_mset_mset)
  moreover note event_route_spec[OF refl, of svc "hkt_parse tx" "hkt_clock tx k" event]
  ultimately show ?thesis using r map_of_SomeD[of headers "''entity_id''"] by auto
qed

lemma hk_discover_filter:
  assumes "hk_discover e tx cfg inp sent = (svc, sent')"
  shows "hs_EntityFilter svc = hkc_EntityFilter cfg"
  using assms by (auto simp: hk_discover_def start_filter_def split: if_splits prod.splits)

text \<open>The events the connections bring, with the texts of their messages.\<close>

definition brought :: "hk_texts \<Rightarrow> hk_input \<Rightarrow> (HAEvent \<times> string) list" where
  "brought tx inp = map (\<lambda>(event, raw). (event, hkt_compact tx raw))
     (concat (map (\<lambda>d. List.map_filter (frame_event (hkt_unmarshal tx)) (live_frames (hkt_unmarshal tx) d))
        (hki_dials inp)))"

text \<open>
  C17: From the WebSocket or the polling loop to Kafka: the messages a run adds are those of the events
  handed over, in order, each at most once, on one of the seven topics and for an entity of interest (one of
  the explicit filter, when there is one).  With a subscription the events handed over are those of the frames
  the connections bring after the acknowledged subscription.  A failed publish loses its event and no other,
  a failed connection the events of its frames; with no failure all of them are in Kafka.
\<close>

theorem state_changes_reach_kafka:
  assumes "hk_Start ews e tx cfg inp sent c = (svc, c')" and "permutes_headers (hkt_order tx)"
  shows "\<exists>handed kept.
      (if hkc_PollEnabled cfg
       then handed = map (\<lambda>event. (event, hkt_marshal tx event)) (concat (fst (pollLoop svc (hki_rounds inp) None)))
       else subseq handed (brought tx inp) \<and> (ews = all_done \<longrightarrow> handed = brought tx inp))
      \<and> db c' = db c @ kept
      \<and> subseq kept (List.map_filter (routed_message tx svc) (numbered 0 handed))
      \<and> (e = all_done \<longrightarrow> kept = List.map_filter (routed_message tx svc) (numbered 0 handed))
      \<and> (\<forall>m \<in> set kept. m_topic m \<in> set ecobee_topics
            \<and> (\<exists>eid. (''entity_id'', eid) \<in> set (m_headers m) \<and> isEcobeeEntity svc eid
                 \<and> (hkc_EntityFilter cfg \<noteq> [] \<longrightarrow> eid \<in> set (hkc_EntityFilter cfg))))"
proof -
  obtain svc' sent1 where d: "hk_discover ews tx cfg inp sent = (svc', sent1)" by (rule prod.exhaust)
  let ?handed = "hk_handed ews tx cfg inp svc sent1"
  have svc: "svc' = svc" and c': "c' = handle_events e tx svc 0 ?handed c"
    using assms(1) d by (auto simp: hk_Start_def)
  have handed: "if hkc_PollEnabled cfg
       then ?handed = map (\<lambda>event. (event, hkt_marshal tx event)) (concat (fst (pollLoop svc (hki_rounds inp) None)))
       else subseq ?handed (brought tx inp) \<and> (ews = all_done \<longrightarrow> ?handed = brought tx inp)"
    using subscribe_loop_live by (auto simp: hk_handed_def brought_def SubscribeStateChanges_def intro!: subseq_map)
  obtain kept where kept: "db c' = db c @ kept"
    "subseq kept (List.map_filter (routed_message tx svc) (numbered 0 ?handed))"
    "e = all_done \<longrightarrow> kept = List.map_filter (routed_message tx svc) (numbered 0 ?handed)"
    using handle_events_adds[of e tx svc 0 ?handed c] c' by auto
  have "m_topic m \<in> set ecobee_topics \<and> (\<exists>eid. (''entity_id'', eid) \<in> set (m_headers m) \<and> isEcobeeEntity svc eid
      \<and> (hkc_EntityFilter cfg \<noteq> [] \<longrightarrow> eid \<in> set (hkc_EntityFilter cfg)))" if "m \<in> set kept" for m
  proof -
    have "m \<in> set (List.map_filter (routed_message tx svc) (numbered 0 ?handed))"
      using list_emb_set[OF kept(2) that] by blast
    then obtain k event raw where "routed_message tx svc (k, event, raw) = Some m"
      by (auto simp: map_filter_def)
    with assms(2) obtain eid where "m_topic m \<in> set ecobee_topics" "(''entity_id'', eid) \<in> set (m_headers m)"
      "isEcobeeEntity svc eid" using routed_message_spec by blast
    moreover have "hkc_EntityFilter cfg \<noteq> [] \<longrightarrow> eid \<in> set (hkc_EntityFilter cfg)"
      using calculation(3) hk_discover_filter[OF d] by (auto simp: svc isEcobeeEntity_def split: if_splits)
    ultimately show ?thesis by blast
  qed
  with handed kept show ?thesis by blast
qed

section \<open>A concrete run\<close>

definition home_decoder :: decoder where
  "home_decoder s =
     (if s = ''ev'' then
        Some (JObj [(''id'', JNum 1), (''type'', JStr ''event''),
                    (''event'', JObj [(''event_type'', JStr ''state_changed''),
                       (''data'', JObj [(''entity_id'', JStr ''climate.home''),
                                      (''new_state'', JObj [(''entity_id'', JStr ''climate.home''), (''state'', JStr ''heat'')])])])])
      else frame_decoder s)"

definition home_texts :: hk_texts where
  "home_texts = \<lparr>hkt_unmarshal = home_decoder, hkt_compact = (\<lambda>j. ''raw''), hkt_marshal = (\<lambda>ev. []),
     hkt_parse = (\<lambda>l s. None), hkt_order = id, hkt_clock = int\<rparr>"

definition home_config :: hk_config where
  "home_config = \<lparr>hkc_Token = ''t'', hkc_Backoff = [1], hkc_PollEnabled = False, hkc_EntityFilter = [''climate.home'']\<rparr>"

text \<open>Two connections, the first of which asks for a token and breaks.\<close>

definition home_input :: hk_input where
  "home_input = \<lparr>hki_discovery = Inl EOF,
     hki_dials = [Inr [Inr ''required'', Inl EOF],
                  Inr [Inr ''required'', Inr ''ok'', Inr ''pong'', Inr ''done'', Inr ''pong'', Inr ''ev'', Inl EOF, Inr ''ev'']],
     hki_rounds = []\<rparr>"

lemma home_brought: "\<exists>ev raw. brought home_texts home_input = [(ev, ''raw'')]
    \<and> routed_message home_texts (start_filter [''climate.home''] (Inr [])) (0, ev, ''raw'') \<noteq> None
    \<and> (\<forall>m. routed_message home_texts (start_filter [''climate.home''] (Inr [])) (0, ev, ''raw'') = Some m \<longrightarrow>
         m_topic m = ''homeassistant.ecobee.thermostat.climate'')"
  by (simp add: brought_def home_input_def live_frames_def home_texts_def frame_says_def home_decoder_def frame_simps
      auth_message_def decode_ack_def in_i64_def frame_event_def decode_event_def decode_state_ptr_def decode_state_def
      decode_context_def map_filter_simps Let_def routed_message_def event_route_def isEcobeeEntity_def
      start_filter_def topicForEvent_def entityDomain_def)

lemma state_changes_reach_kafka_witness:
  "map m_topic (db (snd (hk_Start all_done all_done home_texts home_config home_input
      \<lparr>db = [], calls = 0\<rparr> \<lparr>db = [], calls = 0\<rparr>))) = [''homeassistant.ecobee.thermostat.climate'']"
proof -
  obtain svc c' where r: "hk_Start all_done all_done home_texts home_config home_input
      \<lparr>db = [], calls = 0\<rparr> \<lparr>db = [], calls = 0\<rparr> = (svc, c')" by (rule prod.exhaust)
  have order: "permutes_headers (hkt_order home_texts)" by (simp add: permutes_headers_def home_texts_def)
  have svc: "svc = start_filter [''climate.home''] (Inr [])"
    using r by (simp add: hk_Start_def hk_discover_def home_config_def)
  have "db c' = List.map_filter (routed_message home_texts svc) (numbered 0 (brought home_texts home_input))"
    using state_changes_reach_kafka[OF r order] by (auto simp: home_config_def)
  with svc home_brought have "map m_topic (db c') = [''homeassistant.ecobee.thermostat.climate'']"
    by (auto simp: map_filter_simps)
  with r show ?thesis by simp
qed

end
