(* ===== verification/Hc_Service.thy ===== *)
theory Hc_Service
  imports Ha_Command "HOL-Library.Sublist"
begin

text \<open>
  The process of \<open>services/homeassistant-command\<close>: the loop of \<open>Start\<close>, which executes one command after the
  other, and \<open>keepAlive\<close>, which pings beside it, share one client.  \<open>Ha_Command\<close> gives the calls as functions
  of a client nobody else uses; here they are cut where the code takes or releases \<open>c.mu\<close> or waits, and the
  moves of the two goroutines come in any order.

  A goroutine keeps the connection it has read from \<open>c.conn\<close> while the other one may close it, dial a new one
  and reset the message ids.  Connections are numbered in the order they are dialled.  What \<open>ReadMessage\<close>
  returns is an event at the goroutine that reads: a frame goes to one reader.  Writing to a closed connection is
  an error, and reading from one returns no frame.
\<close>

section \<open>The client\<close>

record shared_client =
  sc_conn :: "nat option"
  sc_closed :: "nat set"
  sc_msgID :: int
  sc_dialled :: nat
  sc_sent :: "(nat \<times> json) list conn"

definition shared_NewClient :: shared_client where
  "shared_NewClient =
     \<lparr>sc_conn = None, sc_closed = {}, sc_msgID = 0, sc_dialled = 0, sc_sent = \<lparr>db = [], calls = 0\<rparr>\<rparr>"

definition shared_send ::
    "env \<Rightarrow> nat \<Rightarrow> json \<Rightarrow> shared_client \<Rightarrow> go_error option \<times> shared_client" where
  "shared_send e n msg c =
     (if n \<in> sc_closed c then (Some (Err ''use of closed network connection''), c)
      else let (r, sent) = exec_stmt e (\<lambda>s. Inr (s @ [(n, msg)])) (sc_sent c) in (r, c\<lparr>sc_sent := sent\<rparr>))"

definition shared_clear :: "shared_client \<Rightarrow> shared_client" where
  "shared_clear c =
     (case sc_conn c of None \<Rightarrow> c | Some k \<Rightarrow> c\<lparr>sc_conn := None, sc_closed := insert k (sc_closed c)\<rparr>)"

text \<open>\<open>Connect\<close>, all of it under the mutex, with what \<open>Dial\<close> returned.\<close>

definition shared_connect ::
    "env \<Rightarrow> decoder \<Rightarrow> string \<Rightarrow> string result list result \<Rightarrow> shared_client \<Rightarrow> go_error option \<times> shared_client" where
  "shared_connect e um token dialed c =
     (let c0 = shared_clear c in
      case dialed of
        Inl er \<Rightarrow> (Some (Wrap ''ws dial failed'' er), c0)
      | Inr frames \<Rightarrow>
          let n = sc_dialled c0;
              (r, sent) = handshake e um token frames \<lparr>db = [], calls = calls (sc_sent c0)\<rparr>;
              c1 = c0\<lparr>sc_dialled := Suc n,
                      sc_sent := \<lparr>db = db (sc_sent c0) @ map (Pair n) (db sent), calls = calls sent\<rparr>\<rparr>
          in case r of
               Inl er \<Rightarrow> (Some er, c1\<lparr>sc_closed := insert n (sc_closed c1)\<rparr>)
             | Inr rest \<Rightarrow> (None, c1\<lparr>sc_conn := Some n, sc_msgID := 0\<rparr>))"

section \<open>One conversation\<close>

text \<open>What a goroutine does with the client: a command, tried the first or the second time, or a ping.\<close>

datatype task = CallTask Command bool | PingTask

text \<open>Where it is.\<close>

datatype talk =
    CheckConn task
  | TakeConn task
  | TakeID task nat
  | SendRequest task nat int
  | AwaitReply task nat int
  | ClearConn task
  | DialAgain task nat
  | Finished "go_error option"

datatype talk_event =
    StepOn
  | FrameRead string
  | ReadFailed go_error
  | DialReturned "string result list result"
  | ContextDone

fun task_request :: "task \<Rightarrow> int \<Rightarrow> json" where
  "task_request (CallTask cmd again) i = call_request i cmd"
| "task_request PingTask i = ping_request i"

text \<open>After an error the first try of a command and a ping reconnect; the second try gives the error back.\<close>

fun talk_failed :: "task \<Rightarrow> go_error \<Rightarrow> talk" where
  "talk_failed (CallTask cmd again) er = (if again then Finished (Some er) else ClearConn (CallTask cmd again))"
| "talk_failed PingTask er = ClearConn PingTask"

fun reconnected :: "task \<Rightarrow> talk" where
  "reconnected (CallTask cmd again) = TakeConn (CallTask cmd True)"
| "reconnected PingTask = Finished None"

text \<open>What a frame says to the one who waits for the reply with an id; \<open>None\<close> when he reads on.\<close>

fun reply_in :: "decoder \<Rightarrow> task \<Rightarrow> int \<Rightarrow> string \<Rightarrow> go_error option option" where
  "reply_in um (CallTask cmd again) i payload =
     (case Option.bind (unmarshal_map um payload) decode_result of
        None \<Rightarrow> None
      | Some (j, t, s, msg) \<Rightarrow>
          if t \<noteq> ''result'' \<or> j \<noteq> i then None
          else Some (if s then None else Some (Err (''call_service failed (id='' @ itoa i @ ''): '' @ msg))))"
| "reply_in um PingTask i payload =
     (case unmarshal_map um payload of
        None \<Rightarrow> None
      | Some m \<Rightarrow>
          (case (int_member m ''id'', str_member m ''type'') of
             (Some j, Some t) \<Rightarrow> if t = ''pong'' \<and> j = i then Some None else None
           | _ \<Rightarrow> None))"

definition read_error :: "task \<Rightarrow> go_error \<Rightarrow> go_error" where
  "read_error task er =
     Wrap (case task of CallTask _ _ \<Rightarrow> ''failed to read call_service result'' | PingTask \<Rightarrow> ''ping read failed'') er"

definition send_error :: "task \<Rightarrow> go_error \<Rightarrow> go_error" where
  "send_error task er =
     Wrap (case task of CallTask _ _ \<Rightarrow> ''failed to send call_service'' | PingTask \<Rightarrow> ''ping send failed'') er"

definition no_conn_error :: "task \<Rightarrow> go_error" where
  "no_conn_error task =
     Err (case task of CallTask _ _ \<Rightarrow> ''not connected to Home Assistant'' | PingTask \<Rightarrow> ''not connected'')"

definition reconnect_error :: "task \<Rightarrow> go_error \<Rightarrow> go_error" where
  "reconnect_error task er = (case task of CallTask _ _ \<Rightarrow> Wrap ''reconnect failed'' er | PingTask \<Rightarrow> er)"

text \<open>One move of a goroutine; \<open>None\<close> when the event does not fit the place where it is.\<close>

fun talk_step ::
    "env \<Rightarrow> decoder \<Rightarrow> string \<Rightarrow> talk_event \<Rightarrow> talk \<Rightarrow> shared_client \<Rightarrow> (talk \<times> shared_client) option" where
  "talk_step e um token StepOn (CheckConn t) c =
     Some (if sc_conn c = None then Finished None else TakeConn t, c)"
| "talk_step e um token StepOn (TakeConn t) c =
     Some (case sc_conn c of None \<Rightarrow> talk_failed t (no_conn_error t) | Some n \<Rightarrow> TakeID t n, c)"
| "talk_step e um token StepOn (TakeID t n) c =
     (let i = i64 (sc_msgID c + 1) in Some (SendRequest t n i, c\<lparr>sc_msgID := i\<rparr>))"
| "talk_step e um token StepOn (SendRequest t n i) c =
     (case shared_send e n (task_request t i) c of
        (Some er, c1) \<Rightarrow> Some (talk_failed t (send_error t er), c1)
      | (None, c1) \<Rightarrow> Some (AwaitReply t n i, c1))"
| "talk_step e um token (FrameRead payload) (AwaitReply t n i) c =
     (if n \<in> sc_closed c then None
      else case reply_in um t i payload of
             None \<Rightarrow> Some (AwaitReply t n i, c)
           | Some None \<Rightarrow> Some (Finished None, c)
           | Some (Some er) \<Rightarrow> Some (talk_failed t er, c))"
| "talk_step e um token (ReadFailed er) (AwaitReply t n i) c = Some (talk_failed t (read_error t er), c)"
| "talk_step e um token StepOn (ClearConn t) c = Some (DialAgain t 0, shared_clear c)"
| "talk_step e um token (DialReturned d) (DialAgain t k) c =
     (case shared_connect e um token d c of
        (None, c1) \<Rightarrow> Some (reconnected t, c1)
      | (Some er, c1) \<Rightarrow> Some (DialAgain t (Suc k), c1))"
| "talk_step e um token ContextDone (DialAgain t k) c =
     Some (Finished (Some (reconnect_error t Canceled)), c)"
| "talk_step e um token _ _ c = None"

section \<open>The process\<close>

text \<open>
  Where the loop of \<open>Start\<close> is: at its first connection, waiting for a message, executing it, before the commit,
  or returned.
\<close>

datatype loop_phase =
    Starting nat
  | AtFetch
  | Handling message talk
  | AtCommit message
  | Returned go_error

text \<open>
  \<open>cp_log\<close> records each message that was handled: \<open>None\<close> when it was no valid command, otherwise what
  \<open>executeWithReconnect\<close> returned.
\<close>

record command_process =
  cp_client :: shared_client
  cp_loop :: loop_phase
  cp_ping :: "talk option"
  cp_alive :: bool
  cp_cancelled :: bool
  cp_log :: "(message \<times> go_error option option) list"
  cp_committed :: "message list"

definition command_start :: command_process where
  "command_start =
     \<lparr>cp_client = shared_NewClient, cp_loop = Starting 0, cp_ping = None, cp_alive = False, cp_cancelled = False,
      cp_log = [], cp_committed = []\<rparr>"

datatype command_move =
    LoopTalk talk_event
  | LoopFetch message
  | LoopFetchFails go_error
  | LoopCommit outcome
  | PingTick
  | PingTalk talk_event
  | PingReturns
  | CancelSignal

definition command_of :: "decoder \<Rightarrow> message \<Rightarrow> Command option" where
  "command_of um msg =
     (case decode_command um (m_value msg) of
        None \<Rightarrow> None
      | Some cmd \<Rightarrow> if Validate cmd = None then Some cmd else None)"

text \<open>The first connection, and the conversation of a message; an end of the context is seen once it is cancelled.\<close>

fun loop_talk ::
    "env \<Rightarrow> decoder \<Rightarrow> string \<Rightarrow> talk_event \<Rightarrow> loop_phase \<Rightarrow> command_process \<Rightarrow> command_process option" where
  "loop_talk e um token (DialReturned d) (Starting k) p =
     Some (case shared_connect e um token d (cp_client p) of
        (None, c1) \<Rightarrow> p\<lparr>cp_client := c1, cp_loop := AtFetch, cp_alive := True\<rparr>
      | (Some er, c1) \<Rightarrow> p\<lparr>cp_client := c1, cp_loop := Starting (Suc k)\<rparr>)"
| "loop_talk e um token ContextDone (Starting k) p =
     Some (p\<lparr>cp_loop := Returned (Wrap ''initial HA connection failed'' Canceled)\<rparr>)"
| "loop_talk e um token ev (Handling msg t) p =
     (case talk_step e um token ev t (cp_client p) of
        None \<Rightarrow> None
      | Some (Finished r, c1) \<Rightarrow>
          Some (p\<lparr>cp_client := c1, cp_loop := AtCommit msg, cp_log := cp_log p @ [(msg, Some r)]\<rparr>)
      | Some (t1, c1) \<Rightarrow> Some (p\<lparr>cp_client := c1, cp_loop := Handling msg t1\<rparr>))"
| "loop_talk e um token _ _ p = None"

definition loop_fetch :: "decoder \<Rightarrow> message \<Rightarrow> command_process \<Rightarrow> command_process option" where
  "loop_fetch um msg p =
     (if cp_loop p = AtFetch then
        Some (case command_of um msg of
                None \<Rightarrow> p\<lparr>cp_loop := AtCommit msg, cp_log := cp_log p @ [(msg, None)]\<rparr>
              | Some cmd \<Rightarrow> p\<lparr>cp_loop := Handling msg (TakeConn (CallTask cmd False))\<rparr>)
      else None)"

text \<open>An error of the commit is logged, and the loop goes on.\<close>

definition loop_commit :: "outcome \<Rightarrow> command_process \<Rightarrow> command_process option" where
  "loop_commit out p =
     (case cp_loop p of
        AtCommit msg \<Rightarrow>
          Some (p\<lparr>cp_loop := AtFetch,
                  cp_committed := cp_committed p @ (case out of Refused er \<Rightarrow> [] | _ \<Rightarrow> [msg])\<rparr>)
      | _ \<Rightarrow> None)"

definition ping_talk :: "env \<Rightarrow> decoder \<Rightarrow> string \<Rightarrow> talk_event \<Rightarrow> command_process \<Rightarrow> command_process option" where
  "ping_talk e um token ev p =
     (case cp_ping p of
        None \<Rightarrow> None
      | Some t \<Rightarrow>
          map_option (\<lambda>(t1, c1). p\<lparr>cp_client := c1, cp_ping := (case t1 of Finished r \<Rightarrow> None | _ \<Rightarrow> Some t1)\<rparr>)
            (talk_step e um token ev t (cp_client p)))"

fun command_step ::
    "env \<Rightarrow> decoder \<Rightarrow> string \<Rightarrow> command_move \<Rightarrow> command_process \<Rightarrow> command_process option" where
  "command_step e um token (LoopTalk ev) p =
     (if ev = ContextDone \<and> \<not> cp_cancelled p then None else loop_talk e um token ev (cp_loop p) p)"
| "command_step e um token (LoopFetch msg) p = loop_fetch um msg p"
| "command_step e um token (LoopFetchFails er) p =
     (if cp_loop p = AtFetch then Some (if cp_cancelled p then p\<lparr>cp_loop := Returned Canceled\<rparr> else p) else None)"
| "command_step e um token (LoopCommit out) p = loop_commit out p"
| "command_step e um token PingTick p =
     (if cp_alive p \<and> cp_ping p = None then Some (p\<lparr>cp_ping := Some (CheckConn PingTask)\<rparr>) else None)"
| "command_step e um token (PingTalk ev) p =
     (if ev = ContextDone \<and> \<not> cp_cancelled p then None else ping_talk e um token ev p)"
| "command_step e um token PingReturns p =
     (if cp_alive p \<and> cp_ping p = None \<and> cp_cancelled p then Some (p\<lparr>cp_alive := False\<rparr>) else None)"
| "command_step e um token CancelSignal p = Some (p\<lparr>cp_cancelled := True\<rparr>)"

fun command_run ::
    "env \<Rightarrow> decoder \<Rightarrow> string \<Rightarrow> command_move list \<Rightarrow> command_process \<Rightarrow> command_process option" where
  "command_run e um token [] p = Some p"
| "command_run e um token (m # ms) p =
     (case command_step e um token m p of None \<Rightarrow> None | Some p1 \<Rightarrow> command_run e um token ms p1)"

section \<open>What is sent\<close>

definition calls_on :: "(nat \<times> json) list \<Rightarrow> json list" where
  "calls_on sent = filter is_call (map snd sent)"

definition calls_made :: "command_process \<Rightarrow> json list" where
  "calls_made p = calls_on (db (sc_sent (cp_client p)))"

lemma calls_on_simps [simp]:
  "calls_on [] = []" "calls_on (xs @ ys) = calls_on xs @ calls_on ys"
  "calls_on [(n, j)] = (if is_call j then [j] else [])"
  "calls_on (map (Pair n) js) = filter is_call js"
  by (simp_all add: calls_on_def filter_map comp_def)

lemma shared_clear_sent [simp]: "sc_sent (shared_clear c) = sc_sent c"
  by (simp add: shared_clear_def split: option.splits)

lemma shared_connect_calls:
  "shared_connect e um token d c = (r, c1) \<Longrightarrow> calls_on (db (sc_sent c1)) = calls_on (db (sc_sent c))"
  by (auto simp: shared_connect_def Let_def split: sum.splits prod.splits dest: handshake_calls)

lemma append_calls:
  assumes "exec_stmt e (\<lambda>s. Inr (s @ [(n, msg)])) sent = (r, sent')"
  shows "db sent' = db sent \<and> r \<noteq> None \<or> db sent' = db sent @ [(n, msg)]"
  using assms by (auto elim!: exec_stmt_cases)

lemma shared_send_calls:
  assumes "shared_send e n msg c = (r, c1)"
  obtains (no) er where "r = Some er" "calls_on (db (sc_sent c1)) = calls_on (db (sc_sent c))"
  | (yes) "calls_on (db (sc_sent c1)) = calls_on (db (sc_sent c)) @ (if is_call msg then [msg] else [])"
proof (cases "n \<in> sc_closed c")
  case True
  with assms no show thesis by (auto simp: shared_send_def)
next
  case False
  obtain sent where x: "exec_stmt e (\<lambda>s. Inr (s @ [(n, msg)])) (sc_sent c) = (r, sent)" and c1: "c1 = c\<lparr>sc_sent := sent\<rparr>"
    using assms False by (auto simp: shared_send_def split: prod.splits)
  from append_calls[OF x] show thesis
  proof
    assume "db sent = db (sc_sent c) \<and> r \<noteq> None"
    with c1 no show thesis by auto
  next
    assume "db sent = db (sc_sent c) @ [(n, msg)]"
    with c1 yes show thesis by simp
  qed
qed

text \<open>Whose conversation it is, and how many requests it may have sent so far.\<close>

fun task_of :: "talk \<Rightarrow> task option" where
  "task_of (CheckConn t) = Some t"
| "task_of (TakeConn t) = Some t"
| "task_of (TakeID t n) = Some t"
| "task_of (SendRequest t n i) = Some t"
| "task_of (AwaitReply t n i) = Some t"
| "task_of (ClearConn t) = Some t"
| "task_of (DialAgain t k) = Some t"
| "task_of (Finished r) = None"

fun is_retry :: "task \<Rightarrow> bool" where
  "is_retry (CallTask cmd again) = again"
| "is_retry PingTask = False"

fun sent_at_most :: "talk \<Rightarrow> nat" where
  "sent_at_most (AwaitReply t n i) = (if is_retry t then 2 else 1)"
| "sent_at_most (ClearConn t) = 1"
| "sent_at_most (DialAgain t k) = 1"
| "sent_at_most (Finished r) = 2"
| "sent_at_most (CheckConn t) = (if is_retry t then 1 else 0)"
| "sent_at_most (TakeConn t) = (if is_retry t then 1 else 0)"
| "sent_at_most (TakeID t n) = (if is_retry t then 1 else 0)"
| "sent_at_most (SendRequest t n i) = (if is_retry t then 1 else 0)"

text \<open>A ping sends no command and stays a ping.\<close>

lemma ping_step:
  assumes "talk_step e um token ev t c = Some (t1, c1)" and "task_of t = Some PingTask"
  shows "calls_on (db (sc_sent c1)) = calls_on (db (sc_sent c)) \<and> (task_of t1 = None \<or> task_of t1 = Some PingTask)"
  using assms
  by (cases "(e, um, token, ev, t, c)" rule: talk_step.cases)
    (auto simp: Let_def split: option.splits prod.splits if_splits elim!: shared_send_calls dest: shared_connect_calls)

text \<open>What one move of a command adds to the calls.\<close>

lemma call_step:
  assumes "talk_step e um token ev t c = Some (t1, c1)" and "task_of t = Some (CallTask cmd again)"
    and "\<And>u. t \<noteq> CheckConn u"
  shows "\<exists>l. calls_on (db (sc_sent c1)) = calls_on (db (sc_sent c)) @ l
     \<and> set l \<subseteq> range (\<lambda>i. call_request i cmd) \<and> sent_at_most t + length l \<le> sent_at_most t1
     \<and> (task_of t1 = None \<or> (\<exists>again'. task_of t1 = Some (CallTask cmd again')))
     \<and> (\<forall>u. t1 \<noteq> CheckConn u)
     \<and> (\<forall>u n i. t1 = AwaitReply u n i \<longrightarrow> l = [call_request i cmd] \<or> l = [] \<and> t = AwaitReply u n i)
     \<and> (t1 = Finished None \<longrightarrow> (\<exists>n i payload. l = [] \<and> t = AwaitReply (CallTask cmd again) n i
            \<and> ev = FrameRead payload \<and> reply_in um (CallTask cmd again) i payload = Some None))"
  using assms
  by (cases "(e, um, token, ev, t, c)" rule: talk_step.cases)
    (auto simp: Let_def split: option.splits prod.splits if_splits elim!: shared_send_calls dest: shared_connect_calls)

section \<open>What holds in every run\<close>

definition fetched :: "command_move list \<Rightarrow> message list" where
  "fetched ms = concat (map (\<lambda>m. case m of LoopFetch msg \<Rightarrow> [msg] | _ \<Rightarrow> []) ms)"

definition frames_seen :: "command_move list \<Rightarrow> string set" where
  "frames_seen ms = {payload. LoopTalk (FrameRead payload) \<in> set ms}"

text \<open>
  What a message that was handled has sent: nothing, when it is no command; otherwise at most two requests for its
  command, the last of which was answered with success when the execution ended without an error.
\<close>

definition command_block ::
    "decoder \<Rightarrow> string set \<Rightarrow> message \<times> go_error option option \<Rightarrow> json list \<Rightarrow> bool" where
  "command_block um frames = (\<lambda>(msg, res) b.
     case command_of um msg of
       None \<Rightarrow> res = None \<and> b = []
     | Some cmd \<Rightarrow> length b \<le> 2 \<and> set b \<subseteq> range (\<lambda>i. call_request i cmd)
         \<and> (\<exists>r. res = Some r \<and> (r = None \<longrightarrow> (\<exists>i payload er. b \<noteq> [] \<and> last b = call_request i cmd \<and> payload \<in> frames
               \<and> Option.bind (unmarshal_map um payload) decode_result = Some (i, ''result'', True, er)))))"

definition block_so_far :: "decoder \<Rightarrow> loop_phase \<Rightarrow> json list \<Rightarrow> bool" where
  "block_so_far um loop cur =
     (case loop of
        Handling msg t \<Rightarrow>
          (\<exists>cmd again. command_of um msg = Some cmd \<and> task_of t = Some (CallTask cmd again) \<and> (\<forall>u. t \<noteq> CheckConn u)
             \<and> set cur \<subseteq> range (\<lambda>i. call_request i cmd) \<and> length cur \<le> sent_at_most t
             \<and> (\<forall>u n i. t = AwaitReply u n i \<longrightarrow> cur \<noteq> [] \<and> last cur = call_request i cmd))
      | _ \<Rightarrow> cur = [])"

definition in_hand :: "loop_phase \<Rightarrow> message list" where
  "in_hand loop = (case loop of Handling msg t \<Rightarrow> [msg] | _ \<Rightarrow> [])"

definition commits_ok :: "command_process \<Rightarrow> bool" where
  "commits_ok p =
     (case cp_loop p of
        AtCommit msg \<Rightarrow> (\<exists>l r. cp_log p = l @ [(msg, r)] \<and> subseq (cp_committed p) (map fst l))
      | _ \<Rightarrow> subseq (cp_committed p) (map fst (cp_log p)))"

definition command_inv :: "decoder \<Rightarrow> command_move list \<Rightarrow> command_process \<Rightarrow> bool" where
  "command_inv um ms p \<longleftrightarrow>
     (\<exists>blocks cur. calls_made p = concat blocks @ cur
        \<and> list_all2 (command_block um (frames_seen ms)) (cp_log p) blocks \<and> block_so_far um (cp_loop p) cur)
     \<and> fetched ms = map fst (cp_log p) @ in_hand (cp_loop p)
     \<and> (\<forall>t. cp_ping p = Some t \<longrightarrow> task_of t = Some PingTask) \<and> commits_ok p"

lemma fetched_snoc: "fetched (ms @ [m]) = fetched ms @ (case m of LoopFetch msg \<Rightarrow> [msg] | _ \<Rightarrow> [])"
  by (simp add: fetched_def)

lemma blocks_mono:
  "list_all2 (command_block um R) xs blocks \<Longrightarrow> R \<subseteq> R' \<Longrightarrow> list_all2 (command_block um R') xs blocks"
  by (erule list_all2_mono) (fastforce simp: command_block_def split: option.splits)

lemma frames_seen_snoc: "frames_seen ms \<subseteq> frames_seen (ms @ [m])"
  by (auto simp: frames_seen_def)

lemma success_reply:
  "reply_in um (CallTask cmd again) i payload = Some None \<Longrightarrow>
     \<exists>er. Option.bind (unmarshal_map um payload) decode_result = Some (i, ''result'', True, er)"
  by (auto split: option.splits if_splits)

text \<open>A move of the loop within a message.\<close>

lemma talk_move_inv:
  assumes inv: "command_inv um ms p" and loop: "cp_loop p = Handling msg t"
    and s: "talk_step e um token ev t (cp_client p) = Some (t1, c1)"
  shows "command_inv um (ms @ [LoopTalk ev])
     (case t1 of Finished r \<Rightarrow> p\<lparr>cp_client := c1, cp_loop := AtCommit msg, cp_log := cp_log p @ [(msg, Some r)]\<rparr>
               | _ \<Rightarrow> p\<lparr>cp_client := c1, cp_loop := Handling msg t1\<rparr>)"
proof -
  from inv obtain blocks cur where b: "calls_made p = concat blocks @ cur"
      "list_all2 (command_block um (frames_seen ms)) (cp_log p) blocks" and cur: "block_so_far um (cp_loop p) cur"
    and rest: "fetched ms = map fst (cp_log p) @ in_hand (cp_loop p)"
      "\<forall>t. cp_ping p = Some t \<longrightarrow> task_of t = Some PingTask" "commits_ok p"
    unfolding command_inv_def by blast
  from cur loop obtain cmd again where h: "command_of um msg = Some cmd" "task_of t = Some (CallTask cmd again)"
      "\<And>u. t \<noteq> CheckConn u" "set cur \<subseteq> range (\<lambda>i. call_request i cmd)" "length cur \<le> sent_at_most t"
      "\<And>u n i. t = AwaitReply u n i \<Longrightarrow> cur \<noteq> [] \<and> last cur = call_request i cmd"
    by (auto simp: block_so_far_def)
  from call_step[OF s h(2,3)] obtain l where l: "calls_on (db (sc_sent c1)) = calls_on (db (sc_sent (cp_client p))) @ l"
      "set l \<subseteq> range (\<lambda>i. call_request i cmd)" "sent_at_most t + length l \<le> sent_at_most t1"
      "task_of t1 = None \<or> (\<exists>again'. task_of t1 = Some (CallTask cmd again'))" "\<And>u. t1 \<noteq> CheckConn u"
      "\<And>u n i. t1 = AwaitReply u n i \<Longrightarrow> l = [call_request i cmd] \<or> l = [] \<and> t = AwaitReply u n i"
      "t1 = Finished None \<Longrightarrow> \<exists>n i payload. l = [] \<and> t = AwaitReply (CallTask cmd again) n i
            \<and> ev = FrameRead payload \<and> reply_in um (CallTask cmd again) i payload = Some None"
    by auto
  let ?ms = "ms @ [LoopTalk ev]"
  note b' = blocks_mono[OF b(2) frames_seen_snoc[of ms "LoopTalk ev"]]
  have f: "fetched ?ms = map fst (cp_log p) @ [msg]" using rest(1) loop by (simp add: fetched_snoc in_hand_def)
  have committed: "subseq (cp_committed p) (map fst (cp_log p))" using rest(3) loop by (simp add: commits_ok_def)
  have calls: "calls_on (db (sc_sent c1)) = concat blocks @ (cur @ l)"
    using l(1) b(1) by (simp add: calls_made_def)
  show ?thesis
  proof (cases "\<exists>r. t1 = Finished r")
    case True
    then obtain r where r: "t1 = Finished r" by blast
    have "command_block um (frames_seen ?ms) (msg, Some r) (cur @ l)"
    proof -
      have "r = None \<longrightarrow> (\<exists>i payload er. cur @ l \<noteq> [] \<and> last (cur @ l) = call_request i cmd \<and> payload \<in> frames_seen ?ms
          \<and> Option.bind (unmarshal_map um payload) decode_result = Some (i, ''result'', True, er))"
      proof
        assume "r = None"
        with l(7) r obtain n i payload where a: "l = []" "t = AwaitReply (CallTask cmd again) n i" "ev = FrameRead payload"
          "reply_in um (CallTask cmd again) i payload = Some None" by blast
        from success_reply[OF a(4)] obtain er
          where "Option.bind (unmarshal_map um payload) decode_result = Some (i, ''result'', True, er)" by blast
        with a h(6)[OF a(2)] show "\<exists>i payload er. cur @ l \<noteq> [] \<and> last (cur @ l) = call_request i cmd
            \<and> payload \<in> frames_seen ?ms \<and> Option.bind (unmarshal_map um payload) decode_result = Some (i, ''result'', True, er)"
          by (intro exI[of _ i] exI[of _ payload] exI[of _ er]) (simp add: frames_seen_def)
      qed
      moreover have "length (cur @ l) \<le> 2" using h(5) l(3) r by simp
      ultimately show ?thesis using h(1,4) l(2) by (simp add: command_block_def)
    qed
    with b' have "list_all2 (command_block um (frames_seen ?ms)) (cp_log p @ [(msg, Some r)]) (blocks @ [cur @ l])"
      by (intro list_all2_appendI) simp_all
    with r calls f committed rest(2) show ?thesis
      by (auto simp: command_inv_def calls_made_def block_so_far_def in_hand_def commits_ok_def
          intro!: exI[of _ "blocks @ [cur @ l]"])
  next
    case False
    have last: "cur @ l \<noteq> [] \<and> last (cur @ l) = call_request i cmd" if "t1 = AwaitReply u n i" for u n i
      using l(6)[OF that] h(6) by auto
    have "block_so_far um (Handling msg t1) (cur @ l)"
      using False h l last unfolding block_so_far_def by (cases t1) auto
    then have "command_inv um ?ms (p\<lparr>cp_client := c1, cp_loop := Handling msg t1\<rparr>)"
      unfolding command_inv_def using calls b' f rest(2) committed
      by (auto simp: calls_made_def in_hand_def commits_ok_def intro!: exI[of _ blocks] exI[of _ "cur @ l"])
    then show ?thesis using False by (cases t1) auto
  qed
qed

text \<open>Moves that leave the log and the calls alone.\<close>

lemma idle_move_inv:
  assumes inv: "command_inv um ms p" and f: "fetched (ms @ [m]) = fetched ms"
    and c: "calls_made p' = calls_made p" and l: "cp_log p' = cp_log p"
    and loop: "cp_loop p' = cp_loop p \<or> in_hand (cp_loop p) = [] \<and> in_hand (cp_loop p') = []"
    and k: "commits_ok p'" and ping: "\<And>t. cp_ping p' = Some t \<Longrightarrow> task_of t = Some PingTask"
  shows "command_inv um (ms @ [m]) p'"
proof -
  from inv obtain blocks cur where b: "calls_made p = concat blocks @ cur"
      "list_all2 (command_block um (frames_seen ms)) (cp_log p) blocks" and cur: "block_so_far um (cp_loop p) cur"
    and rest: "fetched ms = map fst (cp_log p) @ in_hand (cp_loop p)"
    unfolding command_inv_def by blast
  have "block_so_far um (cp_loop p') cur"
    using loop cur by (auto simp: block_so_far_def in_hand_def split: loop_phase.splits)
  moreover have "in_hand (cp_loop p') = in_hand (cp_loop p)" using loop by auto
  ultimately show ?thesis
    unfolding command_inv_def using b(1) blocks_mono[OF b(2) frames_seen_snoc[of ms m]] rest f c l k ping by auto
qed

lemma ping_talk_inv:
  assumes inv: "command_inv um ms p" and s: "ping_talk e um token ev p = Some p'"
  shows "command_inv um (ms @ [PingTalk ev]) p'"
proof -
  from s obtain t t1 c1 where t: "cp_ping p = Some t" "talk_step e um token ev t (cp_client p) = Some (t1, c1)"
    and p': "p' = p\<lparr>cp_client := c1, cp_ping := (case t1 of Finished r \<Rightarrow> None | _ \<Rightarrow> Some t1)\<rparr>"
    by (auto simp: ping_talk_def split: option.splits)
  have "task_of t = Some PingTask" using inv t(1) by (simp add: command_inv_def)
  note st = ping_step[OF t(2) this]
  show ?thesis
  proof (rule idle_move_inv[OF inv])
    show "calls_made p' = calls_made p" using st by (simp add: p' calls_made_def)
    show "commits_ok p'" using inv by (simp add: p' command_inv_def commits_ok_def split: loop_phase.splits)
    show "task_of u = Some PingTask" if "cp_ping p' = Some u" for u
      using st that by (cases t1) (auto simp: p')
  qed (simp_all add: p' fetched_snoc)
qed

lemma loop_talk_inv:
  assumes inv: "command_inv um ms p" and s: "loop_talk e um token ev (cp_loop p) p = Some p'"
  shows "command_inv um (ms @ [LoopTalk ev]) p'"
proof (cases "cp_loop p")
  case (Handling msg t)
  with s obtain t1 c1 where t: "talk_step e um token ev t (cp_client p) = Some (t1, c1)"
    by (auto split: option.splits)
  have "p' = (case t1 of Finished r \<Rightarrow> p\<lparr>cp_client := c1, cp_loop := AtCommit msg, cp_log := cp_log p @ [(msg, Some r)]\<rparr>
               | _ \<Rightarrow> p\<lparr>cp_client := c1, cp_loop := Handling msg t1\<rparr>)"
    using s Handling t by (cases t1) auto
  then show ?thesis using talk_move_inv[OF inv Handling t] by simp
next
  case (Starting k)
  have k: "commits_ok p" and ping: "\<And>t. cp_ping p = Some t \<Longrightarrow> task_of t = Some PingTask"
    using inv by (simp_all add: command_inv_def)
  consider d where "ev = DialReturned d" | "ev = ContextDone" using s Starting by (cases ev) auto
  then show ?thesis
  proof cases
    case 1
    obtain r c1 where r: "shared_connect e um token d (cp_client p) = (r, c1)" by (metis surj_pair)
    have p': "cp_client p' = c1" "cp_log p' = cp_log p" "cp_ping p' = cp_ping p" "cp_committed p' = cp_committed p"
      "cp_loop p' = AtFetch \<or> cp_loop p' = Starting (Suc k)"
      using s Starting 1 r by (auto split: option.splits)
    show ?thesis
      by (rule idle_move_inv[OF inv])
        (use p' Starting k ping shared_connect_calls[OF r] in \<open>auto simp: fetched_snoc calls_made_def in_hand_def commits_ok_def\<close>)
  next
    case 2
    with s Starting have "p' = p\<lparr>cp_loop := Returned (Wrap ''initial HA connection failed'' Canceled)\<rparr>" by simp
    then show ?thesis
      by (intro idle_move_inv[OF inv])
        (use Starting k ping in \<open>auto simp: fetched_snoc calls_made_def in_hand_def commits_ok_def\<close>)
  qed
qed (use s in \<open>cases ev; simp\<close>)+

lemma loop_fetch_inv:
  assumes inv: "command_inv um ms p" and s: "loop_fetch um msg p = Some p'"
  shows "command_inv um (ms @ [LoopFetch msg]) p'"
proof -
  have at: "cp_loop p = AtFetch" using s by (simp add: loop_fetch_def split: if_splits)
  from inv at obtain blocks where b: "calls_made p = concat blocks"
      "list_all2 (command_block um (frames_seen ms)) (cp_log p) blocks"
    and rest: "fetched ms = map fst (cp_log p)" "\<And>t. cp_ping p = Some t \<Longrightarrow> task_of t = Some PingTask"
      "subseq (cp_committed p) (map fst (cp_log p))"
    unfolding command_inv_def by (auto simp: block_so_far_def in_hand_def commits_ok_def)
  note b' = blocks_mono[OF b(2) frames_seen_snoc[of ms "LoopFetch msg"]]
  show ?thesis
  proof (cases "command_of um msg")
    case None
    with s at have p': "p' = p\<lparr>cp_loop := AtCommit msg, cp_log := cp_log p @ [(msg, None)]\<rparr>" by (simp add: loop_fetch_def)
    have "list_all2 (command_block um (frames_seen (ms @ [LoopFetch msg]))) (cp_log p @ [(msg, None)]) (blocks @ [[]])"
      using b' None by (intro list_all2_appendI) (simp_all add: command_block_def)
    with b(1) rest show ?thesis
      by (auto simp: p' command_inv_def calls_made_def block_so_far_def in_hand_def commits_ok_def fetched_snoc
          intro!: exI[of _ "blocks @ [[]]"])
  next
    case (Some cmd)
    with s at have p': "p' = p\<lparr>cp_loop := Handling msg (TakeConn (CallTask cmd False))\<rparr>" by (simp add: loop_fetch_def)
    show ?thesis
      unfolding command_inv_def
      using b(1) b' rest Some
      by (auto simp: p' calls_made_def block_so_far_def in_hand_def commits_ok_def fetched_snoc intro!: exI[of _ blocks])
  qed
qed

lemma loop_commit_inv:
  assumes inv: "command_inv um ms p" and s: "loop_commit out p = Some p'"
  shows "command_inv um (ms @ [LoopCommit out]) p'"
proof -
  from s obtain msg where at: "cp_loop p = AtCommit msg"
    and p': "p' = p\<lparr>cp_loop := AtFetch, cp_committed := cp_committed p @ (case out of Refused er \<Rightarrow> [] | _ \<Rightarrow> [msg])\<rparr>"
    by (auto simp: loop_commit_def split: loop_phase.splits)
  from inv at obtain l r where l: "cp_log p = l @ [(msg, r)]" "subseq (cp_committed p) (map fst l)"
    by (auto simp: command_inv_def commits_ok_def)
  have "subseq (cp_committed p @ (case out of Refused er \<Rightarrow> [] | _ \<Rightarrow> [msg])) (map fst l @ [msg])"
    by (cases out) (auto intro: list_emb_append_mono[OF l(2)] list_emb_append2[OF l(2)] simp: l(2))
  then show ?thesis
    by (intro idle_move_inv[OF inv])
      (use at inv l(1) in \<open>auto simp: p' fetched_snoc calls_made_def in_hand_def commits_ok_def command_inv_def\<close>)
qed

lemma command_step_inv:
  assumes inv: "command_inv um ms p" and s: "command_step e um token m p = Some p'"
  shows "command_inv um (ms @ [m]) p'"
proof -
  have k: "commits_ok p" and ping: "\<And>t. cp_ping p = Some t \<Longrightarrow> task_of t = Some PingTask"
    using inv by (simp_all add: command_inv_def)
  note other = idle_move_inv[OF inv, of m p']
  show ?thesis
  proof (cases m)
    case (LoopTalk ev)
    with s show ?thesis using loop_talk_inv[OF inv] by (simp split: if_splits)
  next
    case (LoopFetch msg)
    with s show ?thesis using loop_fetch_inv[OF inv] by simp
  next
    case (LoopCommit out)
    with s show ?thesis using loop_commit_inv[OF inv] by simp
  next
    case (PingTalk ev)
    with s show ?thesis using ping_talk_inv[OF inv] by (simp split: if_splits)
  next
    case (LoopFetchFails er)
    with s k ping show ?thesis
      by (intro other) (auto simp: fetched_snoc calls_made_def in_hand_def commits_ok_def split: if_splits)
  qed (use s k ping in \<open>intro other; auto simp: fetched_snoc calls_made_def commits_ok_def split: if_splits loop_phase.splits\<close>)+
qed

lemma command_run_inv:
  "command_run e um token moves p = Some p' \<Longrightarrow> command_inv um ms p \<Longrightarrow> command_inv um (ms @ moves) p'"
proof (induction moves arbitrary: p ms)
  case (Cons m moves)
  from Cons.prems(1) obtain p1 where s: "command_step e um token m p = Some p1" and r: "command_run e um token moves p1 = Some p'"
    by (auto split: option.splits)
  from Cons.IH[OF r command_step_inv[OF Cons.prems(2) s]] show ?case by simp
qed simp

lemma command_start_inv: "command_inv um [] command_start"
  by (simp add: command_inv_def command_start_def calls_made_def shared_NewClient_def block_so_far_def fetched_def
      in_hand_def commits_ok_def)

text \<open>
  C16: Whatever the connections do, however the keep-alive goroutine and the loop interleave, and whichever
  commits fail, the commands reach Home Assistant in the order of the messages: the calls sent are one block
  per message, of at most two requests for its command, none for a message that is no valid command; and a command
  whose execution ended without an error was answered with success to the id of its last request.  Every
  message is handled once, the last one perhaps not yet, and only handled ones are committed, in order.
\<close>

theorem commands_sent_in_order:
  assumes "command_run e um token moves command_start = Some p"
  shows "\<exists>blocks cur. calls_made p = concat blocks @ cur
        \<and> list_all2 (command_block um (frames_seen moves)) (cp_log p) blocks
        \<and> length cur \<le> 2 \<and> (in_hand (cp_loop p) = [] \<longrightarrow> cur = [])
        \<and> (\<forall>msg \<in> set (in_hand (cp_loop p)). \<exists>cmd. command_of um msg = Some cmd \<and> set cur \<subseteq> range (\<lambda>i. call_request i cmd))
        \<and> fetched moves = map fst (cp_log p) @ in_hand (cp_loop p)
        \<and> subseq (cp_committed p) (map fst (cp_log p))"
proof -
  have inv: "command_inv um moves p" using command_run_inv[OF assms command_start_inv] by simp
  then obtain blocks cur where b: "calls_made p = concat blocks @ cur"
      "list_all2 (command_block um (frames_seen moves)) (cp_log p) blocks" and cur: "block_so_far um (cp_loop p) cur"
    and rest: "fetched moves = map fst (cp_log p) @ in_hand (cp_loop p)" "commits_ok p"
    unfolding command_inv_def by blast
  have two: "sent_at_most t \<le> 2" for t by (cases t) auto
  have "length cur \<le> 2" "in_hand (cp_loop p) = [] \<longrightarrow> cur = []"
    "\<forall>msg \<in> set (in_hand (cp_loop p)). \<exists>cmd. command_of um msg = Some cmd \<and> set cur \<subseteq> range (\<lambda>i. call_request i cmd)"
    using cur two by (auto simp: block_so_far_def in_hand_def split: loop_phase.splits intro: order_trans)
  moreover have "subseq (cp_committed p) (map fst (cp_log p))"
    using rest(2) by (auto simp: commits_ok_def split: loop_phase.splits)
  ultimately show ?thesis using b rest(1) by blast
qed

section \<open>A command that nothing disturbs\<close>

text \<open>
  When the other goroutine does not move, a command takes the course of \<open>executeWithReconnect\<close>: the client
  of \<open>Ha_Command\<close> is what one goroutine sees of the shared one.
\<close>

fun talk_run ::
    "env \<Rightarrow> decoder \<Rightarrow> string \<Rightarrow> talk_event list \<Rightarrow> talk \<times> shared_client \<Rightarrow> (talk \<times> shared_client) option" where
  "talk_run e um token [] s = Some s"
| "talk_run e um token (ev # evs) s =
     (case talk_step e um token ev (fst s) (snd s) of None \<Rightarrow> None | Some s1 \<Rightarrow> talk_run e um token evs s1)"

lemma talk_run_append:
  "talk_run e um token evs s = Some s1 \<Longrightarrow> talk_run e um token evs' s1 = r \<Longrightarrow> talk_run e um token (evs @ evs') s = r"
  by (induction evs arbitrary: s) (auto split: option.splits)

definition seen_as :: "ha_client \<Rightarrow> shared_client \<Rightarrow> bool" where
  "seen_as c sc \<longleftrightarrow>
     (hc_open c \<longleftrightarrow> sc_conn sc \<noteq> None) \<and> (\<forall>n. sc_conn sc = Some n \<longrightarrow> n \<notin> sc_closed sc \<and> n < sc_dialled sc)
     \<and> (\<forall>k \<in> sc_closed sc. k < sc_dialled sc) \<and> hc_msgID c = sc_msgID sc
     \<and> db (hc_sent c) = map snd (db (sc_sent sc)) \<and> calls (hc_sent c) = calls (sc_sent sc)"

lemma seen_send:
  assumes "seen_as c sc" and "sc_conn sc = Some n" and "sendJSON e msg (hc_sent c) = (r, sent)"
  obtains sc1 where "shared_send e n msg sc = (r, sc1)" "seen_as (c\<lparr>hc_sent := sent\<rparr>) sc1"
    "sc_conn sc1 = sc_conn sc" "sc_closed sc1 = sc_closed sc"
proof -
  obtain r' sent' where x: "exec_stmt e (\<lambda>s. Inr (s @ [(n, msg)])) (sc_sent sc) = (r', sent')" by (metis surj_pair)
  have "r' = r \<and> db sent = map snd (db sent') \<and> calls sent = calls sent'"
    using x assms(1,3) by (auto simp: seen_as_def sendJSON_def exec_stmt_def next_outcome_def split: outcome.splits)
  moreover have "shared_send e n msg sc = (r', sc\<lparr>sc_sent := sent'\<rparr>)"
    using assms(1,2) x by (simp add: shared_send_def seen_as_def)
  ultimately show thesis using assms(1) by (intro that[of "sc\<lparr>sc_sent := sent'\<rparr>"]) (auto simp: seen_as_def)
qed

text \<open>How a call ends, and where the goroutine is after it.\<close>

definition call_end :: "int \<Rightarrow> result_message result \<Rightarrow> go_error option" where
  "call_end i res =
     (case res of
        Inl er \<Rightarrow> Some (Wrap ''failed to read call_service result'' er)
      | Inr result \<Rightarrow> (if rm_Success result then None
          else Some (Err (''call_service failed (id='' @ itoa i @ ''): '' @ rm_ErrorMsg result))))"

definition after_call :: "task \<Rightarrow> go_error option \<Rightarrow> talk" where
  "after_call t r = (case r of None \<Rightarrow> Finished None | Some er \<Rightarrow> talk_failed t er)"

lemma reply_in_readResult:
  "reply_in um (CallTask cmd again) i payload = None \<Longrightarrow> readResult um i (Inr payload # frames) = readResult um i frames"
  "reply_in um (CallTask cmd again) i payload = Some q \<Longrightarrow> call_end i (fst (readResult um i (Inr payload # frames))) = q"
  by (cases "Option.bind (unmarshal_map um payload) decode_result"; force simp: call_end_def split: if_splits)+

text \<open>Reading the reply: one event per frame.\<close>

lemma seen_reply:
  assumes "n \<notin> sc_closed sc"
  shows "\<exists>evs. talk_run e um token evs (AwaitReply (CallTask cmd again) n i, sc) =
     Some (after_call (CallTask cmd again) (call_end i (fst (readResult um i frames))), sc)"
proof (induction frames)
  case Nil
  show ?case by (rule exI[of _ "[ReadFailed EOF]"]) (simp add: read_error_def call_end_def after_call_def)
next
  case (Cons f frames)
  show ?case
  proof (cases f)
    case (Inl er)
    then show ?thesis by (intro exI[of _ "[ReadFailed er]"]) (simp add: read_error_def call_end_def after_call_def)
  next
    case (Inr payload)
    show ?thesis
    proof (cases "reply_in um (CallTask cmd again) i payload")
      case None
      have "talk_step e um token (FrameRead payload) (AwaitReply (CallTask cmd again) n i) sc =
          Some (AwaitReply (CallTask cmd again) n i, sc)"
        using None assms by (simp del: reply_in.simps)
      moreover obtain evs where "talk_run e um token evs (AwaitReply (CallTask cmd again) n i, sc) =
          Some (after_call (CallTask cmd again) (call_end i (fst (readResult um i frames))), sc)" using Cons.IH by blast
      ultimately have "talk_run e um token (FrameRead payload # evs) (AwaitReply (CallTask cmd again) n i, sc) =
          Some (after_call (CallTask cmd again) (call_end i (fst (readResult um i frames))), sc)"
        by (simp del: talk_step.simps)
      then show ?thesis unfolding Inr reply_in_readResult(1)[OF None] by blast
    next
      case (Some q)
      have "talk_step e um token (FrameRead payload) (AwaitReply (CallTask cmd again) n i) sc =
          Some (after_call (CallTask cmd again) q, sc)"
        using Some assms by (simp add: after_call_def del: reply_in.simps talk_failed.simps split: option.splits)
      then have "talk_run e um token [FrameRead payload] (AwaitReply (CallTask cmd again) n i, sc) =
          Some (after_call (CallTask cmd again) q, sc)" by (simp del: talk_step.simps)
      then show ?thesis unfolding Inr reply_in_readResult(2)[OF Some] by blast
    qed
  qed
qed

lemma seen_call:
  assumes "seen_as c sc" and "CallService e um cmd c = (r, c')"
  shows "\<exists>evs sc'. talk_run e um token evs (TakeConn (CallTask cmd again), sc) =
       Some (after_call (CallTask cmd again) r, sc') \<and> seen_as c' sc'"
proof (cases "sc_conn sc")
  case None
  with assms show ?thesis
    by (intro exI[of _ "[StepOn]"] exI[of _ sc])
      (auto simp: CallService_def seen_as_def no_conn_error_def after_call_def)
next
  case (Some n)
  define i where "i = i64 (sc_msgID sc + 1)"
  let ?c1 = "c\<lparr>hc_msgID := i\<rparr>" and ?sc1 = "sc\<lparr>sc_msgID := i\<rparr>" and ?t = "CallTask cmd again"
  have seen: "seen_as ?c1 ?sc1" "sc_conn ?sc1 = Some n" using assms(1) Some by (auto simp: seen_as_def)
  obtain r1 sent where send: "sendJSON e (call_request i cmd) (hc_sent ?c1) = (r1, sent)" by (metis surj_pair)
  obtain sc2 where sc2: "shared_send e n (call_request i cmd) ?sc1 = (r1, sc2)" "seen_as (?c1\<lparr>hc_sent := sent\<rparr>) sc2"
    "sc_closed sc2 = sc_closed ?sc1"
    by (rule seen_send[OF seen send])
  have start: "talk_run e um token [StepOn, StepOn] (TakeConn ?t, sc) = Some (SendRequest ?t n i, ?sc1)"
    using Some by (simp add: i_def Let_def)
  have c: "hc_open c" "hc_msgID c = sc_msgID sc" using assms(1) Some by (simp_all add: seen_as_def)
  have "\<exists>evs sc'. talk_run e um token evs (SendRequest ?t n i, ?sc1) = Some (after_call ?t r, sc') \<and> seen_as c' sc'"
  proof (cases r1)
    case (Some er)
    with assms(2) c send have "r = Some (Wrap ''failed to send call_service'' er)" "c' = ?c1\<lparr>hc_sent := sent\<rparr>"
      by (auto simp: CallService_def Let_def i_def)
    then show ?thesis using sc2 Some
      by (intro exI[of _ "[StepOn]"] exI[of _ sc2]) (simp add: send_error_def after_call_def)
  next
    case None
    have still: "n \<notin> sc_closed sc2" using sc2(3) assms(1) Some by (simp add: seen_as_def)
    obtain evs where evs: "talk_run e um token evs (AwaitReply ?t n i, sc2) =
        Some (after_call ?t (call_end i (fst (readResult um i (hc_in c)))), sc2)"
      using seen_reply[OF still] by blast
    obtain res rest where rr: "readResult um i (hc_in c) = (res, rest)" by (metis surj_pair)
    have c': "c' = ?c1\<lparr>hc_sent := sent, hc_in := rest\<rparr>" and r: "r = call_end i res"
      using assms(2) c send None rr by (auto simp: CallService_def Let_def i_def call_end_def split: sum.splits)
    have "talk_step e um token StepOn (SendRequest ?t n i) ?sc1 = Some (AwaitReply ?t n i, sc2)"
      using sc2(1) None by simp
    with evs rr have "talk_run e um token (StepOn # evs) (SendRequest ?t n i, ?sc1) = Some (after_call ?t r, sc2)"
      by (simp add: r)
    moreover have "seen_as c' sc2" using sc2(2) by (simp add: c' seen_as_def)
    ultimately show ?thesis by blast
  qed
  then show ?thesis using talk_run_append[OF start] by blast
qed

lemma handshake_append:
  assumes "handshake e um token frames \<lparr>db = [], calls = calls sent\<rparr> = (r, s1)"
  shows "handshake e um token frames sent = (r, \<lparr>db = db sent @ db s1, calls = calls s1\<rparr>)"
  using assms
  by (auto simp: handshake_def sendJSON_def exec_stmt_def next_outcome_def
      split: prod.splits option.splits outcome.splits if_splits)

lemma seen_clear:
  assumes "seen_as c sc"
  shows "seen_as (c\<lparr>hc_open := False, hc_in := []\<rparr>) (shared_clear sc)"
  using assms by (auto simp: seen_as_def shared_clear_def split: option.splits)

lemma seen_connect:
  assumes "seen_as c sc" and "Connect e um token d c = (r, c')"
  shows "\<exists>sc'. shared_connect e um token d sc = (r, sc') \<and> seen_as c' sc'"
proof -
  define c0 where "c0 = c\<lparr>hc_open := False, hc_in := []\<rparr>"
  define sc0 where "sc0 = shared_clear sc"
  have s0: "seen_as c0 sc0" unfolding c0_def sc0_def by (rule seen_clear[OF assms(1)])
  have idle: "sc_conn sc0 = None" using s0 by (simp add: seen_as_def c0_def)
  show ?thesis
  proof (cases d)
    case (Inl er)
    with assms(2) have "r = Some (Wrap ''ws dial failed'' er)" "c' = c0" by (auto simp: Connect_def c0_def)
    with Inl s0 show ?thesis by (simp add: shared_connect_def sc0_def Let_def)
  next
    case (Inr frames)
    obtain r1 s1 where h: "handshake e um token frames \<lparr>db = [], calls = calls (hc_sent c0)\<rparr> = (r1, s1)" by (metis surj_pair)
    note h' = handshake_append[OF h]
    have eq: "calls (hc_sent c0) = calls (sc_sent sc0)" using s0 by (simp add: seen_as_def)
    let ?sent = "\<lparr>db = db (hc_sent c0) @ db s1, calls = calls s1\<rparr>"
    let ?sc1 = "sc0\<lparr>sc_dialled := Suc (sc_dialled sc0),
        sc_sent := \<lparr>db = db (sc_sent sc0) @ map (Pair (sc_dialled sc0)) (db s1), calls = calls s1\<rparr>\<rparr>"
    show ?thesis
    proof (cases r1)
      case (Inl er)
      have "r = Some er" "c' = c0\<lparr>hc_sent := ?sent\<rparr>"
        using assms(2) Inr h' Inl by (auto simp: Connect_def c0_def)
      moreover have "shared_connect e um token d sc =
          (Some er, ?sc1\<lparr>sc_closed := insert (sc_dialled sc0) (sc_closed ?sc1)\<rparr>)"
        using Inr h eq Inl by (simp add: shared_connect_def sc0_def Let_def)
      moreover have "seen_as (c0\<lparr>hc_sent := ?sent\<rparr>) (?sc1\<lparr>sc_closed := insert (sc_dialled sc0) (sc_closed ?sc1)\<rparr>)"
        using s0 idle by (auto simp: seen_as_def comp_def less_SucI)
      ultimately show ?thesis by blast
    next
      case ok: (Inr rest)
      have "r = None" "c' = c0\<lparr>hc_open := True, hc_in := rest, hc_msgID := 0, hc_sent := ?sent\<rparr>"
        using assms(2) Inr h' ok by (auto simp: Connect_def c0_def)
      moreover have "shared_connect e um token d sc = (None, ?sc1\<lparr>sc_conn := Some (sc_dialled sc0), sc_msgID := 0\<rparr>)"
        using Inr h eq ok by (simp add: shared_connect_def sc0_def Let_def)
      moreover have "seen_as (c0\<lparr>hc_open := True, hc_in := rest, hc_msgID := 0, hc_sent := ?sent\<rparr>)
          (?sc1\<lparr>sc_conn := Some (sc_dialled sc0), sc_msgID := 0\<rparr>)"
        using s0 by (auto simp: seen_as_def comp_def less_SucI)
      ultimately show ?thesis by blast
    qed
  qed
qed

lemma seen_dials:
  assumes "connect_retry e um token backoff ds attempt c = (r, waits, c')" and "seen_as c sc"
  shows "\<exists>evs sc'. talk_run e um token evs (DialAgain (CallTask cmd again) k, sc) =
       Some (case r of None \<Rightarrow> TakeConn (CallTask cmd True) | Some er \<Rightarrow> Finished (Some (Wrap ''reconnect failed'' er)), sc')
     \<and> seen_as c' sc'"
  using assms
proof (induction ds arbitrary: attempt c r waits c' sc k)
  case Nil
  then show ?case
    by (intro exI[of _ "[ContextDone]"] exI[of _ sc]) (auto simp: reconnect_error_def seen_as_def)
next
  case (Cons d ds)
  obtain r1 c1 where con: "Connect e um token d c = (r1, c1)" by (metis surj_pair)
  obtain sc1 where sc1: "shared_connect e um token d sc = (r1, sc1)" "seen_as c1 sc1"
    using seen_connect[OF Cons.prems(2) con] by blast
  show ?case
  proof (cases r1)
    case None
    with Cons.prems con have "r = None" "c' = c1\<lparr>hc_dials := ds\<rparr>" by auto
    with None sc1 show ?thesis
      by (intro exI[of _ "[DialReturned d]"] exI[of _ sc1]) (simp add: seen_as_def)
  next
    case (Some er)
    obtain r2 w2 c2 where rec: "connect_retry e um token backoff ds (Suc attempt) c1 = (r2, w2, c2)" by (rule prod_cases3)
    with Cons.prems con Some have "r = r2" "c' = c2" by auto
    moreover from Cons.IH[OF rec sc1(2)] obtain evs sc' where
      "talk_run e um token evs (DialAgain (CallTask cmd again) (Suc k), sc1) =
         Some (case r2 of None \<Rightarrow> TakeConn (CallTask cmd True) | Some er \<Rightarrow> Finished (Some (Wrap ''reconnect failed'' er)), sc')"
      "seen_as c2 sc'" by blast
    ultimately show ?thesis using Some sc1
      by (intro exI[of _ "DialReturned d # evs"] exI[of _ sc']) simp
  qed
qed


section \<open>Concrete runs\<close>

definition command_msg :: message where
  "command_msg = \<lparr>m_topic = ''cmd'', m_partition = 0, m_offset = 0, m_key = [], m_value = ''lamp'', m_headers = []\<rparr>"

definition command_decoder :: decoder where
  "command_decoder s =
     (if s = ''lamp'' then Some (JObj [(''domain'', JStr ''light''), (''service'', JStr ''turn_on''),
                                       (''entity_id'', JStr ''light.lamp'')])
      else frame_decoder s)"

text \<open>The keep-alive ping draws its id after the command and sends before it.\<close>

definition overtaking :: "command_move list" where
  "overtaking =
     [LoopTalk (DialReturned (Inr [Inr ''required'', Inr ''ok''])), LoopFetch command_msg,
      LoopTalk StepOn, LoopTalk StepOn, PingTick, PingTalk StepOn, PingTalk StepOn, PingTalk StepOn, PingTalk StepOn,
      LoopTalk StepOn, LoopTalk (FrameRead ''done''), PingTalk (FrameRead ''pong''), LoopCommit Done]"

lemma sample_command: "command_of command_decoder command_msg = Some lamp_on"
  by (simp add: command_of_def decode_command_def command_decoder_def command_msg_def frame_simps obj_member_def
      Validate_def lamp_on_def)

lemma sample_handshake:
  "handshake all_done command_decoder ''t'' [Inr ''required'', Inr ''ok''] \<lparr>db = [], calls = 0\<rparr> =
     (Inr [], \<lparr>db = [auth_request ''t''], calls = 1\<rparr>)"
  by (simp add: handshake_def expectAuthRequired_def expectAuthOK_def readJSON_def auth_message_def command_decoder_def
      frame_simps sendJSON_def outcome_simps)

lemma sample_replies:
  "reply_in command_decoder (CallTask lamp_on False) 1 ''done'' = Some None"
  "reply_in command_decoder PingTask 2 ''pong'' = Some None"
  by (simp_all add: command_decoder_def frame_simps in_i64_def)

text \<open>The id of a request is drawn before the lock under which it is sent, so ids can reach Home Assistant out of order.\<close>

lemma ids_can_overtake:
  "\<exists>p. command_run all_done command_decoder ''t'' overtaking command_start = Some p
     \<and> map snd (db (sc_sent (cp_client p))) = [auth_request ''t'', ping_request 2, call_request 1 lamp_on]
     \<and> cp_log p = [(command_msg, Some None)] \<and> cp_committed p = [command_msg]"
  using sample_command sample_handshake sample_replies
  by (simp add: overtaking_def command_start_def shared_NewClient_def shared_connect_def shared_clear_def loop_fetch_def
      ping_talk_def shared_send_def outcome_simps loop_commit_def i64_id in_i64_def Let_def del: reply_in.simps)

lemma commands_sent_in_order_witness:
  "\<exists>p blocks. command_run all_done command_decoder ''t'' overtaking command_start = Some p
     \<and> cp_log p = [(command_msg, Some None)] \<and> calls_made p = concat blocks
     \<and> list_all2 (command_block command_decoder (frames_seen overtaking)) (cp_log p) blocks"
proof -
  obtain p where p: "command_run all_done command_decoder ''t'' overtaking command_start = Some p"
    "cp_log p = [(command_msg, Some None)]" using ids_can_overtake by blast
  have "fetched overtaking = [command_msg]" by (simp add: fetched_def overtaking_def)
  with commands_sent_in_order[OF p(1)] p show ?thesis by force
qed


end
