(* ===== verification/Uf_Streams.thy ===== *)
theory Uf_Streams
  imports Uf_Archive
begin

text \<open>
  What the streams of \<open>Uf_Archive\<close> keep from step to step, which frames end up in the archive, and two ways
  to lose them or never to finish.
\<close>

section \<open>Paths of frames\<close>

lemma slash_not_digit [simp]: "\<not> is_digit CHR ''/''"
  by (simp add: is_digit_def)

lemma parse_int_no_slash:
  assumes "parse_int s = (n, None)"
  shows "CHR ''/'' \<notin> set s"
proof -
  have "list_all is_digit ds \<Longrightarrow> CHR ''/'' \<notin> set ds" for ds
    by (auto simp: list_all_iff is_digit_def)
  with assms show ?thesis
    by (cases s) (auto simp: parse_int_def Let_def split: if_splits)
qed

lemma split_on_notin: "c \<notin> set s \<Longrightarrow> split_on c s = [s]"
  by (induction s) (auto split: list.splits)

lemma path_join_plain:
  "CHR ''/'' \<notin> set name \<Longrightarrow> name \<notin> {[], ''.'', ''..''} \<Longrightarrow> path_join dir [name] = dir @ [name]"
  by (simp add: path_join_def split_on_notin)

text \<open>A file name that stands for a second is one element of a path.\<close>

lemma frame_path:
  assumes "frame_second name = Some ts"
  shows "path_join dir [name] = dir @ [name]"
proof -
  have suf: "has_suffix name ''.jpg''"
    and p: "parse_int (trim_suffix name ''.jpg'') = (ts, None)"
    using assms by (auto simp: frame_second_def split: if_splits prod.splits option.splits)
  obtain r where r: "name = r @ ''.jpg''" using suf by (auto simp: has_suffix_iff)
  with p have "CHR ''/'' \<notin> set r" using parse_int_no_slash by simp
  with r show ?thesis by (intro path_join_plain) auto
qed

lemma butlast_frame_path: "frame_second name = Some ts \<Longrightarrow> butlast (path_join dir [name]) = dir"
  by (simp add: frame_path)

section \<open>What one copy does\<close>

text \<open>
  Files change only inside one directory, and none is removed: what holds of the files around every step
  that copies for a stream.
\<close>

definition files_grow :: "path set \<Rightarrow> files \<Rightarrow> files \<Rightarrow> bool" where
  "files_grow bases fs fs' \<longleftrightarrow>
     fl_source fs' = fl_source fs \<and> fl_dirs fs' = fl_dirs fs
     \<and> (\<forall>p. fl_files fs p \<noteq> None \<longrightarrow> fl_files fs' p \<noteq> None)
     \<and> (\<forall>p. fl_files fs' p \<noteq> fl_files fs p \<longrightarrow> butlast p \<in> bases)"

lemma files_grow_refl [simp, intro]: "files_grow B fs fs"
  by (simp add: files_grow_def)

lemma files_grow_trans [trans]: "files_grow B fs fs' \<Longrightarrow> files_grow B fs' fs'' \<Longrightarrow> files_grow B fs fs''"
  by (auto simp: files_grow_def) metis+

lemma files_grow_mono: "files_grow B fs fs' \<Longrightarrow> B \<subseteq> B' \<Longrightarrow> files_grow B' fs fs'"
  by (auto simp: files_grow_def)

lemma query_stmt_dbD: "query_stmt e q c = (r, c') \<Longrightarrow> db c' = db c"
  using query_stmt_db[of e q c] by simp

lemma exec_write_grow:
  "exec_stmt e stmt c = (r, c') \<Longrightarrow> (\<And>d. stmt (db c) = Inr d \<Longrightarrow> files_grow B (db c) d)
   \<Longrightarrow> files_grow B (db c) (db c')"
  by (erule exec_stmt_cases) auto

lemma copyFile_grow:
  assumes "copyFile e dir name dst c = (r, c')"
  shows "files_grow {butlast dst} (db c) (db c')"
proof -
  have w: "files_grow {butlast dst} fs (write_file dst x fs)" for x fs
    by (auto simp: files_grow_def write_file_def)
  have cr: "files_grow {butlast dst} fs d" if "create_file dst fs = Inr d" for fs d
    using that w by (auto simp: create_file_def split: if_splits)
  obtain r1 c1 where q: "query_stmt e (open_source dir name) c = (r1, c1)" by (metis surj_pair)
  obtain r2 c2 where x2: "exec_stmt e (create_file dst) c1 = (r2, c2)" by (metis surj_pair)
  have g2: "files_grow {butlast dst} (db c) (db c2)"
    using exec_write_grow[OF x2 cr] query_stmt_dbD[OF q] by simp
  show ?thesis
  proof (cases r1)
    case (Inl er)
    with assms q show ?thesis using query_stmt_dbD[OF q] by (simp add: copyFile_def)
  next
    case (Inr content)
    show ?thesis
    proof (cases "r2 = None \<and> content \<noteq> None")
      case False
      with assms q x2 Inr g2 show ?thesis by (auto simp: copyFile_def split: option.splits)
    next
      case True
      then obtain bytes where b: "content = Some bytes" by blast
      obtain r3 c3 where x3: "exec_stmt e (\<lambda>fs. Inr (write_file dst bytes fs)) c2 = (r3, c3)" by (metis surj_pair)
      have g3: "files_grow {butlast dst} (db c) (db c3)"
        using files_grow_trans[OF g2 exec_write_grow[OF x3]] w by auto
      have "files_grow {butlast dst} (db c3) (db (snd (exec_stmt e Inr c3)))"
        using exec_write_grow[of e Inr c3 "fst (exec_stmt e Inr c3)" "snd (exec_stmt e Inr c3)" "{butlast dst}"] by simp
      then have "files_grow {butlast dst} (db c) (db (snd (exec_stmt e Inr c3)))" using files_grow_trans[OF g3] by blast
      with assms q x2 x3 True b Inr g3 show ?thesis by (auto simp: copyFile_def split: option.splits)
    qed
  qed
qed

lemma copyFile_only:
  assumes "copyFile e dir name dst c = (r, c')" and "fl_files (db c') p \<noteq> fl_files (db c) p"
  shows "p = dst"
proof (rule ccontr)
  assume p: "p \<noteq> dst"
  have w: "fl_files (write_file dst x fs) p = fl_files fs p" for x fs using p by (simp add: write_file_def)
  have st: "fl_files (db c2) p = fl_files (db c1) p"
    if "exec_stmt e stmt c1 = (r', c2)" "\<And>d. stmt (db c1) = Inr d \<Longrightarrow> fl_files d p = fl_files (db c1) p" for stmt c1 r' c2
    using that by (metis exec_stmt_cases)
  have cr: "fl_files d p = fl_files fs p" if "create_file dst fs = Inr d" for fs d
    using that w by (auto simp: create_file_def split: if_splits)
  have "fl_files (db c') p = fl_files (db c) p"
    using assms(1) unfolding copyFile_def
    by (auto split: prod.splits sum.splits option.splits dest!: query_stmt_dbD st[of "create_file dst"]
          st[of "\<lambda>fs. Inr (write_file dst _ fs)"] st[of Inr] simp: cr w)
  with assms(2) show False by simp
qed

text \<open>A copy that reports no error has written the content of the source file.\<close>

lemma copyFile_None:
  assumes "copyFile e dir name dst c = (None, c')"
  shows "\<exists>bytes. open_source dir name (db c) = Inr (Some bytes) \<and> fl_files (db c') dst = Some bytes"
proof -
  obtain content c1 where q: "query_stmt e (open_source dir name) c = (Inr content, c1)"
    using assms by (auto simp: copyFile_def split: prod.splits sum.splits)
  obtain c2 bytes c3 where x: "content = Some bytes"
    "exec_stmt e (\<lambda>fs. Inr (write_file dst bytes fs)) c2 = (None, c3)" "exec_stmt e Inr c3 = (None, c')"
    using assms q by (auto simp: copyFile_def split: prod.splits sum.splits option.splits)
  have "db c3 = write_file dst bytes (db c2)" "db c' = db c3"
    using exec_stmt_None[OF x(2)] exec_stmt_None[OF x(3)] by simp_all
  with query_stmt_Inr(1)[OF q] x(1) show ?thesis by (auto simp: write_file_def)
qed

lemma open_sourceD:
  "open_source dir name fs = Inr content \<Longrightarrow> \<exists>entries. fl_source fs dir = Some entries \<and> map_of entries name = Some content"
  by (auto simp: open_source_def split: option.splits)

section \<open>What copying for a stream does\<close>

text \<open>
  Copying changes nothing of the stream but its set of copied seconds; every second it adds is in the
  window and has its file, with the content of a file of that second in the source directory.
\<close>

definition stream_copies ::
    "archive_config \<Rightarrow> path \<Rightarrow> int \<Rightarrow> StreamSession \<times> files \<Rightarrow> StreamSession \<times> files \<Rightarrow> bool" where
  "stream_copies cfg dir toSec = (\<lambda>(s, fs) (s', fs').
     s' = s\<lparr>ss_copied := ss_copied s'\<rparr> \<and> ss_copied s \<subseteq> ss_copied s'
     \<and> files_grow {ss_ArchiveBase s} fs fs'
     \<and> (\<forall>ts \<in> ss_copied s' - ss_copied s. from_sec cfg s \<le> ts \<and> ts \<le> toSec
          \<and> (\<exists>name bytes. frame_second name = Some ts \<and> open_source dir name fs = Inr (Some bytes)
                \<and> fl_files fs' (ss_ArchiveBase s @ [name]) = Some bytes))
     \<and> (\<forall>p. fl_files fs' p \<noteq> fl_files fs p \<longrightarrow>
          (\<exists>name ts. p = ss_ArchiveBase s @ [name] \<and> frame_second name = Some ts \<and> ts \<notin> ss_copied s)))"

lemma stream_copies_refl [simp, intro]: "stream_copies cfg dir toSec (s, fs) (s, fs)"
  by (simp add: stream_copies_def)

lemma open_source_same: "fl_source fs' = fl_source fs \<Longrightarrow> open_source dir name fs' = open_source dir name fs"
  by (simp add: open_source_def)

lemma stream_copies_trans:
  assumes 1: "stream_copies cfg dir toSec (s, fs) (s1, fs1)" and 2: "stream_copies cfg dir toSec (s1, fs1) (s2, fs2)"
  shows "stream_copies cfg dir toSec (s, fs) (s2, fs2)"
proof -
  have s1: "s1 = s\<lparr>ss_copied := ss_copied s1\<rparr>" and s2: "s2 = s1\<lparr>ss_copied := ss_copied s2\<rparr>"
    and c: "ss_copied s \<subseteq> ss_copied s1" "ss_copied s1 \<subseteq> ss_copied s2"
    and g: "files_grow {ss_ArchiveBase s} fs fs1" "files_grow {ss_ArchiveBase s1} fs1 fs2"
    using 1 2 by (auto simp: stream_copies_def)
  have base: "ss_ArchiveBase s1 = ss_ArchiveBase s" and from_eq: "from_sec cfg s1 = from_sec cfg s"
    by (subst s1, simp add: from_sec_def)+
  have src: "open_source d n fs1 = open_source d n fs" for d n
    using g(1) by (intro open_source_same) (simp add: files_grow_def)
  have s2': "s2 = s\<lparr>ss_copied := ss_copied s2\<rparr>" by (subst s2, subst s1) simp
  have changed: "\<exists>name ts. p = ss_ArchiveBase s @ [name] \<and> frame_second name = Some ts \<and> ts \<notin> ss_copied s"
    if "fl_files fs2 p \<noteq> fl_files fs p" for p
  proof (cases "fl_files fs1 p = fl_files fs p")
    case True
    with that have "fl_files fs2 p \<noteq> fl_files fs1 p" by simp
    with 2 base c show ?thesis unfolding stream_copies_def by simp blast
  next
    case False
    with 1 show ?thesis unfolding stream_copies_def by simp
  qed
  have new: "from_sec cfg s \<le> ts \<and> ts \<le> toSec \<and> (\<exists>name bytes. frame_second name = Some ts
      \<and> open_source dir name fs = Inr (Some bytes) \<and> fl_files fs2 (ss_ArchiveBase s @ [name]) = Some bytes)"
    if ts: "ts \<in> ss_copied s2 - ss_copied s" for ts
  proof (cases "ts \<in> ss_copied s1")
    case False
    with ts 2 have "from_sec cfg s1 \<le> ts \<and> ts \<le> toSec \<and> (\<exists>name bytes. frame_second name = Some ts
      \<and> open_source dir name fs1 = Inr (Some bytes) \<and> fl_files fs2 (ss_ArchiveBase s1 @ [name]) = Some bytes)"
      unfolding stream_copies_def by blast
    then show ?thesis by (simp only: base from_eq src)
  next
    case True
    with ts 1 obtain name bytes where n: "from_sec cfg s \<le> ts" "ts \<le> toSec" "frame_second name = Some ts"
      "open_source dir name fs = Inr (Some bytes)" "fl_files fs1 (ss_ArchiveBase s @ [name]) = Some bytes"
      unfolding stream_copies_def by blast
    have "fl_files fs2 (ss_ArchiveBase s @ [name]) = fl_files fs1 (ss_ArchiveBase s @ [name])"
    proof (rule ccontr)
      assume "\<not> ?thesis"
      with 2 obtain name' ts' where "ss_ArchiveBase s @ [name] = ss_ArchiveBase s1 @ [name']"
        "frame_second name' = Some ts'" "ts' \<notin> ss_copied s1"
        unfolding stream_copies_def by blast
      with n(3) True base show False by simp
    qed
    with n show ?thesis by auto
  qed
  have "files_grow {ss_ArchiveBase s} fs fs2" using files_grow_trans[OF g(1)] g(2) base by simp
  with s2' c new changed show ?thesis unfolding stream_copies_def by auto
qed


lemma copy_frame_copies:
  assumes r: "copy_frame e cfg toSec dir name ts (s, c) = (s', c')" and n: "frame_second name = Some ts"
  shows "stream_copies cfg dir toSec (s, db c) (s', db c')"
proof (cases "ts < from_sec cfg s \<or> ts > toSec \<or> ts \<in> ss_copied s")
  case True
  with r show ?thesis by (auto simp: copy_frame_def split: if_splits)
next
  case False
  let ?dst = "ss_ArchiveBase s @ [name]"
  obtain r1 c1 where c1: "copyFile e dir name ?dst c = (r1, c1)" by (metis surj_pair)
  have g: "files_grow {ss_ArchiveBase s} (db c) (db c1)" using copyFile_grow[OF c1] by simp
  have only: "p = ?dst" if "fl_files (db c1) p \<noteq> fl_files (db c) p" for p
    using copyFile_only[OF c1 that] .
  have s': "c' = c1" "s' = (if r1 = None then s\<lparr>ss_copied := insert ts (ss_copied s)\<rparr> else s)"
    using r False c1 by (auto simp: copy_frame_def frame_path[OF n] split: option.splits)
  have "from_sec cfg s \<le> ts" "ts \<le> toSec" "ts \<notin> ss_copied s" using False by auto
  with g only s' n copyFile_None[of e dir name ?dst c c1] c1 show ?thesis
    by (auto simp: stream_copies_def)
qed

lemma catch_up_entry_copies:
  assumes "catch_up_entry e cfg toSec dir entry (s, c) = (s', c')"
  shows "stream_copies cfg dir toSec (s, db c) (s', db c')"
  using assms copy_frame_copies
  by (cases entry) (auto simp: catch_up_entry_def split: if_splits option.splits)

lemma catch_up_fold_copies:
  "fold (catch_up_entry e cfg toSec dir) entries (s, c) = (s', c')
   \<Longrightarrow> stream_copies cfg dir toSec (s, db c) (s', db c')"
proof (induction entries arbitrary: s c)
  case (Cons a entries)
  obtain s1 c1 where a: "catch_up_entry e cfg toSec dir a (s, c) = (s1, c1)" by (metis surj_pair)
  with Cons have "stream_copies cfg dir toSec (s1, db c1) (s', db c')" by simp
  with catch_up_entry_copies[OF a] show ?case by (rule stream_copies_trans)
qed simp

lemma catchUpLocked_copies:
  assumes "catchUpLocked e cfg now s c = (s', c')"
  shows "stream_copies cfg (path_join (ac_SourceDir cfg) [ss_CameraName s]) (to_sec cfg 5 now s) (s, db c) (s', db c')"
proof -
  let ?dir = "path_join (ac_SourceDir cfg) [ss_CameraName s]"
  obtain r c1 where q: "query_stmt e (read_source ?dir) c = (r, c1)" by (metis surj_pair)
  show ?thesis
  proof (cases r)
    case (Inl er)
    with assms q query_stmt_dbD[OF q] show ?thesis by (auto simp: catchUpLocked_def Let_def)
  next
    case (Inr entries)
    with assms q have "fold (catch_up_entry e cfg (to_sec cfg 5 now s) ?dir) entries (s, c1) = (s', c')"
      by (simp add: catchUpLocked_def Let_def)
    from catch_up_fold_copies[OF this] show ?thesis using query_stmt_dbD[OF q] by simp
  qed
qed

lemma stream_copies_fields:
  assumes "stream_copies cfg dir toSec (s, fs) (s', fs')"
  shows "ss_CameraName s' = ss_CameraName s" "ss_DetectionType s' = ss_DetectionType s"
    "ss_StartMs s' = ss_StartMs s" "ss_EndMs s' = ss_EndMs s" "ss_CopyAfterUnix s' = ss_CopyAfterUnix s"
    "ss_ArchiveBase s' = ss_ArchiveBase s" "ss_EventIDs s' = ss_EventIDs s"
    "ss_copied s \<subseteq> ss_copied s'" "files_grow {ss_ArchiveBase s} fs fs'"
proof -
  have s': "s' = s\<lparr>ss_copied := ss_copied s'\<rparr>" using assms by (simp add: stream_copies_def)
  show "ss_CameraName s' = ss_CameraName s" "ss_DetectionType s' = ss_DetectionType s"
    "ss_StartMs s' = ss_StartMs s" "ss_EndMs s' = ss_EndMs s" "ss_CopyAfterUnix s' = ss_CopyAfterUnix s"
    "ss_ArchiveBase s' = ss_ArchiveBase s" "ss_EventIDs s' = ss_EventIDs s"
    by (subst s', simp)+
qed (use assms in \<open>auto simp: stream_copies_def\<close>)

section \<open>Runs\<close>

text \<open>
  The steps of the service and of the camera beside it; each with its own schedule of failures and clock.
  A run is a list of steps, each of which may be restricted by \<open>allowed\<close>.
\<close>

datatype smart_op =
    Message env decoder int message
  | Watch env int path string
  | Expire env int
  | Finish env int
  | Retain env "path \<Rightarrow> int option" int
  | Camera "path \<Rightarrow> (string \<times> string option) list option"

type_synonym smart_state = "smart_service \<times> files conn"

fun smart_apply :: "archive_config \<Rightarrow> smart_op \<Rightarrow> smart_state \<Rightarrow> smart_state" where
  "smart_apply cfg (Message e um now msg) st = smart_processMessage e um cfg now msg st"
| "smart_apply cfg (Watch e now dir name) st = watch_event e cfg now dir name st"
| "smart_apply cfg (Expire e now) st = expireWaitingForEnd e cfg now st"
| "smart_apply cfg (Finish e now) st = closeCompletedStreams e cfg now st"
| "smart_apply cfg (Retain e mtime now) (svc, c) = (svc, runRetentionPass e cfg mtime now c)"
| "smart_apply cfg (Camera source) (svc, c) = (svc, c\<lparr>db := (db c)\<lparr>fl_source := source\<rparr>\<rparr>)"

fun smart_run :: "(smart_op \<Rightarrow> smart_state \<Rightarrow> bool) \<Rightarrow> archive_config \<Rightarrow> smart_op list \<Rightarrow> smart_state \<Rightarrow> smart_state option" where
  "smart_run allowed cfg [] st = Some st"
| "smart_run allowed cfg (op # ops) st =
     (if allowed op st then smart_run allowed cfg ops (smart_apply cfg op st) else None)"

text \<open>What every allowed step keeps, every allowed run keeps.\<close>

locale smart_guard =
  fixes cfg :: archive_config and allowed :: "smart_op \<Rightarrow> smart_state \<Rightarrow> bool" and I :: "smart_state \<Rightarrow> bool"
  assumes keeps: "I st \<Longrightarrow> allowed op st \<Longrightarrow> I (smart_apply cfg op st)"
begin

lemma run_keeps: "smart_run allowed cfg ops st = Some st' \<Longrightarrow> I st \<Longrightarrow> I st'"
proof (induction ops arbitrary: st)
  case (Cons op ops)
  then have a: "allowed op st" "smart_run allowed cfg ops (smart_apply cfg op st) = Some st'"
    by (simp_all split: if_splits)
  show ?case by (rule Cons.IH[OF a(2) keeps[OF Cons.prems(2) a(1)]])
qed simp

end

lemma smart_run_weaken:
  "smart_run allowed cfg ops st = Some st' \<Longrightarrow> (\<And>op st. allowed op st \<Longrightarrow> allowed' op st)
   \<Longrightarrow> smart_run allowed' cfg ops st = Some st'"
proof (induction ops arbitrary: st)
  case (Cons op ops)
  then have "allowed op st" "smart_run allowed cfg ops (smart_apply cfg op st) = Some st'"
    by (simp_all split: if_splits)
  with Cons show ?case by simp
qed simp

section \<open>The invariant of the streams\<close>

text \<open>Names that are one element of a path and of a key.\<close>

definition plain_name :: "string \<Rightarrow> bool" where
  "plain_name n \<longleftrightarrow> n \<notin> {[], ''.'', ''..''} \<and> CHR ''/'' \<notin> set n \<and> CHR ''|'' \<notin> set n"

definition window_config :: "archive_config \<Rightarrow> bool" where
  "window_config cfg \<longleftrightarrow> \<bar>ac_LeadSeconds cfg\<bar> \<le> 1000000000 \<and> \<bar>ac_TrailSeconds cfg\<bar> \<le> 1000000000
     \<and> \<bar>ac_CopyDelaySeconds cfg\<bar> \<le> 1000000000"

definition stream_ok :: "archive_config \<Rightarrow> string \<times> StreamSession \<Rightarrow> bool" where
  "stream_ok cfg = (\<lambda>(key, s).
     key = cameraKey (ss_CameraName s) (ss_DetectionType s)
     \<and> plain_name (ss_CameraName s) \<and> plain_name (ss_DetectionType s)
     \<and> 0 < ss_StartMs s \<and> in_i64 (ss_StartMs s) \<and> ss_EventIDs s \<noteq> []
     \<and> ss_ArchiveBase s = archiveBase cfg (ss_CameraName s) (ss_DetectionType s) (ss_StartMs s)
     \<and> (\<forall>ts \<in> ss_copied s. from_sec cfg s \<le> ts))"

definition waiting_ok :: "string \<times> WaitingEvent \<Rightarrow> bool" where
  "waiting_ok = (\<lambda>(i, ev). plain_name (we_CameraName ev) \<and> plain_name (we_DetectionType ev))"

definition source_dir :: "archive_config \<Rightarrow> StreamSession \<Rightarrow> path" where
  "source_dir cfg s = path_join (ac_SourceDir cfg) [ss_CameraName s]"

definition streams_at :: "archive_config \<Rightarrow> path \<Rightarrow> (string \<times> StreamSession) list \<Rightarrow> nat" where
  "streams_at cfg dir streams = length (filter (\<lambda>(k, s). source_dir cfg s = dir) streams)"

definition watch_ok :: "archive_config \<Rightarrow> smart_service \<Rightarrow> bool" where
  "watch_ok cfg svc \<longleftrightarrow>
     (sv_watcher svc \<or> sv_watchedDirs svc = []) \<and>
     (\<forall>dir. 0 \<le> watch_count svc dir \<and> watch_count svc dir \<le> int (streams_at cfg dir (sv_streams svc))
        \<and> (dir \<in> sv_watching svc \<longleftrightarrow> 0 < watch_count svc dir))"

definition streams_wf :: "archive_config \<Rightarrow> smart_service \<Rightarrow> bool" where
  "streams_wf cfg svc \<longleftrightarrow> distinct (map fst (sv_streams svc)) \<and> list_all (stream_ok cfg) (sv_streams svc)
     \<and> list_all waiting_ok (sv_waitingForEnd svc) \<and> watch_ok cfg svc"

definition plain_op :: "smart_op \<Rightarrow> smart_state \<Rightarrow> bool" where
  "plain_op op st = (case op of
      Message e um now msg \<Rightarrow>
        (case smart_message um msg of None \<Rightarrow> True | Some (cam, det, ev) \<Rightarrow> plain_name cam \<and> plain_name det)
    | _ \<Rightarrow> True)"

lemma cameraKey_split: "plain_name a \<Longrightarrow> split_first CHR ''|'' (cameraKey a b) = [a, b]"
  using split_first_append[of "CHR ''|''" a b] by (simp add: plain_name_def cameraKey_def)

lemma cameraKey_inj:
  "plain_name a \<Longrightarrow> plain_name a' \<Longrightarrow> cameraKey a b = cameraKey a' b' \<Longrightarrow> a = a' \<and> b = b'"
  using cameraKey_split[of a b] cameraKey_split[of a' b'] by (metis list.inject)

lemma from_sec_frame [simp]:
  "from_sec cfg (s\<lparr>ss_EndMs := n\<rparr>) = from_sec cfg s" "from_sec cfg (s\<lparr>ss_CopyAfterUnix := n\<rparr>) = from_sec cfg s"
  "from_sec cfg (s\<lparr>ss_EventIDs := l\<rparr>) = from_sec cfg s" "from_sec cfg (s\<lparr>ss_copied := C\<rparr>) = from_sec cfg s"
  by (simp_all add: from_sec_def)

lemma from_sec_exact:
  assumes "window_config cfg" "in_i64 (ss_StartMs s)" "0 < ss_StartMs s"
  shows "from_sec cfg s = ss_StartMs s div 1000 - ac_LeadSeconds cfg"
proof -
  have "0 \<le> ss_StartMs s div 1000" "ss_StartMs s div 1000 \<le> 9223372036854775"
    using assms(2,3) by (auto simp: in_i64_def)
  then have "in_i64 (ss_StartMs s div 1000 - ac_LeadSeconds cfg)"
    using assms(1) unfolding window_config_def in_i64_def by linarith
  with assms(3) show ?thesis by (simp add: from_sec_def i64_id)
qed

lemma from_sec_earlier:
  assumes "window_config cfg" "in_i64 (ss_StartMs s)" "0 < ss_StartMs s'" "ss_StartMs s' \<le> ss_StartMs s"
  shows "from_sec cfg s' \<le> from_sec cfg s"
proof -
  have "in_i64 (ss_StartMs s')" "0 < ss_StartMs s" using assms by (auto simp: in_i64_def)
  with assms show ?thesis by (simp add: from_sec_exact zdiv_mono1)
qed

section \<open>Association lists of streams\<close>

lemma delete_absent: "k \<notin> fst ` set al \<Longrightarrow> AList.delete k al = al"
  by (induction al) auto

lemma streams_at_delete:
  assumes "distinct (map fst al)" "map_of al k = Some s"
  shows "int (streams_at cfg dir (AList.delete k al)) = int (streams_at cfg dir al) - (if source_dir cfg s = dir then 1 else 0)"
  using assms
proof (induction al)
  case (Cons a al)
  show ?case
  proof (cases "fst a = k")
    case True
    with Cons.prems have "AList.delete k al = al" "snd a = s"
      by (cases a, auto intro: delete_absent)+
    with True show ?thesis by (cases a) (simp add: streams_at_def)
  next
    case False
    with Cons show ?thesis by (cases a) (simp add: streams_at_def split: if_splits)
  qed
qed simp

lemma streams_at_update:
  assumes "map_of al k = Some s" "source_dir cfg s' = source_dir cfg s"
  shows "streams_at cfg dir (AList.update k s' al) = streams_at cfg dir al"
  using assms by (induction al) (auto simp: streams_at_def split: if_splits)

lemma streams_at_new:
  assumes "map_of al k = None"
  shows "streams_at cfg dir (AList.update k s al) = streams_at cfg dir al + (if source_dir cfg s = dir then 1 else 0)"
  using assms by (induction al) (auto simp: streams_at_def split: if_splits)

lemma list_all_update:
  "list_all P al \<Longrightarrow> P (k, v) \<Longrightarrow> list_all P (AList.update k v al)"
  by (induction al) auto

lemma list_all_delete: "list_all P al \<Longrightarrow> list_all P (AList.delete k al)"
  by (auto simp: AList.delete_eq list_all_iff)

lemma map_of_list_all: "list_all P al \<Longrightarrow> map_of al k = Some v \<Longrightarrow> P (k, v)"
  by (auto simp: list_all_iff dest: map_of_SomeD)

section \<open>Watching\<close>

lemma watch_count_frame [simp]:
  "watch_count (svc\<lparr>sv_streams := al\<rparr>) = watch_count svc"
  "watch_count (svc\<lparr>sv_waitingForEnd := W\<rparr>) = watch_count svc"
  "watch_count (svc\<lparr>sv_done := D\<rparr>) = watch_count svc"
  by (simp_all add: watch_count_def fun_eq_iff)

lemma watch_count_update [simp]:
  "watch_count (svc\<lparr>sv_watchedDirs := AList.update dir n (sv_watchedDirs svc)\<rparr>) d =
     (if d = dir then n else watch_count svc d)"
  by (auto simp: watch_count_def update_conv')

lemma watch_count_delete [simp]:
  "watch_count (svc\<lparr>sv_watchedDirs := AList.delete dir (sv_watchedDirs svc), sv_watching := W\<rparr>) d =
     (if d = dir then 0 else watch_count svc d)"
  by (auto simp: watch_count_def delete_conv')

lemma releaseWatched_frame [simp]:
  "sv_streams (releaseWatchedLocked cfg cam svc) = sv_streams svc"
  "sv_waitingForEnd (releaseWatchedLocked cfg cam svc) = sv_waitingForEnd svc"
  "sv_done (releaseWatchedLocked cfg cam svc) = sv_done svc"
  "sv_watcher (releaseWatchedLocked cfg cam svc) = sv_watcher svc"
  by (simp_all add: releaseWatchedLocked_def Let_def)

lemma release_watch_ok:
  assumes w: "watch_ok cfg svc" and d: "distinct (map fst (sv_streams svc))"
    and m: "map_of (sv_streams svc) k = Some s"
  shows "watch_ok cfg (releaseWatchedLocked cfg (ss_CameraName s)
           (svc\<lparr>sv_waitingForEnd := W, sv_streams := AList.delete k (sv_streams svc)\<rparr>))"
proof (cases "sv_watcher svc")
  case False
  with w show ?thesis by (simp add: watch_ok_def releaseWatchedLocked_def watch_count_def)
next
  case True
  let ?dir = "path_join (ac_SourceDir cfg) [ss_CameraName s]"
  let ?svc = "svc\<lparr>sv_waitingForEnd := W, sv_streams := AList.delete k (sv_streams svc)\<rparr>"
  have at: "int (streams_at cfg dir (AList.delete k (sv_streams svc)))
      = int (streams_at cfg dir (sv_streams svc)) - (if ?dir = dir then 1 else 0)" for dir
    using streams_at_delete[OF d m] by (simp add: source_dir_def)
  have w': "0 \<le> watch_count svc dir" "watch_count svc dir \<le> int (streams_at cfg dir (sv_streams svc))"
    "dir \<in> sv_watching svc \<longleftrightarrow> 0 < watch_count svc dir" for dir
    using w by (simp_all add: watch_ok_def)
  show ?thesis
  proof (cases "watch_count svc ?dir - 1 \<le> 0")
    case le: True
    have c': "watch_count (releaseWatchedLocked cfg (ss_CameraName s) ?svc) dir
        = (if dir = ?dir then 0 else watch_count svc dir)" for dir
      using True le by (simp add: releaseWatchedLocked_def Let_def watch_count_def delete_conv')
    have i': "sv_watching (releaseWatchedLocked cfg (ss_CameraName s) ?svc) = sv_watching svc - {?dir}"
      using True le by (simp add: releaseWatchedLocked_def Let_def watch_count_def)
    have "0 \<le> watch_count (releaseWatchedLocked cfg (ss_CameraName s) ?svc) dir
        \<and> watch_count (releaseWatchedLocked cfg (ss_CameraName s) ?svc) dir
            \<le> int (streams_at cfg dir (AList.delete k (sv_streams svc)))
        \<and> (dir \<in> sv_watching svc - {?dir} \<longleftrightarrow> 0 < watch_count (releaseWatchedLocked cfg (ss_CameraName s) ?svc) dir)"
      for dir
      using w'[of dir] at[of dir] by (cases "dir = ?dir") (simp_all add: c')
    with True show ?thesis by (simp add: watch_ok_def i')
  next
    case gt: False
    have c': "watch_count (releaseWatchedLocked cfg (ss_CameraName s) ?svc) dir
        = (if dir = ?dir then watch_count svc ?dir - 1 else watch_count svc dir)" for dir
      using True gt by (simp add: releaseWatchedLocked_def Let_def watch_count_def update_conv')
    have i': "sv_watching (releaseWatchedLocked cfg (ss_CameraName s) ?svc) = sv_watching svc"
      using True gt by (simp add: releaseWatchedLocked_def Let_def watch_count_def)
    have "0 \<le> watch_count (releaseWatchedLocked cfg (ss_CameraName s) ?svc) dir
        \<and> watch_count (releaseWatchedLocked cfg (ss_CameraName s) ?svc) dir
            \<le> int (streams_at cfg dir (AList.delete k (sv_streams svc)))
        \<and> (dir \<in> sv_watching svc \<longleftrightarrow> 0 < watch_count (releaseWatchedLocked cfg (ss_CameraName s) ?svc) dir)"
      for dir
      using w'[of dir] at[of dir] gt by (cases "dir = ?dir") (simp_all add: c')
    with True show ?thesis by (simp add: watch_ok_def i')
  qed
qed

lemma ensureWatched_frame:
  assumes "ensureWatchedLocked e cfg cam (svc, c) = (svc', c')"
  shows "sv_streams svc' = sv_streams svc" "sv_waitingForEnd svc' = sv_waitingForEnd svc"
    "sv_done svc' = sv_done svc" "sv_watcher svc' = sv_watcher svc" "db c' = db c"
  using assms
  by (auto simp: ensureWatchedLocked_def watcher_add_def Let_def split: if_splits prod.splits sum.splits
      dest!: query_stmt_dbD)

lemma ensure_watch_ok:
  assumes w: "watch_ok cfg svc" and m: "map_of (sv_streams svc) k = None"
    and r: "ensureWatchedLocked e cfg (ss_CameraName s) (svc, c) = (svc', c')"
  shows "watch_ok cfg (svc'\<lparr>sv_streams := AList.update k s (sv_streams svc'), sv_waitingForEnd := W\<rparr>)"
proof -
  let ?dir = "path_join (ac_SourceDir cfg) [ss_CameraName s]"
  have at: "streams_at cfg dir (AList.update k s (sv_streams svc))
      = streams_at cfg dir (sv_streams svc) + (if ?dir = dir then 1 else 0)" for dir
    using streams_at_new[OF m] by (simp add: source_dir_def)
  have w': "0 \<le> watch_count svc dir" "watch_count svc dir \<le> int (streams_at cfg dir (sv_streams svc))"
    "dir \<in> sv_watching svc \<longleftrightarrow> 0 < watch_count svc dir" for dir
    using w by (simp_all add: watch_ok_def)
  have le1: "watch_count svc dir \<le> int (streams_at cfg dir (sv_streams svc)) + 1" for dir
    using w'(2)[of dir] by linarith
  consider (off) "\<not> sv_watcher svc" "svc' = svc"
    | (more) "sv_watcher svc" "1 \<le> watch_count svc ?dir" "sv_watching svc' = sv_watching svc"
        "\<And>dir. watch_count svc' dir = (if dir = ?dir then watch_count svc ?dir + 1 else watch_count svc dir)"
    | (failed) "sv_watcher svc" "\<not> 1 \<le> watch_count svc ?dir" "sv_watching svc' = sv_watching svc"
        "\<And>dir. watch_count svc' dir = watch_count svc dir"
    | (first) "sv_watcher svc" "\<not> 1 \<le> watch_count svc ?dir" "sv_watching svc' = insert ?dir (sv_watching svc)"
        "\<And>dir. watch_count svc' dir = (if dir = ?dir then watch_count svc ?dir + 1 else watch_count svc dir)"
    using r by (auto simp: ensureWatchedLocked_def Let_def watch_count_def update_conv' split: if_splits prod.splits sum.splits)
  then show ?thesis
  proof cases
    case off
    with w w' at le1 show ?thesis by (auto simp: watch_ok_def)
  next
    case more
    with w' at show ?thesis using ensureWatched_frame[OF r] by (auto simp: watch_ok_def)
  next
    case failed
    with w' at le1 show ?thesis using ensureWatched_frame[OF r] by (auto simp: watch_ok_def)
  next
    case first
    have "watch_count svc ?dir = 0" using first(2) w'(1)[of ?dir] by linarith
    with first w' at show ?thesis using ensureWatched_frame[OF r] by (auto simp: watch_ok_def)
  qed
qed

section \<open>Streams that advance\<close>

text \<open>
  \<open>advances\<close> is what copying does to a stream; \<open>archived\<close> says that every second it counts as copied has
  its file in the directory of the stream.
\<close>

definition advances :: "archive_config \<Rightarrow> StreamSession \<Rightarrow> StreamSession \<Rightarrow> bool" where
  "advances cfg s s' \<longleftrightarrow> s' = s\<lparr>ss_copied := ss_copied s'\<rparr> \<and> ss_copied s \<subseteq> ss_copied s'
     \<and> (\<forall>ts \<in> ss_copied s' - ss_copied s. from_sec cfg s \<le> ts)"

definition archived :: "files \<Rightarrow> StreamSession \<Rightarrow> bool" where
  "archived fs s \<longleftrightarrow> (\<forall>ts \<in> ss_copied s. \<exists>name. frame_second name = Some ts
     \<and> fl_files fs (ss_ArchiveBase s @ [name]) \<noteq> None)"

lemma advances_refl [simp]: "advances cfg s s"
  by (simp add: advances_def)

lemma advances_fields:
  assumes "advances cfg s s'"
  shows "ss_CameraName s' = ss_CameraName s" "ss_DetectionType s' = ss_DetectionType s"
    "ss_StartMs s' = ss_StartMs s" "ss_EndMs s' = ss_EndMs s" "ss_CopyAfterUnix s' = ss_CopyAfterUnix s"
    "ss_ArchiveBase s' = ss_ArchiveBase s" "ss_EventIDs s' = ss_EventIDs s" "from_sec cfg s' = from_sec cfg s"
    "source_dir cfg s' = source_dir cfg s"
proof -
  have s': "s' = s\<lparr>ss_copied := ss_copied s'\<rparr>" using assms by (simp add: advances_def)
  show "ss_CameraName s' = ss_CameraName s" "ss_DetectionType s' = ss_DetectionType s"
    "ss_StartMs s' = ss_StartMs s" "ss_EndMs s' = ss_EndMs s" "ss_CopyAfterUnix s' = ss_CopyAfterUnix s"
    "ss_ArchiveBase s' = ss_ArchiveBase s" "ss_EventIDs s' = ss_EventIDs s" "from_sec cfg s' = from_sec cfg s"
    "source_dir cfg s' = source_dir cfg s"
    by (subst s', simp add: from_sec_def source_dir_def)+
qed

lemma stream_copies_advances:
  "stream_copies cfg dir toSec (s, fs) (s', fs') \<Longrightarrow> advances cfg s s'"
  by (auto simp: stream_copies_def advances_def)

lemma advances_ok: "advances cfg s s' \<Longrightarrow> stream_ok cfg (k, s) \<Longrightarrow> stream_ok cfg (k, s')"
  using advances_fields[of cfg s s'] by (auto simp: stream_ok_def advances_def)

lemma archived_grow: "files_grow B fs fs' \<Longrightarrow> archived fs s \<Longrightarrow> archived fs' s"
  unfolding archived_def files_grow_def by blast

lemma archived_copies:
  assumes c: "stream_copies cfg dir toSec (s, fs) (s', fs')" and a: "archived fs s"
  shows "archived fs' s'"
proof -
  have "\<exists>name. frame_second name = Some ts \<and> fl_files fs' (ss_ArchiveBase s @ [name]) \<noteq> None"
    if ts: "ts \<in> ss_copied s'" for ts
  proof (cases "ts \<in> ss_copied s")
    case True
    with archived_grow[OF stream_copies_fields(9)[OF c] a] show ?thesis by (simp add: archived_def)
  next
    case False
    with ts c show ?thesis unfolding stream_copies_def by blast
  qed
  with stream_copies_fields(6)[OF c] show ?thesis by (simp add: archived_def)
qed

text \<open>A list of streams, each of which advances.\<close>

definition all_advance ::
    "archive_config \<Rightarrow> (string \<times> StreamSession) list \<times> files \<Rightarrow> (string \<times> StreamSession) list \<times> files \<Rightarrow> bool" where
  "all_advance cfg = (\<lambda>(al, fs) (al', fs').
     list_all2 (\<lambda>(k, s) (k', s'). k' = k \<and> advances cfg s s' \<and> (archived fs s \<longrightarrow> archived fs' s')) al al'
     \<and> files_grow ((\<lambda>(k, s). ss_ArchiveBase s) ` set al) fs fs')"

lemma all_advance_Cons:
  assumes s: "stream_copies cfg dir toSec (s, fs) (s1, fs1)" and r: "all_advance cfg (rest, fs1) (rest1, fs2)"
  shows "all_advance cfg ((k, s) # rest, fs) ((k, s1) # rest1, fs2)"
proof -
  have g1: "files_grow {ss_ArchiveBase s} fs fs1" using stream_copies_fields[OF s] by blast
  have g2: "files_grow ((\<lambda>(k, s). ss_ArchiveBase s) ` set rest) fs1 fs2" using r by (simp add: all_advance_def)
  have "files_grow ((\<lambda>(k, s). ss_ArchiveBase s) ` set ((k, s) # rest)) fs fs2"
    by (rule files_grow_trans[OF files_grow_mono[OF g1] files_grow_mono[OF g2]]) auto
  moreover have "list_all2 (\<lambda>(k, s) (k', s'). k' = k \<and> advances cfg s s' \<and> (archived fs s \<longrightarrow> archived fs2 s')) rest rest1"
    using r archived_grow[OF g1] unfolding all_advance_def
    by (auto elim!: list_all2_mono)
  moreover have "archived fs s \<longrightarrow> archived fs2 s1"
    using archived_copies[OF s] archived_grow[OF g2] by blast
  ultimately show ?thesis using stream_copies_advances[OF s] by (simp add: all_advance_def)
qed

lemma watch_streams_advance:
  assumes n: "frame_second name = Some ts"
  shows "watch_streams e cfg now dir name ts al c = (al', c') \<Longrightarrow> all_advance cfg (al, db c) (al', db c')"
proof (induction al arbitrary: c al' c')
  case Nil
  then show ?case by (simp add: all_advance_def)
next
  case (Cons a rest)
  obtain k s where a: "a = (k, s)" by fastforce
  obtain s1 c1 where s1: "(if ss_CameraName s \<noteq> sanitizeName (path_base dir) then (s, c)
      else copy_frame e cfg (to_sec cfg 60 now s) dir name ts (s, c)) = (s1, c1)" by (metis surj_pair)
  obtain rest1 c2 where r: "watch_streams e cfg now dir name ts rest c1 = (rest1, c2)" by (metis surj_pair)
  have "al' = (k, s1) # rest1" "c' = c2" using Cons.prems a s1 r by (auto simp: Let_def)
  moreover have "stream_copies cfg dir (to_sec cfg 60 now s) (s, db c) (s1, db c1)"
    using s1 copy_frame_copies[OF _ n] by (auto split: if_splits)
  ultimately show ?case using all_advance_Cons Cons.IH[OF r] a by blast
qed

lemma close_check_copies:
  assumes "close_check e cfg now s c = (b, s', c')"
  shows "stream_copies cfg (path_join (ac_SourceDir cfg) [ss_CameraName s]) (to_sec cfg 5 now s) (s, db c) (s', db c')"
proof -
  obtain s1 c1 where u: "catchUpLocked e cfg now s c = (s1, c1)" by (metis surj_pair)
  have "(s', db c') \<in> {(s, db c), (s1, db c1)}"
    using assms u by (auto simp: close_check_def Let_def split: if_splits prod.splits dest!: query_stmt_dbD)
  with catchUpLocked_copies[OF u] show ?thesis by auto
qed

lemma close_scan_advance:
  "close_scan e cfg now al c = (toClose, al', c') \<Longrightarrow> all_advance cfg (al, db c) (al', db c')"
proof (induction al arbitrary: c toClose al' c')
  case Nil
  then show ?case by (simp add: all_advance_def)
next
  case (Cons a rest)
  obtain k s where a: "a = (k, s)" by fastforce
  obtain b s1 c1 where s1: "close_check e cfg now s c = (b, s1, c1)" by (rule prod_cases3)
  obtain tc rest1 c2 where r: "close_scan e cfg now rest c1 = (tc, rest1, c2)" by (rule prod_cases3)
  have "al' = (k, s1) # rest1" "c' = c2" using Cons.prems a s1 r by (auto simp: Let_def)
  then show ?case using all_advance_Cons[OF close_check_copies[OF s1]] Cons.IH[OF r] a by blast
qed

lemma all_advance_keys:
  assumes "all_advance cfg (al, fs) (al', fs')"
  shows "map fst al' = map fst al"
proof -
  have "list_all2 (\<lambda>(k, s) (k', s'). k' = k) al al'"
    using assms by (auto simp: all_advance_def elim!: list_all2_mono)
  then show ?thesis by (induction rule: list_all2_induct) auto
qed

lemma all_advance_ok:
  assumes "all_advance cfg (al, fs) (al', fs')" "list_all (stream_ok cfg) al"
  shows "list_all (stream_ok cfg) al'"
  using assms unfolding all_advance_def
  by (auto simp: list_all_length list_all2_conv_all_nth split: prod.splits)
    (metis advances_ok prod.collapse)

lemma all_advance_at:
  assumes "all_advance cfg (al, fs) (al', fs')"
  shows "streams_at cfg dir al' = streams_at cfg dir al"
proof -
  have "list_all2 (\<lambda>(k, s) (k', s'). source_dir cfg s' = source_dir cfg s) al al'"
    using assms by (auto simp: all_advance_def advances_fields elim!: list_all2_mono)
  then show ?thesis unfolding streams_at_def
    by (induction rule: list_all2_induct) auto
qed

section \<open>Every step keeps the streams well formed\<close>

lemma streams_wf_advance:
  assumes wf: "streams_wf cfg svc" and a: "all_advance cfg (sv_streams svc, fs) (al, fs')"
  shows "streams_wf cfg (svc\<lparr>sv_streams := al\<rparr>)"
  using wf all_advance_keys[OF a] all_advance_ok[OF a] all_advance_at[OF a]
  by (simp add: streams_wf_def watch_ok_def)

lemma watch_event_streams:
  assumes "watch_event e cfg now dir name (svc, c) = (svc', c')"
  shows "\<exists>al. svc' = svc\<lparr>sv_streams := al\<rparr> \<and> all_advance cfg (sv_streams svc, db c) (al, db c')"
proof (cases "frame_second name")
  case None
  with assms have "svc' = svc\<lparr>sv_streams := sv_streams svc\<rparr>" "c' = c" by (auto simp: watch_event_def)
  moreover have "all_advance cfg (al, fs) (al, fs)" for al fs
    by (auto simp: all_advance_def intro!: list_all2_refl)
  ultimately show ?thesis by metis
next
  case (Some ts)
  obtain al c1 where w: "watch_streams e cfg now dir name ts (sv_streams svc) c = (al, c1)" by (metis surj_pair)
  with assms Some have "svc' = svc\<lparr>sv_streams := al\<rparr>" "c' = c1" by (auto simp: watch_event_def)
  with watch_streams_advance[OF Some w] show ?thesis by blast
qed

lemma close_one_wf:
  assumes "streams_wf cfg svc"
  shows "streams_wf cfg (close_one cfg key svc)"
proof (cases "map_of (sv_streams svc) key")
  case None
  with assms show ?thesis by (simp add: close_one_def)
next
  case (Some s)
  have u: "svc\<lparr>sv_streams := al\<rparr> = svc\<lparr>sv_waitingForEnd := sv_waitingForEnd svc, sv_streams := al\<rparr>" for al
    by simp
  have "watch_ok cfg (releaseWatchedLocked cfg (ss_CameraName s) (svc\<lparr>sv_streams := AList.delete key (sv_streams svc)\<rparr>))"
    by (subst u, rule release_watch_ok) (use assms Some in \<open>auto simp: streams_wf_def\<close>)
  with assms Some show ?thesis
    by (simp add: close_one_def Let_def streams_wf_def watch_ok_def list_all_delete distinct_delete)
qed

lemma close_fold_wf: "streams_wf cfg svc \<Longrightarrow> streams_wf cfg (fold (close_one cfg) keys svc)"
  by (induction keys arbitrary: svc) (auto intro: close_one_wf)

lemma closeCompleted_wf:
  assumes "streams_wf cfg (fst st)"
  shows "streams_wf cfg (fst (closeCompletedStreams e cfg now st))"
proof -
  obtain svc c where st: "st = (svc, c)" by fastforce
  obtain tc al c1 where s: "close_scan e cfg now (sv_streams svc) c = (tc, al, c1)" by (rule prod_cases3)
  show ?thesis
    using close_fold_wf[OF streams_wf_advance[OF _ close_scan_advance[OF s]]] assms st s
    by (simp add: closeCompletedStreams_def)
qed

lemma expire_one_wf:
  assumes wf: "streams_wf cfg (fst st)" and w: "waiting_ok entry"
  shows "streams_wf cfg (fst (expire_one e cfg now entry st))"
proof -
  obtain svc c where st: "st = (svc, c)" by fastforce
  obtain i ev where en: "entry = (i, ev)" by fastforce
  let ?key = "cameraKey (we_CameraName ev) (we_DetectionType ev)"
  let ?W = "AList.delete i (sv_waitingForEnd svc)"
  have wf1: "streams_wf cfg (svc\<lparr>sv_waitingForEnd := ?W\<rparr>)"
    using wf st by (simp add: streams_wf_def watch_ok_def list_all_delete)
  show ?thesis
  proof (cases "map_of (sv_streams svc) ?key")
    case None
    with wf wf1 st en show ?thesis by (simp add: expire_one_def Let_def)
  next
    case (Some s)
    have ok: "stream_ok cfg (?key, s)"
      using map_of_list_all[OF _ Some] wf st by (auto simp: streams_wf_def)
    have pl: "plain_name (ss_CameraName s)" "?key = cameraKey (ss_CameraName s) (ss_DetectionType s)"
      using ok by (simp_all add: stream_ok_def)
    have "plain_name (we_CameraName ev)" using w en by (simp add: waiting_ok_def)
    from cameraKey_inj[OF this pl] have cam: "ss_CameraName s = we_CameraName ev" by simp
    have "watch_ok cfg (releaseWatchedLocked cfg (ss_CameraName s)
        (svc\<lparr>sv_waitingForEnd := ?W, sv_streams := AList.delete ?key (sv_streams svc)\<rparr>))"
      by (rule release_watch_ok) (use wf Some st in \<open>auto simp: streams_wf_def\<close>)
    then have "streams_wf cfg (releaseWatchedLocked cfg (we_CameraName ev)
        (svc\<lparr>sv_waitingForEnd := ?W, sv_streams := AList.delete ?key (sv_streams svc)\<rparr>))"
      using wf st cam by (simp add: streams_wf_def list_all_delete distinct_delete)
    with Some wf wf1 st en show ?thesis by (simp add: expire_one_def Let_def)
  qed
qed

lemma expire_wf:
  assumes "streams_wf cfg (fst st)"
  shows "streams_wf cfg (fst (expireWaitingForEnd e cfg now st))"
proof -
  have "list_all waiting_ok W \<Longrightarrow> streams_wf cfg (fst st) \<Longrightarrow> streams_wf cfg (fst (fold (expire_one e cfg now) W st))" for W st
  proof (induction W arbitrary: st)
    case (Cons a W)
    then show ?case using expire_one_wf[of cfg st a e now] by simp
  qed simp
  from this[of "sv_waitingForEnd (fst st)" st] assms show ?thesis
    by (cases st) (simp add: expireWaitingForEnd_def streams_wf_def)
qed

text \<open>An event: the stream it starts, or the one it is merged into.\<close>

lemma smart_messageD:
  assumes "smart_message um msg = Some (cam, det, ev)"
  shows "0 < se_Start ev" "in_i64 (se_Start ev)" "se_ID ev \<noteq> []"
proof -
  have d: "decode_smart_event um (m_value msg) = Some ev" and g: "\<not> (se_ID ev = [] \<or> se_Start ev \<le> 0)"
    using assms by (auto simp: smart_message_def split: option.splits if_splits)
  have r: "int_member m k = Some n \<Longrightarrow> in_i64 n" for m k n
    by (auto simp: int_member_def in_i64_def split: option.splits json.splits if_splits)
  from d r show "in_i64 (se_Start ev)" by (auto simp: decode_smart_event_def split: option.splits)
  from g show "0 < se_Start ev" "se_ID ev \<noteq> []" by auto
qed

lemma migrate_ok:
  assumes m: "migrate e cfg now cam det ev (s, c) = (s', c')" and ok: "stream_ok cfg (key, s)"
    and key: "key = cameraKey cam det" "plain_name cam" "plain_name det"
    and ev: "0 < se_Start ev" "in_i64 (se_Start ev)" and cfg: "window_config cfg"
  shows "stream_ok cfg (key, s')" "source_dir cfg s' = source_dir cfg s"
proof -
  have cd: "ss_CameraName s = cam" "ss_DetectionType s = det"
  proof -
    have k: "plain_name (ss_CameraName s)" "cameraKey (ss_CameraName s) (ss_DetectionType s) = cameraKey cam det"
      using ok key(1) by (simp_all add: stream_ok_def)
    from cameraKey_inj[OF k(1) key(2) k(2)]
    show "ss_CameraName s = cam" "ss_DetectionType s = det" by simp_all
  qed
  let ?s = "s\<lparr>ss_StartMs := se_Start ev, ss_ArchiveBase := archiveBase cfg cam det (se_Start ev)\<rparr>"
  have early: "stream_ok cfg (key, ?s)" if "se_Start ev < ss_StartMs s"
  proof -
    have "from_sec cfg ?s \<le> from_sec cfg s"
      by (rule from_sec_earlier) (use that ev ok cfg in \<open>auto simp: stream_ok_def\<close>)
    with ok cd ev show ?thesis by (auto simp: stream_ok_def intro: order_trans)
  qed
  have adv: "advances cfg ?s (fst (catchUpLocked e cfg now ?s c1))" for c1
    using stream_copies_advances[OF catchUpLocked_copies, of e cfg now ?s c1] by (metis prod.collapse)
  have "s' = s \<or> se_Start ev < ss_StartMs s \<and> (\<exists>s1. advances cfg ?s s1 \<and> s' = s1)"
    using m adv advances_refl[of cfg ?s] by (auto simp: migrate_def Let_def split: if_splits prod.splits) (metis fst_conv)+
  then show "stream_ok cfg (key, s')" "source_dir cfg s' = source_dir cfg s"
    using ok early advances_ok advances_fields(9) by (auto simp: source_dir_def)
qed

lemma extend_end_ok:
  assumes "extend_end e cfg now ev (s, c) = (s', c')" and ok: "stream_ok cfg (key, s)"
  shows "stream_ok cfg (key, s')" "source_dir cfg s' = source_dir cfg s"
proof -
  let ?s = "s\<lparr>ss_EndMs := (if se_End ev > ss_EndMs s then se_End ev else ss_EndMs s),
      ss_CopyAfterUnix := (if copy_after cfg ev > ss_CopyAfterUnix s then copy_after cfg ev else ss_CopyAfterUnix s)\<rparr>"
  have ok1: "stream_ok cfg (key, ?s)" using ok by (simp add: stream_ok_def)
  have "s' = s \<or> advances cfg ?s s'"
    using assms(1) stream_copies_advances[OF catchUpLocked_copies[of e cfg now ?s c s' c']]
    by (simp add: extend_end_def split: if_splits)
  then show "stream_ok cfg (key, s')" "source_dir cfg s' = source_dir cfg s"
    using ok ok1 advances_ok advances_fields(9) by (auto simp: source_dir_def)
qed

lemma handle_smart_wf:
  assumes wf: "streams_wf cfg (fst st)" and cfg: "window_config cfg"
    and key: "plain_name cam" "plain_name det" and ev: "0 < se_Start ev" "in_i64 (se_Start ev)"
  shows "streams_wf cfg (fst (handle_smart e cfg now cam det ev st))"
proof -
  obtain svc c where st: "st = (svc, c)" by fastforce
  define svc0 where "svc0 = (if HasEnd ev then svc\<lparr>sv_waitingForEnd := AList.delete (se_ID ev) (sv_waitingForEnd svc)\<rparr> else svc)"
  have wf0: "streams_wf cfg svc0"
    using wf st by (simp add: svc0_def streams_wf_def watch_ok_def list_all_delete)
  let ?key = "cameraKey cam det"
  show ?thesis
  proof (cases "se_ID ev \<in> sv_done svc")
    case True
    with wf st show ?thesis by (simp add: handle_smart_def)
  next
    case new: False
    show ?thesis
    proof (cases "map_of (sv_streams svc0) ?key")
      case (Some s)
      obtain s1 c1 where s1: "migrate e cfg now cam det ev (s, c) = (s1, c1)" by (metis surj_pair)
      obtain s2 c2 where s2: "extend_end e cfg now ev (s1, c1) = (s2, c2)" by (metis surj_pair)
      let ?s' = "s2\<lparr>ss_EventIDs := ss_EventIDs s2 @ [se_ID ev]\<rparr>"
      have "stream_ok cfg (?key, s)"
        using map_of_list_all[OF _ Some] wf0 by (auto simp: streams_wf_def)
      note m = migrate_ok[OF s1 this refl key ev cfg]
      note x = extend_end_ok[OF s2 m(1)]
      have ok: "stream_ok cfg (?key, ?s')" using x(1) by (simp add: stream_ok_def)
      have src: "source_dir cfg ?s' = source_dir cfg s" using m(2) x(2) by (simp add: source_dir_def)
      have "fst (handle_smart e cfg now cam det ev st) = svc0\<lparr>sv_streams := AList.update ?key ?s' (sv_streams svc0)\<rparr>"
        using new Some st s1 s2 by (simp add: handle_smart_def merge_event_def Let_def svc0_def[symmetric])
      with wf0 ok streams_at_update[OF Some src] show ?thesis
        by (simp add: streams_wf_def watch_ok_def list_all_update distinct_update)
    next
      case None
      let ?s = "new_session cfg cam det ev"
      obtain r c1 where x: "exec_stmt e (\<lambda>fs. Inr (mkdir_all (ss_ArchiveBase ?s) fs)) c = (r, c1)" by (metis surj_pair)
      obtain svc1 c2 where w: "ensureWatchedLocked e cfg cam (svc0, c1) = (svc1, c2)" by (metis surj_pair)
      obtain s1 c3 where u: "catchUpLocked e cfg now ?s c2 = (s1, c3)" by (metis surj_pair)
      have "stream_ok cfg (?key, ?s)" using key ev by (simp add: stream_ok_def new_session_def)
      then have ok: "stream_ok cfg (?key, s1)"
        by (rule advances_ok[OF stream_copies_advances[OF catchUpLocked_copies[OF u]]])
      have cam1: "ss_CameraName s1 = cam"
        using advances_fields(1)[OF stream_copies_advances[OF catchUpLocked_copies[OF u]]] by (simp add: new_session_def)
      define W where "W = sv_waitingForEnd (fst (handle_smart e cfg now cam det ev st))"
      have h: "fst (handle_smart e cfg now cam det ev st) = svc0
        \<or> fst (handle_smart e cfg now cam det ev st)
            = svc1\<lparr>sv_streams := AList.update ?key s1 (sv_streams svc1), sv_waitingForEnd := W\<rparr>"
        using new None st x w u unfolding W_def
        by (cases r) (simp_all add: handle_smart_def new_stream_def Let_def svc0_def[symmetric])
      have "list_all waiting_ok W"
        using new None st x w u wf0 key ensureWatched_frame[OF w] unfolding W_def
        by (cases r) (auto simp: handle_smart_def new_stream_def Let_def svc0_def[symmetric] streams_wf_def
            waiting_ok_def intro!: list_all_update)
      moreover have "watch_ok cfg (svc1\<lparr>sv_streams := AList.update ?key s1 (sv_streams svc1), sv_waitingForEnd := W\<rparr>)"
        by (rule ensure_watch_ok[OF _ None]) (use wf0 w cam1 in \<open>auto simp: streams_wf_def\<close>)
      ultimately show ?thesis
        using h wf0 ok ensureWatched_frame[OF w]
        by (auto simp: streams_wf_def list_all_update distinct_update)
    qed
  qed
qed


definition plain_in :: "archive_config \<Rightarrow> smart_op \<Rightarrow> smart_state \<Rightarrow> bool" where
  "plain_in cfg op st \<longleftrightarrow> window_config cfg \<and> plain_op op st"

lemma smart_apply_wf:
  assumes wf: "streams_wf cfg (fst st)" and ok: "plain_in cfg op st"
  shows "streams_wf cfg (fst (smart_apply cfg op st))"
proof (cases op)
  case (Message e um now msg)
  show ?thesis
  proof (cases "smart_message um msg")
    case None
    with wf Message show ?thesis by (simp add: smart_processMessage_def)
  next
    case (Some m)
    obtain cam det ev where m: "m = (cam, det, ev)" by (rule prod_cases3)
    show ?thesis
      using handle_smart_wf[OF wf] smart_messageD[OF Some[unfolded m]] ok Message Some m
      by (simp add: plain_in_def plain_op_def smart_processMessage_def)
  qed
next
  case (Watch e now dir name)
  obtain svc c where st: "st = (svc, c)" by fastforce
  obtain svc' c' where r: "watch_event e cfg now dir name (svc, c) = (svc', c')" by (metis surj_pair)
  from watch_event_streams[OF r] st Watch r streams_wf_advance wf show ?thesis by auto
qed (use wf expire_wf closeCompleted_wf in \<open>(cases st; simp)+\<close>)

interpretation wf_guard: smart_guard cfg "plain_in cfg" "\<lambda>st. streams_wf cfg (fst st)" for cfg
  by unfold_locales (rule smart_apply_wf)

lemma New_wf: "streams_wf cfg (smart_New w)"
  by (simp add: streams_wf_def smart_New_def watch_ok_def watch_count_def streams_at_def)

lemma run_wf:
  assumes run: "smart_run plain_op cfg ops (smart_New w, c) = Some (svc, c')" and cfg: "window_config cfg"
  shows "streams_wf cfg svc"
proof -
  have "smart_run (plain_in cfg) cfg ops (smart_New w, c) = Some (svc, c')"
    using run by (rule smart_run_weaken) (simp add: plain_in_def cfg)
  from wf_guard.run_keeps[OF this] show ?thesis by (simp add: New_wf)
qed

text \<open>
  In every run with plain names there is at most one stream per camera and kind of detection, under the
  key of its names; its directory is the one of its names and its start, and no second before its window
  counts as copied.  A source directory is watched exactly when its count is positive, and the count is
  never more than the streams of that directory.
\<close>

theorem streams_stay_wf:
  assumes "smart_run plain_op cfg ops (smart_New w, c) = Some (svc, c')" and "window_config cfg"
  shows "streams_wf cfg svc"
  using assms by (rule run_wf)

section \<open>A stream that is never finished\<close>

declare map_of_eq_Some_iff [simp del] Some_eq_map_of_iff [simp del]

lemma all_advance_map_of:
  assumes "all_advance cfg (al, fs) (al', fs')" "map_of al k = Some s"
  shows "\<exists>s'. map_of al' k = Some s' \<and> advances cfg s s'"
proof -
  have "list_all2 (\<lambda>(k, s) (k', s'). k' = k \<and> advances cfg s s') al al'"
    using assms(1) by (auto simp: all_advance_def elim!: list_all2_mono)
  then show ?thesis using assms(2)
    by (induction rule: list_all2_induct) (auto split: if_splits)
qed

lemma close_check_open: "ss_EndMs s = 0 \<Longrightarrow> close_check e cfg now s c = (False, s, c)"
  by (simp add: close_check_def)

lemma close_scan_closes:
  "close_scan e cfg now al c = (toClose, al', c') \<Longrightarrow> k \<in> set toClose \<Longrightarrow> \<exists>s. (k, s) \<in> set al \<and> ss_EndMs s \<noteq> 0"
proof (induction al arbitrary: c toClose al' c')
  case (Cons a rest)
  obtain k' s where a: "a = (k', s)" by fastforce
  obtain b s1 c1 where s1: "close_check e cfg now s c = (b, s1, c1)" by (rule prod_cases3)
  obtain tc rest1 c2 where r: "close_scan e cfg now rest c1 = (tc, rest1, c2)" by (rule prod_cases3)
  have t: "toClose = (if b then k' # tc else tc)" using Cons.prems(1) a s1 r by (auto simp: Let_def)
  show ?case
  proof (cases "b \<and> k = k'")
    case True
    then have "ss_EndMs s \<noteq> 0" using s1 close_check_open[of s e cfg now c] by auto
    with True a show ?thesis by auto
  next
    case False
    with t Cons.prems(2) have "k \<in> set tc" by (auto split: if_splits)
    from Cons.IH[OF r this] a show ?thesis by auto
  qed
qed simp

lemma close_one_streams:
  "sv_streams (close_one cfg key svc) = AList.delete key (sv_streams svc)"
proof (cases "map_of (sv_streams svc) key")
  case None
  then have "key \<notin> fst ` set (sv_streams svc)" by (simp add: map_of_eq_None_iff)
  with None show ?thesis by (simp add: close_one_def delete_absent)
next
  case (Some s)
  then show ?thesis by (simp add: close_one_def Let_def)
qed

lemma close_fold_streams:
  "map_of (sv_streams (fold (close_one cfg) keys svc)) k = (if k \<in> set keys then None else map_of (sv_streams svc) k)"
  by (induction keys arbitrary: svc) (auto simp: close_one_streams delete_conv')

definition quiet_op :: "smart_op \<Rightarrow> smart_state \<Rightarrow> bool" where
  "quiet_op op st = (case op of Message e um now msg \<Rightarrow> False | _ \<Rightarrow> True)"

definition stays_open :: "string \<Rightarrow> smart_state \<Rightarrow> bool" where
  "stays_open key st \<longleftrightarrow> distinct (map fst (sv_streams (fst st)))
     \<and> (\<exists>s. map_of (sv_streams (fst st)) key = Some s \<and> ss_EndMs s = 0 \<and> 2 \<le> length (ss_EventIDs s))"

lemma stays_open_advance:
  assumes "stays_open key (svc, c)" "all_advance cfg (sv_streams svc, fs) (al, fs')"
  shows "stays_open key (svc\<lparr>sv_streams := al\<rparr>, c')"
proof -
  obtain s where s: "map_of (sv_streams svc) key = Some s" "ss_EndMs s = 0" "2 \<le> length (ss_EventIDs s)"
    and d: "distinct (map fst (sv_streams svc))"
    using assms(1) by (auto simp: stays_open_def)
  obtain s' where "map_of al key = Some s'" "advances cfg s s'" using all_advance_map_of[OF assms(2) s(1)] by blast
  then show ?thesis using s d all_advance_keys[OF assms(2)] advances_fields(4,7) by (simp add: stays_open_def)
qed

lemma expire_one_open:
  assumes "stays_open key st"
  shows "stays_open key (expire_one e cfg now entry st)"
proof -
  obtain svc c where st: "st = (svc, c)" by fastforce
  obtain i ev where en: "entry = (i, ev)" by fastforce
  from assms st en show ?thesis
    by (auto simp: stays_open_def expire_one_def Let_def delete_conv' distinct_delete split: option.splits)
qed

lemma quiet_keeps_open:
  assumes o: "stays_open key st" and q: "quiet_op op st"
  shows "stays_open key (smart_apply cfg op st)"
proof -
  obtain svc c where st: "st = (svc, c)" by fastforce
  show ?thesis
  proof (cases op)
    case (Watch e now dir name)
    obtain svc' c' where r: "watch_event e cfg now dir name (svc, c) = (svc', c')" by (metis surj_pair)
    from watch_event_streams[OF r] st Watch r o stays_open_advance show ?thesis by fastforce
  next
    case (Expire e now)
    have "stays_open key st \<Longrightarrow> stays_open key (fold (expire_one e cfg now) W st)" for W st
    proof (induction W arbitrary: st)
      case (Cons a W)
      then show ?case using expire_one_open[of key st] by simp
    qed simp
    with o st Expire show ?thesis by (simp add: expireWaitingForEnd_def)
  next
    case (Finish e now)
    obtain tc al c1 where s: "close_scan e cfg now (sv_streams svc) c = (tc, al, c1)" by (rule prod_cases3)
    note adv = close_scan_advance[OF s]
    obtain s0 where s0: "map_of (sv_streams svc) key = Some s0" "ss_EndMs s0 = 0" "distinct (map fst (sv_streams svc))"
      using o st by (auto simp: stays_open_def)
    have "key \<notin> set tc"
    proof
      assume "key \<in> set tc"
      from close_scan_closes[OF s this] obtain s' where "(key, s') \<in> set (sv_streams svc)" "ss_EndMs s' \<noteq> 0" by blast
      with s0 show False by (auto simp: map_of_eq_Some_iff)
    qed
    moreover have "stays_open key (svc\<lparr>sv_streams := al\<rparr>, c1)" using stays_open_advance[OF _ adv] o st by simp
    moreover have "distinct (map fst (sv_streams (fold (close_one cfg) tc (svc\<lparr>sv_streams := al\<rparr>))))"
    proof -
      have "distinct (map fst (sv_streams v)) \<Longrightarrow> distinct (map fst (sv_streams (fold (close_one cfg) ks v)))" for ks v
        by (induction ks arbitrary: v) (auto simp: close_one_streams distinct_delete)
      with all_advance_keys[OF adv] s0(3) show ?thesis by simp
    qed
    ultimately show ?thesis using st Finish s
      by (simp add: closeCompletedStreams_def stays_open_def close_fold_streams)
  qed (use o q st in \<open>simp_all add: quiet_op_def stays_open_def\<close>)
qed

interpretation open_guard: smart_guard cfg quiet_op "stays_open key" for cfg key
  by unfold_locales (rule quiet_keeps_open)

text \<open>
  C30: When a stream without an end gets a second message that has no end either, it is never closed or
  expired while no further message comes, however much time passes: the time-out for events without an
  end only removes streams of a single message.
\<close>

theorem merged_start_never_expires:
  assumes run: "smart_run plain_op cfg ops (smart_New w, c0) = Some (svc, c)" and cfg: "window_config cfg"
    and old: "map_of (sv_streams svc) (cameraKey cam det) = Some s" "ss_EndMs s = 0"
    and ev: "se_End ev = 0" "se_ID ev \<notin> sv_done svc"
    and quiet: "smart_run quiet_op cfg ops' (handle_smart e cfg now cam det ev (svc, c)) = Some (svc', c')"
  shows "\<exists>s'. map_of (sv_streams svc') (cameraKey cam det) = Some s' \<and> ss_EndMs s' = 0"
proof -
  note wf = run_wf[OF run cfg]
  obtain s1 c1 where m: "migrate e cfg now cam det ev (s, c) = (s1, c1)" by (metis surj_pair)
  have "ss_EndMs s1 = 0 \<and> ss_EventIDs s1 = ss_EventIDs s"
    using m old(2) stream_copies_fields[OF catchUpLocked_copies] 
    by (auto simp: migrate_def Let_def split: if_splits prod.splits)
  moreover have "ss_EventIDs s \<noteq> []"
    using map_of_list_all[where P="stream_ok cfg", OF _ old(1)] wf by (simp add: streams_wf_def stream_ok_def)
  then have "1 \<le> length (ss_EventIDs s)" by (cases "ss_EventIDs s") auto
  ultimately have "stays_open (cameraKey cam det) (handle_smart e cfg now cam det ev (svc, c))"
    using wf m old(1) ev
    by (simp add: stays_open_def handle_smart_def HasEnd_def merge_event_def extend_end_def Let_def streams_wf_def
        update_conv' distinct_update)
  from open_guard.run_keeps[OF quiet this] show ?thesis by (auto simp: stays_open_def)
qed

end
