(* ===== verification/Uf_Frames.thy ===== *)
theory Uf_Frames
  imports Uf_Streams
begin

text \<open>
  Which frames the archive of \<open>Uf_Archive\<close> holds: what counts as copied is there as long as the start of a
  stream does not move, a start that moves loses the frames copied before, a stream that is closed has been
  looked through once more, and the retention pass removes exactly the directories that are old.
\<close>

section \<open>The directory of a stream\<close>

lemma itoa_plain: "itoa n \<notin> {[], ''.'', ''..''}" "CHR ''/'' \<notin> set (itoa n)"
proof -
  have "CHR ''.'' \<notin> set (itoa n)" "CHR ''/'' \<notin> set (itoa n)"
    using itoa_chars[of "CHR ''.''" n] itoa_chars[of "CHR ''/''" n] by (auto simp: is_digit_def)
  then show "itoa n \<notin> {[], ''.'', ''..''}" "CHR ''/'' \<notin> set (itoa n)" by auto
qed

definition archive_depth :: "archive_config \<Rightarrow> nat" where
  "archive_depth cfg = length (path_join (ac_ArchiveDir cfg) [''smart'']) + 3"

lemma clean_steps_plain:
  assumes "list_all (\<lambda>p. p \<notin> {[], ''.'', ''..''}) ps"
  shows "clean_steps acc ps = rev acc @ ps"
  using assms by (induction ps arbitrary: acc) auto

lemma path_join_elems:
  assumes "list_all (\<lambda>p. p \<notin> {[], ''.'', ''..''} \<and> CHR ''/'' \<notin> set p) ps"
  shows "path_join dir ps = dir @ ps"
proof -
  have "concat (map (split_on CHR ''/'') ps) = ps"
    using assms by (induction ps) (auto simp: split_on_notin)
  with assms show ?thesis
    by (simp add: path_join_def) (subst clean_steps_plain, auto simp: list_all_iff)
qed

lemma archiveBase_plain:
  assumes "plain_name cam" "plain_name det"
  shows "archiveBase cfg cam det start = ac_ArchiveDir cfg @ [''smart'', det, cam, itoa (go_div start 1000)]"
  unfolding archiveBase_def
  by (rule path_join_elems) (use assms itoa_plain in \<open>auto simp: plain_name_def\<close>)

lemma smart_dir: "path_join (ac_ArchiveDir cfg) [''smart''] = ac_ArchiveDir cfg @ [''smart'']"
  by (rule path_join_elems) simp

lemma stream_ok_base:
  assumes "stream_ok cfg (k, s)"
  shows "ss_ArchiveBase s = ac_ArchiveDir cfg
           @ [''smart'', ss_DetectionType s, ss_CameraName s, itoa (go_div (ss_StartMs s) 1000)]"
    "length (ss_ArchiveBase s) = archive_depth cfg"
  using assms archiveBase_plain by (simp_all add: stream_ok_def archive_depth_def smart_dir)

text \<open>Different streams have different directories, none inside the other.\<close>

lemma bases_differ:
  assumes "stream_ok cfg (k, s)" "stream_ok cfg (k', s')" "ss_ArchiveBase s = ss_ArchiveBase s'"
  shows "k = k'"
  using assms stream_ok_base(1)[OF assms(1)] stream_ok_base(1)[OF assms(2)] by (simp add: stream_ok_def)

lemma has_prefix_same_length: "length p = length q \<Longrightarrow> has_prefix (p @ r) q \<longleftrightarrow> p = q"
  by (auto simp: has_prefix_def)

section \<open>What counts as copied is in the archive\<close>

text \<open>
  A steady run: the names are plain, no message moves the directory of a stream, and the retention pass
  finds no directory of an open stream old.
\<close>

definition steady_op :: "archive_config \<Rightarrow> smart_op \<Rightarrow> smart_state \<Rightarrow> bool" where
  "steady_op cfg op st \<longleftrightarrow> plain_in cfg op st \<and>
     (case op of
        Message e um now msg \<Rightarrow>
          (case smart_message um msg of
             None \<Rightarrow> True
           | Some (cam, det, ev) \<Rightarrow>
               (case map_of (sv_streams (fst st)) (cameraKey cam det) of
                  None \<Rightarrow> True
                | Some s \<Rightarrow> go_div (ss_StartMs s) 1000 \<le> go_div (se_Start ev) 1000))
      | Retain e mtime now \<Rightarrow>
          list_all (\<lambda>(k, s). case mtime (ss_ArchiveBase s) of None \<Rightarrow> True | Some t \<Rightarrow> retention_cutoff cfg now \<le> t)
            (sv_streams (fst st))
      | _ \<Rightarrow> True)"

definition all_archived :: "archive_config \<Rightarrow> smart_state \<Rightarrow> bool" where
  "all_archived cfg st \<longleftrightarrow> streams_wf cfg (fst st)
     \<and> list_all (\<lambda>(k, s). archived (db (snd st)) s) (sv_streams (fst st))"

lemma archived_same_files: "fl_files fs' = fl_files fs \<Longrightarrow> archived fs' s = archived fs s"
  by (simp add: archived_def)

lemma all_advance_archived:
  assumes "all_advance cfg (al, fs) (al', fs')" "list_all (\<lambda>(k, s). archived fs s) al"
  shows "list_all (\<lambda>(k, s). archived fs' s) al'"
proof -
  have "list_all2 (\<lambda>(k, s) (k', s'). archived fs s \<longrightarrow> archived fs' s') al al'"
    using assms(1) by (auto simp: all_advance_def elim!: list_all2_mono)
  then show ?thesis using assms(2) by (induction rule: list_all2_induct) auto
qed

text \<open>Removing a directory of the depth of a stream's directory keeps the files of every other one.\<close>

lemma archived_remove:
  assumes "archived fs s" "length (ss_ArchiveBase s) = length p" "ss_ArchiveBase s \<noteq> p"
  shows "archived (remove_all p fs) s"
  using assms has_prefix_same_length[of "ss_ArchiveBase s" p] by (simp add: archived_def remove_all_def)

lemma exec_remove:
  assumes "exec_stmt e (\<lambda>fs. Inr (remove_all p fs)) c = (r, c')"
  shows "db c' = db c \<or> db c' = remove_all p (db c)"
  using assms by (rule exec_stmt_cases) auto

lemma expire_one_archived:
  assumes a: "all_archived cfg st" and w: "waiting_ok entry"
  shows "all_archived cfg (expire_one e cfg now entry st)"
proof -
  obtain svc c where st: "st = (svc, c)" by fastforce
  obtain i ev where en: "entry = (i, ev)" by fastforce
  let ?key = "cameraKey (we_CameraName ev) (we_DetectionType ev)"
  have wf: "streams_wf cfg svc" and ar: "list_all (\<lambda>(k, s). archived (db c) s) (sv_streams svc)"
    using a st by (simp_all add: all_archived_def)
  have wf': "streams_wf cfg (fst (expire_one e cfg now entry st))"
    using expire_one_wf w wf st by simp
  show ?thesis
  proof (cases "map_of (sv_streams svc) ?key")
    case None
    with wf' ar st en show ?thesis by (auto simp: all_archived_def expire_one_def Let_def)
  next
    case (Some s)
    let ?gone = "exec_stmt e (\<lambda>fs. Inr (remove_all (ss_ArchiveBase s) fs)) c"
    have ok: "stream_ok cfg (?key, s)" using map_of_list_all[OF _ Some] wf by (auto simp: streams_wf_def)
    have "archived (db (snd ?gone)) s'" if "(k', s') \<in> set (AList.delete ?key (sv_streams svc))" for k' s'
    proof -
      have m: "(k', s') \<in> set (sv_streams svc)" "k' \<noteq> ?key" using that by (auto simp: AList.delete_eq)
      have ok': "stream_ok cfg (k', s')" using m(1) wf by (auto simp: streams_wf_def list_all_iff)
      have "archived (db c) s'" using m(1) ar by (auto simp: list_all_iff)
      moreover have "ss_ArchiveBase s' \<noteq> ss_ArchiveBase s" using bases_differ[OF ok' ok] m(2) by blast
      ultimately have "archived (remove_all (ss_ArchiveBase s) (db c)) s'"
        using stream_ok_base(2)[OF ok] stream_ok_base(2)[OF ok'] by (intro archived_remove) simp_all
      then show ?thesis
        using \<open>archived (db c) s'\<close> exec_remove[of e "ss_ArchiveBase s" c "fst ?gone" "snd ?gone"] by auto
    qed
    then have "list_all (\<lambda>(k, s). archived (db (snd ?gone)) s) (AList.delete ?key (sv_streams svc))"
      by (auto simp: list_all_iff)
    with Some wf' ar st en show ?thesis by (auto simp: all_archived_def expire_one_def Let_def)
  qed
qed


lemma archived_list_grow:
  "files_grow B fs fs' \<Longrightarrow> list_all (\<lambda>(k, s). archived fs s) al \<Longrightarrow> list_all (\<lambda>(k, s). archived fs' s) al"
  using archived_grow by (auto simp: list_all_iff)

lemma catchUp_archived:
  "catchUpLocked e cfg now s c = (s', c') \<Longrightarrow> archived (db c) s \<Longrightarrow> archived (db c') s'"
  by (rule archived_copies[OF catchUpLocked_copies])

lemma merge_archived:
  assumes m: "merge_event e cfg now cam det ev s c = (s', c')" and ok: "stream_ok cfg (cameraKey cam det, s)"
    and key: "plain_name cam" and ev: "0 < se_Start ev" and late: "go_div (ss_StartMs s) 1000 \<le> go_div (se_Start ev) 1000"
    and a: "archived (db c) s"
  shows "archived (db c') s'" "\<exists>B. files_grow B (db c) (db c')"
proof -
  have cd: "ss_CameraName s = cam" "ss_DetectionType s = det"
    using cameraKey_inj[of "ss_CameraName s" cam "ss_DetectionType s" det] ok key by (auto simp: stream_ok_def)
  have same: "archiveBase cfg cam det (se_Start ev) = ss_ArchiveBase s" if "se_Start ev < ss_StartMs s"
  proof -
    have "go_div (se_Start ev) 1000 \<le> go_div (ss_StartMs s) 1000" using that by (intro go_div_mono) auto
    with late ok cd show ?thesis by (simp add: archiveBase_def stream_ok_def)
  qed
  define s1 where "s1 = (if se_Start ev < ss_StartMs s
    then s\<lparr>ss_StartMs := se_Start ev, ss_ArchiveBase := ss_ArchiveBase s\<rparr> else s)"
  have s1: "migrate e cfg now cam det ev (s, c) = (s1, c)" "archived (db c) s1"
    using a by (simp_all add: migrate_def Let_def same s1_def archived_def)
  obtain s2 c2 where s2: "extend_end e cfg now ev (s1, c) = (s2, c2)" by (metis surj_pair)
  let ?x = "s1\<lparr>ss_EndMs := (if se_End ev > ss_EndMs s1 then se_End ev else ss_EndMs s1),
      ss_CopyAfterUnix := (if copy_after cfg ev > ss_CopyAfterUnix s1 then copy_after cfg ev else ss_CopyAfterUnix s1)\<rparr>"
  have x: "(s2, c2) = (s1, c) \<or> catchUpLocked e cfg now ?x c = (s2, c2)"
    using s2 by (auto simp: extend_end_def split: if_splits)
  have "archived (db c) ?x" using s1(2) by (simp add: archived_def)
  then have "archived (db c2) s2" using x s1(2) catchUp_archived by blast
  moreover have "c' = c2" "s' = s2\<lparr>ss_EventIDs := ss_EventIDs s2 @ [se_ID ev]\<rparr>"
    using m s1 s2 by (auto simp: merge_event_def)
  ultimately show "archived (db c') s'" by (simp add: archived_def)
  show "\<exists>B. files_grow B (db c) (db c')"
    using x \<open>c' = c2\<close> stream_copies_fields(9)[OF catchUpLocked_copies] by blast
qed

lemma mkdir_all_files [simp]: "fl_files (mkdir_all p fs) = fl_files fs"
  by (simp add: mkdir_all_def)

lemma new_stream_archived:
  assumes n: "new_stream e cfg now cam det ev (svc, c) = (svc', c')"
    and a: "list_all (\<lambda>(k, s). archived (db c) s) (sv_streams svc)"
  shows "list_all (\<lambda>(k, s). archived (db c') s) (sv_streams svc')"
proof -
  let ?s = "new_session cfg cam det ev"
  obtain r c1 where x: "exec_stmt e (\<lambda>fs. Inr (mkdir_all (ss_ArchiveBase ?s) fs)) c = (r, c1)" by (metis surj_pair)
  obtain svc1 c2 where w: "ensureWatchedLocked e cfg cam (svc, c1) = (svc1, c2)" by (metis surj_pair)
  obtain s1 c3 where u: "catchUpLocked e cfg now ?s c2 = (s1, c3)" by (metis surj_pair)
  have f1: "fl_files (db c1) = fl_files (db c)" 
    using x exec_stmt_inv[of "\<lambda>fs. Inr (mkdir_all (ss_ArchiveBase ?s) fs)" c "\<lambda>d. fl_files d = fl_files (db c)" e]
    by simp
  have a1: "list_all (\<lambda>(k, s). archived (db c1) s) (sv_streams svc)"
    using a by (simp add: archived_same_files[OF f1])
  have "archived (db c2) ?s" by (simp add: archived_def new_session_def)
  from catchUp_archived[OF u this] have s1: "archived (db c3) s1" .
  have "list_all (\<lambda>(k, s). archived (db c3) s) (sv_streams svc)"
    using archived_list_grow[OF stream_copies_fields(9)[OF catchUpLocked_copies[OF u]]] a1 ensureWatched_frame(5)[OF w] by simp
  then have "list_all (\<lambda>(k, s). archived (db c3) s) (AList.update (cameraKey cam det) s1 (sv_streams svc))"
    using s1 by (intro list_all_update) simp_all
  moreover have "c' = (if r = None then c3 else c1) \<and> sv_streams svc' =
      (if r = None then AList.update (cameraKey cam det) s1 (sv_streams svc) else sv_streams svc)"
    using n x w u ensureWatched_frame(1)[OF w] by (cases r) (auto simp: new_stream_def Let_def)
  ultimately show ?thesis using a1 by (cases "r = None") simp_all
qed

lemma message_archived:
  assumes a: "all_archived cfg st" and ok: "steady_op cfg (Message e um now msg) st"
  shows "all_archived cfg (smart_processMessage e um cfg now msg st)"
proof -
  obtain svc c where st: "st = (svc, c)" by fastforce
  have wf: "streams_wf cfg svc" and ar: "list_all (\<lambda>(k, s). archived (db c) s) (sv_streams svc)"
    using a st by (simp_all add: all_archived_def)
  have wf': "streams_wf cfg (fst (smart_processMessage e um cfg now msg st))"
    using wf_guard.keeps[of cfg st "Message e um now msg"] ok wf st by (simp add: steady_op_def)
  show ?thesis
  proof (cases "smart_message um msg")
    case None
    with a show ?thesis by (simp add: smart_processMessage_def)
  next
    case (Some m)
    obtain cam det ev where m: "m = (cam, det, ev)" by (rule prod_cases3)
    note ev = smart_messageD[OF Some[unfolded m]]
    have plain: "plain_name cam" using ok Some m by (simp add: steady_op_def plain_in_def plain_op_def)
    define svc0 where "svc0 = (if HasEnd ev then svc\<lparr>sv_waitingForEnd := AList.delete (se_ID ev) (sv_waitingForEnd svc)\<rparr> else svc)"
    have s0: "sv_streams svc0 = sv_streams svc" by (simp add: svc0_def)
    have h: "smart_processMessage e um cfg now msg st = handle_smart e cfg now cam det ev (svc, c)"
      using Some m st by (simp add: smart_processMessage_def)
    have "list_all (\<lambda>(k, s). archived (db (snd (handle_smart e cfg now cam det ev (svc, c)))) s)
        (sv_streams (fst (handle_smart e cfg now cam det ev (svc, c))))"
    proof (cases "se_ID ev \<in> sv_done svc")
      case True
      with ar show ?thesis by (simp add: handle_smart_def)
    next
      case new: False
      show ?thesis
      proof (cases "map_of (sv_streams svc) (cameraKey cam det)")
        case None
        obtain svc' c' where n: "new_stream e cfg now cam det ev (svc0, c) = (svc', c')" by (metis surj_pair)
        from new_stream_archived[OF n] ar s0 have "list_all (\<lambda>(k, s). archived (db c') s) (sv_streams svc')" by simp
        with new None n s0 show ?thesis by (simp add: handle_smart_def svc0_def[symmetric])
      next
        case (Some s)
        obtain s' c' where g: "merge_event e cfg now cam det ev s c = (s', c')" by (metis surj_pair)
        have sok: "stream_ok cfg (cameraKey cam det, s)" using map_of_list_all[OF _ Some] wf by (auto simp: streams_wf_def)
        have "archived (db c) s" using map_of_list_all[OF ar Some] by simp
        moreover have "go_div (ss_StartMs s) 1000 \<le> go_div (se_Start ev) 1000"
          using ok \<open>smart_message um msg = Some m\<close> m Some st by (simp add: steady_op_def)
        ultimately have "archived (db c') s'" and "\<exists>B. files_grow B (db c) (db c')"
          using merge_archived[OF g sok plain ev(1)] by blast+
        with ar have "list_all (\<lambda>(k, s). archived (db c') s) (AList.update (cameraKey cam det) s' (sv_streams svc))"
          using archived_list_grow by (intro list_all_update) auto
        with new Some g s0 show ?thesis by (simp add: handle_smart_def svc0_def[symmetric])
      qed
    qed
    with h wf' show ?thesis by (simp add: all_archived_def)
  qed
qed

section \<open>Retention\<close>

lemma each_child_inv:
  assumes "J c" and "\<And>c' c''. J c' \<Longrightarrow> db c'' = db c' \<Longrightarrow> J c''" and "\<And>name c'. J c' \<Longrightarrow> J (visit (dir @ [name]) c')"
  shows "J (each_child e dir visit c)"
proof -
  obtain r c1 where q: "query_stmt e (child_dirs dir) c = (r, c1)" by (metis surj_pair)
  have c1: "J c1" using assms(2)[OF assms(1) query_stmt_dbD[OF q]] .
  have "J c' \<Longrightarrow> J (fold (\<lambda>name. visit (dir @ [name])) names c')" for names c'
    by (induction names arbitrary: c') (auto intro: assms(3))
  with q c1 show ?thesis by (simp add: each_child_def split: sum.splits)
qed

text \<open>What holds of the files and survives the removal of an old event directory survives the pass.\<close>

lemma retention_inv:
  assumes start: "J (db c)"
    and rem: "\<And>fs p t. J fs \<Longrightarrow> length p = archive_depth cfg \<Longrightarrow> has_prefix p (path_join (ac_ArchiveDir cfg) [''smart''])
        \<Longrightarrow> mtime p = Some t \<Longrightarrow> t < retention_cutoff cfg now \<Longrightarrow> J (remove_all p fs)"
  shows "J (db (runRetentionPass e cfg mtime now c))"
proof -
  let ?base = "path_join (ac_ArchiveDir cfg) [''smart'']"
  have one: "J (db (remove_old e mtime (retention_cutoff cfg now) (?base @ [a, b, x]) c'))"
    if j: "J (db c')" for a b x c'
  proof -
    let ?p = "?base @ [a, b, x]"
    have "J (remove_all ?p (db c'))" if "mtime ?p = Some t" "t < retention_cutoff cfg now" for t
      by (rule rem[OF j _ _ that]) (simp_all add: archive_depth_def has_prefix_iff)
    then show ?thesis
      using j exec_remove[of e ?p c' "fst (exec_stmt e (\<lambda>fs. Inr (remove_all ?p fs)) c')"
          "snd (exec_stmt e (\<lambda>fs. Inr (remove_all ?p fs)) c')"]
      by (auto simp: remove_old_def split: option.splits)
  qed
  have two: "J (db (removeOldEventDirsIn e mtime (retention_cutoff cfg now) (?base @ [a, b]) c'))"
    if "J (db c')" for a b c'
    unfolding removeOldEventDirsIn_def
    by (rule each_child_inv[where J="\<lambda>c. J (db c)"]) (use that one[of _ a b] in auto)
  have three: "J (db (removeOldEventDirs e mtime (retention_cutoff cfg now) (?base @ [a]) c'))"
    if "J (db c')" for a c'
    unfolding removeOldEventDirs_def
    by (rule each_child_inv[where J="\<lambda>c. J (db c)"]) (use that two[of _ a] in auto)
  show ?thesis
    unfolding runRetentionPass_def
    by (rule each_child_inv[where J="\<lambda>c. J (db c)"]) (use start three in auto)
qed


lemma archived_guard:
  assumes a: "all_archived cfg st" and ok: "steady_op cfg op st"
  shows "all_archived cfg (smart_apply cfg op st)"
proof -
  obtain svc c where st: "st = (svc, c)" by fastforce
  have wf: "streams_wf cfg svc" and ar: "list_all (\<lambda>(k, s). archived (db c) s) (sv_streams svc)"
    using a st by (simp_all add: all_archived_def)
  have wf': "streams_wf cfg (fst (smart_apply cfg op st))"
    using wf_guard.keeps[of cfg st op] ok wf st by (simp add: steady_op_def)
  show ?thesis
  proof (cases op)
    case (Message e um now msg)
    with message_archived a ok show ?thesis by simp
  next
    case (Watch e now dir name)
    obtain svc' c' where r: "watch_event e cfg now dir name (svc, c) = (svc', c')" by (metis surj_pair)
    obtain al where al: "svc' = svc\<lparr>sv_streams := al\<rparr>" "all_advance cfg (sv_streams svc, db c) (al, db c')"
      using watch_event_streams[OF r] by blast
    from all_advance_archived[OF al(2) ar] wf' al(1) r st Watch show ?thesis by (simp add: all_archived_def)
  next
    case (Expire e now)
    have "list_all waiting_ok W \<Longrightarrow> all_archived cfg st \<Longrightarrow> all_archived cfg (fold (expire_one e cfg now) W st)" for W st
    proof (induction W arbitrary: st)
      case (Cons x W)
      then show ?case using expire_one_archived[of cfg st x e now] by simp
    qed simp
    with a wf st Expire show ?thesis by (simp add: expireWaitingForEnd_def streams_wf_def)
  next
    case (Finish e now)
    obtain tc al c1 where s: "close_scan e cfg now (sv_streams svc) c = (tc, al, c1)" by (rule prod_cases3)
    have "list_all (\<lambda>(k, s). archived (db c1) s) (sv_streams v)
        \<Longrightarrow> list_all (\<lambda>(k, s). archived (db c1) s) (sv_streams (fold (close_one cfg) ks v))" for ks v
    proof (induction ks arbitrary: v)
      case (Cons k ks)
      then show ?case by (simp add: close_one_streams list_all_delete)
    qed simp
    from this[of "svc\<lparr>sv_streams := al\<rparr>" tc] all_advance_archived[OF close_scan_advance[OF s] ar] wf' st s Finish
    show ?thesis by (simp add: all_archived_def closeCompletedStreams_def)
  next
    case (Retain e mtime now)
    define J where "J fs \<longleftrightarrow> list_all (\<lambda>(k, s). archived fs s) (sv_streams svc)" for fs
    have "J (db (runRetentionPass e cfg mtime now c))"
    proof (rule retention_inv)
      show "J (db c)" using ar by (simp add: J_def)
    next
      fix fs p t assume j: "J fs" and p: "length p = archive_depth cfg" "mtime p = Some t" "t < retention_cutoff cfg now"
      have "archived (remove_all p fs) s" if m: "(k, s) \<in> set (sv_streams svc)" for k s
      proof (rule archived_remove)
        show "archived fs s" using j m by (auto simp: J_def list_all_iff)
        have "stream_ok cfg (k, s)" using m wf by (auto simp: streams_wf_def list_all_iff)
        from stream_ok_base(2)[OF this] show "length (ss_ArchiveBase s) = length p" using p(1) by simp
        have "case mtime (ss_ArchiveBase s) of None \<Rightarrow> True | Some t \<Rightarrow> retention_cutoff cfg now \<le> t"
          using ok Retain st m by (auto simp: steady_op_def list_all_iff)
        with p(2,3) show "ss_ArchiveBase s \<noteq> p" by auto
      qed
      then show "J (remove_all p fs)" by (auto simp: J_def list_all_iff)
    qed
    with wf Retain st show ?thesis by (simp add: all_archived_def J_def)
  next
    case (Camera src)
    have "archived ((db c)\<lparr>fl_source := src\<rparr>) = archived (db c)" by (simp add: archived_def fun_eq_iff)
    with a st Camera show ?thesis by (simp add: all_archived_def)
  qed
qed

interpretation archived_run: smart_guard cfg "steady_op cfg" "all_archived cfg" for cfg
  by unfold_locales (rule archived_guard)

text \<open>
  C31: As long as no message moves the start of an open stream and the retention pass does not find its
  directory old, every second that a stream counts as copied has its file in the directory of the
  stream, whatever copies, removals and look-ups fail.
\<close>

theorem copied_frames_are_archived:
  assumes "smart_run (steady_op cfg) cfg ops (smart_New w, c) = Some (svc, c')"
    and "map_of (sv_streams svc) key = Some s" and "ts \<in> ss_copied s"
  shows "\<exists>name bytes. frame_second name = Some ts \<and> fl_files (db c') (ss_ArchiveBase s @ [name]) = Some bytes"
proof -
  have "all_archived cfg (smart_New w, c)" using New_wf by (simp add: all_archived_def smart_New_def)
  from archived_run.run_keeps[OF assms(1) this]
  have "archived (db c') s" using map_of_list_all[OF _ assms(2), of "\<lambda>(k, s). archived (db c') s"] by (simp add: all_archived_def)
  with assms(3) show ?thesis by (auto simp: archived_def)
qed

section \<open>A start that moves\<close>

lemma catchUp_skips:
  assumes "catchUpLocked e cfg now s c = (s', c')" and "ts \<in> ss_copied s" and "frame_second name = Some ts"
  shows "fl_files (db c') (ss_ArchiveBase s @ [name]) = fl_files (db c) (ss_ArchiveBase s @ [name])"
proof (rule ccontr)
  assume "\<not> ?thesis"
  with catchUpLocked_copies[OF assms(1)] obtain name' ts' where
    "ss_ArchiveBase s @ [name] = ss_ArchiveBase s @ [name']" "frame_second name' = Some ts'" "ts' \<notin> ss_copied s"
    unfolding stream_copies_def by blast
  with assms(2,3) show False by simp
qed

text \<open>
  C32: A message with an earlier start moves an open stream to a new directory and removes the old one, but
  the seconds copied before still count as copied: with every call succeeding, none of these frames is
  in the archive any more, and no later look through the source directory copies it again.
\<close>

theorem earlier_start_loses_frames:
  assumes ok: "stream_ok cfg (cameraKey cam det, s)" and plain: "plain_name cam" "plain_name det"
    and old: "map_of (sv_streams svc) (cameraKey cam det) = Some s" "se_ID ev \<notin> sv_done svc" "ts \<in> ss_copied s"
    and early: "0 < se_Start ev" "go_div (se_Start ev) 1000 < go_div (ss_StartMs s) 1000" "se_End ev = 0"
    and fresh: "\<And>name. fl_files (db c) (archiveBase cfg cam det (se_Start ev) @ [name]) = None"
    and r: "handle_smart all_done cfg now cam det ev (svc, c) = (svc', c')"
  shows "\<exists>s'. map_of (sv_streams svc') (cameraKey cam det) = Some s'
     \<and> ss_ArchiveBase s' = archiveBase cfg cam det (se_Start ev) \<and> ts \<in> ss_copied s'
     \<and> (\<forall>name. frame_second name = Some ts \<longrightarrow>
          fl_files (db c') (ss_ArchiveBase s @ [name]) = None \<and> fl_files (db c') (ss_ArchiveBase s' @ [name]) = None
          \<and> (\<forall>e now' c2. fl_files (db (snd (catchUpLocked e cfg now' s' c2))) (ss_ArchiveBase s' @ [name])
                = fl_files (db c2) (ss_ArchiveBase s' @ [name])))"
proof -
  let ?new = "archiveBase cfg cam det (se_Start ev)"
  let ?s = "s\<lparr>ss_StartMs := se_Start ev, ss_ArchiveBase := ?new\<rparr>"
  have lt: "se_Start ev < ss_StartMs s"
    using early(2) go_div_mono[of "ss_StartMs s" "se_Start ev" 1000] by force
  have cd: "ss_CameraName s = cam" "ss_DetectionType s = det"
    using cameraKey_inj[of "ss_CameraName s" cam "ss_DetectionType s" det] ok plain by (auto simp: stream_ok_def)
  have moved: "ss_ArchiveBase s \<noteq> ?new"
  proof
    assume "ss_ArchiveBase s = ?new"
    then have "itoa (go_div (ss_StartMs s) 1000) = itoa (go_div (se_Start ev) 1000)"
      using stream_ok_base(1)[OF ok] cd archiveBase_plain[OF plain, of cfg "se_Start ev"] by simp
    with itoa_inj early(2) show False by fastforce
  qed
  have len: "length (ss_ArchiveBase s) = length ?new"
    using stream_ok_base(1)[OF ok] archiveBase_plain[OF plain, of cfg "se_Start ev"] by simp
  let ?c1 = "snd (exec_stmt all_done (\<lambda>fs. Inr (mkdir_all ?new fs)) c)"
  have c1: "fl_files (db ?c1) = fl_files (db c)" by (simp add: exec_stmt_done)
  obtain s1 c2 where u: "catchUpLocked all_done cfg now ?s ?c1 = (s1, c2)" by (metis surj_pair)
  let ?c3 = "snd (exec_stmt all_done (\<lambda>fs. Inr (remove_all (ss_ArchiveBase s) fs)) c2)"
  have c3: "db ?c3 = remove_all (ss_ArchiveBase s) (db c2)" by (simp add: exec_stmt_done)
  have m: "merge_event all_done cfg now cam det ev s c = (s1\<lparr>ss_EventIDs := ss_EventIDs s1 @ [se_ID ev]\<rparr>, ?c3)"
    using lt moved u early(3) by (simp add: merge_event_def migrate_def extend_end_def HasEnd_def Let_def)
  note f = stream_copies_fields[OF catchUpLocked_copies[OF u]]
  let ?s' = "s1\<lparr>ss_EventIDs := ss_EventIDs s1 @ [se_ID ev]\<rparr>"
  have base: "ss_ArchiveBase ?s' = ?new" using f(6) by simp
  have cop: "ts \<in> ss_copied ?s'" using f(8) old(3) by auto
  have st: "map_of (sv_streams svc') (cameraKey cam det) = Some ?s'" "c' = ?c3"
    using r old early(3) m by (auto simp: handle_smart_def HasEnd_def Let_def)
  have gone: "fl_files (db c') (ss_ArchiveBase s @ [name]) = None" for name
    using st(2) c3 by (simp add: remove_all_def)
  have none: "fl_files (db c') (?new @ [name]) = None" if n: "frame_second name = Some ts" for name
  proof -
    have "fl_files (db c2) (?new @ [name]) = None" using catchUp_skips[OF u _ n] old(3) c1 fresh by simp
    then show ?thesis using st(2) c3 by (simp add: remove_all_def)
  qed
  have skip: "fl_files (db (snd (catchUpLocked e cfg now' ?s' c2))) (ss_ArchiveBase ?s' @ [name])
      = fl_files (db c2) (ss_ArchiveBase ?s' @ [name])" if n: "frame_second name = Some ts" for e now' c2 name
    using catchUp_skips[of e cfg now' ?s' c2 _ _ ts name] cop n by (metis prod.collapse)
  show ?thesis
    by (intro exI[of _ ?s'] conjI allI impI) (use st(1) base cop gone none skip in \<open>auto simp del: fun_upd_apply\<close>)
qed


section \<open>Closing\<close>

lemma query_done: "query_stmt all_done q c = (q (db c), c\<lparr>calls := Suc (calls c)\<rparr>)"
  by (simp add: query_stmt_def next_outcome_def all_done_def)

lemma copyFile_done:
  assumes "open_source dir name (db c) = Inr (Some bytes)" and "butlast dst \<in> set (fl_dirs (db c))"
  shows "fst (copyFile all_done dir name dst c) = None"
  using assms by (simp add: copyFile_def query_done exec_stmt_done create_file_def)

lemma catch_up_entry_done:
  assumes n: "frame_second name = Some ts" "from_sec cfg s \<le> ts" "ts \<le> toSec"
    and o: "open_source dir name (db c) = Inr (Some bytes)" and b: "ss_ArchiveBase s \<in> set (fl_dirs (db c))"
    and r: "catch_up_entry all_done cfg toSec dir (name, Some bytes) (s, c) = (s', c')"
  shows "ts \<in> ss_copied s'"
proof -
  have "fst (copyFile all_done dir name (ss_ArchiveBase s @ [name]) c) = None"
    by (rule copyFile_done[OF o]) (simp add: b)
  then show ?thesis
    using n r by (auto simp: catch_up_entry_def copy_frame_def frame_path[OF n(1)] split: if_splits prod.splits option.splits)
qed

lemma catch_up_complete:
  assumes "fold (catch_up_entry all_done cfg toSec dir) es (s, c) = (s', c')"
    and "fl_source (db c) dir = Some entries" and "distinct (map fst entries)" and "set es \<subseteq> set entries"
    and "ss_ArchiveBase s \<in> set (fl_dirs (db c))"
    and "(name, Some bytes) \<in> set es" and "frame_second name = Some ts" "from_sec cfg s \<le> ts" "ts \<le> toSec"
  shows "ts \<in> ss_copied s'"
  using assms
proof (induction es arbitrary: s c)
  case (Cons a es)
  obtain s1 c1 where a: "catch_up_entry all_done cfg toSec dir a (s, c) = (s1, c1)" by (metis surj_pair)
  note cp = catch_up_entry_copies[OF a]
  note f = stream_copies_fields[OF cp]
  have rest: "fold (catch_up_entry all_done cfg toSec dir) es (s1, c1) = (s', c')" using Cons.prems(1) a by simp
  have adv: "from_sec cfg s1 = from_sec cfg s" using advances_fields(8)[OF stream_copies_advances[OF cp]] .
  show ?case
  proof (cases "a = (name, Some bytes)")
    case True
    have "map_of entries name = Some (Some bytes)"
      using Cons.prems(3,4) True by (simp add: map_of_eq_Some_iff)
    then have "open_source dir name (db c) = Inr (Some bytes)" using Cons.prems(2) by (simp add: open_source_def)
    from catch_up_entry_done[OF Cons.prems(7,8,9) this Cons.prems(5) a[unfolded True]]
    show ?thesis using stream_copies_fields(8)[OF catch_up_fold_copies[OF rest]] by blast
  next
    case False
    show ?thesis
    proof (rule Cons.IH[OF rest])
      show "fl_source (db c1) dir = Some entries" "ss_ArchiveBase s1 \<in> set (fl_dirs (db c1))"
        using f(6,9) Cons.prems(2,5) by (simp_all add: files_grow_def)
      show "(name, Some bytes) \<in> set es" using Cons.prems(6) False by auto
    qed (use Cons.prems adv in auto)
  qed
qed simp

definition other_bases :: "string \<Rightarrow> (string \<times> StreamSession) list \<Rightarrow> path set" where
  "other_bases k al = {ss_ArchiveBase s |k' s. (k', s) \<in> set al \<and> k' \<noteq> k}"

text \<open>The look at one stream within the look at all of them.\<close>

lemma close_scan_at:
  assumes "close_scan e cfg now al c = (toClose, al', c')" "distinct (map fst al)" "map_of al k = Some s"
  shows "\<exists>c1 b s1 c2. close_check e cfg now s c1 = (b, s1, c2) \<and> (k \<in> set toClose \<longleftrightarrow> b)
     \<and> map_of al' k = Some s1 \<and> files_grow (other_bases k al) (db c) (db c1)
     \<and> files_grow (other_bases k al) (db c2) (db c')"
  using assms
proof (induction al arbitrary: c toClose al' c')
  case (Cons a rest)
  obtain k' s' where a: "a = (k', s')" by fastforce
  obtain b s1 c1 where s1: "close_check e cfg now s' c = (b, s1, c1)" by (rule prod_cases3)
  obtain tc rest1 c2 where r: "close_scan e cfg now rest c1 = (tc, rest1, c2)" by (rule prod_cases3)
  have t: "toClose = (if b then k' # tc else tc)" "al' = (k', s1) # rest1" "c' = c2"
    using Cons.prems(1) a s1 r by (auto simp: Let_def)
  show ?case
  proof (cases "k' = k")
    case True
    have s: "s' = s" using Cons.prems(3) a True by simp
    have notin: "k \<notin> fst ` set rest" using Cons.prems(2) a True by auto
    have "k \<notin> set tc" using close_scan_closes[OF r] notin by force
    moreover have "files_grow (other_bases k (a # rest)) (db c1) (db c2)"
    proof (rule files_grow_mono)
      show "files_grow ((\<lambda>(k, s). ss_ArchiveBase s) ` set rest) (db c1) (db c2)"
        using close_scan_advance[OF r] by (simp add: all_advance_def)
      show "(\<lambda>(k, s). ss_ArchiveBase s) ` set rest \<subseteq> other_bases k (a # rest)"
        using notin by (force simp: other_bases_def)
    qed
    ultimately show ?thesis using s1 s t True
      by (intro exI[of _ c] exI[of _ b] exI[of _ s1] exI[of _ c1]) auto
  next
    case False
    have "distinct (map fst rest)" "map_of rest k = Some s" using Cons.prems(2,3) a False by auto
    from Cons.IH[OF r this] obtain c3 b3 s3 c4 where h: "close_check e cfg now s c3 = (b3, s3, c4)"
      "k \<in> set tc \<longleftrightarrow> b3" "map_of rest1 k = Some s3" "files_grow (other_bases k rest) (db c1) (db c3)"
      "files_grow (other_bases k rest) (db c4) (db c2)" by blast
    have sub: "other_bases k rest \<subseteq> other_bases k (a # rest)" by (auto simp: other_bases_def)
    have "files_grow {ss_ArchiveBase s'} (db c) (db c1)"
      using stream_copies_fields(9)[OF close_check_copies[OF s1]] .
    then have "files_grow (other_bases k (a # rest)) (db c) (db c1)"
      by (rule files_grow_mono) (use a False in \<open>auto simp: other_bases_def\<close>)
    then have "files_grow (other_bases k (a # rest)) (db c) (db c3)"
      using files_grow_mono[OF h(4) sub] files_grow_trans by blast
    with h t False files_grow_mono[OF h(5) sub] show ?thesis
      by (intro exI[of _ c3] exI[of _ b3] exI[of _ s3] exI[of _ c4]) auto
  qed
qed simp

lemma close_fold_done:
  assumes "k \<in> set keys" "map_of (sv_streams svc) k = Some s"
  shows "set (ss_EventIDs s) \<subseteq> sv_done (fold (close_one cfg) keys svc)"
proof -
  have mono: "sv_done v \<subseteq> sv_done (fold (close_one cfg) ks v)" for ks v
  proof (induction ks arbitrary: v)
    case (Cons x ks)
    have "sv_done v \<subseteq> sv_done (close_one cfg x v)" by (auto simp: close_one_def Let_def split: option.splits)
    with Cons[of "close_one cfg x v"] show ?case by simp
  qed simp
  show ?thesis using assms
  proof (induction keys arbitrary: svc)
    case (Cons x keys)
    show ?case
    proof (cases "x = k")
      case True
      with Cons.prems(2) have "set (ss_EventIDs s) \<subseteq> sv_done (close_one cfg x svc)" by (simp add: close_one_def Let_def)
      with mono[of "close_one cfg x svc" keys] show ?thesis by simp
    next
      case False
      with Cons show ?thesis by (simp add: close_one_streams delete_conv')
    qed
  qed simp
qed

text \<open>What closing a stream does, for its events and its frames.\<close>

lemma close_completes:
  assumes wf: "streams_wf cfg svc" and old: "map_of (sv_streams svc) key = Some s"
    and r: "closeCompletedStreams all_done cfg now (svc, c) = (svc', c')"
    and gone: "map_of (sv_streams svc') key = None"
    and dir: "ss_ArchiveBase s \<in> set (fl_dirs (db c))"
    and src: "fl_source (db c) (source_dir cfg s) = Some entries" "distinct (map fst entries)"
  shows "ss_EndMs s \<noteq> 0 \<and> ss_CopyAfterUnix s \<le> unix now \<and> set (ss_EventIDs s) \<subseteq> sv_done svc'
     \<and> (end_sec cfg s \<in> ss_copied s \<or>
        (\<forall>name bytes ts. (name, Some bytes) \<in> set entries \<longrightarrow> frame_second name = Some ts \<longrightarrow>
           from_sec cfg s \<le> ts \<longrightarrow> ts \<le> to_sec cfg 5 now s \<longrightarrow>
           ts \<in> ss_copied s \<or> (\<exists>name' bytes'. (name', Some bytes') \<in> set entries \<and> frame_second name' = Some ts
              \<and> fl_files (db c') (ss_ArchiveBase s @ [name']) = Some bytes')))"
proof -
  obtain tc al c0 where sc: "close_scan all_done cfg now (sv_streams svc) c = (tc, al, c0)" by (rule prod_cases3)
  have d: "distinct (map fst (sv_streams svc))" using wf by (simp add: streams_wf_def)
  obtain c1 b s1 c2 where h: "close_check all_done cfg now s c1 = (b, s1, c2)" "key \<in> set tc \<longleftrightarrow> b"
    "map_of al key = Some s1" "files_grow (other_bases key (sv_streams svc)) (db c) (db c1)"
    "files_grow (other_bases key (sv_streams svc)) (db c2) (db c0)"
    using close_scan_at[OF sc d old] by blast
  have svc': "svc' = fold (close_one cfg) tc (svc\<lparr>sv_streams := al\<rparr>)" "c' = c0"
    using r sc by (auto simp: closeCompletedStreams_def)
  have b: b using gone h(2,3) by (simp add: svc' close_fold_streams split: if_splits)
  note f = stream_copies_fields[OF close_check_copies[OF h(1)]]
  have "set (ss_EventIDs s) \<subseteq> sv_done svc'"
    using close_fold_done[of key tc "svc\<lparr>sv_streams := al\<rparr>" s1 cfg] h(2,3) b f(7) svc' by simp
  moreover have "ss_EndMs s \<noteq> 0 \<and> ss_CopyAfterUnix s \<le> unix now"
    using h(1) b by (auto simp: close_check_def Let_def split: if_splits)
  moreover have "ts \<in> ss_copied s \<or> (\<exists>name' bytes'. (name', Some bytes') \<in> set entries \<and> frame_second name' = Some ts
      \<and> fl_files (db c') (ss_ArchiveBase s @ [name']) = Some bytes')"
    if no: "end_sec cfg s \<notin> ss_copied s" and n: "(name, Some bytes) \<in> set entries" "frame_second name = Some ts"
      "from_sec cfg s \<le> ts" "ts \<le> to_sec cfg 5 now s" for name bytes ts
  proof -
    let ?dir = "path_join (ac_SourceDir cfg) [ss_CameraName s]"
    have src1: "fl_source (db c1) ?dir = Some entries" and dir1: "ss_ArchiveBase s \<in> set (fl_dirs (db c1))"
      using src(1) dir h(4) by (simp_all add: files_grow_def source_dir_def)
    obtain s2 c3 where u: "catchUpLocked all_done cfg now s c1 = (s2, c3)" by (metis surj_pair)
    have s2: "s1 = s2" "db c2 = db c3"
      using h(1) b no u \<open>ss_EndMs s \<noteq> 0 \<and> ss_CopyAfterUnix s \<le> unix now\<close>
      by (auto simp: close_check_def Let_def split: if_splits prod.splits dest!: query_stmt_dbD)
    have "fold (catch_up_entry all_done cfg (to_sec cfg 5 now s) ?dir) entries (s, c1\<lparr>calls := Suc (calls c1)\<rparr>) = (s2, c3)"
      using u src1 by (simp add: catchUpLocked_def query_done read_source_def)
    from catch_up_complete[OF this _ src(2) subset_refl _ n] src1 dir1 have ts: "ts \<in> ss_copied s2" by simp
    show ?thesis
    proof (cases "ts \<in> ss_copied s")
      case False
      with ts obtain name' bytes' where w: "frame_second name' = Some ts" "open_source ?dir name' (db c1) = Inr (Some bytes')"
        "fl_files (db c3) (ss_ArchiveBase s @ [name']) = Some bytes'"
        using catchUpLocked_copies[OF u] unfolding stream_copies_def by blast
      have "map_of entries name' = Some (Some bytes')" using w(2) src1 by (auto simp: open_source_def split: option.splits)
      then have "(name', Some bytes') \<in> set entries" by (rule map_of_SomeD)
      moreover have "ss_ArchiveBase s \<notin> other_bases key (sv_streams svc)"
      proof
        assume "ss_ArchiveBase s \<in> other_bases key (sv_streams svc)"
        then obtain k' s' where o: "(k', s') \<in> set (sv_streams svc)" "k' \<noteq> key" "ss_ArchiveBase s' = ss_ArchiveBase s"
          by (auto simp: other_bases_def)
        moreover have "stream_ok cfg (k', s')" "stream_ok cfg (key, s)"
          using o(1) map_of_SomeD[OF old] wf by (auto simp: streams_wf_def list_all_iff)
        ultimately show False using bases_differ by blast
      qed
      then have "fl_files (db c0) (ss_ArchiveBase s @ [name']) = fl_files (db c2) (ss_ArchiveBase s @ [name'])"
        using h(5) by (auto simp: files_grow_def)
      ultimately show ?thesis using w(1,3) s2(2) svc'(2) by auto
    qed simp
  qed
  ultimately show ?thesis by blast
qed


section \<open>What the retention pass removes\<close>

definition removed_dir :: "path \<Rightarrow> files \<Rightarrow> bool" where
  "removed_dir d fs \<longleftrightarrow> d \<notin> set (fl_dirs fs) \<and> (\<forall>p. has_prefix p d \<longrightarrow> fl_files fs p = None)"

lemma removed_dir_remove: "removed_dir d fs \<Longrightarrow> removed_dir d (remove_all p fs)"
  by (simp add: removed_dir_def remove_all_def)

lemma each_child_reaches:
  assumes H: "\<And>fs. H fs \<Longrightarrow> dir \<in> set (fl_dirs fs) \<and> dir @ [a] \<in> set (fl_dirs fs)"
    and start: "removed_dir d (db c) \<or> H (db c)"
    and visit: "\<And>name c. removed_dir d (db c) \<or> H (db c) \<Longrightarrow>
        removed_dir d (db (visit (dir @ [name]) c)) \<or> H (db (visit (dir @ [name]) c))"
    and stable: "\<And>name c. removed_dir d (db c) \<Longrightarrow> removed_dir d (db (visit (dir @ [name]) c))"
    and hit: "\<And>c. removed_dir d (db c) \<or> H (db c) \<Longrightarrow> removed_dir d (db (visit (dir @ [a]) c))"
  shows "removed_dir d (db (each_child all_done dir visit c))"
proof -
  let ?go = "\<lambda>names c. fold (\<lambda>name. visit (dir @ [name])) names c"
  have keep: "removed_dir d (db (?go names c))" if "removed_dir d (db c)" for names c
    using that by (induction names arbitrary: c) (auto intro: stable)
  have inv: "removed_dir d (db (?go names c)) \<or> H (db (?go names c))" if "removed_dir d (db c) \<or> H (db c)" for names c
    using that
  proof (induction names arbitrary: c)
    case (Cons x names)
    from Cons.IH[OF visit[OF Cons.prems, of x]] show ?case by simp
  qed simp
  let ?c1 = "c\<lparr>calls := Suc (calls c)\<rparr>"
  show ?thesis
  proof (cases "removed_dir d (db c)")
    case True
    then show ?thesis using keep[of ?c1] by (auto simp: each_child_def query_done split: sum.splits)
  next
    case False
    with start have h: "H (db c)" by simp
    let ?names = "map last (filter (\<lambda>d. d \<noteq> [] \<and> butlast d = dir) (fl_dirs (db c)))"
    have "a \<in> set ?names" using H[OF h] by (auto intro!: image_eqI[of _ _ "dir @ [a]"])
    then obtain pre post where sp: "?names = pre @ a # post" by (metis split_list)
    have "removed_dir d (db (visit (dir @ [a]) (?go pre ?c1)))"
      by (rule hit[OF inv]) (use h in simp)
    from keep[OF this, of post] show ?thesis
      using H[OF h] sp by (simp add: each_child_def query_done child_dirs_def)
  qed
qed

text \<open>
  C34: The retention pass leaves every file alone that is not in an event directory last modified before
  the cut-off; when no call fails, every such event directory is gone with its files.
\<close>

theorem retention_removes_exactly_old:
  assumes base: "base = path_join (ac_ArchiveDir cfg) [''smart'']"
  shows "(\<forall>p. (\<forall>a b x r t. p = base @ [a, b, x] @ r \<longrightarrow> mtime (base @ [a, b, x]) = Some t \<longrightarrow> retention_cutoff cfg now \<le> t)
            \<longrightarrow> fl_files (db (runRetentionPass e cfg mtime now c)) p = fl_files (db c) p)
     \<and> (\<forall>a b x t. {base, base @ [a], base @ [a, b], base @ [a, b, x]} \<subseteq> set (fl_dirs (db c)) \<longrightarrow>
          mtime (base @ [a, b, x]) = Some t \<longrightarrow> t < retention_cutoff cfg now \<longrightarrow>
          removed_dir (base @ [a, b, x]) (db (runRetentionPass all_done cfg mtime now c)))"
proof (intro conjI allI impI)
  fix p assume young: "\<forall>a b x r t. p = base @ [a, b, x] @ r \<longrightarrow> mtime (base @ [a, b, x]) = Some t \<longrightarrow> retention_cutoff cfg now \<le> t"
  define J where "J fs \<longleftrightarrow> fl_files fs p = fl_files (db c) p" for fs :: files
  have "J (db (runRetentionPass e cfg mtime now c))"
  proof (rule retention_inv)
    fix fs q t assume j: "J fs" and q: "length q = archive_depth cfg" "has_prefix q (path_join (ac_ArchiveDir cfg) [''smart''])"
      "mtime q = Some t" "t < retention_cutoff cfg now"
    obtain l where l: "q = base @ l" "length l = 3" using q(1,2) base by (auto simp: has_prefix_iff archive_depth_def)
    then obtain a b x where abx: "l = [a, b, x]" by (auto simp: numeral_3_eq_3 length_Suc_conv)
    have "\<not> has_prefix p q" using young q(3,4) l abx by (fastforce simp: has_prefix_iff)
    with j show "J (remove_all q fs)" by (simp add: J_def remove_all_def)
  qed (simp add: J_def)
  then show "fl_files (db (runRetentionPass e cfg mtime now c)) p = fl_files (db c) p" by (simp add: J_def)
next
  fix a b x t
  assume dirs: "{base, base @ [a], base @ [a, b], base @ [a, b, x]} \<subseteq> set (fl_dirs (db c))"
    and t: "mtime (base @ [a, b, x]) = Some t" "t < retention_cutoff cfg now"
  define d where "d = base @ [a, b, x]"
  define H where "H fs \<longleftrightarrow> {base, base @ [a], base @ [a, b], d} \<subseteq> set (fl_dirs fs)" for fs :: files
  let ?cut = "retention_cutoff cfg now"
  have step: "removed_dir d (db (remove_old all_done mtime ?cut (base @ [a', b', x']) c'))
        \<or> H (db (remove_old all_done mtime ?cut (base @ [a', b', x']) c'))"
    if "removed_dir d (db c') \<or> H (db c')" for a' b' x' c'
  proof (cases "removed_dir d (db c')")
    case True
    then show ?thesis by (auto simp: remove_old_def exec_stmt_done removed_dir_remove split: option.splits)
  next
    case False
    with that have h: "H (db c')" by simp
    show ?thesis
    proof (cases "base @ [a', b', x'] = d")
      case True
      then show ?thesis using t by (simp add: remove_old_def exec_stmt_done removed_dir_def remove_all_def d_def has_prefix_def)
    next
      case False
      with h show ?thesis
        by (auto simp: remove_old_def exec_stmt_done H_def remove_all_def d_def has_prefix_iff split: option.splits)
    qed
  qed
  have stable: "removed_dir d (db (remove_old all_done mtime ?cut q c'))" if "removed_dir d (db c')" for q c'
    using that by (auto simp: remove_old_def exec_stmt_done removed_dir_remove split: option.splits)
  have hit: "removed_dir d (db (remove_old all_done mtime ?cut (base @ [a, b, x]) c'))" for c'
    using t by (simp add: remove_old_def exec_stmt_done removed_dir_def remove_all_def d_def has_prefix_def)
  have stable2: "removed_dir d (db (removeOldEventDirsIn all_done mtime ?cut q c'))" if "removed_dir d (db c')" for q c'
    unfolding removeOldEventDirsIn_def by (rule each_child_inv[where J="\<lambda>c. removed_dir d (db c)"]) (use that stable in auto)
  have stable3: "removed_dir d (db (removeOldEventDirs all_done mtime ?cut q c'))" if "removed_dir d (db c')" for q c'
    unfolding removeOldEventDirs_def by (rule each_child_inv[where J="\<lambda>c. removed_dir d (db c)"]) (use that stable2 in auto)
  let ?J = "\<lambda>c. removed_dir d (db c) \<or> H (db c)"
  have step2: "?J (removeOldEventDirsIn all_done mtime ?cut (base @ [a', b']) c')" if "?J c'" for a' b' c'
    unfolding removeOldEventDirsIn_def by (rule each_child_inv[where J="?J"]) (use that step[of _ a' b'] in auto)
  have step3: "?J (removeOldEventDirs all_done mtime ?cut (base @ [a']) c')" if "?J c'" for a' c'
    unfolding removeOldEventDirs_def by (rule each_child_inv[where J="?J"]) (use that step2[of _ a'] in auto)
  have hit2: "removed_dir d (db (removeOldEventDirsIn all_done mtime ?cut (base @ [a, b]) c'))" if "?J c'" for c'
    unfolding removeOldEventDirsIn_def
    by (rule each_child_reaches[where H=H and a=x]) (use that step[of _ a b] stable hit in \<open>auto simp: H_def d_def\<close>)
  have hit3: "removed_dir d (db (removeOldEventDirs all_done mtime ?cut (base @ [a]) c'))" if "?J c'" for c'
    unfolding removeOldEventDirs_def
    by (rule each_child_reaches[where H=H and a=b]) (use that step2[of _ a] stable2 hit2 in \<open>auto simp: H_def\<close>)
  have "removed_dir d (db (runRetentionPass all_done cfg mtime now c))"
    unfolding runRetentionPass_def base[symmetric]
    by (rule each_child_reaches[where H=H and a=a]) (use dirs step3 stable3 hit3 in \<open>auto simp: H_def d_def\<close>)
  then show "removed_dir (base @ [a, b, x]) (db (runRetentionPass all_done cfg mtime now c))" by (simp add: d_def)
qed


section \<open>A watch that is lost\<close>

text \<open>
  When the first stream of a camera comes before its source directory exists, the watch fails and is not
  counted; a second stream of the camera watches and is counted, and the end of either stream then
  stops the watch although the other is still open.
\<close>

lemma watch_lost_after_failed_add:
  assumes dir: "dir = path_join (ac_SourceDir cfg) [cam]"
    and "sv_watcher svc" "watch_count svc dir = 0" "dir \<notin> sv_watching svc"
    and "fl_source (db c) dir = None" and "ensureWatchedLocked e cfg cam (svc, c) = (svc1, c1)"
    and "fl_source (db c2) dir \<noteq> None" and "ensureWatchedLocked all_done cfg cam (svc1, c2) = (svc2, c3)"
  shows "dir \<in> sv_watching svc2 \<and> dir \<notin> sv_watching (releaseWatchedLocked cfg cam svc2)"
proof -
  have "fst (watcher_add e dir c) \<noteq> Inr ()"
    using assms(5) by (auto simp: watcher_add_def query_stmt_def split: prod.splits outcome.splits)
  then have 1: "watch_count svc1 dir = 0" "sv_watcher svc1" "dir \<notin> sv_watching svc1"
    using assms(2-4,6) dir
    by (auto simp: ensureWatchedLocked_def Let_def watch_count_def update_conv' split: prod.splits sum.splits)
  then have 2: "watch_count svc2 dir = 1" "sv_watcher svc2" "dir \<in> sv_watching svc2"
    using assms(7,8) dir
    by (auto simp: ensureWatchedLocked_def Let_def watch_count_def update_conv' watcher_add_def query_done)
  then show ?thesis using dir by (simp add: releaseWatchedLocked_def Let_def)
qed

section \<open>Concrete runs\<close>

definition sample_cfg :: archive_config where
  "sample_cfg = \<lparr>ac_EventEndTimeout = 60000000000, ac_SourceDir = [''src''], ac_ArchiveDir = [''arc''],
     ac_LeadSeconds = 0, ac_TrailSeconds = 0, ac_CopyDelaySeconds = 5, ac_ArchiveRetentionDays = 30\<rparr>"

definition smart_decoder :: decoder where
  "smart_decoder s = Some (JObj [(''id'', JStr s), (''start'', JNum 5000)])"

definition smart_msg :: message where
  "smart_msg = \<lparr>m_topic = ''smart'', m_partition = 0, m_offset = 0, m_key = ''Cam:5'', m_value = ''e1'',
     m_headers = []\<rparr>"

definition sample_files :: "files conn" where
  "sample_files = \<lparr>db = \<lparr>fl_source = (\<lambda>d. if d = [''src'', ''cam''] then Some [(''7.jpg'', Some ''x'')] else None),
     fl_dirs = [[]], fl_files = Map.empty\<rparr>, calls = 0\<rparr>"

definition smart_event :: "string \<Rightarrow> int \<Rightarrow> int \<Rightarrow> SmartEvent" where
  "smart_event i st en = \<lparr>se_ID = i, se_Start = st, se_End = en, se_SmartDetectTypes = []\<rparr>"

lemma sample_cfg_fields [simp]:
  "ac_EventEndTimeout sample_cfg = 60000000000" "ac_SourceDir sample_cfg = [''src'']" "ac_ArchiveDir sample_cfg = [''arc'']"
  "ac_LeadSeconds sample_cfg = 0" "ac_TrailSeconds sample_cfg = 0" "ac_CopyDelaySeconds sample_cfg = 5"
  "ac_ArchiveRetentionDays sample_cfg = 30"
  by (simp_all add: sample_cfg_def)

lemma smart_event_fields [simp]:
  "se_ID (smart_event i st en) = i" "se_Start (smart_event i st en) = st" "se_End (smart_event i st en) = en"
  by (simp_all add: smart_event_def)

lemma sample_plain [simp]: "plain_name ''cam''" "plain_name ''unknown''"
  by (simp_all add: plain_name_def)

lemma sample_window [simp]: "window_config sample_cfg"
  by (simp add: window_config_def)

lemma sample_names [simp]: "sanitizeName ''Cam'' = ''cam''" "sanitizeName ''unknown'' = ''unknown''"
  by code_simp+

lemma sample_message [simp]:
  "smart_message smart_decoder smart_msg = Some (''cam'', ''unknown'', smart_event ''e1'' 5000 0)"
  by (simp add: smart_message_def decode_smart_event_def smart_decoder_def smart_msg_def frame_simps str_elems_def
      event_camera_def event_detection_def getHeader_def first_header_def smart_event_def in_i64_def has_prefix_def)

lemma sample_base:
  "archiveBase sample_cfg ''cam'' ''unknown'' 5000 = [''arc'', ''smart'', ''unknown'', ''cam'', ''5'']"
  "archiveBase sample_cfg ''cam'' ''unknown'' 3000 = [''arc'', ''smart'', ''unknown'', ''cam'', ''3'']"
  by (simp_all add: archiveBase_plain  itoa_eval)

lemma sample_second: "frame_second ''7.jpg'' = Some 7"
  by (simp add: frame_second_def has_suffix_def trim_suffix_def parse_int_def is_digit_def digits_value_def digit_val_def)

lemma sample_source [simp]: "path_join [''src''] [''cam''] = [''src'', ''cam'']"
  by (simp add: path_join_plain)

lemma streams_stay_wf_witness:
  "streams_wf sample_cfg (fst (the (smart_run plain_op sample_cfg
      [Message all_done smart_decoder 9000000000 smart_msg, Expire all_done 80000000000] (smart_New False, sample_files))))"
proof -
  let ?ops = "[Message all_done smart_decoder 9000000000 smart_msg, Expire all_done 80000000000]"
  obtain svc c where r: "smart_run plain_op sample_cfg ?ops (smart_New False, sample_files) = Some (svc, c)"
    by (auto simp: plain_op_def) (metis surj_pair)
  from streams_stay_wf[OF r] show ?thesis by (simp only: r) simp
qed


definition sample_stream :: StreamSession where
  "sample_stream = \<lparr>ss_CameraName = ''cam'', ss_DetectionType = ''unknown'', ss_StartMs = 5000, ss_EndMs = 0,
     ss_CopyAfterUnix = 0, ss_ArchiveBase = archiveBase sample_cfg ''cam'' ''unknown'' 5000, ss_EventIDs = [''e1''],
     ss_copied = {7}\<rparr>"

definition sample_key :: string where
  "sample_key = cameraKey ''cam'' ''unknown''"

lemma catchUp_sample:
  assumes "fl_source (db c) [''src'', ''cam''] = Some [(''7.jpg'', Some ''x'')]" "ss_CameraName s = ''cam''"
    and "from_sec sample_cfg s \<le> 7" "7 \<le> to_sec sample_cfg 5 now s" "7 \<notin> ss_copied s"
    and "ss_ArchiveBase s \<in> set (fl_dirs (db c))"
  shows "\<exists>c'. catchUpLocked all_done sample_cfg now s c = (s\<lparr>ss_copied := insert 7 (ss_copied s)\<rparr>, c')
     \<and> fl_files (db c') = (fl_files (db c))(ss_ArchiveBase s @ [''7.jpg''] \<mapsto> ''x'')
     \<and> fl_dirs (db c') = fl_dirs (db c) \<and> fl_source (db c') = fl_source (db c)"
  using assms
  by (simp add: catchUpLocked_def query_done read_source_def catch_up_entry_def sample_second copy_frame_def
      frame_path[OF sample_second] copyFile_def exec_stmt_done open_source_def create_file_def write_file_def)

lemma sample_started:
  "\<exists>svc c. smart_processMessage all_done smart_decoder sample_cfg 9000000000 smart_msg (smart_New False, sample_files) = (svc, c)
     \<and> sv_streams svc = [(sample_key, sample_stream)] \<and> sv_done svc = {}
     \<and> fl_files (db c) = [ss_ArchiveBase sample_stream @ [''7.jpg''] \<mapsto> ''x'']"
proof -
  let ?s = "new_session sample_cfg ''cam'' ''unknown'' (smart_event ''e1'' 5000 0)"
  have s: "?s = sample_stream\<lparr>ss_copied := {}\<rparr>"
    by (simp add: new_session_def sample_stream_def copy_after_def HasEnd_def)
  obtain c1 where mk: "exec_stmt all_done (\<lambda>fs. Inr (mkdir_all (ss_ArchiveBase ?s) fs)) sample_files = (None, c1)"
    and c1: "db c1 = mkdir_all (ss_ArchiveBase ?s) (db sample_files)"
    by (simp add: exec_stmt_done)
  have "\<exists>c'. catchUpLocked all_done sample_cfg 9000000000 ?s c1 = (?s\<lparr>ss_copied := insert 7 (ss_copied ?s)\<rparr>, c')
     \<and> fl_files (db c') = (fl_files (db c1))(ss_ArchiveBase ?s @ [''7.jpg''] \<mapsto> ''x'')
     \<and> fl_dirs (db c') = fl_dirs (db c1) \<and> fl_source (db c') = fl_source (db c1)"
    by (rule catchUp_sample)
      (simp_all add: s c1 sample_files_def mkdir_all_def sample_stream_def from_sec_def to_sec_def 
        unix_def i64_def)
  moreover have "?s\<lparr>ss_copied := insert 7 (ss_copied ?s)\<rparr> = sample_stream"
    by (simp add: s sample_stream_def)
  ultimately obtain c' where u: "catchUpLocked all_done sample_cfg 9000000000 ?s c1 = (sample_stream, c')"
    "fl_files (db c') = (fl_files (db c1))(ss_ArchiveBase ?s @ [''7.jpg''] \<mapsto> ''x'')" by metis
  have f: "fl_files (db c1) = Map.empty" "ss_ArchiveBase ?s = ss_ArchiveBase sample_stream"
    by (simp_all add: c1 sample_files_def s)
  have "new_stream all_done sample_cfg 9000000000 ''cam'' ''unknown'' (smart_event ''e1'' 5000 0) (smart_New False, sample_files)
      = ((smart_New False)\<lparr>sv_streams := [(sample_key, sample_stream)],
           sv_waitingForEnd := [(''e1'', \<lparr>we_CameraName = ''cam'', we_DetectionType = ''unknown'', we_StartMs = 5000,
             we_LastMessageAt = 9000000000\<rparr>)]\<rparr>, c')"
    using u(1) unfolding new_stream_def Let_def prod.case mk
    by (simp add: ensureWatchedLocked_def HasEnd_def sample_key_def) (simp add: smart_New_def)
  then show ?thesis
    using u(2) f by (simp add: smart_processMessage_def handle_smart_def HasEnd_def Let_def) (simp add: smart_New_def)
qed

lemma copied_frames_are_archived_witness:
  "\<exists>name bytes. frame_second name = Some 7
     \<and> fl_files (db (snd (smart_processMessage all_done smart_decoder sample_cfg 9000000000 smart_msg (smart_New False, sample_files))))
          (ss_ArchiveBase sample_stream @ [name]) = Some bytes"
proof -
  obtain svc c where r: "smart_processMessage all_done smart_decoder sample_cfg 9000000000 smart_msg
      (smart_New False, sample_files) = (svc, c)" "sv_streams svc = [(sample_key, sample_stream)]"
    using sample_started by blast
  have run: "smart_run (steady_op sample_cfg) sample_cfg [Message all_done smart_decoder 9000000000 smart_msg]
      (smart_New False, sample_files) = Some (svc, c)"
    by (simp add: r(1) steady_op_def plain_in_def plain_op_def smart_New_def[of False, THEN arg_cong[where f=sv_streams]])
  have "map_of (sv_streams svc) sample_key = Some sample_stream" by (simp add: r(2))
  from copied_frames_are_archived[OF run this, of 7] show ?thesis by (simp add: r(1) sample_stream_def)
qed

lemma merged_start_never_expires_witness:
  "\<exists>s'. map_of (sv_streams (fst (expireWaitingForEnd all_done sample_cfg 900000000000
        (handle_smart all_done sample_cfg 10000000000 ''cam'' ''unknown'' (smart_event ''e1'' 5000 0)
          (smart_processMessage all_done smart_decoder sample_cfg 9000000000 smart_msg (smart_New False, sample_files))))))
      sample_key = Some s' \<and> ss_EndMs s' = 0"
proof -
  obtain svc c where r: "smart_processMessage all_done smart_decoder sample_cfg 9000000000 smart_msg
      (smart_New False, sample_files) = (svc, c)" "sv_streams svc = [(sample_key, sample_stream)]" "sv_done svc = {}"
    using sample_started by blast
  have run: "smart_run plain_op sample_cfg [Message all_done smart_decoder 9000000000 smart_msg]
      (smart_New False, sample_files) = Some (svc, c)"
    by (simp add: r(1) plain_op_def)
  let ?ev = "smart_event ''e1'' 5000 0"
  let ?st = "expireWaitingForEnd all_done sample_cfg 900000000000
      (handle_smart all_done sample_cfg 10000000000 ''cam'' ''unknown'' ?ev (svc, c))"
  have quiet: "smart_run quiet_op sample_cfg [Expire all_done 900000000000]
      (handle_smart all_done sample_cfg 10000000000 ''cam'' ''unknown'' ?ev (svc, c)) = Some (fst ?st, snd ?st)"
    by (simp add: quiet_op_def)
  have old: "map_of (sv_streams svc) (cameraKey ''cam'' ''unknown'') = Some sample_stream" "ss_EndMs sample_stream = 0"
    by (simp_all add: r(2) sample_key_def sample_stream_def)
  from merged_start_never_expires[OF run sample_window old _ _ quiet] show ?thesis
    by (simp add: r sample_key_def)
qed

lemma sample_stream_ok: "stream_ok sample_cfg (cameraKey ''cam'' ''unknown'', sample_stream)"
  by (simp add: stream_ok_def sample_stream_def in_i64_def from_sec_def  i64_def)

definition stream_service :: "StreamSession \<Rightarrow> smart_service" where
  "stream_service s = (smart_New False)\<lparr>sv_streams := [(sample_key, s)]\<rparr>"

lemma earlier_start_loses_frames_witness:
  "\<exists>s'. map_of (sv_streams (fst (handle_smart all_done sample_cfg 9000000000 ''cam'' ''unknown'' (smart_event ''e2'' 3000 0)
        (stream_service sample_stream, sample_files)))) sample_key = Some s'
     \<and> 7 \<in> ss_copied s'
     \<and> fl_files (db (snd (handle_smart all_done sample_cfg 9000000000 ''cam'' ''unknown'' (smart_event ''e2'' 3000 0)
        (stream_service sample_stream, sample_files)))) (ss_ArchiveBase s' @ [''7.jpg'']) = None"
proof -
  obtain svc' c' where r: "handle_smart all_done sample_cfg 9000000000 ''cam'' ''unknown'' (smart_event ''e2'' 3000 0)
        (stream_service sample_stream, sample_files) = (svc', c')" by (metis surj_pair)
  have old: "map_of (sv_streams (stream_service sample_stream)) (cameraKey ''cam'' ''unknown'') = Some sample_stream"
    by (simp add: stream_service_def sample_key_def)
  from earlier_start_loses_frames[OF sample_stream_ok sample_plain old _ _ _ _ _ _ r, of 7] sample_second r show ?thesis
    by (auto simp: stream_service_def smart_New_def sample_stream_def sample_files_def sample_key_def)
qed

definition ended_stream :: StreamSession where
  "ended_stream = sample_stream\<lparr>ss_EndMs := 8000, ss_copied := {}\<rparr>"

lemma ended_stream_fields [simp]:
  "ss_CameraName ended_stream = ''cam''" "ss_EndMs ended_stream = 8000" "ss_CopyAfterUnix ended_stream = 0"
  "ss_copied ended_stream = {}" "ss_ArchiveBase ended_stream = ss_ArchiveBase sample_stream"
  "end_sec sample_cfg ended_stream = 8" "from_sec sample_cfg ended_stream = 5" "to_sec sample_cfg n now ended_stream = 8"
  "map_of (sv_streams (stream_service ended_stream)) sample_key = Some ended_stream"
  by (simp_all add: ended_stream_def sample_stream_def end_sec_def from_sec_def to_sec_def i64_def stream_service_def)

lemma ended_stream_wf: "streams_wf sample_cfg (stream_service ended_stream)"
  using sample_stream_ok by (simp add: streams_wf_def stream_service_def sample_key_def stream_ok_def watch_ok_def smart_New_def
      watch_count_def ended_stream_def)

text \<open>With its frame in the source directory, the stream is closed.\<close>

lemma ended_stream_closes:
  assumes "fl_source (db c) [''src'', ''cam''] = Some [(''7.jpg'', Some ''x'')]"
    and "ss_ArchiveBase sample_stream \<in> set (fl_dirs (db c))"
  obtains svc' c' where "closeCompletedStreams all_done sample_cfg 90000000000 (stream_service ended_stream, c) = (svc', c')"
    "map_of (sv_streams svc') sample_key = None"
proof -
  obtain c1 where u: "catchUpLocked all_done sample_cfg 90000000000 ended_stream c
      = (ended_stream\<lparr>ss_copied := {7}\<rparr>, c1)" "fl_source (db c1) = fl_source (db c)"
    using catchUp_sample[OF assms(1), of ended_stream 90000000000] assms(2) by auto
  have chk: "fst (close_check all_done sample_cfg 90000000000 ended_stream c) = True"
    using u assms(1) by (simp add: close_check_def unix_def Let_def query_done open_source_def itoa_eval)
  obtain svc' c' where r: "closeCompletedStreams all_done sample_cfg 90000000000 (stream_service ended_stream, c) = (svc', c')"
    by (metis surj_pair)
  moreover have "map_of (sv_streams svc') sample_key = None"
    using r chk by (auto simp: closeCompletedStreams_def stream_service_def close_one_streams split: prod.splits)
  ultimately show thesis by (rule that)
qed

definition archive_ready :: "files conn" where
  "archive_ready = sample_files\<lparr>db := (db sample_files)\<lparr>fl_dirs := [ss_ArchiveBase sample_stream]\<rparr>\<rparr>"

lemma archive_ready_fields [simp]:
  "fl_source (db archive_ready) [''src'', ''cam''] = Some [(''7.jpg'', Some ''x'')]"
  "fl_dirs (db archive_ready) = [ss_ArchiveBase sample_stream]"
  by (simp_all add: archive_ready_def sample_files_def)


lemma retention_removes_exactly_old_witness:
  "removed_dir [''arc'', ''smart'', ''person'', ''cam'', ''5'']
     (db (runRetentionPass all_done sample_cfg (\<lambda>d. Some (- 5000000000000000)) 0
        (sample_files\<lparr>db := mkdir_all [''arc'', ''smart'', ''person'', ''cam'', ''5''] (db sample_files)\<rparr>)))"
proof -
  let ?c = "sample_files\<lparr>db := mkdir_all [''arc'', ''smart'', ''person'', ''cam'', ''5''] (db sample_files)\<rparr>"
  have base: "[''arc'', ''smart''] = path_join (ac_ArchiveDir sample_cfg) [''smart'']"
    by (simp add: path_join_plain)
  have "removed_dir ([''arc'', ''smart''] @ [''person'', ''cam'', ''5''])
      (db (runRetentionPass all_done sample_cfg (\<lambda>d. Some (- 5000000000000000)) 0 ?c))"
    by (rule retention_removes_exactly_old[OF base, THEN conjunct2, rule_format, where t = "- 5000000000000000"])
      (simp_all add: sample_files_def mkdir_all_def retention_cutoff_def)
  then show ?thesis by simp
qed

end
