(* ===== verification/Uf_Events.thy ===== *)
theory Uf_Events
  imports Uf_Camera
begin

text \<open>
  \<open>services/unifi-kafka\<close>: the events of the NVR's event stream are classified, keyed by camera and published
  to one topic per category (\<open>service/service.go\<close>, \<open>models/events.go\<close>), as they come off the WebSocket
  (\<open>api/client.go\<close>), with a back-off between connections (\<open>main.go\<close>).

  \<open>raw_item\<close> gives the bytes of the member \<open>item\<close> of a frame, as \<open>json.RawMessage\<close> keeps them.
\<close>

section \<open>Events\<close>

record ProtectEvent =
  pe_ID :: string
  pe_ModelKey :: string
  pe_Type :: string
  pe_Start :: int
  pe_End :: int
  pe_SmartDetectTypes :: "string list"
  pe_Camera :: string
  pe_Device :: string

definition decode_protect_event :: "decoder \<Rightarrow> string \<Rightarrow> ProtectEvent option" where
  "decode_protect_event um raw =
     (case unmarshal_map um raw of
        None \<Rightarrow> None
      | Some m \<Rightarrow>
          (case (str_member m ''id'', str_member m ''modelKey'', str_member m ''type'', int_member m ''start'',
                 int_member m ''end'', str_elems m ''smartDetectTypes'', str_member m ''camera'',
                 str_member m ''device'') of
             (Some i, Some mk, Some ty, Some st, Some en, Some ts, Some cam, Some dev) \<Rightarrow>
               Some \<lparr>pe_ID = i, pe_ModelKey = mk, pe_Type = ty, pe_Start = st, pe_End = en,
                     pe_SmartDetectTypes = ts, pe_Camera = cam, pe_Device = dev\<rparr>
           | _ \<Rightarrow> None))"

definition DeviceID :: "ProtectEvent \<Rightarrow> string" where
  "DeviceID ev = (if pe_Device ev \<noteq> [] then pe_Device ev else pe_Camera ev)"

datatype EventCategory = CategorySmart | CategoryAudio | CategoryMotion

fun category_text :: "EventCategory \<Rightarrow> string" where
  "category_text CategorySmart = ''smart''"
| "category_text CategoryAudio = ''audio''"
| "category_text CategoryMotion = ''motion''"

definition AudioDetectionTypes :: "string list" where
  "AudioDetectionTypes = [''babyCry'', ''coAlarm'', ''smoke'', ''speak'']"

definition VideoDetectionTypes :: "string list" where
  "VideoDetectionTypes = [''person'', ''vehicle'', ''animal'', ''package'']"

fun classify_types :: "string list \<Rightarrow> (EventCategory \<times> string) option" where
  "classify_types [] = None"
| "classify_types (dt # dts) =
     (if dt \<in> set AudioDetectionTypes then Some (CategoryAudio, dt)
      else if dt \<in> set VideoDetectionTypes then Some (CategorySmart, dt)
      else classify_types dts)"

definition classifyEvent :: "ProtectEvent \<Rightarrow> (EventCategory \<times> string) option" where
  "classifyEvent ev =
     (case classify_types (pe_SmartDetectTypes ev) of
        Some cd \<Rightarrow> Some cd
      | None \<Rightarrow>
          (let eventType = to_lower (pe_Type ev)
           in if eventType = ''motion'' \<or> contains_sub eventType ''motion'' then Some (CategoryMotion, ''motion'')
              else None))"

fun topicForCategory :: "EventCategory \<Rightarrow> string" where
  "topicForCategory CategorySmart = ''unifi.protect.smart''"
| "topicForCategory CategoryAudio = ''unifi.protect.audio''"
| "topicForCategory CategoryMotion = ''unifi.protect.motion''"

definition protect_cameraName :: "(string \<times> CameraInfo) list \<Rightarrow> string \<Rightarrow> string" where
  "protect_cameraName cameras cameraID =
     (case map_of cameras cameraID of Some cam \<Rightarrow> sanitizeName (ci_Name cam) | None \<Rightarrow> cameraID)"

definition protect_timestamp :: "int \<Rightarrow> ProtectEvent \<Rightarrow> int" where
  "protect_timestamp now ev =
     (if pe_Start ev > 0 then go_div (pe_Start ev) 1000
      else if pe_End ev > 0 then go_div (pe_End ev) 1000
      else unix now)"

definition protect_headers :: "string \<Rightarrow> string \<Rightarrow> EventCategory \<Rightarrow> string \<Rightarrow> int \<Rightarrow> (string \<times> string) list" where
  "protect_headers deviceID cameraName category detectionType timestamp =
     [(''schema_version'', ''1''), (''camera_id'', deviceID), (''camera_name'', cameraName),
      (''event_type'', category_text category), (''detection_type'', detectionType),
      (''timestamp'', itoa timestamp), (''source'', ''unifi-protect'')]"

text \<open>\<open>PublishRaw\<close> takes the bytes as they are and waits for the delivery report.\<close>

definition PublishRaw ::
    "env \<Rightarrow> header_order \<Rightarrow> string \<Rightarrow> string \<Rightarrow> string \<Rightarrow> (string \<times> string) list \<Rightarrow> kafka conn
     \<Rightarrow> go_error option \<times> kafka conn" where
  "PublishRaw e order topic key data headers c =
     (case exec_stmt e (produce \<lparr>m_topic = topic, m_partition = 0, m_offset = 0, m_key = key,
                                 m_value = data, m_headers = order headers\<rparr>) c of
        (None, c1) \<Rightarrow> (None, c1)
      | (Some er, c1) \<Rightarrow> (Some (Wrap ''delivery failed'' er), c1))"

definition protect_handleEvent ::
    "env \<Rightarrow> decoder \<Rightarrow> header_order \<Rightarrow> int \<Rightarrow> (string \<times> CameraInfo) list \<Rightarrow> string \<Rightarrow> kafka conn
     \<Rightarrow> go_error option \<times> kafka conn" where
  "protect_handleEvent e um order now cameras raw c =
     (case decode_protect_event um raw of
        None \<Rightarrow> (None, c)
      | Some ev \<Rightarrow>
          if pe_ModelKey ev \<noteq> ''event'' then (None, c)
          else (case classifyEvent ev of
                  None \<Rightarrow> (None, c)
                | Some (category, detectionType) \<Rightarrow>
                    (let deviceID = DeviceID ev;
                         cameraName = protect_cameraName cameras deviceID;
                         timestamp = protect_timestamp now ev
                     in PublishRaw e order (topicForCategory category) (cameraName @ '':'' @ itoa timestamp) raw
                          (protect_headers deviceID cameraName category detectionType timestamp) c)))"

section \<open>The event stream\<close>

definition event_stream_url :: "string \<Rightarrow> string" where
  "event_stream_url host =
     replace_first (replace_first host ''https://'' ''wss://'') ''http://'' ''ws://'' @ basePath @ ''/subscribe/events''"

text \<open>The bytes handed to the callback, if it is called.\<close>

definition event_payload :: "decoder \<Rightarrow> (string \<Rightarrow> string) \<Rightarrow> string \<Rightarrow> string option" where
  "event_payload um raw_item data =
     (let line = trim_space data in
      if line = [] then None
      else case unmarshal_map um line of
             None \<Rightarrow> Some data
           | Some m \<Rightarrow>
               if str_member m ''type'' = None then Some data
               else if json_member m ''item'' \<noteq> None \<and> raw_item line \<noteq> [] then Some (raw_item line)
               else Some data)"

definition processEventMessage ::
    "env \<Rightarrow> decoder \<Rightarrow> (string \<Rightarrow> string) \<Rightarrow> header_order \<Rightarrow> int \<Rightarrow> (string \<times> CameraInfo) list \<Rightarrow> string
     \<Rightarrow> kafka conn \<Rightarrow> kafka conn" where
  "processEventMessage e um raw_item order now cameras data c =
     (case event_payload um raw_item data of
        None \<Rightarrow> c
      | Some raw \<Rightarrow> snd (protect_handleEvent e um order now cameras raw c))"

text \<open>What \<open>ReadMessage\<close> returns; the end of the list is the cancellation.\<close>

datatype ws_read = WsMessage int string | WsClosed | WsError go_error

fun read_events ::
    "env \<Rightarrow> decoder \<Rightarrow> (string \<Rightarrow> string) \<Rightarrow> header_order \<Rightarrow> (string \<times> CameraInfo) list \<Rightarrow> ws_read list
     \<Rightarrow> kafka conn \<Rightarrow> go_error \<times> kafka conn" where
  "read_events e um raw_item order cameras [] c = (Canceled, c)"
| "read_events e um raw_item order cameras (WsClosed # reads) c = (Err ''event stream closed by server'', c)"
| "read_events e um raw_item order cameras (WsError er # reads) c = (Wrap ''websocket read error'' er, c)"
| "read_events e um raw_item order cameras (WsMessage now data # reads) c =
     read_events e um raw_item order cameras reads (processEventMessage e um raw_item order now cameras data c)"

definition SubscribeEvents ::
    "env \<Rightarrow> decoder \<Rightarrow> (string \<Rightarrow> string) \<Rightarrow> header_order \<Rightarrow> (string \<times> CameraInfo) list \<Rightarrow> ws_read list result
     \<Rightarrow> kafka conn \<Rightarrow> go_error \<times> kafka conn" where
  "SubscribeEvents e um raw_item order cameras dialed c =
     (case dialed of
        Inl er \<Rightarrow> (Wrap ''websocket dial failed'' er, c)
      | Inr reads \<Rightarrow> read_events e um raw_item order cameras reads c)"

text \<open>Here a camera is decoded without its state.\<close>

definition decode_named_camera :: "json \<Rightarrow> CameraInfo option" where
  "decode_named_camera j =
     (case struct_members j of
        None \<Rightarrow> None
      | Some m \<Rightarrow>
          (case (str_member m ''id'', str_member m ''name'') of
             (Some i, Some n) \<Rightarrow> Some \<lparr>ci_ID = i, ci_Name = n, ci_State = []\<rparr>
           | _ \<Rightarrow> None))"

definition protect_FetchCameras :: "decoder \<Rightarrow> http_reply \<Rightarrow> (string \<times> CameraInfo) list result" where
  "protect_FetchCameras = fetch_cameras decode_named_camera"

text \<open>One \<open>Start\<close>: the cameras known so far, as the service keeps them, and what it met.\<close>

definition protect_Start ::
    "env \<Rightarrow> decoder \<Rightarrow> decoder \<Rightarrow> (string \<Rightarrow> string) \<Rightarrow> header_order \<Rightarrow> http_reply \<Rightarrow> ws_read list result
     \<Rightarrow> (string \<times> CameraInfo) list \<times> kafka conn \<Rightarrow> go_error \<times> (string \<times> CameraInfo) list \<times> kafka conn" where
  "protect_Start e first_value um raw_item order reply dialed = (\<lambda>(cameras, c).
     let cameras1 = (case protect_FetchCameras first_value reply of Inl er \<Rightarrow> cameras | Inr cams \<Rightarrow> cams);
         (er, c1) = SubscribeEvents e um raw_item order cameras1 dialed c
     in (er, cameras1, c1))"

text \<open>The loop of \<open>main\<close>: \<open>Start\<close>, and a pause; \<open>elapsed\<close> is the time \<open>Start\<close> took.\<close>

fun protect_main ::
    "env \<Rightarrow> decoder \<Rightarrow> decoder \<Rightarrow> (string \<Rightarrow> string) \<Rightarrow> header_order \<Rightarrow> int list
     \<Rightarrow> (http_reply \<times> ws_read list result \<times> int) list \<Rightarrow> int \<Rightarrow> (string \<times> CameraInfo) list \<times> kafka conn
     \<Rightarrow> (int list \<times> (string \<times> CameraInfo) list \<times> kafka conn) option" where
  "protect_main e first_value um raw_item order delays [] idx s = Some ([], s)"
| "protect_main e first_value um raw_item order delays ((reply, dialed, elapsed) # runs) idx s =
     (let (er, s1) = protect_Start e first_value um raw_item order reply dialed s;
          idx0 = (if elapsed > 60000000000 then 0 else idx)
      in if er = Canceled then Some ([], s1)
         else case backoff_step delays idx0 of
           None \<Rightarrow> None
         | Some (delay, idx1) \<Rightarrow>
             map_option (\<lambda>(waits, s2). (delay # waits, s2))
               (protect_main e first_value um raw_item order delays runs idx1 s1))"

definition maskSecret :: "string \<Rightarrow> string" where
  "maskSecret s = (if length s \<le> 8 then ''***'' else take 4 s @ ''...'' @ drop (length s - 4) s)"

section \<open>What is published\<close>

text \<open>
  A well-formed record of an event: its topic, headers and key say what its value is.
\<close>

definition event_record :: "decoder \<Rightarrow> (string \<times> CameraInfo) list \<Rightarrow> message \<Rightarrow> bool" where
  "event_record um cameras msg \<longleftrightarrow>
     (case decode_protect_event um (m_value msg) of
        None \<Rightarrow> False
      | Some ev \<Rightarrow>
          (case classifyEvent ev of
             None \<Rightarrow> False
           | Some (category, detectionType) \<Rightarrow>
               pe_ModelKey ev = ''event'' \<and> m_topic msg = topicForCategory category
               \<and> first_header (m_headers msg) ''event_type'' = Some (category_text category)
               \<and> first_header (m_headers msg) ''detection_type'' = Some detectionType
               \<and> (category = CategorySmart \<longrightarrow> detectionType \<in> set VideoDetectionTypes)
               \<and> (category = CategoryAudio \<longrightarrow> detectionType \<in> set AudioDetectionTypes)
               \<and> first_header (m_headers msg) ''camera_id'' = Some (DeviceID ev)
               \<and> first_header (m_headers msg) ''camera_name'' = Some (protect_cameraName cameras (DeviceID ev))
               \<and> (\<exists>t. first_header (m_headers msg) ''timestamp'' = Some (itoa t)
                    \<and> m_key msg = protect_cameraName cameras (DeviceID ev) @ '':'' @ itoa t
                    \<and> (pe_Start ev > 0 \<longrightarrow> t = go_div (pe_Start ev) 1000))))"

lemma permuted_header:
  assumes "permutes_headers order" "distinct (map fst hs)"
  shows "first_header (order hs) k = map_of hs k"
proof -
  have m: "mset (order hs) = mset hs" using assms(1) by (simp add: permutes_headers_def)
  then have "mset (map fst (order hs)) = mset (map fst hs)" by simp
  then have "distinct (map fst (order hs))" using assms(2) by (metis mset_eq_imp_distinct_iff)
  with m assms(2) show ?thesis unfolding first_header_def by (metis map_of_inject_set mset_eq_setD)
qed

lemma classify_types_sets:
  "classify_types dts = Some (cat, dt) \<Longrightarrow>
     (cat = CategoryAudio \<and> dt \<in> set AudioDetectionTypes \<or> cat = CategorySmart \<and> dt \<in> set VideoDetectionTypes) \<and> dt \<in> set dts"
  by (induction dts) (auto split: if_splits)

lemma classifyEvent_sets:
  "classifyEvent ev = Some (cat, dt) \<Longrightarrow>
     (cat = CategorySmart \<longrightarrow> dt \<in> set VideoDetectionTypes) \<and> (cat = CategoryAudio \<longrightarrow> dt \<in> set AudioDetectionTypes)"
  using classify_types_sets by (auto simp: classifyEvent_def Let_def split: option.splits if_splits)

lemma published_message:
  assumes "protect_handleEvent e um order now cameras raw c = (r, c')" and p: "permutes_headers order"
  shows "db c' = db c \<or> (\<exists>msg. db c' = db c @ [msg] \<and> m_value msg = raw \<and> event_record um cameras msg)"
proof (cases "\<exists>ev cat dt. decode_protect_event um raw = Some ev \<and> pe_ModelKey ev = ''event'' \<and> classifyEvent ev = Some (cat, dt)")
  case True
  then obtain ev cat dt where ev: "decode_protect_event um raw = Some ev" "pe_ModelKey ev = ''event''"
    "classifyEvent ev = Some (cat, dt)" by blast
  let ?name = "protect_cameraName cameras (DeviceID ev)" and ?t = "protect_timestamp now ev"
  let ?hs = "protect_headers (DeviceID ev) ?name cat dt ?t"
  let ?msg = "\<lparr>m_topic = topicForCategory cat, m_partition = 0, m_offset = 0, m_key = ?name @ '':'' @ itoa ?t,
      m_value = raw, m_headers = order ?hs\<rparr>"
  have "distinct (map fst ?hs)" by (simp add: protect_headers_def)
  note h = permuted_header[OF p this]
  have "event_record um cameras ?msg"
    using ev classifyEvent_sets[OF ev(3)]
    by (simp add: event_record_def h) (auto simp: protect_headers_def protect_timestamp_def)
  moreover have "(r, c') = PublishRaw e order (topicForCategory cat) (?name @ '':'' @ itoa ?t) raw ?hs c"
    using assms(1) ev by (simp add: protect_handleEvent_def Let_def)
  then have "db c' = db c \<or> db c' = db c @ [?msg]"
    by (auto simp: PublishRaw_def produce_def split: prod.splits option.splits elim!: exec_stmt_cases)
  ultimately show ?thesis by auto
next
  case False
  with assms(1) have "c' = c" by (auto simp: protect_handleEvent_def split: option.splits if_splits)
  then show ?thesis by simp
qed

lemma read_events_typed:
  assumes "permutes_headers order"
  shows "\<exists>ms. db (snd (read_events e um raw_item order cameras reads c)) = db c @ ms
     \<and> list_all (event_record um cameras) ms \<and> length ms \<le> length reads"
proof (induction reads arbitrary: c)
  case (Cons r reads)
  show ?case
  proof (cases r)
    case (WsMessage now data)
    let ?c1 = "processEventMessage e um raw_item order now cameras data c"
    obtain ms1 where m1: "db ?c1 = db c @ ms1" "list_all (event_record um cameras) ms1" "length ms1 \<le> 1"
    proof (cases "event_payload um raw_item data")
      case None
      then show thesis by (intro that[of "[]"]) (simp_all add: processEventMessage_def)
    next
      case (Some raw)
      obtain er c1 where h: "protect_handleEvent e um order now cameras raw c = (er, c1)" by fastforce
      from published_message[OF h assms] Some h show thesis
        by (auto simp: processEventMessage_def intro: that[of "[]"] that[of "[_]"])
    qed
    obtain ms2 where "db (snd (read_events e um raw_item order cameras reads ?c1)) = db ?c1 @ ms2"
      "list_all (event_record um cameras) ms2" "length ms2 \<le> length reads" using Cons.IH by blast
    with m1 WsMessage show ?thesis by (intro exI[of _ "ms1 @ ms2"]) auto
  qed auto
qed auto

text \<open>
  C18: Whatever the NVR sends and whatever fails, one connection adds only well-formed records to Kafka, at most
  one for each frame: the value is an event of the model, its category decides the topic and the headers, and
  the key is the camera's name and the second of the event.
\<close>

theorem published_events_typed:
  assumes "protect_Start e fv um raw_item order reply (Inr reads) (cameras, c) = (er, cameras', c')"
    and "permutes_headers order"
  shows "\<exists>ms. db c' = db c @ ms \<and> list_all (event_record um cameras') ms \<and> length ms \<le> length reads"
proof -
  have "c' = snd (read_events e um raw_item order cameras' reads c)"
    using assms(1) by (auto simp: protect_Start_def SubscribeEvents_def Let_def split: prod.splits)
  with read_events_typed[OF assms(2)] show ?thesis by simp
qed

section \<open>The pauses between connections\<close>

text \<open>After a connection that lasted more than a minute the next pause is the shortest again.\<close>

lemma long_connection_resets_pause:
  assumes "protect_main e fv um raw_item order (d # ds) ((reply, dialed, elapsed) # runs) idx s = Some (waits, s')"
    and "elapsed > 60000000000" and "waits \<noteq> []"
  shows "hd waits = d"
  using assms by (auto simp: Let_def backoff_step_def split: prod.splits if_splits)

text \<open>At most eight characters of a secret are shown.\<close>

lemma maskSecret_hides:
  assumes "length s > 8"
  shows "\<exists>a b. maskSecret s = a @ ''...'' @ b \<and> length a = 4 \<and> length b = 4"
  using assms by (intro exI[of _ "take 4 s"] exI[of _ "drop (length s - 4) s"]) (simp add: maskSecret_def)

section \<open>Concrete runs\<close>

definition event_item :: json_map where
  "event_item = [(''id'', JStr ''e1''), (''modelKey'', JStr ''event''), (''type'', JStr ''smartDetectZone''),
                 (''start'', JNum 5000), (''device'', JStr ''c9''), (''smartDetectTypes'', JArr [JStr ''person''])]"

definition event_stream_decoder :: decoder where
  "event_stream_decoder s =
     map_of [(''cams'', JArr [JObj [(''id'', JStr ''c9''), (''name'', JStr ''Front Door'')]]),
             (''frame'', JObj [(''type'', JStr ''add''), (''item'', JObj event_item)]),
             (''item'', JObj event_item)] s"

lemma published_events_typed_witness:
  "\<exists>msg. db (snd (snd (protect_Start all_done event_stream_decoder event_stream_decoder (\<lambda>_. ''item'') id
      (Inr (200, Inr ''cams'')) (Inr [WsMessage 0 ''frame'']) ([], \<lparr>db = [], calls = 0\<rparr>)))) = [msg]
    \<and> event_record event_stream_decoder [(''c9'', \<lparr>ci_ID = ''c9'', ci_Name = ''Front Door'', ci_State = []\<rparr>)] msg
    \<and> m_key msg = ''front_door:5''"
proof -
  let ?cams = "[(''c9'', \<lparr>ci_ID = ''c9'', ci_Name = ''Front Door'', ci_State = []\<rparr>)]"
  obtain er cameras' c' where r: "protect_Start all_done event_stream_decoder event_stream_decoder (\<lambda>_. ''item'') id
      (Inr (200, Inr ''cams'')) (Inr [WsMessage 0 ''frame'']) ([], \<lparr>db = [], calls = 0\<rparr>) = (er, cameras', c')"
    by (rule prod_cases3)
  have "fst (snd (protect_Start all_done event_stream_decoder event_stream_decoder (\<lambda>_. ''item'') id
      (Inr (200, Inr ''cams'')) (Inr [WsMessage 0 ''frame'']) ([], \<lparr>db = [], calls = 0\<rparr>))) = ?cams"
    by code_simp
  then have cams: "cameras' = ?cams" unfolding r by simp
  have "map m_key (db (snd (snd (protect_Start all_done event_stream_decoder event_stream_decoder (\<lambda>_. ''item'') id
      (Inr (200, Inr ''cams'')) (Inr [WsMessage 0 ''frame'']) ([], \<lparr>db = [], calls = 0\<rparr>))))) = [''front_door:5'']"
    by code_simp
  then have keys: "map m_key (db c') = [''front_door:5'']" unfolding r by simp
  have "permutes_headers id" by (simp add: permutes_headers_def)
  from published_events_typed[OF r this] have "list_all (event_record event_stream_decoder ?cams) (db c')"
    unfolding cams by auto
  with keys show ?thesis unfolding r by auto
qed

end
