(* ===== verification/Uf_Service.thy ===== *)
theory Uf_Service
  imports Uf_Frames
begin

text \<open>
  The process of \<open>services/unifi-smart-archive\<close>: \<open>Start\<close> reads the topic and commits each message after it was
  handled, \<open>runWatcher\<close> and \<open>runWorker\<close> run beside it, and \<open>Close\<close> waits for both.  The three are one state
  machine, whose steps are the parts that hold the mutex.  A process can end at any time, and the next one
  reads on behind the last committed message, with the files it finds.  The topic has one partition.
\<close>

section \<open>The goroutines\<close>

text \<open>Where \<open>runWorker\<close> is: at its \<open>select\<close>, within a tick, or gone.\<close>

datatype worker_phase = AtSelect | ToClose | ToRetain | WorkerGone

record archive_process =
  ar_position :: nat
  ar_held :: bool
  ar_state :: smart_state
  ar_worker :: worker_phase
  ar_lastRetention :: int
  ar_watching :: bool
  ar_cancelled :: bool
  ar_result :: "go_error option"
  ar_committed :: nat

text \<open>\<open>New\<close> and the beginning of \<open>Start\<close>: nothing is known but the files and the committed offset.\<close>

definition archive_launch :: "bool \<Rightarrow> int \<Rightarrow> nat \<Rightarrow> files conn \<Rightarrow> archive_process" where
  "archive_launch watcher now committed c =
     \<lparr>ar_position = committed, ar_held = False, ar_state = (smart_New watcher, c), ar_worker = AtSelect,
      ar_lastRetention = now, ar_watching = watcher, ar_cancelled = False, ar_result = None,
      ar_committed = committed\<rparr>"

text \<open>
  What can happen: \<open>FetchMessage\<close> returns the next message, which is handled, or an error; the commit
  succeeds, is refused, or is done though its reply is lost; a file appears or the watcher reports an error;
  the three parts of a tick; the signal; the goroutines see it; another process takes over; the camera
  writes or removes frames.
\<close>

datatype archive_move =
    FetchNext env int
  | FetchFails go_error
  | CommitReply outcome
  | FileCreated env int path string
  | WatcherError go_error
  | TickExpire env int
  | TickClose env int
  | TickRetain env "path \<Rightarrow> int option" int
  | ShutdownSignal
  | WorkerReturns
  | WatcherReturns
  | Relaunch bool int
  | CameraWrites "path \<Rightarrow> (string \<times> string option) list option"

definition fetch_error :: "bool \<Rightarrow> go_error \<Rightarrow> go_error" where
  "fetch_error cancelled er = (if cancelled then Canceled else Wrap ''kafka consumer'' er)"

text \<open>One pass of the loop of \<open>Start\<close>, cut between the handling of the message and its commit.\<close>

definition start_fetch ::
    "archive_config \<Rightarrow> decoder \<Rightarrow> message list \<Rightarrow> env \<Rightarrow> int \<Rightarrow> archive_process \<Rightarrow> archive_process option" where
  "start_fetch cfg um topic e now p =
     (if ar_result p = None \<and> \<not> ar_held p \<and> ar_position p < length topic
      then Some (p\<lparr>ar_held := True,
                   ar_state := smart_processMessage e um cfg now (topic ! ar_position p) (ar_state p)\<rparr>)
      else None)"

definition start_commit :: "outcome \<Rightarrow> archive_process \<Rightarrow> archive_process option" where
  "start_commit out p =
     (if ar_result p = None \<and> ar_held p then
        let next = Suc (ar_position p) in
        Some (case out of
            Done \<Rightarrow> p\<lparr>ar_position := next, ar_held := False, ar_committed := next\<rparr>
          | Refused er \<Rightarrow> p\<lparr>ar_result := Some (Wrap ''kafka commit'' er)\<rparr>
          | Lost er \<Rightarrow> p\<lparr>ar_committed := next, ar_result := Some (Wrap ''kafka commit'' er)\<rparr>)
      else None)"

definition worker_move ::
    "archive_config \<Rightarrow> worker_phase \<Rightarrow> worker_phase \<Rightarrow> smart_op \<Rightarrow> archive_process \<Rightarrow> archive_process option" where
  "worker_move cfg here there op p =
     (if ar_worker p = here then Some (p\<lparr>ar_worker := there, ar_state := smart_apply cfg op (ar_state p)\<rparr>) else None)"

fun archive_step ::
    "archive_config \<Rightarrow> decoder \<Rightarrow> message list \<Rightarrow> archive_move \<Rightarrow> archive_process \<Rightarrow> archive_process option" where
  "archive_step cfg um topic (FetchNext e now) p = start_fetch cfg um topic e now p"
| "archive_step cfg um topic (FetchFails er) p =
     (if ar_result p = None \<and> \<not> ar_held p then Some (p\<lparr>ar_result := Some (fetch_error (ar_cancelled p) er)\<rparr>) else None)"
| "archive_step cfg um topic (CommitReply out) p = start_commit out p"
| "archive_step cfg um topic (FileCreated e now dir name) p =
     (if ar_watching p then Some (p\<lparr>ar_state := watch_event e cfg now dir name (ar_state p)\<rparr>) else None)"
| "archive_step cfg um topic (WatcherError er) p = (if ar_watching p then Some p else None)"
| "archive_step cfg um topic (TickExpire e now) p = worker_move cfg AtSelect ToClose (Expire e now) p"
| "archive_step cfg um topic (TickClose e now) p = worker_move cfg ToClose ToRetain (Finish e now) p"
| "archive_step cfg um topic (TickRetain e mtime now) p =
     (if now - ar_lastRetention p \<ge> retention_interval cfg
      then map_option (\<lambda>q. q\<lparr>ar_lastRetention := now\<rparr>) (worker_move cfg ToRetain AtSelect (Retain e mtime now) p)
      else if ar_worker p = ToRetain then Some (p\<lparr>ar_worker := AtSelect\<rparr>) else None)"
| "archive_step cfg um topic ShutdownSignal p = Some (p\<lparr>ar_cancelled := True\<rparr>)"
| "archive_step cfg um topic WorkerReturns p =
     (if ar_cancelled p \<and> ar_worker p = AtSelect then Some (p\<lparr>ar_worker := WorkerGone\<rparr>) else None)"
| "archive_step cfg um topic WatcherReturns p =
     (if ar_cancelled p \<and> ar_watching p then Some (p\<lparr>ar_watching := False\<rparr>) else None)"
| "archive_step cfg um topic (Relaunch watcher now) p =
     Some (archive_launch watcher now (ar_committed p) (snd (ar_state p)))"
| "archive_step cfg um topic (CameraWrites source) p =
     Some (p\<lparr>ar_state := smart_apply cfg (Camera source) (ar_state p)\<rparr>)"

text \<open>\<open>Close\<close> returns when the worker and the watcher have.\<close>

definition close_returns :: "archive_process \<Rightarrow> bool" where
  "close_returns p \<longleftrightarrow> ar_worker p = WorkerGone \<and> \<not> ar_watching p"

text \<open>A run, with the offsets of the messages it handled in the order it did.\<close>

definition handled_by :: "archive_move \<Rightarrow> archive_process \<Rightarrow> nat list" where
  "handled_by m p = (case m of FetchNext e now \<Rightarrow> [ar_position p] | _ \<Rightarrow> [])"

fun archive_run ::
    "archive_config \<Rightarrow> decoder \<Rightarrow> message list \<Rightarrow> archive_move list \<Rightarrow> archive_process
     \<Rightarrow> (nat list \<times> archive_process) option" where
  "archive_run cfg um topic [] p = Some ([], p)"
| "archive_run cfg um topic (m # ms) p =
     (case archive_step cfg um topic m p of
        None \<Rightarrow> None
      | Some p1 \<Rightarrow> map_option (map_prod (\<lambda>hs. handled_by m p @ hs) id) (archive_run cfg um topic ms p1))"

section \<open>What every step keeps\<close>

text \<open>A property of the moves made, the messages handled and the process, kept by every step.\<close>

locale archive_invariant =
  fixes cfg :: archive_config and um :: decoder and topic :: "message list"
    and I :: "archive_move list \<Rightarrow> nat list \<Rightarrow> archive_process \<Rightarrow> bool"
  assumes step: "I ms hs p \<Longrightarrow> archive_step cfg um topic m p = Some p' \<Longrightarrow> I (ms @ [m]) (hs @ handled_by m p) p'"
begin

lemma run:
  "archive_run cfg um topic moves p = Some (hs', p') \<Longrightarrow> I ms hs p \<Longrightarrow> I (ms @ moves) (hs @ hs') p'"
proof (induction moves arbitrary: p ms hs hs')
  case (Cons m moves)
  from Cons.prems(1) obtain p1 hs1 where s: "archive_step cfg um topic m p = Some p1"
    and r: "archive_run cfg um topic moves p1 = Some (hs1, p')" "hs' = handled_by m p @ hs1"
    by (auto split: option.splits)
  from Cons.IH[OF r(1) step[OF Cons.prems(2) s]] show ?case by (simp add: r(2))
qed simp

end

text \<open>A tick that nothing interrupts does what \<open>worker_tick\<close> does.\<close>

lemma undisturbed_tick:
  assumes "ar_worker p = AtSelect"
  shows "archive_run cfg um topic [TickExpire e now, TickClose e now, TickRetain e mtime now] p =
    Some ([], p\<lparr>ar_state := fst (worker_tick e cfg mtime now (ar_state p, ar_lastRetention p)),
               ar_lastRetention := snd (worker_tick e cfg mtime now (ar_state p, ar_lastRetention p))\<rparr>)"
  using assms
  by (cases "closeCompletedStreams e cfg now (expireWaitingForEnd e cfg now (ar_state p))")
    (simp add: worker_move_def worker_tick_def handled_by_def Let_def)

section \<open>The topic\<close>

definition relaunches :: "archive_move list \<Rightarrow> nat" where
  "relaunches ms = length (filter (\<lambda>m. case m of Relaunch w now \<Rightarrow> True | _ \<Rightarrow> False) ms)"

lemma relaunches_snoc [simp]:
  "relaunches [] = 0"
  "relaunches (ms @ [m]) = relaunches ms + (case m of Relaunch w now \<Rightarrow> 1 | _ \<Rightarrow> 0)"
  by (auto simp: relaunches_def split: archive_move.splits)

text \<open>The loop stands at the committed offset, or behind the message it has handled and not committed.\<close>

definition loop_ok :: "message list \<Rightarrow> archive_move list \<Rightarrow> nat list \<Rightarrow> archive_process \<Rightarrow> bool" where
  "loop_ok topic ms hs p \<longleftrightarrow>
     (\<exists>n. remdups_adj hs = [0..<n] \<and> ar_committed p \<le> n \<and> n \<le> Suc (ar_committed p) \<and> n \<le> length topic
        \<and> (ar_result p = None \<longrightarrow> ar_position p = ar_committed p \<and> (ar_held p \<longrightarrow> n = Suc (ar_committed p)))
        \<and> (ar_held p \<longrightarrow> n = Suc (ar_position p)))
     \<and> length hs \<le> ar_committed p + relaunches ms + (if ar_result p = None \<and> \<not> ar_held p then 0 else 1)"

lemma remdups_adj_next:
  assumes "remdups_adj hs = [0..<n]" "k = n \<or> Suc k = n"
  shows "remdups_adj (hs @ [k]) = [0..<Suc k]"
proof (cases hs rule: rev_cases)
  case Nil
  with assms(1) have "n = 0" by (simp add: eq_commute[of "[]"])
  with Nil assms(2) show ?thesis by simp
next
  case (snoc xs x)
  from assms(1) snoc have ne: "[0..<n] \<noteq> []" by (metis remdups_adj_Nil_iff snoc_eq_iff_butlast)
  have "x = last [0..<n]" using assms(1) snoc by (metis last_remdups_adj last_snoc)
  then have "x = n - 1" using ne by simp
  with assms snoc ne show ?thesis by (auto simp: remdups_adj_append_two)
qed

lemma loop_ok_other:
  assumes "loop_ok topic ms hs p" and "relaunches ms' = relaunches ms"
    and "ar_committed q = ar_committed p" "ar_position q = ar_position p" "ar_held q = ar_held p"
    and "ar_result q = ar_result p \<or> ar_result q \<noteq> None"
  shows "loop_ok topic ms' hs q"
  using assms(6)
proof
  assume "ar_result q = ar_result p"
  with assms(1-5) show ?thesis by (simp add: loop_ok_def)
next
  assume "ar_result q \<noteq> None"
  with assms(1-5) show ?thesis unfolding loop_ok_def by (simp split: if_splits) blast+
qed

lemma other_moves:
  assumes "archive_step cfg um topic m p = Some p'"
    and "\<And>e now. m \<noteq> FetchNext e now" "\<And>out. m \<noteq> CommitReply out" "\<And>w now. m \<noteq> Relaunch w now"
  shows "ar_committed p' = ar_committed p \<and> ar_position p' = ar_position p \<and> ar_held p' = ar_held p
     \<and> (ar_result p' = ar_result p \<or> ar_result p' \<noteq> None) \<and> handled_by m p = []"
  using assms by (cases m) (auto simp: handled_by_def worker_move_def split: if_splits)

lemma loop_step:
  assumes ok: "loop_ok topic ms hs p" and s: "archive_step cfg um topic m p = Some p'"
  shows "loop_ok topic (ms @ [m]) (hs @ handled_by m p) p'"
proof (cases m)
  case (FetchNext e now)
  with s have q: "ar_result p = None" "\<not> ar_held p" "ar_position p < length topic"
    "p' = p\<lparr>ar_held := True, ar_state := smart_processMessage e um cfg now (topic ! ar_position p) (ar_state p)\<rparr>"
    by (simp_all add: start_fetch_def split: if_splits)
  from ok obtain n where n: "remdups_adj hs = [0..<n]" "ar_committed p \<le> n" "n \<le> Suc (ar_committed p)"
    "ar_position p = ar_committed p" "length hs \<le> ar_committed p + relaunches ms"
    using q by (auto simp: loop_ok_def)
  have "remdups_adj (hs @ [ar_position p]) = [0..<Suc (ar_position p)]"
    by (rule remdups_adj_next[OF n(1)]) (use n in auto)
  with n q FetchNext show ?thesis by (simp add: loop_ok_def handled_by_def)
next
  case (CommitReply out)
  with s ok show ?thesis
    by (auto simp: start_commit_def loop_ok_def handled_by_def Let_def simp del: upt_Suc split: if_splits outcome.splits)
next
  case (Relaunch w now)
  with s ok show ?thesis
    by (auto simp: archive_launch_def loop_ok_def handled_by_def split: if_splits)
qed (use loop_ok_other[OF ok, of "ms @ [m]" p'] other_moves[OF s] in simp_all)

interpretation loop: archive_invariant cfg um topic "loop_ok topic" for cfg um topic
  by unfold_locales (rule loop_step)

lemma launch_loop_ok [simp]: "loop_ok topic [] [] (archive_launch w now 0 c)"
  by (simp add: loop_ok_def archive_launch_def exI[of _ 0])

text \<open>The streams stay well formed, in every process.\<close>

definition plain_message :: "decoder \<Rightarrow> message \<Rightarrow> bool" where
  "plain_message um msg = (case smart_message um msg of
      None \<Rightarrow> True | Some (cam, det, ev) \<Rightarrow> plain_name cam \<and> plain_name det)"

lemma step_wf:
  assumes c: "window_config cfg" and t: "list_all (plain_message um) topic"
    and wf: "streams_wf cfg (fst (ar_state p))" and s: "archive_step cfg um topic m p = Some p'"
  shows "streams_wf cfg (fst (ar_state p'))"
proof -
  have ap: "streams_wf cfg (fst (smart_apply cfg op (ar_state p)))" if "plain_op op (ar_state p)" for op
    by (rule smart_apply_wf[OF wf]) (simp add: plain_in_def c that)
  show ?thesis
  proof (cases m)
    case (FetchNext e now)
    with s have q: "ar_position p < length topic"
      "ar_state p' = smart_apply cfg (Message e um now (topic ! ar_position p)) (ar_state p)"
      by (auto simp: start_fetch_def split: if_splits)
    from t q(1) have "plain_message um (topic ! ar_position p)" by (simp add: list_all_length)
    then have "plain_op (Message e um now (topic ! ar_position p)) (ar_state p)"
      by (simp add: plain_op_def plain_message_def)
    from ap[OF this] q(2) show ?thesis by simp
  next
    case (FileCreated e now dir name)
    with s ap[of "Watch e now dir name"] show ?thesis by (auto simp: plain_op_def split: if_splits)
  next
    case (TickExpire e now)
    with s ap[of "Expire e now"] show ?thesis by (auto simp: plain_op_def worker_move_def split: if_splits)
  next
    case (TickClose e now)
    with s ap[of "Finish e now"] show ?thesis by (auto simp: plain_op_def worker_move_def split: if_splits)
  next
    case (TickRetain e mtime now)
    with s ap[of "Retain e mtime now"] wf show ?thesis
      by (auto simp: plain_op_def worker_move_def split: if_splits)
  next
    case (CameraWrites source)
    with s ap[of "Camera source"] show ?thesis by (auto simp: plain_op_def)
  next
    case (Relaunch w now)
    with s New_wf show ?thesis by (auto simp: archive_launch_def)
  next
    case (CommitReply out)
    with s wf show ?thesis by (auto simp: start_commit_def Let_def split: if_splits outcome.splits)
  qed (use s wf in \<open>auto split: if_splits\<close>)
qed

interpretation streams: archive_invariant cfg um topic
    "\<lambda>ms hs p. window_config cfg \<longrightarrow> list_all (plain_message um) topic \<longrightarrow> streams_wf cfg (fst (ar_state p))"
  for cfg um topic
  by unfold_locales (blast intro: step_wf)

text \<open>
  C15: Whatever the processes meet, and however often one ends and another takes over, the messages of the
  topic are handled in order and none is left out: the handled offsets are the first ones of the topic, all the
  committed among them and at most one more; a message is only ever repeated at once, when its commit has
  not arrived, and each process repeats at most one.  With plain names the streams stay well formed throughout.
\<close>

theorem messages_handled_in_order:
  assumes "archive_run cfg um topic moves (archive_launch w now 0 c) = Some (hs, p)"
  shows "(\<exists>n. remdups_adj hs = [0..<n] \<and> ar_committed p \<le> n \<and> n \<le> Suc (ar_committed p) \<and> n \<le> length topic)
     \<and> length hs \<le> Suc (ar_committed p + relaunches moves)
     \<and> (window_config cfg \<longrightarrow> list_all (plain_message um) topic \<longrightarrow> streams_wf cfg (fst (ar_state p)))"
proof -
  have "streams_wf cfg (fst (ar_state (archive_launch w now 0 c)))" by (simp add: archive_launch_def New_wf)
  with streams.run[OF assms] loop.run[OF assms launch_loop_ok] show ?thesis
    by (auto simp: loop_ok_def split: if_splits)
qed

section \<open>What a new process does not know\<close>

definition forgotten :: "message list \<Rightarrow> files \<Rightarrow> nat list \<Rightarrow> archive_process \<Rightarrow> bool" where
  "forgotten topic fs hs p \<longleftrightarrow>
     hs = [] \<and> ar_committed p = length topic \<and> ar_position p = length topic \<and> \<not> ar_held p
     \<and> sv_streams (fst (ar_state p)) = [] \<and> sv_waitingForEnd (fst (ar_state p)) = []
     \<and> fl_files (db (snd (ar_state p))) \<subseteq>\<^sub>m fl_files fs"

lemma retention_only_removes:
  "fl_files (db c) \<subseteq>\<^sub>m fs \<Longrightarrow> fl_files (db (runRetentionPass e cfg mtime now c)) \<subseteq>\<^sub>m fs"
  by (rule retention_inv[where J="\<lambda>d. fl_files d \<subseteq>\<^sub>m fs"]) (auto simp: remove_all_def map_le_def split: if_splits)

lemma no_streams_no_work:
  assumes "sv_streams svc = []"
  shows "watch_event e cfg now dir name (svc, c) = (svc, c)"
    "closeCompletedStreams e cfg now (svc, c) = (svc, c)"
    "sv_waitingForEnd svc = [] \<Longrightarrow> expireWaitingForEnd e cfg now (svc, c) = (svc, c)"
  using assms by (simp_all add: watch_event_def closeCompletedStreams_def expireWaitingForEnd_def split: option.splits)

lemma forgotten_step:
  assumes f: "forgotten topic fs hs p" and s: "archive_step cfg um topic m p = Some p'"
  shows "forgotten topic fs (hs @ handled_by m p) p'"
proof -
  obtain svc c where st: "ar_state p = (svc, c)" by fastforce
  show ?thesis
    using f s st no_streams_no_work
    by (cases m) (auto simp: forgotten_def handled_by_def start_fetch_def start_commit_def worker_move_def archive_launch_def
        smart_New_def split: if_splits intro: retention_only_removes)
qed

interpretation forgets: archive_invariant cfg um topic "\<lambda>ms. forgotten topic fs" for cfg um topic fs
  by unfold_locales (rule forgotten_step)

text \<open>
  C38: A message is committed when its stream has been registered, not when the stream is finished, and streams
  live in memory only.  When a process takes over with all messages committed, streams that were open are
  lost: whatever frames appear and however long it runs, no message is handled again, no stream is open,
  and no file is added to the archive or changed in it.
\<close>

theorem relaunch_forgets_streams:
  assumes "ar_committed p = length topic"
    and "archive_run cfg um topic (Relaunch w now # moves) p = Some (hs, p')"
  shows "hs = [] \<and> sv_streams (fst (ar_state p')) = []
     \<and> fl_files (db (snd (ar_state p'))) \<subseteq>\<^sub>m fl_files (db (snd (ar_state p)))"
proof -
  let ?q = "archive_launch w now (ar_committed p) (snd (ar_state p))"
  from assms(2) have r: "archive_run cfg um topic moves ?q = Some (hs, p')"
    by (auto simp: handled_by_def split: option.splits)
  have "forgotten topic (db (snd (ar_state p))) [] ?q"
    using assms(1) by (simp add: forgotten_def archive_launch_def smart_New_def)
  from forgets.run[OF r this] show ?thesis by (simp add: forgotten_def)
qed

section \<open>What the end of an event brings back\<close>

lemma mkdir_all_has [simp]: "p \<in> set (fl_dirs (mkdir_all p fs))"
proof -
  have "p \<in> set (map (\<lambda>n. take n p) [0..<Suc (length p)])" by force
  then show ?thesis by (auto simp: mkdir_all_def)
qed

lemma mkdir_all_source [simp]: "fl_source (mkdir_all p fs) = fl_source fs"
  by (simp add: mkdir_all_def)

lemma new_stream_complete:
  assumes n: "new_stream all_done cfg now cam det ev (svc, c) = (svc', c')" and e: "HasEnd ev"
    and src: "fl_source (db c) (path_join (ac_SourceDir cfg) [cam]) = Some entries" "distinct (map fst entries)"
  obtains s where "map_of (sv_streams svc') (cameraKey cam det) = Some s"
    "stream_copies cfg (path_join (ac_SourceDir cfg) [cam]) (end_sec cfg s)
       (new_session cfg cam det ev, mkdir_all (archiveBase cfg cam det (se_Start ev)) (db c)) (s, db c')"
    "\<And>name bytes ts. (name, Some bytes) \<in> set entries \<Longrightarrow> frame_second name = Some ts \<Longrightarrow> from_sec cfg s \<le> ts
       \<Longrightarrow> ts \<le> end_sec cfg s \<Longrightarrow> ts \<in> ss_copied s"
proof -
  let ?s0 = "new_session cfg cam det ev" and ?dir = "path_join (ac_SourceDir cfg) [cam]"
  obtain c1 where mk: "exec_stmt all_done (\<lambda>fs. Inr (mkdir_all (ss_ArchiveBase ?s0) fs)) c = (None, c1)"
    and c1: "db c1 = mkdir_all (ss_ArchiveBase ?s0) (db c)" by (simp add: exec_stmt_done)
  obtain svc1 c2 where w: "ensureWatchedLocked all_done cfg cam (svc, c1) = (svc1, c2)" by (metis surj_pair)
  obtain s c3 where u: "catchUpLocked all_done cfg now ?s0 c2 = (s, c3)" by (metis surj_pair)
  have d2: "db c2 = db c1" using ensureWatched_frame(5)[OF w] .
  note cp = catchUpLocked_copies[OF u]
  have s0: "ss_CameraName ?s0 = cam" "ss_EndMs ?s0 = se_End ev" "to_sec cfg 5 now ?s0 = end_sec cfg ?s0"
    "ss_ArchiveBase ?s0 = archiveBase cfg cam det (se_Start ev)"
    using e by (simp_all add: new_session_def to_sec_def HasEnd_def)
  have f: "from_sec cfg s = from_sec cfg ?s0" "end_sec cfg s = end_sec cfg ?s0"
    using stream_copies_fields(3,4)[OF cp] by (simp_all add: from_sec_def end_sec_def)
  have out: "map_of (sv_streams svc') (cameraKey cam det) = Some s" "c' = c3"
    using n w u unfolding new_stream_def Let_def prod.case mk by (auto simp: update_conv')
  have "fold (catch_up_entry all_done cfg (end_sec cfg ?s0) ?dir) entries (?s0, c2\<lparr>calls := Suc (calls c2)\<rparr>) = (s, c3)"
    using u src(1) by (simp add: catchUpLocked_def s0 query_done read_source_def d2 c1)
  then have all: "ts \<in> ss_copied s" if "(name, Some bytes) \<in> set entries" "frame_second name = Some ts" "from_sec cfg s \<le> ts"
    "ts \<le> end_sec cfg s" for name bytes ts
    by (rule catch_up_complete[where entries=entries, OF _ _ src(2) subset_refl _ that(1,2)])
      (use src(1) that f in \<open>simp_all add: d2 c1 s0(4)\<close>)
  show thesis
  proof (rule that[OF _ _ all])
    show "map_of (sv_streams svc') (cameraKey cam det) = Some s" by (rule out)
    show "stream_copies cfg ?dir (end_sec cfg s) (?s0, mkdir_all (archiveBase cfg cam det (se_Start ev)) (db c)) (s, db c')"
      using cp by (simp add: d2 c1 s0 f(2) out(2))
  qed
qed

text \<open>
  C39: The message with the end of an event brings a stream back that a process does not have, as after
  a relaunch: when no call fails, the stream has the times of the event, and every frame of its window that
  is in the source directory is in the archive once the message has been handled.
\<close>

theorem end_message_recovers_frames:
  assumes "start_fetch cfg um topic all_done now p = Some p'"
    and "smart_message um (topic ! ar_position p) = Some (cam, det, ev)" and "HasEnd ev"
    and "ar_state p = (svc, c)" and "map_of (sv_streams svc) (cameraKey cam det) = None" and "se_ID ev \<notin> sv_done svc"
    and "fl_source (db c) (path_join (ac_SourceDir cfg) [cam]) = Some entries" and "distinct (map fst entries)"
  shows "\<exists>s. map_of (sv_streams (fst (ar_state p'))) (cameraKey cam det) = Some s
     \<and> ss_StartMs s = se_Start ev \<and> ss_EndMs s = se_End ev
     \<and> ss_ArchiveBase s = archiveBase cfg cam det (se_Start ev)
     \<and> (\<forall>name bytes ts. (name, Some bytes) \<in> set entries \<longrightarrow> frame_second name = Some ts \<longrightarrow>
          from_sec cfg s \<le> ts \<longrightarrow> ts \<le> end_sec cfg s \<longrightarrow>
          (\<exists>name' bytes'. (name', Some bytes') \<in> set entries \<and> frame_second name' = Some ts
             \<and> fl_files (db (snd (ar_state p'))) (ss_ArchiveBase s @ [name']) = Some bytes'))"
proof -
  let ?svc0 = "svc\<lparr>sv_waitingForEnd := AList.delete (se_ID ev) (sv_waitingForEnd svc)\<rparr>"
  obtain svc' c' where n: "new_stream all_done cfg now cam det ev (?svc0, c) = (svc', c')" by (metis surj_pair)
  have p': "ar_state p' = (svc', c')"
    using assms(1-6) n by (auto simp: start_fetch_def smart_processMessage_def handle_smart_def split: if_splits)
  obtain s where s: "map_of (sv_streams svc') (cameraKey cam det) = Some s"
    "stream_copies cfg (path_join (ac_SourceDir cfg) [cam]) (end_sec cfg s)
       (new_session cfg cam det ev, mkdir_all (archiveBase cfg cam det (se_Start ev)) (db c)) (s, db c')"
    "\<And>name bytes ts. (name, Some bytes) \<in> set entries \<Longrightarrow> frame_second name = Some ts \<Longrightarrow> from_sec cfg s \<le> ts
       \<Longrightarrow> ts \<le> end_sec cfg s \<Longrightarrow> ts \<in> ss_copied s"
    using new_stream_complete[OF n assms(3,7,8)] by metis
  note f = stream_copies_fields[OF s(2)]
  have base: "ss_ArchiveBase s = archiveBase cfg cam det (se_Start ev)" using f(6) by (simp add: new_session_def)
  have "\<exists>name' bytes'. (name', Some bytes') \<in> set entries \<and> frame_second name' = Some ts
      \<and> fl_files (db c') (ss_ArchiveBase s @ [name']) = Some bytes'" if ts: "ts \<in> ss_copied s" for ts
  proof -
    from s(2) ts obtain name bytes where "frame_second name = Some ts"
      "open_source (path_join (ac_SourceDir cfg) [cam]) name (mkdir_all (archiveBase cfg cam det (se_Start ev)) (db c))
         = Inr (Some bytes)" "fl_files (db c') (ss_ArchiveBase s @ [name]) = Some bytes"
      unfolding stream_copies_def by (auto simp: new_session_def base)
    then show ?thesis
      using assms(7) by (auto simp: open_source_def split: option.splits dest: map_of_SomeD)
  qed
  with s(1,3) f(3,4) base p' show ?thesis by (auto simp: new_session_def)
qed

section \<open>Concrete runs\<close>

lemma messages_handled_in_order_witness:
  "\<exists>p n. archive_run sample_cfg smart_decoder [smart_msg]
       [FetchNext all_done 9000000000, TickExpire all_done 9500000000, Relaunch False 10000000000,
        FetchNext all_done 11000000000, CommitReply Done] (archive_launch False 0 0 sample_files) = Some ([0, 0], p)
     \<and> ar_committed p = 1 \<and> remdups_adj [0, 0] = [0..<n] \<and> n \<le> 1 \<and> streams_wf sample_cfg (fst (ar_state p))"
proof -
  let ?ms = "[FetchNext all_done 9000000000, TickExpire all_done 9500000000, Relaunch False 10000000000,
        FetchNext all_done 11000000000, CommitReply Done]"
  obtain p where r: "archive_run sample_cfg smart_decoder [smart_msg] ?ms (archive_launch False 0 0 sample_files)
      = Some ([0, 0], p)" and c: "ar_committed p = 1"
    by (simp add: start_fetch_def start_commit_def worker_move_def archive_launch_def handled_by_def)
  have "list_all (plain_message smart_decoder) [smart_msg]" by (simp add: plain_message_def)
  with messages_handled_in_order[OF r] obtain n where "remdups_adj [0, 0] = [0..<n]" "n \<le> length [smart_msg]"
    "streams_wf sample_cfg (fst (ar_state p))" by (metis sample_window)
  moreover from this(2) have "n \<le> 1" by simp
  ultimately show ?thesis using r c by (intro exI[of _ p] exI[of _ n] conjI)
qed

text \<open>A process that has committed the message of an event without an end, and its successor.\<close>

definition open_process :: archive_process where
  "open_process = (archive_launch False 0 1 sample_files)
     \<lparr>ar_state := smart_processMessage all_done smart_decoder sample_cfg 9000000000 smart_msg (smart_New False, sample_files)\<rparr>"

lemma relaunch_forgets_streams_witness:
  "sv_streams (fst (ar_state open_process)) = [(sample_key, sample_stream)]
   \<and> (\<exists>p'. archive_run sample_cfg smart_decoder [smart_msg]
          [Relaunch False 20000000000, TickExpire all_done 30000000000, TickClose all_done 30000000000] open_process = Some ([], p')
        \<and> sv_streams (fst (ar_state p')) = [])"
proof -
  have o: "sv_streams (fst (ar_state open_process)) = [(sample_key, sample_stream)]"
    using sample_started by (auto simp: open_process_def)
  let ?ms = "[TickExpire all_done 30000000000, TickClose all_done 30000000000]"
  obtain hs p' where r: "archive_run sample_cfg smart_decoder [smart_msg] (Relaunch False 20000000000 # ?ms) open_process
      = Some (hs, p')"
    by (simp add: worker_move_def archive_launch_def handled_by_def)
  have "ar_committed open_process = length [smart_msg]" by (simp add: open_process_def archive_launch_def)
  from relaunch_forgets_streams[OF this r] o r show ?thesis by auto
qed

definition end_decoder :: decoder where
  "end_decoder s = Some (JObj [(''id'', JStr s), (''start'', JNum 5000), (''end'', JNum 8000)])"

lemma end_message:
  "smart_message end_decoder smart_msg = Some (''cam'', ''unknown'', smart_event ''e1'' 5000 8000)"
  by (simp add: smart_message_def decode_smart_event_def end_decoder_def smart_msg_def frame_simps str_elems_def
      event_camera_def event_detection_def getHeader_def first_header_def smart_event_def in_i64_def has_prefix_def)

lemma end_message_recovers_frames_witness:
  "\<exists>p'. start_fetch sample_cfg end_decoder [smart_msg] all_done 9000000000 (archive_launch False 0 0 sample_files) = Some p'
     \<and> fl_files (db (snd (ar_state p'))) (archiveBase sample_cfg ''cam'' ''unknown'' 5000 @ [''7.jpg'']) = Some ''x''"
proof -
  let ?p = "archive_launch False 0 0 sample_files"
  obtain p' where r: "start_fetch sample_cfg end_decoder [smart_msg] all_done 9000000000 ?p = Some p'"
    by (simp add: start_fetch_def archive_launch_def)
  obtain s where s: "ss_StartMs s = 5000" "ss_EndMs s = 8000" "ss_ArchiveBase s = archiveBase sample_cfg ''cam'' ''unknown'' 5000"
    "\<forall>name bytes ts. (name, Some bytes) \<in> set [(''7.jpg'', Some ''x'')] \<longrightarrow> frame_second name = Some ts \<longrightarrow>
       from_sec sample_cfg s \<le> ts \<longrightarrow> ts \<le> end_sec sample_cfg s \<longrightarrow>
       (\<exists>name' bytes'. (name', Some bytes') \<in> set [(''7.jpg'', Some ''x'')] \<and> frame_second name' = Some ts
          \<and> fl_files (db (snd (ar_state p'))) (ss_ArchiveBase s @ [name']) = Some bytes')"
    using end_message_recovers_frames[OF r, of "''cam''" "''unknown''" "smart_event ''e1'' 5000 8000"
        "smart_New False" sample_files "[(''7.jpg'', Some ''x'')]"]
    by (auto simp: archive_launch_def end_message HasEnd_def smart_New_def sample_files_def)
  have "from_sec sample_cfg s = 5" "end_sec sample_cfg s = 8" by (simp_all add: from_sec_def end_sec_def s i64_def)
  with s(3,4) sample_second r show ?thesis by auto
qed

end
