(* ===== verification/Config_Load.thy ===== *)
theory Config_Load
  imports Uf_Camera
begin

text \<open>
  The \<open>config\<close> packages of the services, and the flags of the backfill: environment variables are read,
  checked and given defaults.  The environment is a function, the empty string for a variable that is not
  set, as \<open>os.Getenv\<close> has it.  \<open>log.Fatalf\<close> is \<open>Inl\<close>: the process ends.  \<open>time.ParseDuration\<close> is modelled;
  \<open>net/url\<close> is not, and \<open>deriveWSURL\<close> is an argument of the two loaders that use it, as \<open>filepath.Abs\<close> is of
  the one that uses that.
\<close>

type_synonym env_vars = "string \<Rightarrow> string"

definition getEnvOrDefault :: "env_vars \<Rightarrow> string \<Rightarrow> string \<Rightarrow> string" where
  "getEnvOrDefault vars key defaultValue = (if vars key \<noteq> [] then vars key else defaultValue)"

definition requireEnv :: "env_vars \<Rightarrow> string \<Rightarrow> string result" where
  "requireEnv vars key =
     (if vars key = [] then Inl (Err (''Required environment variable '' @ key @ '' is not set'')) else Inr (vars key))"

section \<open>Durations\<close>

text \<open>Nanoseconds in a unit; the two ways to write a micro sign are UTF-8.\<close>

definition duration_unit :: "string \<Rightarrow> nat option" where
  "duration_unit =
     map_of [(''ns'', 1), (''us'', 1000), ([CHR 0xC2, CHR 0xB5] @ ''s'', 1000), ([CHR 0xCE, CHR 0xBC] @ ''s'', 1000),
             (''ms'', 1000000), (''s'', 1000000000), (''m'', 60000000000), (''h'', 3600000000000)]"

text \<open>The digits after the point, as far as they fit, and the power of ten they count in.\<close>

fun leading_fraction :: "string \<Rightarrow> nat \<Rightarrow> nat \<Rightarrow> bool \<Rightarrow> nat \<times> nat" where
  "leading_fraction [] x scale full = (x, scale)"
| "leading_fraction (c # cs) x scale full =
     (if full \<or> x > 9223372036854775807 div 10 \<or> x * 10 + digit_val c > 9223372036854775808
      then leading_fraction cs x scale True
      else leading_fraction cs (x * 10 + digit_val c) (scale * 10) False)"

text \<open>One number with its unit: its nanoseconds and the rest of the text.\<close>

definition unit_char :: "char \<Rightarrow> bool" where
  "unit_char c \<longleftrightarrow> c \<noteq> CHR ''.'' \<and> \<not> is_digit c"

definition duration_part :: "string \<Rightarrow> (nat \<times> string) option" where
  "duration_part s =
     (let whole = takeWhile is_digit s;
          s1 = dropWhile is_digit s;
          point = (case s1 of [] \<Rightarrow> False | c # r \<Rightarrow> c = CHR ''.'');
          frac = (if point then takeWhile is_digit (tl s1) else []);
          s2 = (if point then dropWhile is_digit (tl s1) else s1);
          u = takeWhile unit_char s2;
          rest = dropWhile unit_char s2;
          v = digits_value whole
      in if v > 9223372036854775808 then None
         else if whole = [] \<and> frac = [] then None
         else if u = [] then None
         else case duration_unit u of
                None \<Rightarrow> None
              | Some unit \<Rightarrow>
                  if v > 9223372036854775808 div unit then None
                  else let (f, scale) = leading_fraction frac 0 1 False;
                           n = v * unit + (if f > 0
                               then nat \<lfloor>f64 (f64 (of_nat f) * f64 (of_nat unit / of_nat scale))\<rfloor> else 0)
                       in if n > 9223372036854775808 then None else Some (n, rest))"

lemma duration_part_shorter:
  assumes "duration_part s = Some (n, rest)"
  shows "length rest < length s"
proof -
  define s1 where "s1 = dropWhile is_digit s"
  define s2 where "s2 = (if (case s1 of [] \<Rightarrow> False | c # r \<Rightarrow> c = CHR ''.'') then dropWhile is_digit (tl s1) else s1)"
  have "rest = dropWhile unit_char s2" "takeWhile unit_char s2 \<noteq> []"
    using assms by (auto simp: duration_part_def Let_def s1_def s2_def split: option.splits prod.splits if_splits)
  then have "length rest < length s2"
    by (metis add_less_same_cancel2 length_append length_greater_0_conv not_less_eq takeWhile_dropWhile_id
        add.commute less_add_same_cancel1)
  moreover have "length s2 \<le> length s1"
    using length_dropWhile_le[of is_digit "tl s1"] by (cases s1) (auto simp: s2_def)
  moreover have "length s1 \<le> length s" by (simp add: s1_def length_dropWhile_le)
  ultimately show ?thesis by simp
qed

function duration_loop :: "nat \<Rightarrow> string \<Rightarrow> nat option" where
  "duration_loop d s =
     (if s = [] then Some d
      else case duration_part s of
             None \<Rightarrow> None
           | Some (n, rest) \<Rightarrow> if d + n > 9223372036854775808 then None else duration_loop (d + n) rest)"
  by pat_completeness auto

termination
  by (relation "measure (\<lambda>(d, s). length s)") (auto dest: duration_part_shorter)

declare duration_loop.simps [simp del]

definition ParseDuration :: "string \<Rightarrow> int result" where
  "ParseDuration orig =
     (let neg = (orig \<noteq> [] \<and> hd orig = CHR ''-'');
          s = (if orig \<noteq> [] \<and> (hd orig = CHR ''-'' \<or> hd orig = CHR ''+'') then tl orig else orig);
          invalid = Inl (Err (''time: invalid duration '' @ orig))
      in if s = ''0'' then Inr 0
         else if s = [] then invalid
         else case duration_loop 0 s of
                None \<Rightarrow> invalid
              | Some d \<Rightarrow>
                  if neg then Inr (- int d)
                  else if d > 9223372036854775807 then invalid
                  else Inr (int d))"

lemma duration_loop_bound: "d \<le> 9223372036854775808 \<Longrightarrow> duration_loop d s = Some n \<Longrightarrow> n \<le> 9223372036854775808"
proof (induction d s rule: duration_loop.induct)
  case (1 d s)
  from 1(3) show ?case
    by (subst (asm) duration_loop.simps) (use 1(1,2) in \<open>auto split: if_splits option.splits prod.splits\<close>)
qed

lemma ParseDuration_bound:
  assumes "ParseDuration s = Inr d"
  shows "in_i64 d"
  using assms duration_loop_bound[of 0]
  by (fastforce simp: ParseDuration_def Let_def in_i64_def split: if_splits option.splits)

section \<open>Lists and switches\<close>

definition parseCSV :: "string \<Rightarrow> string list" where
  "parseCSV v = (if v = [] then [] else filter (\<lambda>p. p \<noteq> []) (map trim_space (split_on CHR '','' v)))"

fun parse_durations :: "string list \<Rightarrow> int list result" where
  "parse_durations [] = Inr []"
| "parse_durations (p # ps) =
     (case ParseDuration p of
        Inl er \<Rightarrow> Inl er
      | Inr d \<Rightarrow> (case parse_durations ps of Inl er \<Rightarrow> Inl er | Inr ds \<Rightarrow> Inr (d # ds)))"

definition parseDurationList :: "string \<Rightarrow> int list result" where
  "parseDurationList v = (if parseCSV v = [] then Inr [1000000000] else parse_durations (parseCSV v))"

text \<open>The reconnection back-off of the UniFi services.\<close>

definition reconnect_backoff :: "env_vars \<Rightarrow> int list result" where
  "reconnect_backoff vars =
     parse_durations (map trim_space (split_on CHR '','' (getEnvOrDefault vars ''RECONNECT_BACKOFF'' ''1s,5s,30s'')))"

definition ParseBool :: "string \<Rightarrow> bool result" where
  "ParseBool s =
     (if s \<in> {''1'', ''t'', ''T'', ''TRUE'', ''true'', ''True''} then Inr True
      else if s \<in> {''0'', ''f'', ''F'', ''FALSE'', ''false'', ''False''} then Inr False
      else Inl (Err ''invalid syntax''))"

definition parse_i64 :: "string \<Rightarrow> int result" where
  "parse_i64 s = (case parse_int s of (n, None) \<Rightarrow> Inr n | (n, Some er) \<Rightarrow> Inl er)"

text \<open>A number that keeps its default when the variable does not parse.\<close>

definition lenient_int :: "env_vars \<Rightarrow> string \<Rightarrow> int \<Rightarrow> int" where
  "lenient_int vars key d =
     (if vars key = [] then d else case parse_i64 (vars key) of Inr n \<Rightarrow> n | Inl er \<Rightarrow> d)"

text \<open>\<open>parseIntEnv\<close> of the archive: a number or the end.\<close>

definition parseIntEnv :: "env_vars \<Rightarrow> string \<Rightarrow> int \<Rightarrow> int result" where
  "parseIntEnv vars key defaultVal =
     (if vars key = [] then Inr defaultVal
      else case parse_i64 (vars key) of Inr n \<Rightarrow> Inr n | Inl er \<Rightarrow> Inl (Wrap (''Invalid '' @ key) er))"

text \<open>\<open>validateRequiredConfig\<close>: the first empty value ends the process.\<close>

fun require_all :: "(string \<times> string) list \<Rightarrow> go_error option" where
  "require_all [] = None"
| "require_all ((key, v) # kvs) = (if v = [] then Some (Err (key @ '' is required'')) else require_all kvs)"

section \<open>The loaders\<close>

record sql_config =
  sc_KafkaBroker :: string
  sc_PostgresDSN :: string
  sc_LogLevel :: string
  sc_BatchSize :: int
  sc_WorkerPoolSize :: int
  sc_BatchFlushIntervalMs :: int
  sc_DBPoolMaxConns :: int

definition sql_Load :: "env_vars \<Rightarrow> sql_config" where
  "sql_Load vars =
     \<lparr>sc_KafkaBroker = getEnvOrDefault vars ''KAFKA_BROKER'' ''kafka:29092'', sc_PostgresDSN = vars ''POSTGRES_DSN'',
      sc_LogLevel = getEnvOrDefault vars ''LOG_LEVEL'' ''info'', sc_BatchSize = lenient_int vars ''BATCH_SIZE'' 100,
      sc_WorkerPoolSize = lenient_int vars ''WORKER_POOL_SIZE'' 4,
      sc_BatchFlushIntervalMs = lenient_int vars ''BATCH_FLUSH_INTERVAL_MS'' 500,
      sc_DBPoolMaxConns = lenient_int vars ''DB_POOL_MAX_CONNS'' 10\<rparr>"

record bf_config = sql_config +
  bc_Topics :: "string list"
  bc_StartOffset :: int
  bc_EndOffset :: int
  bc_IncludeMetadata :: bool

definition bf_topics :: "string \<Rightarrow> string list" where
  "bf_topics v = map trim_space (split_on CHR '','' v)"

definition bf_Load :: "env_vars \<Rightarrow> bf_config" where
  "bf_Load vars =
     \<lparr>sc_KafkaBroker = getEnvOrDefault vars ''KAFKA_BROKER'' ''kafka:29092'', sc_PostgresDSN = vars ''POSTGRES_DSN'',
      sc_LogLevel = getEnvOrDefault vars ''LOG_LEVEL'' ''info'', sc_BatchSize = lenient_int vars ''BATCH_SIZE'' 500,
      sc_WorkerPoolSize = lenient_int vars ''WORKER_POOL_SIZE'' 8,
      sc_BatchFlushIntervalMs = lenient_int vars ''BATCH_FLUSH_INTERVAL_MS'' 1000,
      sc_DBPoolMaxConns = lenient_int vars ''DB_POOL_MAX_CONNS'' 10,
      bc_Topics = bf_topics (getEnvOrDefault vars ''TOPICS'' ''weather.iss,weather.barometer,weather.indoor,weather.health''),
      bc_StartOffset = lenient_int vars ''START_OFFSET'' (- 2), bc_EndOffset = lenient_int vars ''END_OFFSET'' (- 1),
      bc_IncludeMetadata = (if vars ''INCLUDE_METADATA'' = [] then False
                            else case ParseBool (vars ''INCLUDE_METADATA'') of Inr b \<Rightarrow> b | Inl er \<Rightarrow> False)\<rparr>"

text \<open>The command line of the backfill, which goes before the environment except where a flag has its default.\<close>

record bf_flags =
  bg_topics :: string
  bg_startOffset :: int
  bg_endOffset :: int
  bg_workers :: int
  bg_batchSize :: int
  bg_metadata :: bool

definition bf_defaults :: bf_flags where
  "bf_defaults = \<lparr>bg_topics = [], bg_startOffset = - 2, bg_endOffset = - 1, bg_workers = 0, bg_batchSize = 0,
     bg_metadata = False\<rparr>"

definition bf_main_config :: "env_vars \<Rightarrow> bf_flags \<Rightarrow> bf_config result" where
  "bf_main_config vars fl =
     (let c0 = bf_Load vars;
          c1 = (if bg_topics fl \<noteq> [] then c0\<lparr>bc_Topics := bf_topics (bg_topics fl)\<rparr> else c0);
          c2 = (if bg_startOffset fl \<noteq> - 2 then c1\<lparr>bc_StartOffset := bg_startOffset fl\<rparr> else c1);
          c3 = (if bg_endOffset fl \<noteq> - 1 then c2\<lparr>bc_EndOffset := bg_endOffset fl\<rparr> else c2);
          c4 = (if bg_workers fl > 0 then c3\<lparr>sc_WorkerPoolSize := bg_workers fl\<rparr> else c3);
          c5 = (if bg_batchSize fl > 0 then c4\<lparr>sc_BatchSize := bg_batchSize fl\<rparr> else c4);
          c6 = (if bg_metadata fl then c5\<lparr>bc_IncludeMetadata := True\<rparr> else c5)
      in if sc_PostgresDSN c6 = [] then Inl (Err ''POSTGRES_DSN is required'') else Inr c6)"

record wk_config =
  kc_APIKey :: string
  kc_APISecret :: string
  kc_StationID :: string
  kc_KafkaBroker :: string
  kc_PostgresDSN :: string
  kc_FetchInterval :: int
  kc_MetadataFetchInterval :: int
  kc_LogLevel :: string
  kc_BackfillEnabled :: bool
  kc_BackfillRequestPerSecond :: int
  kc_BackfillParallelWorkers :: int
  kc_BackfillStartTs :: int
  kc_BackfillEndTs :: int

definition wk_Load :: "env_vars \<Rightarrow> int \<Rightarrow> wk_config result" where
  "wk_Load vars now =
     (case (ParseDuration (getEnvOrDefault vars ''FETCH_INTERVAL'' ''5m''),
            ParseDuration (getEnvOrDefault vars ''METADATA_FETCH_INTERVAL'' ''168h''),
            ParseBool (getEnvOrDefault vars ''KAFKA_BACKFILL_ENABLED'' ''true''),
            parse_i64 (getEnvOrDefault vars ''BACKFILL_START_TS'' ''0''),
            parse_i64 (getEnvOrDefault vars ''BACKFILL_END_TS'' ''0'')) of
        (Inl er, _, _, _, _) \<Rightarrow> Inl (Wrap ''Invalid FETCH_INTERVAL'' er)
      | (_, Inl er, _, _, _) \<Rightarrow> Inl (Wrap ''Invalid METADATA_FETCH_INTERVAL'' er)
      | (_, _, Inl er, _, _) \<Rightarrow> Inl (Wrap ''Invalid KAFKA_BACKFILL_ENABLED'' er)
      | (_, _, _, Inl er, _) \<Rightarrow> Inl (Wrap ''Invalid BACKFILL_START_TS'' er)
      | (_, _, _, _, Inl er) \<Rightarrow> Inl (Wrap ''Invalid BACKFILL_END_TS'' er)
      | (Inr duration, Inr metadataDuration, Inr backfillEnabled, Inr startTs, Inr endTs0) \<Rightarrow>
          (let endTs = (if endTs0 = 0 then unix now else endTs0);
               cfg = \<lparr>kc_APIKey = vars ''WEATHERLINK_API_KEY'', kc_APISecret = vars ''WEATHERLINK_API_SECRET'',
                      kc_StationID = vars ''WEATHERLINK_STATION_ID'',
                      kc_KafkaBroker = getEnvOrDefault vars ''KAFKA_BROKER'' ''kafka:29092'',
                      kc_PostgresDSN = vars ''POSTGRES_DSN'', kc_FetchInterval = duration,
                      kc_MetadataFetchInterval = metadataDuration,
                      kc_LogLevel = getEnvOrDefault vars ''LOG_LEVEL'' ''info'',
                      kc_BackfillEnabled = backfillEnabled, kc_BackfillRequestPerSecond = 8,
                      kc_BackfillParallelWorkers = 4, kc_BackfillStartTs = startTs, kc_BackfillEndTs = endTs\<rparr>
           in if startTs \<ge> endTs then Inl (Err ''BACKFILL_START_TS must be less than BACKFILL_END_TS'')
              else case require_all [(''WEATHERLINK_API_KEY'', kc_APIKey cfg), (''WEATHERLINK_API_SECRET'', kc_APISecret cfg),
                                     (''WEATHERLINK_STATION_ID'', kc_StationID cfg), (''KAFKA_BROKER'', kc_KafkaBroker cfg)] of
                     Some er \<Rightarrow> Inl er
                   | None \<Rightarrow> Inr cfg))"

record ha_config =
  hf_HAURL :: string
  hf_HAWSURL :: string
  hf_HAToken :: string
  hf_KafkaBroker :: string
  hf_LogLevel :: string
  hf_WSReconnectBackoff :: "int list"

definition ha_required :: "ha_config \<Rightarrow> ha_config result" where
  "ha_required cfg =
     (case require_all [(''HA_URL'', hf_HAURL cfg), (''HA_TOKEN'', hf_HAToken cfg), (''KAFKA_BROKER'', hf_KafkaBroker cfg),
                        (''HA_WS_URL'', hf_HAWSURL cfg)] of
        Some er \<Rightarrow> Inl er
      | None \<Rightarrow> Inr cfg)"

definition ha_env :: "(string \<Rightarrow> string) \<Rightarrow> env_vars \<Rightarrow> int list \<Rightarrow> ha_config" where
  "ha_env deriveWSURL vars wsBackoff =
     \<lparr>hf_HAURL = vars ''HA_URL'',
      hf_HAWSURL = (if vars ''HA_WS_URL'' = [] \<and> vars ''HA_URL'' \<noteq> [] then deriveWSURL (vars ''HA_URL'')
                    else vars ''HA_WS_URL''),
      hf_HAToken = vars ''HA_TOKEN'', hf_KafkaBroker = getEnvOrDefault vars ''KAFKA_BROKER'' ''kafka:29092'',
      hf_LogLevel = getEnvOrDefault vars ''LOG_LEVEL'' ''info'', hf_WSReconnectBackoff = wsBackoff\<rparr>"

text \<open>\<open>homeassistant-kafka\<close>: the configuration, whether to poll, how often, and which entities.\<close>

definition hk_Load ::
    "(string \<Rightarrow> string) \<Rightarrow> env_vars \<Rightarrow> (ha_config \<times> bool \<times> int \<times> string list) result" where
  "hk_Load deriveWSURL vars =
     (case ParseBool (getEnvOrDefault vars ''POLL_ENABLED'' ''false'') of
        Inl er \<Rightarrow> Inl (Wrap ''Invalid POLL_ENABLED'' er)
      | Inr pollEnabled \<Rightarrow>
          (case ParseDuration (getEnvOrDefault vars ''POLL_INTERVAL'' ''60s'') of
             Inl er \<Rightarrow> Inl (Wrap ''Invalid POLL_INTERVAL'' er)
           | Inr pollInterval \<Rightarrow>
               (case parseDurationList (getEnvOrDefault vars ''WS_RECONNECT_BACKOFF'' ''1s,5s,30s'') of
                  Inl er \<Rightarrow> Inl (Wrap ''Invalid WS_RECONNECT_BACKOFF'' er)
                | Inr wsBackoff \<Rightarrow>
                    (case ha_required (ha_env deriveWSURL vars wsBackoff) of
                       Inl er \<Rightarrow> Inl er
                     | Inr cfg \<Rightarrow> Inr (cfg, pollEnabled, pollInterval, parseCSV (vars ''POLL_ENTITY_FILTER''))))))"

text \<open>\<open>homeassistant-command\<close>: the configuration, the topic and the consumer group.\<close>

definition hc_Load :: "(string \<Rightarrow> string) \<Rightarrow> env_vars \<Rightarrow> (ha_config \<times> string \<times> string) result" where
  "hc_Load deriveWSURL vars =
     (case parseDurationList (getEnvOrDefault vars ''WS_RECONNECT_BACKOFF'' ''1s,5s,30s'') of
        Inl er \<Rightarrow> Inl (Wrap ''Invalid WS_RECONNECT_BACKOFF'' er)
      | Inr wsBackoff \<Rightarrow>
          (case ha_required (ha_env deriveWSURL vars wsBackoff) of
             Inl er \<Rightarrow> Inl er
           | Inr cfg \<Rightarrow> Inr (cfg, getEnvOrDefault vars ''KAFKA_TOPIC'' ''homeassistant.command'',
                             getEnvOrDefault vars ''KAFKA_CONSUMER_GROUP'' ''homeassistant-command'')))"

text \<open>\<open>unifi-kafka\<close> and \<open>unifi-video-kafka\<close> load the same configuration.\<close>

record unifi_config =
  uc_APIKey :: string
  uc_Host :: string
  uc_KafkaBroker :: string
  uc_LogLevel :: string
  uc_ReconnectBackoff :: "int list"

definition uk_Load :: "env_vars \<Rightarrow> unifi_config result" where
  "uk_Load vars =
     (case requireEnv vars ''UNIFI_API_KEY'' of
        Inl er \<Rightarrow> Inl er
      | Inr apiKey \<Rightarrow>
          (case requireEnv vars ''UNIFI_HOST'' of
             Inl er \<Rightarrow> Inl er
           | Inr host \<Rightarrow>
               (case reconnect_backoff vars of
                  Inl er \<Rightarrow> Inl (Wrap ''Invalid RECONNECT_BACKOFF value'' er)
                | Inr ds \<Rightarrow>
                    Inr \<lparr>uc_APIKey = apiKey, uc_Host = host,
                         uc_KafkaBroker = getEnvOrDefault vars ''KAFKA_BROKER'' ''kafka:29092'',
                         uc_LogLevel = getEnvOrDefault vars ''LOG_LEVEL'' ''info'', uc_ReconnectBackoff = ds\<rparr>)))"

record jpg_config =
  jc_APIKey :: string
  jc_Host :: string
  jc_OutputDir :: string
  jc_Retention :: int
  jc_LogLevel :: string
  jc_ReconnectBackoff :: "int list"

definition parseRetention :: "string \<Rightarrow> int result" where
  "parseRetention s =
     (case ParseDuration (trim_space s) of Inl er \<Rightarrow> Inl (Wrap ''Invalid RETENTION value'' er) | Inr d \<Rightarrow> Inr d)"

definition jpg_Load :: "(string \<Rightarrow> string result) \<Rightarrow> env_vars \<Rightarrow> jpg_config result" where
  "jpg_Load abs_path vars =
     (case requireEnv vars ''UNIFI_API_KEY'' of
        Inl er \<Rightarrow> Inl er
      | Inr apiKey \<Rightarrow>
          (case requireEnv vars ''UNIFI_HOST'' of
             Inl er \<Rightarrow> Inl er
           | Inr host \<Rightarrow>
               (case parseRetention (getEnvOrDefault vars ''RETENTION'' ''30m'') of
                  Inl er \<Rightarrow> Inl er
                | Inr retention \<Rightarrow>
                    (case reconnect_backoff vars of
                       Inl er \<Rightarrow> Inl (Wrap ''Invalid RECONNECT_BACKOFF value'' er)
                     | Inr ds \<Rightarrow>
                         (let dir = getEnvOrDefault vars ''JPG_OUTPUT_DIR'' ''./data/streams/unifi/jpg''
                          in Inr \<lparr>jc_APIKey = apiKey, jc_Host = host,
                                  jc_OutputDir = (case abs_path dir of Inl er \<Rightarrow> dir | Inr p \<Rightarrow> p),
                                  jc_Retention = retention, jc_LogLevel = getEnvOrDefault vars ''LOG_LEVEL'' ''info'',
                                  jc_ReconnectBackoff = ds\<rparr>)))))"

text \<open>\<open>unifi-smart-archive\<close>; a path is split at its slashes, an absolute one.\<close>

definition sa_Load :: "env_vars \<Rightarrow> (archive_config \<times> int) result" where
  "sa_Load vars =
     (case ParseDuration (getEnvOrDefault vars ''EVENT_END_TIMEOUT'' ''1m'') of
        Inl er \<Rightarrow> Inl (Wrap ''Invalid EVENT_END_TIMEOUT'' er)
      | Inr eventEndTimeout \<Rightarrow>
          (case ParseDuration (getEnvOrDefault vars ''WORKER_INTERVAL'' ''10s'') of
             Inl er \<Rightarrow> Inl (Wrap ''Invalid WORKER_INTERVAL'' er)
           | Inr workerInterval \<Rightarrow>
               (case parseIntEnv vars ''LEAD_SECONDS'' 0 of
                  Inl er \<Rightarrow> Inl er
                | Inr lead \<Rightarrow>
                    (case parseIntEnv vars ''TRAIL_SECONDS'' 0 of
                       Inl er \<Rightarrow> Inl er
                     | Inr trail \<Rightarrow>
                         (case parseIntEnv vars ''COPY_DELAY_SECONDS'' 5 of
                            Inl er \<Rightarrow> Inl er
                          | Inr copyDelay \<Rightarrow>
                              (case parseIntEnv vars ''ARCHIVE_RETENTION_DAYS'' 30 of
                                 Inl er \<Rightarrow> Inl er
                               | Inr days \<Rightarrow>
                                   Inr (\<lparr>ac_EventEndTimeout = eventEndTimeout,
                                         ac_SourceDir = path_join [] [getEnvOrDefault vars ''SOURCE_DIR'' ''/data/streams/unifi/jpg''],
                                         ac_ArchiveDir = path_join [] [getEnvOrDefault vars ''ARCHIVE_DIR'' ''/data/streams/unifi/protect''],
                                         ac_LeadSeconds = lead, ac_TrailSeconds = trail, ac_CopyDelaySeconds = copyDelay,
                                         ac_ArchiveRetentionDays = (if days < 1 then 30 else days)\<rparr>, workerInterval)))))))"

section \<open>What a loaded configuration is good for\<close>

lemma parse_durations_list:
  "parse_durations ps = Inr ds \<Longrightarrow> length ds = length ps \<and> list_all in_i64 ds"
  by (induction ps arbitrary: ds) (auto split: sum.splits dest: ParseDuration_bound)

lemma reconnect_backoff_ok: "reconnect_backoff vars = Inr ds \<Longrightarrow> ds \<noteq> [] \<and> list_all in_i64 ds"
  using parse_durations_list by (fastforce simp: reconnect_backoff_def)

lemma parseDurationList_ok: "parseDurationList v = Inr ds \<Longrightarrow> ds \<noteq> [] \<and> list_all in_i64 ds"
  using parse_durations_list by (fastforce simp: parseDurationList_def in_i64_def split: if_splits)

text \<open>One number and its unit are read back.\<close>

lemma duration_part_whole:
  assumes "digits_value ds \<le> 9223372036854775808 div unit" "ds \<noteq> []" "list_all is_digit ds" "duration_unit u = Some unit"
    "u \<noteq> []" "list_all unit_char u"
  shows "duration_part (ds @ u) = Some (digits_value ds * unit, [])"
proof -
  obtain c r where u: "u = c # r" "unit_char c" using assms(5,6) by (cases u) auto
  have d: "takeWhile is_digit (ds @ u) = ds" "dropWhile is_digit (ds @ u) = u"
    using assms(3) u by (auto simp: list_all_iff unit_char_def takeWhile_append2 dropWhile_append2)
  have t: "takeWhile unit_char u = u" "dropWhile unit_char u = []"
    using assms(6) by (auto simp: list_all_iff)
  have "digits_value ds * unit \<le> 9223372036854775808"
    using assms(1) by (metis div_times_less_eq_dividend le_trans mult_le_mono1)
  moreover have "digits_value ds \<le> 9223372036854775808"
    using assms(1) by (meson div_le_dividend le_trans)
  moreover have "(case u of [] \<Rightarrow> False | c # r \<Rightarrow> c = CHR ''.'') = False"
    using u by (simp add: unit_char_def)
  ultimately show ?thesis
    using assms(1,2,4,5) by (simp add: duration_part_def d t Let_def)
qed

lemma ParseDuration_whole:
  assumes "digits_value ds \<le> 9223372036854775807 div unit" "ds \<noteq> []" "list_all is_digit ds" "duration_unit u = Some unit"
    "u \<noteq> []" "list_all unit_char u"
  shows "ParseDuration (ds @ u) = Inr (int (digits_value ds * unit))"
proof -
  have le: "digits_value ds \<le> 9223372036854775808 div unit"
  proof -
    have "9223372036854775807 div unit \<le> (9223372036854775808::nat) div unit" by (rule div_le_mono) simp
    with assms(1) show ?thesis by (rule le_trans)
  qed
  have b: "digits_value ds * unit \<le> 9223372036854775807"
    using assms(1) by (metis div_times_less_eq_dividend le_trans mult_le_mono1)
  obtain c r where ds: "ds = c # r" "is_digit c" using assms(2,3) by (cases ds) auto
  have "ds @ u \<noteq> ''0''" using assms(5,6) ds by (cases r) (auto simp: unit_char_def is_digit_def)
  moreover have "c \<noteq> CHR ''-''" "c \<noteq> CHR ''+''" using ds(2) by (auto simp: is_digit_def)
  moreover have "duration_loop 0 (ds @ u) = Some (digits_value ds * unit)"
    by (subst duration_loop.simps)
      (use b assms(2) duration_part_whole[OF le assms(2-6)] in \<open>simp add: duration_loop.simps\<close>)
  ultimately show ?thesis using b ds(1) assms(5) by (auto simp: ParseDuration_def Let_def)
qed

lemma default_durations:
  "ParseDuration ''1s'' = Inr 1000000000" "ParseDuration ''5s'' = Inr 5000000000" "ParseDuration ''30s'' = Inr 30000000000"
  "ParseDuration ''30m'' = Inr 1800000000000" "ParseDuration ''1m'' = Inr 60000000000" "ParseDuration ''10s'' = Inr 10000000000"
  "ParseDuration ''5m'' = Inr 300000000000" "ParseDuration ''168h'' = Inr 604800000000000"
  using ParseDuration_whole[of "''1''" _ "''s''"] ParseDuration_whole[of "''5''" _ "''s''"]
    ParseDuration_whole[of "''30''" _ "''s''"] ParseDuration_whole[of "''30''" _ "''m''"]
    ParseDuration_whole[of "''1''" _ "''m''"] ParseDuration_whole[of "''10''" _ "''s''"]
    ParseDuration_whole[of "''5''" _ "''m''"] ParseDuration_whole[of "''168''" _ "''h''"]
  by (simp_all add: duration_unit_def digits_value_def digit_val_def is_digit_def unit_char_def)

lemma default_backoff: "reconnect_backoff (\<lambda>_. []) = Inr [1000000000, 5000000000, 30000000000]"
proof -
  have "map trim_space (split_on CHR '','' ''1s,5s,30s'') = [''1s'', ''5s'', ''30s'']" by code_simp
  then show ?thesis by (simp add: reconnect_backoff_def getEnvOrDefault_def default_durations)
qed


text \<open>
  The loaders of the SQL services check nothing: a flush interval of zero is passed on, and a ticker of that
  interval panics.
\<close>

lemma sql_interval_unchecked:
  "sc_BatchFlushIntervalMs (sql_Load ((\<lambda>_. [])(''BATCH_FLUSH_INTERVAL_MS'' := ''0''))) = 0"
  by (simp add: sql_Load_def lenient_int_def parse_i64_def parse_int_def is_digit_def digits_value_def digit_val_def)

text \<open>A flag that equals its default does not override the environment: \<open>-start-offset -2\<close> cannot ask for the earliest.\<close>

lemma default_flag_is_ignored:
  "bf_main_config vars bf_defaults = Inr cfg \<Longrightarrow> bc_StartOffset cfg = bc_StartOffset (bf_Load vars)"
  by (auto simp: bf_main_config_def bf_defaults_def Let_def split: if_splits)

end
