(* ===== verification/Spec2Isabelle.thy ===== *)
theory Spec2Isabelle
  imports Bf_Run Uv_Service Wx_Catalog Ha_Service Hc_Service Uf_Pipeline Uf_Service Config_Load
begin

text \<open>
  A verification library for the Go services of roach (\<open>services/\<close>), which move readings of a weather station,
  states of Home Assistant, and events and frames of UniFi cameras through Kafka into PostgreSQL and files.

  \<^bold>\<open>The program.\<close>  \<open>weatherlink-kafka\<close> polls the WeatherLink API and publishes conditions, history and metadata,
  each under a key it publishes once.  \<open>weatherlink-sql\<close> consumes these topics and writes readings to one table
  per kind of value, with devices, tags and a sensor catalog kept from the metadata; \<open>weatherlink-sql-backfill\<close>
  replays topics into the same tables.  \<open>homeassistant-kafka\<close> publishes state changes, by subscription or by
  polling; \<open>homeassistant-command\<close> sends commands from Kafka back.  \<open>unifi-kafka\<close> publishes the events of the
  NVR; \<open>unifi-video-jpg\<close> writes one frame a second per camera to a directory and \<open>unifi-video-kafka\<close> to a topic;
  \<open>unifi-smart-archive\<close> copies the frames of smart events into an archive.

  \<^bold>\<open>How code is modelled.\<close>  An error is a value (\<open>go_error\<close>, \<open>result\<close>).  What leaves the process (SQL, a publish, a
  file operation, a WebSocket write) is a call whose outcome an \<open>env\<close> decides (\<open>Roach_Prelude\<close>): done, refused,
  or done with the answer lost; the theorems hold for every \<open>env\<close> unless they say \<open>all_done\<close>.  What comes from
  outside (replies, frames, ticks, readings of the clock, cancellation) is an argument, mostly a list whose end
  is the cancellation.  Goroutines are steps of one state machine; what a mutex protects is one step, and what
  the code does between two critical sections is two steps.  A Go \<open>int\<close> is an \<open>int\<close> whose arithmetic wraps by
  \<open>i64\<close>, a \<open>float64\<close> a \<open>rat\<close> rounded by \<open>f64\<close>; strings are lists of bytes.  A Go map that is ranged over is a list
  in any order.  Parameters stand for library code that is not modelled: \<open>decoder\<close> (\<open>json.Unmarshal\<close>),
  \<open>raw\<close> (the texts of the data points in a body), \<open>exchange\<close> (a request over \<open>net/http\<close>), \<open>header_order\<close> (the order
  of a Go map), \<open>parse\<close> (\<open>time.Parse\<close>), \<open>deriveWSURL\<close> (\<open>net/url\<close>), \<open>abs_path\<close>.

  \<^bold>\<open>The library.\<close>
  \<open>Roach_Prelude\<close>: errors, 64-bit integers, calls and their outcomes, with the lemmas all proofs share.
  \<open>Go_Strings\<close>, \<open>Go_Float\<close>, \<open>Kafka_Json\<close>, \<open>Go_Struct\<close>: the parts of \<open>strings\<close>, \<open>strconv\<close>, float64 and
  \<open>encoding/json\<close> in use, messages, and JSON decoded into structs.
  \<open>Config_Load\<close>: the \<open>config\<close> packages, \<open>time.ParseDuration\<close> included, and the flags of the backfill.

  \<open>Wl_Database\<close> (\<open>repository/*.go\<close>): the tables with their constraints and every statement.  \<open>Wl_Integrity\<close>: what
  any sequence of statements keeps (locale \<open>db_invariant\<close>).  \<open>Wl_Cache\<close> (\<open>cache.go\<close>, locale \<open>keyed_store\<close>).
  \<open>Wl_Batch\<close> (\<open>batch_writer.go\<close>, locales \<open>record_table\<close> and \<open>table_writer\<close>): batches as lanes, conserved under
  interleaving.  \<open>Wl_Process\<close> (\<open>data.go\<close>, \<open>worker_pool.go\<close>), \<open>Wl_Refine\<close> (the pooled path refines the direct one),
  \<open>Wl_Ingest\<close> (integrity and what is stored), \<open>Wl_Metadata\<close> (\<open>metadata.go\<close>, \<open>catalog.go\<close>, \<open>enrichment.go\<close>),
  \<open>Wl_Service\<close> (\<open>materializer.go\<close>: the service as a state machine), \<open>Bf_Service\<close> (the backfill service:
  processors, topics, phases), \<open>Bf_Run\<close> (its topics and workers in parallel: what a run processes and stores).

  \<open>Wk_Time\<close> (\<open>util/\<close>), \<open>Wk_Api\<close> (\<open>api/\<close>, \<open>models/types.go\<close>: requests, replies and their decoding), \<open>Wk_Publish\<close> (\<open>conditions.go\<close>, \<open>metadata.go\<close>, \<open>scanner.go\<close>: runs publish a key once),
  \<open>Wk_RateLimit\<close> (\<open>ratelimit.go\<close>: the rate, the pauses, the wait that ends), \<open>Wk_Backfill\<close> (\<open>backfill.go\<close>: workers
  as interleaved turns; budget, results, what one worker keeps and two can break), \<open>Wk_Service\<close> (\<open>service.go\<close>: the
  start and the two loops as one state machine; keys stay unique across restarts).  \<open>Wx_Pipeline\<close> joins the two
  weather services, from a reply of the API to a row of the database, and \<open>Wx_Catalog\<close> from the sensor catalog of the
  API to the units of a tag.

  \<open>Ha_Routing\<close> (\<open>homeassistant-kafka/service\<close>: routes, keys, polling), \<open>Ha_Command\<close> (\<open>homeassistant-command\<close>:
  handshake, calls, reconnection), \<open>Hc_Service\<close> (its process: the loop and the keep-alive goroutine on one
  client), \<open>Ha_Client\<close> (\<open>homeassistant-kafka/ha\<close>: subscription, discovery, states),
  \<open>Ha_Service\<close> (\<open>Start\<close> of that service: from the frames of the WebSocket to the messages in Kafka).

  \<open>Uf_Archive\<close> (\<open>unifi-smart-archive/service\<close>: paths, files, streams, watches, expiry, closing, retention),
  \<open>Uf_Streams\<close> (runs of it, locale \<open>smart_guard\<close>, and what they keep), \<open>Uf_Frames\<close> (which frames are archived),
  \<open>Uf_Service\<close> (the process: commits, watcher, worker, shutdown and restarts; locale \<open>archive_invariant\<close>),
  \<open>Uf_Video\<close> (\<open>stream/runner.go\<close>: frames out of the bytes of ffmpeg), \<open>Uf_Camera\<close> (\<open>unifi-video-jpg/service\<close> and
  \<open>api\<close>, \<open>unifi-video-kafka/kafka/admin.go\<close>), \<open>Uv_Service\<close> (\<open>unifi-video-kafka/service\<close>: the goroutines of the
  cameras and what their topics hold), \<open>Uf_Events\<close> (\<open>unifi-kafka\<close>), \<open>Uf_Pipeline\<close> (events, frames and the archive
  together: from an event to a directory, from a camera to the archive).

  Each theory has the definitions of its component in the order of the code, then its lemmas, then the
  properties (a text with the number of the claim before each), then concrete runs that apply them.

  \<^bold>\<open>Bounds and fuel.\<close>  Loops over what comes from outside recurse on the list of it.  \<open>SplitInto24HourWindows\<close> is a
  partial function, as its 64-bit loop need not end; \<open>windows_partition_range\<close> gives the range where it does.
  \<open>retry_loop\<close> has the three attempts of the code as its fuel.  The loops over a buffer (\<open>drain_frames\<close>,
  \<open>duration_loop\<close>) recurse on its length.  A back-off index outside its list is \<open>None\<close>, the panic.

  \<^bold>\<open>Not modelled.\<close>  Logging, metrics and the text of decoding errors.  The wiring in \<open>main.go\<close> apart from the
  reconnection loop of \<open>unifi-kafka\<close> and the flags of the backfill; construction of clients, producers and
  readers.  \<open>net/http\<close>, \<open>net/url\<close>, \<open>time.Parse\<close> and \<open>encoding/json\<close>, which are parameters.  ffmpeg: a list of pieces of bytes.  Memory:
  the model has no aliasing, as the code shares pointers only under its locks.  Code that is called from nowhere
  (\<open>DataProcessor.Listen\<close>, \<open>TagRepository.EnrichWithCatalog\<close> and \<open>Update\<close>, \<open>CalculateHash\<close>).  The packages that are
  copies of modelled ones (\<open>weatherlink-sql-backfill/repository\<close>, \<open>cache\<close> and \<open>models\<close>, \<open>unifi-video-kafka/api\<close>) have
  the definitions of the originals.  The Swift services, scripts, containers and SQL files, except the
  constraints of the schema that the statements meet.
\<close>

end
